(* ===== verification/Cbt_Prelude.thy ===== *)
theory Cbt_Prelude
  imports Main "HOL-Library.Word"
begin

text \<open>
  Shared vocabulary of the development: the machine integer types of the C++ sources, the
  little-endian memory image of an integer (what \<open>memcpy\<close> to and from a packed struct
  moves), slices of a byte buffer, and the interface of a fixed-width codec that every wire
  or file record of the program implements.
\<close>

unbundle bit_operations_syntax

section \<open>Types and constants\<close>

type_synonym byte = "8 word"
type_synonym u16 = "16 word"
type_synonym u32 = "32 word"
type_synonym u64 = "64 word"

text \<open>\<open>std::wstring\<close>: UTF-16 code units on Windows.\<close>

type_synonym wstring = "u16 list"

text \<open>Wide and narrow string literals.\<close>

definition wlit :: "string \<Rightarrow> wstring" where
  "wlit s = map (\<lambda>c. of_nat (of_char c)) s"

definition ascii :: "string \<Rightarrow> byte list" where
  "ascii s = map (\<lambda>c. of_nat (of_char c)) s"

text \<open>
  The block size of 1 MiB. It is \<open>Protocol::BLOCK_SIZE\<close> (32 bits wide),
  \<open>BlockHash::BLOCK_SIZE\<close> and \<open>BlockState::BLOCK_SIZE\<close> (64 bits wide) and
  \<open>CBT_BLOCK_SIZE\<close> of the driver: one numeral, read at the width of its use.
\<close>

abbreviation BLOCK_SIZE :: "'a::numeral" where
  "BLOCK_SIZE \<equiv> 1048576"

text \<open>
  Fact collections of the development: widths of encoded records, decoding after encoding,
  and the behaviour of the byte queues.
\<close>

named_theorems width_simps
named_theorems codec_simps
named_theorems stream_simps

section \<open>Slices\<close>

definition segment :: "nat \<Rightarrow> nat \<Rightarrow> 'a list \<Rightarrow> 'a list" where
  "segment off n xs = take n (drop off xs)"

lemma length_segment: "off + n \<le> length xs \<Longrightarrow> length (segment off n xs) = n"
  by (simp add: segment_def)

lemma segment_append_left: "off + n \<le> length xs \<Longrightarrow> segment off n (xs @ ys) = segment off n xs"
  by (simp add: segment_def)

lemma segment_append_right:
  "length xs \<le> off \<Longrightarrow> segment off n (xs @ ys) = segment (off - length xs) n ys"
  by (simp add: segment_def)

lemma segment_0_all [simp]: "length xs = n \<Longrightarrow> segment 0 n xs = xs"
  by (simp add: segment_def)

lemma segment_0_take: "segment 0 n xs = take n xs"
  by (simp add: segment_def)

lemma segment_append_exact: "length xs = n \<Longrightarrow> segment 0 n (xs @ ys) = xs"
  by (simp add: segment_def)

lemma segment_chain: "a + n = b \<Longrightarrow> segment a n xs @ drop b xs = drop a xs"
  using append_take_drop_id [of n "drop a xs"] by (auto simp: segment_def add.commute)

lemma segment_last: "length xs \<le> a + n \<Longrightarrow> segment a n xs = drop a xs"
  by (simp add: segment_def)

text \<open>Overwriting a segment of a buffer in place (\<open>std::copy\<close>, \<open>pwrite\<close>).\<close>

definition overwrite :: "'a list \<Rightarrow> nat \<Rightarrow> 'a list \<Rightarrow> 'a list" where
  "overwrite xs off ys = take off xs @ ys @ drop (off + length ys) xs"

lemma length_overwrite [simp]:
  "off + length ys \<le> length xs \<Longrightarrow> length (overwrite xs off ys) = length xs"
  by (simp add: overwrite_def)

lemma overwrite_Nil [simp]: "overwrite xs off [] = xs"
  by (simp add: overwrite_def)

lemma segment_overwrite:
  "off + length ys \<le> length xs \<Longrightarrow> segment off (length ys) (overwrite xs off ys) = ys"
  by (simp add: segment_def overwrite_def)

lemma nth_overwrite:
  assumes "off + length ys \<le> length xs" and "i < length xs"
  shows "overwrite xs off ys ! i
         = (if off \<le> i \<and> i < off + length ys then ys ! (i - off) else xs ! i)"
  using assms by (auto simp: overwrite_def nth_append)

lemma segment_overwrite_other:
  assumes "a + n \<le> off \<or> off + length ys \<le> a" and "off + length ys \<le> length xs"
  shows "segment a n (overwrite xs off ys) = segment a n xs"
proof (rule nth_equalityI)
  show "length (segment a n (overwrite xs off ys)) = length (segment a n xs)" using assms(2) by (simp add: segment_def)
  fix i assume "i < length (segment a n (overwrite xs off ys))"
  then have i: "i < n" "a + i < length xs" using assms(2) by (auto simp: segment_def)
  then show "segment a n (overwrite xs off ys) ! i = segment a n xs ! i"
    using nth_overwrite [OF assms(2), of "a + i"] assms by (auto simp: segment_def)
qed

lemma overwrite_prefix:
  assumes "segment off (length ys) xs = ys" and "off + length ys \<le> length xs"
  shows "overwrite xs off (take k ys) = xs"
proof (rule nth_equalityI)
  have le: "off + length (take k ys) \<le> length xs" using assms(2) by simp
  show len: "length (overwrite xs off (take k ys)) = length xs" using le by (rule length_overwrite)
  fix i assume "i < length (overwrite xs off (take k ys))"
  then have i: "i < length xs" using len by simp
  have "ys ! (i - off) = xs ! i" if "off \<le> i" "i - off < length ys"
    using arg_cong [OF assms(1), of "\<lambda>zs. zs ! (i - off)"] that i assms(2) by (simp add: segment_def)
  then show "overwrite xs off (take k ys) ! i = xs ! i" using nth_overwrite [OF le i] by auto
qed

lemma take_overwrite: "off \<le> length xs \<Longrightarrow> n \<le> off \<Longrightarrow> take n (overwrite xs off ys) = take n xs"
  by (simp add: overwrite_def min_def)

lemma take_add_overwrite:
  "off \<le> length xs \<Longrightarrow> take (off + length ys) (overwrite xs off ys) = take off xs @ ys"
  by (simp add: overwrite_def)

section \<open>Little-endian integers\<close>

fun le_bytes :: "nat \<Rightarrow> 'a::len word \<Rightarrow> byte list" where
  "le_bytes 0 w = []"
| "le_bytes (Suc n) w = ucast w # le_bytes n (drop_bit 8 w)"

fun le_word :: "byte list \<Rightarrow> 'a::len word" where
  "le_word [] = 0"
| "le_word (b # bs) = ucast b OR push_bit 8 (le_word bs)"

lemma length_le_bytes [simp]: "length (le_bytes n w) = n"
  by (induction n arbitrary: w) auto

lemma ucast_or_push_split:
  "ucast (ucast w :: byte) OR push_bit 8 (take_bit n (drop_bit 8 w)) = take_bit (8 + n) (w :: 'a::len word)"
  by (rule bit_word_eqI) (auto simp: bit_simps)

lemma le_word_le_bytes_take:
  "le_word (le_bytes n w) = take_bit (8 * n) (w :: 'a::len word)"
proof (induction n arbitrary: w)
  case 0
  then show ?case by simp
next
  case (Suc n)
  then show ?case by (simp add: ucast_or_push_split)
qed

lemma le_word_le_bytes [simp]:
  "LENGTH('a) \<le> 8 * n \<Longrightarrow> le_word (le_bytes n w) = (w :: 'a::len word)"
  by (simp add: le_word_le_bytes_take take_bit_word_eq_self)

lemma ucast_low_byte:
  "8 \<le> LENGTH('a) \<Longrightarrow> ucast (ucast b OR push_bit 8 x :: 'a::len word) = (b :: byte)"
  by (rule bit_word_eqI) (auto simp: bit_simps)

lemma drop_low_byte:
  "drop_bit 8 (ucast (b :: byte) OR push_bit 8 x :: 'a::len word)
   = take_bit (LENGTH('a) - 8) x"
  by (rule bit_word_eqI) (auto simp: bit_simps dest: bit_imp_le_length)

lemma le_bytes_cong_take:
  "le_bytes n (take_bit m w) = le_bytes n (w :: 'a::len word)" if "8 * n \<le> m"
  using that
proof (induction n arbitrary: w m)
  case 0
  then show ?case by simp
next
  case (Suc n)
  have "ucast (take_bit m w) = (ucast w :: byte)"
    by (rule bit_word_eqI) (use Suc.prems in \<open>auto simp: bit_simps\<close>)
  moreover have "le_bytes n (drop_bit 8 (take_bit m w)) = le_bytes n (drop_bit 8 w)"
    using Suc.IH [of "m - 8" "drop_bit 8 w"] Suc.prems by (simp add: drop_bit_take_bit)
  ultimately show ?case by simp
qed

lemma le_bytes_le_word:
  "length bs = n \<Longrightarrow> 8 * n \<le> LENGTH('a) \<Longrightarrow> le_bytes n (le_word bs :: 'a::len word) = bs"
proof (induction n arbitrary: bs)
  case 0
  then show ?case by simp
next
  case (Suc n)
  then obtain b bs' where bs: "bs = b # bs'" "length bs' = n"
    by (cases bs) auto
  have "le_bytes n (take_bit (LENGTH('a) - 8) (le_word bs' :: 'a word)) = bs'"
    using Suc.IH [OF bs(2)] Suc.prems(2) by (simp add: le_bytes_cong_take)
  moreover have "drop_bit 8 (le_word bs :: 'a word) = take_bit (LENGTH('a) - 8) (le_word bs')"
    unfolding bs(1) le_word.simps by (rule drop_low_byte)
  moreover have "ucast (le_word bs :: 'a word) = b"
    unfolding bs(1) le_word.simps by (rule ucast_low_byte) (use Suc.prems(2) in simp)
  ultimately show ?case using bs(1) by simp
qed

text \<open>An array of 16-bit units.\<close>

fun u16s_of :: "nat \<Rightarrow> byte list \<Rightarrow> u16 list" where
  "u16s_of 0 p = []"
| "u16s_of (Suc n) p = le_word (take 2 p) # u16s_of n (drop 2 p)"

lemma length_concat_le2: "length (concat (map (le_bytes 2) (ws :: u16 list))) = 2 * length ws"
  by (induction ws) auto

lemma u16s_of_concat: "length ws = n \<Longrightarrow> u16s_of n (concat (map (le_bytes 2) ws)) = ws"
  by (induction ws arbitrary: n) auto

text \<open>The first \<open>n\<close> records of width \<open>w\<close> in a buffer.\<close>

fun chunks :: "nat \<Rightarrow> nat \<Rightarrow> 'a list \<Rightarrow> 'a list list" where
  "chunks w 0 xs = []"
| "chunks w (Suc n) xs = take w xs # chunks w n (drop w xs)"

section \<open>Fixed-width codecs\<close>

text \<open>
  A packed struct is sent with \<open>send(&hdr, sizeof(hdr))\<close> or written to a file, and read
  back with \<open>memcpy(&hdr, p, sizeof(hdr))\<close>. The contract of such a pair: the image of a
  well-formed value has the fixed width, and reading the image gives the value back. The
  client of the contract is a reader that takes the record out of a longer buffer.
\<close>

locale fixed_codec =
  fixes enc :: "'a \<Rightarrow> byte list"
    and dec :: "byte list \<Rightarrow> 'a"
    and width :: nat
    and valid :: "'a \<Rightarrow> bool"
  assumes length_enc: "valid x \<Longrightarrow> length (enc x) = width"
    and dec_enc: "valid x \<Longrightarrow> dec (enc x) = x"
begin

lemma dec_take: "valid x \<Longrightarrow> dec (take width (enc x @ rest)) = x"
  by (simp add: length_enc dec_enc)

lemma dec_segment:
  "valid x \<Longrightarrow> length pre = n \<Longrightarrow> dec (segment n width (pre @ enc x @ rest)) = x"
  by (simp add: segment_def length_enc dec_enc)

lemma enc_inject: "valid x \<Longrightarrow> valid y \<Longrightarrow> enc x = enc y \<Longrightarrow> x = y"
  using dec_enc by metis

lemma enc_prefix_free:
  "valid x \<Longrightarrow> valid y \<Longrightarrow> enc x @ xs = enc y @ ys \<Longrightarrow> x = y \<and> xs = ys"
  using enc_inject by (simp add: length_enc)

text \<open>An array of records.\<close>

lemma length_enc_all: "\<forall>x \<in> set xs. valid x \<Longrightarrow> length (concat (map enc xs)) = width * length xs"
  by (induction xs) (auto simp: length_enc)

lemma dec_chunks:
  "\<forall>x \<in> set xs. valid x \<Longrightarrow> map dec (chunks width (length xs) (concat (map enc xs) @ rest)) = xs"
  by (induction xs) (auto simp: length_enc dec_enc)

end

section \<open>Ordered maps\<close>

text \<open>
  The contract of \<open>std::map\<close> as the program uses it: what a lookup returns after an
  insertion or assignment. The client lemma is loading a table record by record.
\<close>

locale kv_store =
  fixes lookup :: "'s \<Rightarrow> 'k \<Rightarrow> 'v option"
    and put :: "'k \<Rightarrow> 'v \<Rightarrow> 's \<Rightarrow> 's"
    and wf_store :: "'s \<Rightarrow> bool"
  assumes lookup_put: "wf_store s \<Longrightarrow> lookup (put k v s) = (lookup s)(k \<mapsto> v)"
    and wf_put: "wf_store s \<Longrightarrow> wf_store (put k v s)"
begin

lemma wf_put_all: "wf_store s \<Longrightarrow> wf_store (fold (\<lambda>(k, v). put k v) kvs s)"
  by (induction kvs arbitrary: s) (auto simp: wf_put)

lemma lookup_put_all:
  "wf_store s \<Longrightarrow> lookup (fold (\<lambda>(k, v). put k v) kvs s) = lookup s ++ map_of (rev kvs)"
  by (induction kvs arbitrary: s) (auto simp: wf_put lookup_put map_add_upd_left fun_eq_iff map_add_def
      split: option.split)

lemma lookup_put_same: "wf_store s \<Longrightarrow> lookup (put k v s) k = Some v"
  by (simp add: lookup_put)

lemma lookup_put_other: "wf_store s \<Longrightarrow> k \<noteq> k' \<Longrightarrow> lookup (put k v s) k' = lookup s k'"
  by (simp add: lookup_put)

end

text \<open>A \<open>std::map\<close> as an association list in key order.\<close>

fun omap_put :: "'k::linorder \<Rightarrow> 'v \<Rightarrow> ('k \<times> 'v) list \<Rightarrow> ('k \<times> 'v) list" where
  "omap_put k v [] = [(k, v)]"
| "omap_put k v ((k', v') # al) =
     (if k < k' then (k, v) # (k', v') # al
      else if k = k' then (k, v) # al
      else (k', v') # omap_put k v al)"

definition omap_wf :: "('k::linorder \<times> 'v) list \<Rightarrow> bool" where
  "omap_wf al \<longleftrightarrow> sorted_wrt (<) (map fst al)"

lemma set_omap_put: "set (omap_put k v al) \<subseteq> insert (k, v) (set al)"
  by (induction al) (auto split: if_splits)

lemma keys_omap_put: "fst ` set (omap_put k v al) = insert k (fst ` set al)"
proof (induction al)
  case (Cons a al)
  then show ?case by (cases a) (simp add: insert_commute)
qed simp

lemma omap_put_wf: "omap_wf al \<Longrightarrow> omap_wf (omap_put k v al)"
proof (induction al)
  case (Cons a al)
  then show ?case
    using set_omap_put [of k v al] by (cases a) (fastforce simp: omap_wf_def)
qed (simp add: omap_wf_def)

lemma map_of_omap_put: "omap_wf al \<Longrightarrow> map_of (omap_put k v al) = (map_of al)(k \<mapsto> v)"
proof (induction al)
  case (Cons a al)
  then show ?case by (cases a) (auto simp: omap_wf_def fun_eq_iff)
qed simp

interpretation om: kv_store map_of omap_put omap_wf
  by unfold_locales (simp_all add: map_of_omap_put omap_put_wf)

section \<open>State machines\<close>

text \<open>
  What a component owes its clients when it is a state machine: an invariant that holds at the
  start and survives every step; and, where runs end, a bound that every step lowers.
\<close>

locale state_machine =
  fixes step :: "'s \<Rightarrow> 's \<Rightarrow> bool"
    and start :: "'s \<Rightarrow> bool"
    and inv :: "'s \<Rightarrow> bool"
  assumes inv_start: "start s \<Longrightarrow> inv s"
    and inv_step: "step s t \<Longrightarrow> inv s \<Longrightarrow> inv t"
begin

lemma inv_run: "inv s \<Longrightarrow> step\<^sup>*\<^sup>* s t \<Longrightarrow> inv t"
  by (rotate_tac, induction rule: rtranclp_induct) (auto intro: inv_step)

lemma inv_reachable: "start s \<Longrightarrow> step\<^sup>*\<^sup>* s t \<Longrightarrow> inv t"
  by (blast intro: inv_start inv_run)

end

locale ending_machine = state_machine step start inv
  for step :: "'s \<Rightarrow> 's \<Rightarrow> bool" and start inv +
  fixes bound :: "'s \<Rightarrow> nat"
  assumes bound_step: "step s t \<Longrightarrow> inv s \<Longrightarrow> bound t < bound s"
begin

lemma run_bound: "inv s \<Longrightarrow> (step ^^ k) s t \<Longrightarrow> k + bound t \<le> bound s"
proof (induction k arbitrary: t)
  case (Suc k)
  then obtain u where u: "(step ^^ k) s u" "step u t" by auto
  have "inv u" using inv_run [OF Suc.prems(1)] u(1) by (meson relpowp_imp_rtranclp)
  then show ?case using Suc.IH [OF Suc.prems(1) u(1)] bound_step [OF u(2)] by simp
qed simp

lemma reaches:
  assumes "inv s" and progress: "\<And>t. inv t \<Longrightarrow> \<not> goal t \<Longrightarrow> \<exists>u. step t u"
  shows "\<exists>t. step\<^sup>*\<^sup>* s t \<and> goal t"
  using assms(1)
proof (induction "bound s" arbitrary: s rule: less_induct)
  case less
  show ?case
  proof (cases "goal s")
    case False
    then obtain u where u: "step s u" using progress less.prems by blast
    then obtain t where "step\<^sup>*\<^sup>* u t" "goal t" using less.hyps bound_step inv_step less.prems by blast
    then show ?thesis using u by (meson converse_rtranclp_into_rtranclp)
  qed blast
qed

lemma run_length: "start s \<Longrightarrow> (step ^^ k) s t \<Longrightarrow> k \<le> bound s"
  using run_bound [OF inv_start] by fastforce

end

text \<open>A step of one system simulated by a run of a more abstract one, under an invariant of the abstract system.\<close>

locale forward_simulation =
  fixes step :: "'c \<Rightarrow> 'c \<Rightarrow> bool" and abs_step :: "'a \<Rightarrow> 'a \<Rightarrow> bool" and inv :: "'a \<Rightarrow> bool" and rel :: "'c \<Rightarrow> 'a \<Rightarrow> bool"
  assumes abs_inv: "abs_step a b \<Longrightarrow> inv a \<Longrightarrow> inv b"
    and simulated: "step s t \<Longrightarrow> rel s a \<Longrightarrow> inv a \<Longrightarrow> \<exists>b. abs_step\<^sup>*\<^sup>* a b \<and> rel t b"
begin

lemma abs_run_inv: "abs_step\<^sup>*\<^sup>* a b \<Longrightarrow> inv a \<Longrightarrow> inv b"
  by (induction rule: rtranclp_induct) (auto intro: abs_inv)

lemma run_simulated:
  assumes "step\<^sup>*\<^sup>* s t" and "rel s a" and "inv a"
  shows "\<exists>b. abs_step\<^sup>*\<^sup>* a b \<and> rel t b"
  using assms(1)
proof (induction rule: rtranclp_induct)
  case (step t u)
  then obtain b where b: "abs_step\<^sup>*\<^sup>* a b" "rel t b" by blast
  from simulated [OF step(2) b(2) abs_run_inv [OF b(1) assms(3)]] b(1) show ?case by (meson rtranclp_trans)
qed (use assms(2) in blast)

end

section \<open>Searching a table\<close>

text \<open>The first position that satisfies a condition: the search loops over arrays.\<close>

fun find_index :: "('a \<Rightarrow> bool) \<Rightarrow> 'a list \<Rightarrow> nat option" where
  "find_index P [] = None"
| "find_index P (x # xs) = (if P x then Some 0 else map_option Suc (find_index P xs))"

lemma find_index_Some: "find_index P xs = Some i \<Longrightarrow> i < length xs \<and> P (xs ! i)"
  by (induction xs arbitrary: i) (auto split: if_splits)

lemma find_index_least: "find_index P xs = Some i \<Longrightarrow> j < i \<Longrightarrow> \<not> P (xs ! j)"
proof (induction xs arbitrary: i j)
  case (Cons x xs)
  then show ?case by (cases j) (auto split: if_splits)
qed simp

lemma find_index_eqI: "i < length xs \<Longrightarrow> P (xs ! i) \<Longrightarrow> (\<And>j. j < i \<Longrightarrow> \<not> P (xs ! j)) \<Longrightarrow> find_index P xs = Some i"
proof (induction xs arbitrary: i)
  case (Cons x xs)
  show ?case
  proof (cases i)
    case (Suc k)
    have "\<not> P x" using Cons.prems(3) [of 0] Suc by simp
    moreover have "\<not> P (xs ! m)" if "m < k" for m using Cons.prems(3) [of "Suc m"] that Suc by simp
    ultimately show ?thesis using Cons.IH [of k] Cons.prems(1,2) Suc by simp
  qed (use Cons.prems in simp)
qed simp

lemma find_index_None: "find_index P xs = None \<longleftrightarrow> (\<forall>x \<in> set xs. \<not> P x)"
  by (induction xs) auto

lemma map_update_same: "i < length xs \<Longrightarrow> f y = f (xs ! i) \<Longrightarrow> map f (xs[i := y]) = map f xs"
  by (metis list_update_id map_update)

lemma find_index_map: "find_index (\<lambda>x. f x = a) xs = find_index (\<lambda>y. y = a) (map f xs)"
  by (induction xs) auto

section \<open>Separation\<close>

text \<open>
  Steps of which some belong to an observer. If steps of its own keep equal views equal, and the foreign ones of a
  run do not change the view, then the run looks to the observer as its own steps alone do.
\<close>

locale separation =
  fixes step :: "'e \<Rightarrow> 's \<Rightarrow> 's" and own :: "'e \<Rightarrow> bool" and same :: "'s \<Rightarrow> 's \<Rightarrow> bool"
  assumes same_refl: "same s s"
    and same_sym: "same s t \<Longrightarrow> same t s"
    and same_trans: "same s t \<Longrightarrow> same t u \<Longrightarrow> same s u"
    and step_consistent: "own e \<Longrightarrow> same s t \<Longrightarrow> same (step e s) (step e t)"
begin

lemma run_separated:
  assumes "\<forall>k < length es. own (es ! k) \<or> same (fold step (take k es) s) (fold step (take (Suc k) es) s)"
  shows "same (fold step es s) (fold step (filter own es) s)"
  using assms
proof (induction es rule: rev_induct)
  case (snoc e es)
  have "\<forall>k < length es. own (es ! k) \<or> same (fold step (take k es) s) (fold step (take (Suc k) es) s)"
    using snoc.prems by (auto simp: nth_append less_Suc_eq Suc_le_eq dest!: spec)
  then have IH: "same (fold step es s) (fold step (filter own es) s)" by (rule snoc.IH)
  show ?case
  proof (cases "own e")
    case True
    then show ?thesis using step_consistent [OF True IH] by simp
  next
    case False
    then have "same (fold step es s) (step e (fold step es s))" using snoc.prems by (auto dest!: spec [of _ "length es"])
    then show ?thesis using False same_trans [OF same_sym IH] by simp
  qed
qed (simp add: same_refl)

end

section \<open>Widths\<close>

lemma unat_ucast_32_64 [simp, width_simps]: "unat (ucast (n::u32) :: u64) = unat n"
  by transfer (simp add: take_bit_take_bit)

lemma unat_u32_bound: "unat (n::u32) < 2 ^ 32"
  using unsigned_less [of n] by simp

lemma unat_u64_bound: "unat (n::u64) < 2 ^ 64"
  using unsigned_less [of n] by simp

lemma sint_alt: "sint (x::u64) = (if unat x < 2 ^ 63 then int (unat x) else int (unat x) - 2 ^ 64)"
proof -
  define n where "n = unat x"
  have b: "n < 2 ^ 64" using unsigned_less [of x] by (simp add: n_def)
  have "sint x = (int n + 2 ^ 63) mod 2 ^ 64 - 2 ^ 63"
    using int_word_sint [where 'a=64, of "uint x"] by (simp add: n_def)
  also have "\<dots> = (if n < 2 ^ 63 then int n else int n - 2 ^ 64)"
  proof (cases "n < 2 ^ 63")
    case True then show ?thesis by simp
  next
    case False
    then have "(int n + 2 ^ 63) = (int n - 2 ^ 63) + 2 ^ 64 * 1" by simp
    also have "\<dots> mod 2 ^ 64 = int n - 2 ^ 63"
      unfolding mod_mult_self2 using False b by simp
    finally show ?thesis using False by simp
  qed
  finally show ?thesis by (simp only: n_def)
qed

lemma sint_small: "unat (x::u64) < 2 ^ 63 \<Longrightarrow> sint x = int (unat x)"
  by (simp add: sint_alt)

lemma sint_nonneg_iff: "0 \<le> sint (x::u64) \<longleftrightarrow> unat x < 2 ^ 63"
  using unat_u64_bound [of x] by (simp add: sint_alt del: of_nat_unat)

end
