(* ===== verification/Wire_Format.thy ===== *)
theory Wire_Format
  imports Cbt_Prelude
begin

text \<open>
  The wire protocol of \<open>server/Protocol.h\<close>, mirrored by \<open>client/NetworkClient.h\<close>: four
  packed structs, their message types and status codes. A struct is a record; its memory
  image under \<open>#pragma pack(push, 1)\<close> on a little-endian machine is the concatenation of
  the images of its fields. Each struct implements the contract of a fixed-width codec.
\<close>

section \<open>Constants\<close>

definition PROTOCOL_MAGIC :: u32 where "PROTOCOL_MAGIC = 0x474F3243"
definition HEADER_SIZE :: u32 where "HEADER_SIZE = 16"
definition BLOCK_HEADER_SIZE :: u32 where "BLOCK_HEADER_SIZE = 52"
definition ACK_BODY_SIZE :: u32 where "ACK_BODY_SIZE = 48"
definition HELLO_BODY_SIZE :: u32 where "HELLO_BODY_SIZE = 88"

lemmas protocol_sizes =
  HEADER_SIZE_def BLOCK_HEADER_SIZE_def ACK_BODY_SIZE_def HELLO_BODY_SIZE_def

lemma unat_sizes [simp]:
  "unat HEADER_SIZE = 16" "unat BLOCK_HEADER_SIZE = 52" "unat ACK_BODY_SIZE = 48"
  "unat HELLO_BODY_SIZE = 88" "unat (HEADER_SIZE + BLOCK_HEADER_SIZE) = 68"
  "unat (HEADER_SIZE + ACK_BODY_SIZE) = 64" "unat (HEADER_SIZE + HELLO_BODY_SIZE) = 104"
  by (simp_all add: protocol_sizes)

section \<open>Message types and status codes\<close>

datatype MessageType = DATA_BLOCK | ACK | HELLO | BYE | ERROR

fun msg_code :: "MessageType \<Rightarrow> u32" where
  "msg_code DATA_BLOCK = 1"
| "msg_code ACK = 2"
| "msg_code HELLO = 3"
| "msg_code BYE = 4"
| "msg_code ERROR = 5"

text \<open>The \<open>switch\<close> on \<open>static_cast<MessageType>(type)\<close>; \<open>None\<close> is its \<open>default\<close>.\<close>

definition msg_type_of :: "u32 \<Rightarrow> MessageType option" where
  "msg_type_of t =
     (if t = 1 then Some DATA_BLOCK
      else if t = 2 then Some ACK
      else if t = 3 then Some HELLO
      else if t = 4 then Some BYE
      else if t = 5 then Some ERROR
      else None)"

lemma msg_type_of_code [simp]: "msg_type_of (msg_code t) = Some t"
  by (cases t) (simp_all add: msg_type_of_def)

lemma msg_type_of_num [simp]:
  "msg_type_of 1 = Some DATA_BLOCK" "msg_type_of 2 = Some ACK" "msg_type_of 3 = Some HELLO"
  "msg_type_of 4 = Some BYE" "msg_type_of 5 = Some ERROR"
  by (simp_all add: msg_type_of_def)

lemma msg_type_of_Some_iff: "msg_type_of w = Some t \<longleftrightarrow> w = msg_code t"
  by (cases t) (auto simp: msg_type_of_def)

datatype AckStatus = OK | HASH_MISMATCH | DECOMPRESS_ERROR | WRITE_ERROR | INVALID_DEV | OUT_OF_RANGE

fun ack_code :: "AckStatus \<Rightarrow> u32" where
  "ack_code OK = 0"
| "ack_code HASH_MISMATCH = 1"
| "ack_code DECOMPRESS_ERROR = 2"
| "ack_code WRITE_ERROR = 3"
| "ack_code INVALID_DEV = 4"
| "ack_code OUT_OF_RANGE = 5"

lemma ack_code_eq_0_iff [simp]: "ack_code s = 0 \<longleftrightarrow> s = OK"
  by (cases s) simp_all

section \<open>Message header\<close>

record MsgHeader =
  mh_Magic :: u32
  mh_Type :: u32
  mh_DevNo :: u32
  mh_Reserved :: u32

definition MsgHeader_bytes :: "MsgHeader \<Rightarrow> byte list" where
  "MsgHeader_bytes h =
     le_bytes 4 (mh_Magic h) @ le_bytes 4 (mh_Type h) @ le_bytes 4 (mh_DevNo h)
     @ le_bytes 4 (mh_Reserved h)"

definition MsgHeader_of :: "byte list \<Rightarrow> MsgHeader" where
  "MsgHeader_of p =
     \<lparr> mh_Magic = le_word (segment 0 4 p), mh_Type = le_word (segment 4 4 p),
       mh_DevNo = le_word (segment 8 4 p), mh_Reserved = le_word (segment 12 4 p) \<rparr>"

interpretation mh: fixed_codec MsgHeader_bytes MsgHeader_of 16 "\<lambda>_. True"
  by unfold_locales (simp_all add: MsgHeader_bytes_def MsgHeader_of_def segment_def)

section \<open>Block header\<close>

record BlockHeader =
  bh_BlockIndex :: u64
  bh_DataSize :: u32
  bh_CompressedSize :: u32
  bh_Hash :: "byte list"
  bh_VersionId :: u32

definition BlockHeader_bytes :: "BlockHeader \<Rightarrow> byte list" where
  "BlockHeader_bytes h =
     le_bytes 8 (bh_BlockIndex h) @ le_bytes 4 (bh_DataSize h) @ le_bytes 4 (bh_CompressedSize h)
     @ bh_Hash h @ le_bytes 4 (bh_VersionId h)"

definition BlockHeader_of :: "byte list \<Rightarrow> BlockHeader" where
  "BlockHeader_of p =
     \<lparr> bh_BlockIndex = le_word (segment 0 8 p), bh_DataSize = le_word (segment 8 4 p),
       bh_CompressedSize = le_word (segment 12 4 p), bh_Hash = segment 16 32 p,
       bh_VersionId = le_word (segment 48 4 p) \<rparr>"

interpretation bh: fixed_codec BlockHeader_bytes BlockHeader_of 52 "\<lambda>h. length (bh_Hash h) = 32"
  by unfold_locales (simp_all add: BlockHeader_bytes_def BlockHeader_of_def segment_def)

section \<open>Acknowledgement body\<close>

record AckBody =
  ak_BlockIndex :: u64
  ak_Status :: u32
  ak_DevNo :: u32
  ak_Hash :: "byte list"

definition AckBody_bytes :: "AckBody \<Rightarrow> byte list" where
  "AckBody_bytes a =
     le_bytes 8 (ak_BlockIndex a) @ le_bytes 4 (ak_Status a) @ le_bytes 4 (ak_DevNo a) @ ak_Hash a"

definition AckBody_of :: "byte list \<Rightarrow> AckBody" where
  "AckBody_of p =
     \<lparr> ak_BlockIndex = le_word (segment 0 8 p), ak_Status = le_word (segment 8 4 p),
       ak_DevNo = le_word (segment 12 4 p), ak_Hash = segment 16 32 p \<rparr>"

interpretation ak: fixed_codec AckBody_bytes AckBody_of 48 "\<lambda>a. length (ak_Hash a) = 32"
  by unfold_locales (simp_all add: AckBody_bytes_def AckBody_of_def segment_def)

section \<open>Hello body\<close>

text \<open>\<open>VersionType\<close> is an array of 32 UTF-16 code units, 64 bytes on both sides.\<close>

record HelloBody =
  hb_VersionId :: u32
  hb_DevNo :: u32
  hb_TotalBlocks :: u64
  hb_TotalSize :: u64
  hb_VersionType :: "u16 list"

definition HelloBody_bytes :: "HelloBody \<Rightarrow> byte list" where
  "HelloBody_bytes h =
     le_bytes 4 (hb_VersionId h) @ le_bytes 4 (hb_DevNo h) @ le_bytes 8 (hb_TotalBlocks h)
     @ le_bytes 8 (hb_TotalSize h) @ concat (map (le_bytes 2) (hb_VersionType h))"

definition HelloBody_of :: "byte list \<Rightarrow> HelloBody" where
  "HelloBody_of p =
     \<lparr> hb_VersionId = le_word (segment 0 4 p), hb_DevNo = le_word (segment 4 4 p),
       hb_TotalBlocks = le_word (segment 8 8 p), hb_TotalSize = le_word (segment 16 8 p),
       hb_VersionType = u16s_of 32 (segment 24 64 p) \<rparr>"

interpretation hb: fixed_codec HelloBody_bytes HelloBody_of 88 "\<lambda>h. length (hb_VersionType h) = 32"
  by unfold_locales
    (simp_all add: HelloBody_bytes_def HelloBody_of_def segment_def length_concat_le2 u16s_of_concat)

lemmas wire_lengths [simp] =
  mh.length_enc [OF TrueI] bh.length_enc ak.length_enc hb.length_enc

lemmas wire_decode [simp] =
  mh.dec_enc [OF TrueI] bh.dec_enc ak.dec_enc hb.dec_enc

end
