(* ===== verification/Ring_Buffer.thy ===== *)
theory Ring_Buffer
  imports Cbt_Prelude
begin

text \<open>
  The linear receive and send buffer of \<open>server/RingBuffer.{h,cpp}\<close>: a vector with a read
  and a write position. Sizes and positions (\<open>size_t\<close>) are natural numbers: they are
  indices into an allocated vector, and the invariant \<open>read_pos \<le> write_pos \<le> size\<close> shows
  that no subtraction of the code underflows. The readable bytes are the abstraction; the
  operations implement the contract of a byte queue over it.
\<close>

section \<open>The byte queue interface\<close>

locale byte_queue =
  fixes contents :: "'q \<Rightarrow> byte list"
    and invar :: "'q \<Rightarrow> bool"
    and push :: "'q \<Rightarrow> byte list \<Rightarrow> 'q"
    and pop :: "'q \<Rightarrow> nat \<Rightarrow> 'q"
    and tidy :: "'q \<Rightarrow> 'q"
  assumes contents_push: "invar q \<Longrightarrow> contents (push q d) = contents q @ d"
    and contents_pop: "invar q \<Longrightarrow> contents (pop q n) = drop n (contents q)"
    and contents_tidy: "invar q \<Longrightarrow> contents (tidy q) = contents q"
    and invar_push: "invar q \<Longrightarrow> invar (push q d)"
    and invar_pop: "invar q \<Longrightarrow> invar (pop q n)"
    and invar_tidy: "invar q \<Longrightarrow> invar (tidy q)"
begin

text \<open>A message queued in two parts (header, then body) leaves as one.\<close>

lemma contents_push_push: "invar q \<Longrightarrow> contents (push (push q a) b) = contents q @ a @ b"
  by (simp add: contents_push invar_push)

text \<open>A frame at the front is removed by popping its length, whatever follows it.\<close>

lemma contents_pop_frame:
  "invar q \<Longrightarrow> contents q = f @ rest \<Longrightarrow> contents (tidy (pop q (length f))) = rest"
  by (simp add: contents_tidy invar_pop contents_pop)

lemma invar_fold_push: "invar q \<Longrightarrow> invar (fold (\<lambda>d q. push q d) ds q)"
  by (induction ds arbitrary: q) (auto simp: invar_push)

lemma contents_fold_push:
  "invar q \<Longrightarrow> contents (fold (\<lambda>d q. push q d) ds q) = contents q @ concat ds"
  by (induction ds arbitrary: q) (auto simp: invar_push contents_push)

text \<open>Popping in two portions is popping their sum: partial sends lose nothing.\<close>

lemma contents_pop_pop: "invar q \<Longrightarrow> contents (pop (pop q m) n) = contents (pop q (m + n))"
  by (simp add: contents_pop invar_pop add.commute)

end

section \<open>State and operations\<close>

record RingBuffer =
  rb_buf :: "byte list"
  read_pos :: nat
  write_pos :: nat

definition RingBuffer_new :: "nat \<Rightarrow> RingBuffer" where
  "RingBuffer_new capacity = \<lparr> rb_buf = replicate capacity 0, read_pos = 0, write_pos = 0 \<rparr>"

definition ReadableBytes :: "RingBuffer \<Rightarrow> nat" where
  "ReadableBytes b = write_pos b - read_pos b"

definition WritableBytes :: "RingBuffer \<Rightarrow> nat" where
  "WritableBytes b = length (rb_buf b) - write_pos b"

text \<open>The bytes \<open>[ReadPtr(), ReadPtr() + ReadableBytes())\<close>.\<close>

definition ReadPtr :: "RingBuffer \<Rightarrow> byte list" where
  "ReadPtr b = segment (read_pos b) (ReadableBytes b) (rb_buf b)"

definition Compact :: "RingBuffer \<Rightarrow> RingBuffer" where
  "Compact b =
     (if read_pos b = 0 then b
      else
        let keep = ReadableBytes b;
            moved = (if 0 < keep then overwrite (rb_buf b) 0 (segment (read_pos b) keep (rb_buf b))
                     else rb_buf b)
        in b\<lparr> rb_buf := moved, read_pos := 0, write_pos := keep \<rparr>)"

definition Consume :: "RingBuffer \<Rightarrow> nat \<Rightarrow> RingBuffer" where
  "Consume b bytes = b\<lparr> read_pos := read_pos b + min bytes (ReadableBytes b) \<rparr>"

definition WriteFrom :: "RingBuffer \<Rightarrow> byte list \<Rightarrow> RingBuffer" where
  "WriteFrom b data =
     (let len = length data;
          buf = (if length (rb_buf b) < write_pos b + len
                 then rb_buf b @ replicate (write_pos b + len - length (rb_buf b)) 0
                 else rb_buf b)
      in b\<lparr> rb_buf := overwrite buf (write_pos b) data, write_pos := write_pos b + len \<rparr>)"

definition Append :: "RingBuffer \<Rightarrow> byte list \<Rightarrow> RingBuffer" where
  "Append b data = WriteFrom b data"

definition Reset :: "RingBuffer \<Rightarrow> RingBuffer" where
  "Reset b = b\<lparr> read_pos := 0, write_pos := 0 \<rparr>"

text \<open>
  The outcome of \<open>recv\<close> on a non-blocking socket, and of \<open>WriteFromFd\<close>: a byte count, 0 for
  a closed peer, or -1 with \<open>errno\<close>.
\<close>

datatype errno = EAGAIN | ENOBUFS | EOTHER

datatype recv_result = Received "byte list" | RecvErr errno

text \<open>The answer of one \<open>send\<close>: a byte count or an error.\<close>

datatype send_result = Sent nat | SendErr errno

datatype io_ret = Bytes nat | Failed errno

text \<open>
  \<open>recv\<close> is the system call, given the number of bytes it may store. \<open>Received []\<close> is a
  return value of 0, the peer's shutdown.
\<close>

definition WriteFromFd :: "(nat \<Rightarrow> recv_result) \<Rightarrow> RingBuffer \<Rightarrow> RingBuffer \<times> io_ret" where
  "WriteFromFd recv b0 =
     (let b = (if write_pos b0 = length (rb_buf b0) then Compact b0 else b0) in
      if write_pos b = length (rb_buf b) then (b, Failed ENOBUFS)
      else case recv (length (rb_buf b) - write_pos b) of
             Received d \<Rightarrow>
               (if 0 < length d
                then (b\<lparr> rb_buf := overwrite (rb_buf b) (write_pos b) d,
                         write_pos := write_pos b + length d \<rparr>, Bytes (length d))
                else (b, Bytes 0))
           | RecvErr e \<Rightarrow> (b, Failed e))"

section \<open>Invariant\<close>

definition rb_wf :: "RingBuffer \<Rightarrow> bool" where
  "rb_wf b \<longleftrightarrow> read_pos b \<le> write_pos b \<and> write_pos b \<le> length (rb_buf b)"

lemma rb_wf_new [simp]: "rb_wf (RingBuffer_new n)"
  by (simp add: rb_wf_def RingBuffer_new_def)

lemma ReadPtr_new [simp]: "ReadPtr (RingBuffer_new n) = []"
  by (simp add: ReadPtr_def ReadableBytes_def RingBuffer_new_def segment_def)

lemma length_ReadPtr [simp]: "rb_wf b \<Longrightarrow> length (ReadPtr b) = ReadableBytes b"
  by (auto simp: rb_wf_def ReadPtr_def ReadableBytes_def segment_def)

lemma ReadPtr_conv: "ReadPtr b = drop (read_pos b) (take (write_pos b) (rb_buf b))"
  by (simp add: ReadPtr_def ReadableBytes_def segment_def drop_take)

lemma Compact_wf: "rb_wf b \<Longrightarrow> rb_wf (Compact b)"
  by (auto simp: rb_wf_def Compact_def ReadableBytes_def Let_def segment_def)

lemma Compact_ReadPtr: "rb_wf b \<Longrightarrow> ReadPtr (Compact b) = ReadPtr b"
  by (auto simp: rb_wf_def Compact_def ReadableBytes_def ReadPtr_def Let_def segment_def overwrite_def)

lemma Compact_read_pos [simp]: "read_pos (Compact b) = 0"
  by (simp add: Compact_def Let_def)

lemma length_rb_buf_Compact [simp]: "rb_wf b \<Longrightarrow> length (rb_buf (Compact b)) = length (rb_buf b)"
  by (auto simp: rb_wf_def Compact_def ReadableBytes_def Let_def segment_def)

lemma write_pos_Compact: "rb_wf b \<Longrightarrow> write_pos (Compact b) = ReadableBytes b"
  by (auto simp: rb_wf_def Compact_def ReadableBytes_def Let_def)

lemma Consume_wf: "rb_wf b \<Longrightarrow> rb_wf (Consume b n)"
  by (auto simp: rb_wf_def Consume_def ReadableBytes_def)

lemma Consume_ReadPtr: "rb_wf b \<Longrightarrow> ReadPtr (Consume b n) = drop n (ReadPtr b)"
  by (auto simp: rb_wf_def Consume_def ReadableBytes_def ReadPtr_conv min_def add.commute)

lemma length_rb_buf_Consume [simp]: "length (rb_buf (Consume b n)) = length (rb_buf b)"
  by (simp add: Consume_def)

lemma overwrite_ReadPtr:
  assumes "rb_wf b" and "length (rb_buf b) \<le> length buf" and "take (write_pos b) buf = take (write_pos b) (rb_buf b)"
    and "write_pos b + length d \<le> length buf"
  shows "ReadPtr (b\<lparr> rb_buf := overwrite buf (write_pos b) d, write_pos := write_pos b + length d \<rparr>)
         = ReadPtr b @ d"
  using assms by (simp add: rb_wf_def ReadPtr_conv take_add_overwrite)

lemma WriteFrom_wf: "rb_wf b \<Longrightarrow> rb_wf (WriteFrom b d)"
  by (auto simp: rb_wf_def WriteFrom_def Let_def)

lemma WriteFrom_ReadPtr: "rb_wf b \<Longrightarrow> ReadPtr (WriteFrom b d) = ReadPtr b @ d"
  unfolding WriteFrom_def Let_def by (rule overwrite_ReadPtr) (auto simp: rb_wf_def)

interpretation rb: byte_queue ReadPtr rb_wf Append Consume Compact
  by unfold_locales
    (simp_all add: Append_def WriteFrom_ReadPtr WriteFrom_wf Consume_ReadPtr Consume_wf
      Compact_ReadPtr Compact_wf)

lemmas [stream_simps] =
  rb.contents_push rb.contents_pop rb.contents_tidy rb.invar_push rb.invar_pop rb.invar_tidy

text \<open>
  Receiving: nothing is lost and nothing is invented. Under the documented bound on \<open>recv\<close>
  (it stores at most the number of bytes it is given), the received bytes are appended to the
  readable ones, a failure leaves them as they were, and the vector keeps its size.
\<close>

definition recv_bounded :: "(nat \<Rightarrow> recv_result) \<Rightarrow> bool" where
  "recv_bounded recv \<longleftrightarrow> (\<forall>n d. recv n = Received d \<longrightarrow> length d \<le> n)"

definition fd_room :: "RingBuffer \<Rightarrow> nat" where
  "fd_room b = (if write_pos b = length (rb_buf b) then length (rb_buf b) - ReadableBytes b
                else length (rb_buf b) - write_pos b)"

lemma WriteFromFd_cases:
  assumes "rb_wf b" and "recv_bounded recv"
  shows "rb_wf (fst (WriteFromFd recv b)) \<and> length (rb_buf (fst (WriteFromFd recv b))) = length (rb_buf b) \<and>
    (if fd_room b = 0 then
       snd (WriteFromFd recv b) = Failed ENOBUFS \<and> ReadPtr (fst (WriteFromFd recv b)) = ReadPtr b
     else (case recv (fd_room b) of
       Received d \<Rightarrow> snd (WriteFromFd recv b) = Bytes (length d) \<and>
                     ReadPtr (fst (WriteFromFd recv b)) = ReadPtr b @ d
     | RecvErr e \<Rightarrow> snd (WriteFromFd recv b) = Failed e \<and>
                    ReadPtr (fst (WriteFromFd recv b)) = ReadPtr b))"
proof -
  define b1 where "b1 = (if write_pos b = length (rb_buf b) then Compact b else b)"
  have wf1: "rb_wf b1" and R1: "ReadPtr b1 = ReadPtr b" and L1: "length (rb_buf b1) = length (rb_buf b)"
    using assms(1) by (auto simp: b1_def Compact_wf Compact_ReadPtr)
  have room: "length (rb_buf b1) - write_pos b1 = fd_room b"
    using assms(1) by (auto simp: b1_def fd_room_def write_pos_Compact)
  have full: "write_pos b1 = length (rb_buf b1) \<longleftrightarrow> fd_room b = 0"
    using wf1 room by (auto simp: rb_wf_def)
  have step: "rb_wf (b1\<lparr> rb_buf := overwrite (rb_buf b1) (write_pos b1) d,
                          write_pos := write_pos b1 + length d \<rparr>) \<and>
    length (overwrite (rb_buf b1) (write_pos b1) d) = length (rb_buf b1) \<and>
    ReadPtr (b1\<lparr> rb_buf := overwrite (rb_buf b1) (write_pos b1) d,
                 write_pos := write_pos b1 + length d \<rparr>) = ReadPtr b1 @ d"
    if "recv (fd_room b) = Received d" for d
  proof -
    have "length d \<le> fd_room b" using assms(2) that by (simp add: recv_bounded_def)
    then have fits: "write_pos b1 + length d \<le> length (rb_buf b1)" using wf1 room by (auto simp: rb_wf_def)
    then show ?thesis using wf1 by (auto simp: rb_wf_def intro!: overwrite_ReadPtr)
  qed
  have eq: "WriteFromFd recv b =
    (if fd_room b = 0 then (b1, Failed ENOBUFS)
     else case recv (fd_room b) of
       Received d \<Rightarrow> (if 0 < length d
                       then (b1\<lparr> rb_buf := overwrite (rb_buf b1) (write_pos b1) d,
                                 write_pos := write_pos b1 + length d \<rparr>, Bytes (length d))
                       else (b1, Bytes 0))
     | RecvErr e \<Rightarrow> (b1, Failed e))"
    by (simp only: WriteFromFd_def b1_def [symmetric] Let_def full room)
  show ?thesis
    unfolding eq using wf1 step R1 L1 by (auto split: recv_result.split)
qed

section \<open>Plain input\<close>

text \<open>A peer that only sends: non-empty segments, then nothing more for now.\<close>

fun rx_stream :: "recv_result list \<Rightarrow> byte list" where
  "rx_stream [] = []"
| "rx_stream (Received d # rx) = d @ rx_stream rx"
| "rx_stream (RecvErr e # rx) = []"

fun rx_plain :: "recv_result list \<Rightarrow> bool" where
  "rx_plain [] = True"
| "rx_plain (Received d # rx) = (d \<noteq> [] \<and> rx_plain rx)"
| "rx_plain (RecvErr e # rx) = False"

end
