(* ===== verification/Message_Parser.thy ===== *)
theory Message_Parser
  imports Wire_Format Ring_Buffer
begin

text \<open>
  Framing, \<open>server/MessageParser.{h,cpp}\<close>: \<open>TryParse\<close> looks at the readable bytes of a
  receive buffer and decides whether they start with a complete message. The specification is
  the set of well-formed messages and their byte image; the lemmas show that the parser
  recognises exactly these images, that its decision never depends on how TCP segmented the
  stream, and that an undecided prefix is short.
\<close>

section \<open>Results\<close>

datatype ParseResult = kNeedMore | kOk | kBadMagic | kInvalidType | kOversizeBlock

record ParsedMessage =
  pm_header :: MsgHeader
  pm_body :: "byte list"

record ParseDiag =
  gotMagic :: u32
  gotType :: u32
  claimedCompSz :: u32
  claimedBlkIdx :: u64

definition ParseDiag_zero :: ParseDiag where
  "ParseDiag_zero = \<lparr> gotMagic = 0, gotType = 0, claimedCompSz = 0, claimedBlkIdx = 0 \<rparr>"

section \<open>The parser\<close>

text \<open>
  The \<open>switch\<close> over the message type: \<open>Inr bodyLen\<close> where it reaches its end, \<open>Inl\<close> where a
  case returns from \<open>TryParse\<close>.
\<close>

definition parse_body_len ::
  "nat \<Rightarrow> byte list \<Rightarrow> MsgHeader \<Rightarrow> ParseDiag \<Rightarrow> (ParseResult \<times> ParseDiag) + u32" where
  "parse_body_len readable p hdr diag =
     (case msg_type_of (mh_Type hdr) of
        Some HELLO \<Rightarrow> Inr HELLO_BODY_SIZE
      | Some DATA_BLOCK \<Rightarrow>
          (if readable < unat (HEADER_SIZE + BLOCK_HEADER_SIZE) then Inl (kNeedMore, diag)
           else
             let bh = BlockHeader_of (segment (unat HEADER_SIZE) 52 p) in
             if BLOCK_SIZE * 2 < bh_CompressedSize bh then
               Inl (kOversizeBlock,
                    diag\<lparr> gotType := mh_Type hdr, claimedCompSz := bh_CompressedSize bh,
                          claimedBlkIdx := bh_BlockIndex bh \<rparr>)
             else Inr (BLOCK_HEADER_SIZE + bh_CompressedSize bh))
      | Some BYE \<Rightarrow> Inr 0
      | Some ACK \<Rightarrow> Inr ACK_BODY_SIZE
      | Some ERROR \<Rightarrow> Inr 0
      | None \<Rightarrow> Inl (kInvalidType, diag\<lparr> gotType := mh_Type hdr \<rparr>))"

text \<open>\<open>TryParse\<close> on the pointer and the byte count it takes from the buffer.\<close>

definition TryParse_at ::
  "nat \<Rightarrow> byte list \<Rightarrow> ParsedMessage \<Rightarrow> ParseResult \<times> ParsedMessage \<times> ParseDiag" where
  "TryParse_at readable p parsed =
     (let diag = ParseDiag_zero in
      if readable < unat HEADER_SIZE then (kNeedMore, parsed, diag)
      else
        let hdr = MsgHeader_of (segment 0 16 p) in
        if mh_Magic hdr \<noteq> PROTOCOL_MAGIC then
          (kBadMagic, parsed, diag\<lparr> gotMagic := mh_Magic hdr \<rparr>)
        else
          (case parse_body_len readable p hdr diag of
             Inl (r, diag') \<Rightarrow> (r, parsed, diag')
           | Inr bodyLen \<Rightarrow>
               (if readable < unat (HEADER_SIZE + bodyLen) then (kNeedMore, parsed, diag)
                else (kOk, parsed\<lparr> pm_header := hdr,
                                   pm_body := segment (unat HEADER_SIZE) (unat bodyLen) p \<rparr>, diag))))"

definition TryParse :: "RingBuffer \<Rightarrow> ParsedMessage \<Rightarrow> ParseResult \<times> ParsedMessage \<times> ParseDiag" where
  "TryParse buf parsed = TryParse_at (ReadableBytes buf) (ReadPtr buf) parsed"

section \<open>Well-formed messages\<close>

text \<open>
  The abstract view of the protocol: a message is a header with the right magic number and a
  body whose length its type prescribes; a data block carries its block header and exactly
  the number of compressed bytes that header declares.
\<close>

definition body_ok :: "MessageType \<Rightarrow> byte list \<Rightarrow> bool" where
  "body_ok t body =
     (case t of
        HELLO \<Rightarrow> length body = 88
      | ACK \<Rightarrow> length body = 48
      | BYE \<Rightarrow> body = []
      | ERROR \<Rightarrow> body = []
      | DATA_BLOCK \<Rightarrow>
          52 \<le> length body \<and>
          (let n = unat (bh_CompressedSize (BlockHeader_of (take 52 body)))
           in length body = 52 + n \<and> n \<le> 2 * BLOCK_SIZE))"

definition wf_msg :: "ParsedMessage \<Rightarrow> bool" where
  "wf_msg m \<longleftrightarrow> mh_Magic (pm_header m) = PROTOCOL_MAGIC \<and>
     (\<exists>t. mh_Type (pm_header m) = msg_code t \<and> body_ok t (pm_body m))"

definition msg_bytes :: "ParsedMessage \<Rightarrow> byte list" where
  "msg_bytes m = MsgHeader_bytes (pm_header m) @ pm_body m"

lemma length_msg_bytes [simp]: "length (msg_bytes m) = 16 + length (pm_body m)"
  by (simp add: msg_bytes_def)

lemma MsgHeader_bytes_of: "length p = 16 \<Longrightarrow> MsgHeader_bytes (MsgHeader_of p) = p"
proof -
  assume p: "length p = 16"
  have "p = segment 0 4 p @ segment 4 4 p @ segment 8 4 p @ segment 12 4 p"
    using p segment_chain [of 0 4 4 p] segment_chain [of 4 4 8 p] segment_chain [of 8 4 12 p]
      segment_last [of p 12 4] by simp
  then show ?thesis
    using p by (simp add: MsgHeader_bytes_def MsgHeader_of_def le_bytes_le_word length_segment)
qed

lemma body_ok_bound: "body_ok t body \<Longrightarrow> length body \<le> 52 + 2 * BLOCK_SIZE"
  by (cases t) (auto simp: body_ok_def Let_def)

section \<open>Correctness of the parser\<close>

lemma unat_data_len:
  fixes c :: u32
  assumes "c \<le> BLOCK_SIZE * 2"
  shows "unat (BLOCK_HEADER_SIZE + c) = 52 + unat c \<and> unat (HEADER_SIZE + (BLOCK_HEADER_SIZE + c)) = 68 + unat c"
proof -
  have "unat c \<le> 2097152" using assms by (simp add: word_le_nat_alt)
  then show ?thesis by (simp add: protocol_sizes unat_word_ariths)
qed

lemma parse_body_len_ok:
  assumes "mh_Type hdr = msg_code t" and "body_ok t body" and "p = MsgHeader_bytes h @ body @ rest"
    and "length p \<le> readable"
  shows "\<exists>n. parse_body_len readable p hdr diag = Inr n \<and> unat n = length body
             \<and> unat (HEADER_SIZE + n) = 16 + length body"
proof (cases t)
  case DATA_BLOCK
  define bh where "bh = BlockHeader_of (take 52 body)"
  have len: "52 \<le> length body" "length body = 52 + unat (bh_CompressedSize bh)"
      and le: "unat (bh_CompressedSize bh) \<le> 2 * BLOCK_SIZE"
    using assms(2) DATA_BLOCK by (auto simp: body_ok_def Let_def bh_def)
  have "BlockHeader_of (segment (unat HEADER_SIZE) 52 p) = bh"
    using len by (simp add: assms(3) segment_def bh_def)
  moreover have "bh_CompressedSize bh \<le> BLOCK_SIZE * 2"
    using le by (simp add: word_le_nat_alt)
  ultimately show ?thesis
    using assms len DATA_BLOCK unat_data_len [of "bh_CompressedSize bh"]
    by (simp add: parse_body_len_def not_less)
qed (use assms in \<open>simp_all add: parse_body_len_def body_ok_def\<close>)

lemma TryParse_at_frame:
  assumes "wf_msg m" and "p = msg_bytes m @ rest" and "readable = length p"
  shows "TryParse_at readable p parsed = (kOk, m, ParseDiag_zero)"
proof -
  obtain t where t: "mh_Type (pm_header m) = msg_code t" "body_ok t (pm_body m)"
    and magic: "mh_Magic (pm_header m) = PROTOCOL_MAGIC"
    using assms(1) by (auto simp: wf_msg_def)
  have p: "p = MsgHeader_bytes (pm_header m) @ pm_body m @ rest"
    using assms(2) by (simp add: msg_bytes_def)
  have hdr: "MsgHeader_of (segment 0 16 p) = pm_header m"
    unfolding p by (simp add: segment_def)
  obtain n where n: "parse_body_len readable p (pm_header m) ParseDiag_zero = Inr n"
      "unat n = length (pm_body m)" "unat (HEADER_SIZE + n) = 16 + length (pm_body m)"
    using parse_body_len_ok [OF t p] assms(3) by auto
  have seg: "segment 16 (unat n) p = pm_body m"
    using n(2) by (simp add: p segment_def)
  have "16 + length (pm_body m) \<le> readable" using assms(3) p by simp
  then have "TryParse_at readable p parsed
      = (kOk, parsed\<lparr> pm_header := pm_header m, pm_body := pm_body m \<rparr>, ParseDiag_zero)"
    using magic n seg by (simp add: TryParse_at_def hdr)
  then show ?thesis by simp
qed

lemma parse_body_len_Inr:
  assumes "parse_body_len readable p hdr diag = Inr n" and "length p = readable"
    and "unat (HEADER_SIZE + n) \<le> readable"
  shows "unat (HEADER_SIZE + n) = 16 + unat n \<and>
         (\<exists>t. mh_Type hdr = msg_code t \<and> body_ok t (segment 16 (unat n) p))"
proof -
  obtain t where t: "msg_type_of (mh_Type hdr) = Some t"
    using assms(1) by (cases "msg_type_of (mh_Type hdr)") (auto simp: parse_body_len_def)
  then have code: "mh_Type hdr = msg_code t" by (simp add: msg_type_of_Some_iff)
  have "unat (HEADER_SIZE + n) = 16 + unat n \<and> body_ok t (segment 16 (unat n) p)"
  proof (cases t)
    case DATA_BLOCK
    define bh where "bh = BlockHeader_of (segment 16 52 p)"
    have c: "bh_CompressedSize bh \<le> BLOCK_SIZE * 2" and n: "n = BLOCK_HEADER_SIZE + bh_CompressedSize bh"
      using assms(1) DATA_BLOCK t
      by (auto simp: parse_body_len_def bh_def Let_def not_less split: if_splits)
    note u = unat_data_len [OF c]
    have "body_ok t (segment 16 (unat n) p)"
    proof -
      have "length (segment 16 (unat n) p) = 52 + unat (bh_CompressedSize bh)"
        using assms(2,3) u n by (simp add: length_segment)
      moreover have "take 52 (segment 16 (unat n) p) = segment 16 52 p"
        using u n by (simp add: segment_def min_def)
      ultimately show ?thesis
        using c DATA_BLOCK by (simp add: body_ok_def bh_def word_le_nat_alt)
    qed
    then show ?thesis using u n by auto
  qed (use assms t in \<open>auto simp: parse_body_len_def body_ok_def length_segment segment_def\<close>)
  then show ?thesis using code by blast
qed

lemma TryParse_at_kOk:
  assumes "TryParse_at readable p parsed = (kOk, m, d)" and "length p = readable"
  shows "wf_msg m \<and> (\<exists>rest. p = msg_bytes m @ rest)"
proof -
  define hdr where "hdr = MsgHeader_of (segment 0 16 p)"
  obtain n where r16: "16 \<le> readable" and magic: "mh_Magic hdr = PROTOCOL_MAGIC"
      and n: "parse_body_len readable p hdr ParseDiag_zero = Inr n"
      and le: "unat (HEADER_SIZE + n) \<le> readable"
      and m: "pm_header m = hdr" "pm_body m = segment 16 (unat n) p"
    using assms(1)
    by (auto simp: TryParse_at_def Let_def hdr_def not_less parse_body_len_def
        split: if_splits sum.splits option.splits MessageType.splits)
  from parse_body_len_Inr [OF n assms(2) le] obtain t where
      len: "unat (HEADER_SIZE + n) = 16 + unat n" and t: "mh_Type hdr = msg_code t"
      "body_ok t (segment 16 (unat n) p)"
    by auto
  have "MsgHeader_bytes hdr = take 16 p"
    using r16 assms(2) by (simp add: hdr_def MsgHeader_bytes_of segment_def)
  then have "msg_bytes m = take (16 + unat n) p"
    by (simp add: msg_bytes_def m segment_def take_add)
  then have "p = msg_bytes m @ drop (16 + unat n) p" by simp
  then show ?thesis using magic t m by (auto simp: wf_msg_def)
qed

text \<open>More bytes never change a decision already taken.\<close>

lemma parse_body_len_extend:
  assumes "parse_body_len (length p) p hdr diag = x" and "\<forall>d. x \<noteq> Inl (kNeedMore, d)"
    and "length p \<le> n"
  shows "parse_body_len n (p @ q) hdr diag = x"
proof (cases "msg_type_of (mh_Type hdr) = Some DATA_BLOCK")
  case True
  then have "68 \<le> length p"
    using assms(1,2) by (auto simp: parse_body_len_def split: if_splits)
  then have "segment 16 52 (p @ q) = segment 16 52 p" by (simp add: segment_append_left)
  then show ?thesis
    using assms True \<open>68 \<le> length p\<close> by (simp add: parse_body_len_def)
next
  case False
  then show ?thesis
    using assms(1) by (auto simp: parse_body_len_def split: option.splits MessageType.splits)
qed

lemma TryParse_at_extend:
  assumes "TryParse_at (length p) p parsed = (r, m, d)" and "r \<noteq> kNeedMore"
  shows "TryParse_at (length (p @ q)) (p @ q) parsed = (r, m, d)"
proof -
  define hdr where "hdr = MsgHeader_of (segment 0 16 p)"
  have r16: "16 \<le> length p"
    using assms by (auto simp: TryParse_at_def Let_def split: if_splits)
  then have hdr': "MsgHeader_of (segment 0 16 (p @ q)) = hdr"
    by (simp add: hdr_def segment_append_left)
  show ?thesis
  proof (cases "mh_Magic hdr = PROTOCOL_MAGIC")
    case False
    then show ?thesis using assms(1) r16 hdr' by (simp add: TryParse_at_def hdr_def)
  next
    case True
    define x where "x = parse_body_len (length p) p hdr ParseDiag_zero"
    have eq: "TryParse_at (length p) p parsed =
      (case x of Inl (r, d) \<Rightarrow> (r, parsed, d)
       | Inr n \<Rightarrow> if length p < unat (HEADER_SIZE + n) then (kNeedMore, parsed, ParseDiag_zero)
                  else (kOk, parsed\<lparr> pm_header := hdr, pm_body := segment 16 (unat n) p \<rparr>, ParseDiag_zero))"
      using r16 True
      by (simp add: TryParse_at_def Let_def hdr_def [symmetric] x_def [symmetric] split: sum.split)
    have "\<forall>d. x \<noteq> Inl (kNeedMore, d)" using assms eq by auto
    then have x': "parse_body_len (length (p @ q)) (p @ q) hdr ParseDiag_zero = x"
      using parse_body_len_extend x_def by (metis le_add1 length_append)
    have seg: "segment 16 (unat n) (p @ q) = segment 16 (unat n) p" if "x = Inr n" for n
    proof -
      have le: "unat (HEADER_SIZE + n) \<le> length p" using assms eq that by (auto split: if_splits)
      then have "unat (HEADER_SIZE + n) = 16 + unat n"
        using parse_body_len_Inr [of "length p" p hdr ParseDiag_zero n] that by (simp add: x_def)
      with le show ?thesis by (simp add: segment_append_left)
    qed
    show ?thesis
      using assms eq seg r16 True x'
      by (auto simp: TryParse_at_def hdr' split: sum.splits if_splits)
  qed
qed

lemma TryParse_at_kNeedMore_bound:
  assumes "TryParse_at (length p) p parsed = (kNeedMore, m, d)"
  shows "length p < 68 + 2 * BLOCK_SIZE"
proof (rule ccontr)
  assume "\<not> ?thesis"
  then have big: "68 + 2 * BLOCK_SIZE \<le> length p" by simp
  define hdr where "hdr = MsgHeader_of (segment 0 16 p)"
  define x where "x = parse_body_len (length p) p hdr ParseDiag_zero"
  have nm: "x \<noteq> Inl (kNeedMore, d')" for d'
    using big by (auto simp: x_def parse_body_len_def Let_def
        split: option.splits MessageType.splits if_splits)
  have "unat (HEADER_SIZE + n) \<le> 68 + 2 * BLOCK_SIZE" if "x = Inr n" for n
  proof (cases "msg_type_of (mh_Type hdr) = Some DATA_BLOCK")
    case True
    define c where "c = bh_CompressedSize (BlockHeader_of (segment 16 52 p))"
    have n: "n = BLOCK_HEADER_SIZE + c" and c: "c \<le> BLOCK_SIZE * 2"
      using that True big by (auto simp: x_def parse_body_len_def Let_def c_def split: if_splits)
    from c have "unat c \<le> 2097152" by (simp add: word_le_nat_alt)
    then show ?thesis using unat_data_len [OF c] n by simp
  next
    case False
    then show ?thesis using that
      by (auto simp: x_def parse_body_len_def split: option.splits MessageType.splits)
  qed
  then show False
    using assms big nm
    by (auto simp: TryParse_at_def Let_def hdr_def [symmetric] x_def [symmetric]
        split: if_splits sum.splits)
qed

section \<open>Properties\<close>

text \<open>A farewell message for device 5, alone in a buffer and followed by one more byte.\<close>

definition demo_bye :: ParsedMessage where
  "demo_bye = \<lparr> pm_header = \<lparr> mh_Magic = PROTOCOL_MAGIC, mh_Type = msg_code BYE, mh_DevNo = 5, mh_Reserved = 0 \<rparr>,
                pm_body = [] \<rparr>"

definition demo_buffer :: "byte list \<Rightarrow> RingBuffer" where
  "demo_buffer d = \<lparr> rb_buf = 255 # d, read_pos = 1, write_pos = Suc (length d) \<rparr>"

lemma demo_buffer [simp]: "rb_wf (demo_buffer d)" "ReadPtr (demo_buffer d) = d"
  by (simp_all add: demo_buffer_def rb_wf_def ReadPtr_conv)

lemma demo_bye_wf: "wf_msg demo_bye"
  by (auto simp: demo_bye_def wf_msg_def body_ok_def intro: exI [of _ BYE])

text \<open>
  C22. The parser accepts exactly the well-formed messages: on a well-formed buffer,
  \<open>TryParse\<close> returns \<open>kOk\<close> with message \<open>m\<close> if and only if \<open>m\<close> is a well-formed message
  and the readable bytes start with its image.
\<close>

theorem TryParse_kOk_iff:
  assumes "rb_wf b"
  shows "(\<exists>d. TryParse b parsed = (kOk, m, d))
         \<longleftrightarrow> wf_msg m \<and> (\<exists>rest. ReadPtr b = msg_bytes m @ rest)"
proof
  assume "\<exists>d. TryParse b parsed = (kOk, m, d)"
  then show "wf_msg m \<and> (\<exists>rest. ReadPtr b = msg_bytes m @ rest)"
    using TryParse_at_kOk assms by (auto simp: TryParse_def)
next
  assume "wf_msg m \<and> (\<exists>rest. ReadPtr b = msg_bytes m @ rest)"
  then show "\<exists>d. TryParse b parsed = (kOk, m, d)"
    using TryParse_at_frame [of m "ReadPtr b" _ "ReadableBytes b" parsed] assms length_ReadPtr [of b]
    by (auto simp: TryParse_def simp del: length_ReadPtr)
qed

theorem TryParse_kOk_iff_witness:
  "\<exists>d. TryParse (demo_buffer (msg_bytes demo_bye @ [1])) demo_bye = (kOk, demo_bye, d)"
  using TryParse_kOk_iff [of "demo_buffer (msg_bytes demo_bye @ [1])" demo_bye demo_bye] demo_bye_wf
  by simp

text \<open>
  The decision does not depend on how the stream was segmented: once \<open>TryParse\<close> has
  decided on the bytes of one buffer (message, bad magic, bad type, oversize block), it
  decides the same on every buffer whose bytes extend them.
\<close>

lemma TryParse_segmentation:
  assumes "rb_wf b" and "rb_wf b'" and "ReadPtr b' = ReadPtr b @ q"
    and "TryParse b parsed = (r, m, d)" and "r \<noteq> kNeedMore"
  shows "TryParse b' parsed = (r, m, d)"
  using TryParse_at_extend [of "ReadPtr b" parsed r m d q] assms
  by (simp add: TryParse_def flip: length_ReadPtr)

theorem TryParse_segmentation_witness:
  "TryParse (demo_buffer (msg_bytes demo_bye @ [1, 2])) demo_bye = (kOk, demo_bye, ParseDiag_zero)"
proof -
  have "TryParse (demo_buffer (msg_bytes demo_bye)) demo_bye = (kOk, demo_bye, ParseDiag_zero)"
    unfolding TryParse_def
    by (rule TryParse_at_frame [of _ _ "[]"]) (simp_all add: demo_bye_wf flip: length_ReadPtr)
  from TryParse_segmentation [OF _ _ _ this, of "demo_buffer (msg_bytes demo_bye @ [1, 2])" "[1, 2]"]
  show ?thesis by simp
qed

end
