(* ===== verification/Disk_Map.thy ===== *)
theory Disk_Map
  imports Cbt_Prelude "HOL-Library.AList"
begin

text \<open>
  The device table of \<open>server/DiskMap.{h,cpp}\<close>: device numbers to open backing files. The
  \<open>std::map\<close> is an association list; beside it the model keeps the descriptors the process
  holds open, so that leaks are visible. \<open>open\<close> and \<open>fstat\<close> are the operating system's:
  parameters of \<open>Add\<close>.
\<close>

record BackingFile =
  bf_fd :: int
  bf_size_bytes :: u64
  bf_path :: string

record DiskMap =
  dm_map :: "(u32 \<times> BackingFile) list"
  dm_open :: "int list"

definition DiskMap_new :: DiskMap where
  "DiskMap_new = \<lparr> dm_map = [], dm_open = [] \<rparr>"

record file_stat =
  st_isreg :: bool
  st_size :: int

text \<open>\<open>sys_open\<close> returns a descriptor or a negative number, \<open>sys_fstat\<close> fails with \<open>None\<close>.\<close>

record disk_os =
  sys_open :: "string \<Rightarrow> int"
  sys_fstat :: "int \<Rightarrow> file_stat option"

definition close_fd :: "int \<Rightarrow> DiskMap \<Rightarrow> DiskMap" where
  "close_fd fd m = m\<lparr> dm_open := removeAll fd (dm_open m) \<rparr>"

definition Add :: "disk_os \<Rightarrow> u32 \<Rightarrow> string \<Rightarrow> DiskMap \<Rightarrow> DiskMap \<times> bool" where
  "Add os devno path m0 =
     (let fd = sys_open os path in
      if fd < 0 then (m0, False)
      else
        let m = m0\<lparr> dm_open := fd # dm_open m0 \<rparr> in
        (case sys_fstat os fd of
           None \<Rightarrow> (close_fd fd m, False)
         | Some st \<Rightarrow>
             if \<not> st_isreg st then (close_fd fd m, False)
             else if st_size st \<le> 0 then (close_fd fd m, False)
             else
               let bf = \<lparr> bf_fd = fd, bf_size_bytes = word_of_int (st_size st), bf_path = path \<rparr>
               in (m\<lparr> dm_map := AList.update devno bf (dm_map m) \<rparr>, True)))"

definition Get :: "DiskMap \<Rightarrow> u32 \<Rightarrow> BackingFile option" where
  "Get m devno = map_of (dm_map m) devno"

definition Contains :: "DiskMap \<Rightarrow> u32 \<Rightarrow> bool" where
  "Contains m devno = (map_of (dm_map m) devno \<noteq> None)"

definition GetFd :: "DiskMap \<Rightarrow> u32 \<Rightarrow> int" where
  "GetFd m devno = (case map_of (dm_map m) devno of None \<Rightarrow> -1 | Some bf \<Rightarrow> bf_fd bf)"

definition GetSize :: "DiskMap \<Rightarrow> u32 \<Rightarrow> u64" where
  "GetSize m devno = (case map_of (dm_map m) devno of None \<Rightarrow> 0 | Some bf \<Rightarrow> bf_size_bytes bf)"

text \<open>\<open>CloseAll\<close> syncs and closes every descriptor of the table, then empties it.\<close>

definition CloseAll :: "DiskMap \<Rightarrow> DiskMap" where
  "CloseAll m =
     (fold (\<lambda>kv m. if 0 \<le> bf_fd (snd kv) then close_fd (bf_fd (snd kv)) m else m) (dm_map m) m)
       \<lparr> dm_map := [] \<rparr>"

text \<open>The start-up loop of \<open>server/main.cpp\<close>: the first disk that fails ends the program.\<close>

fun add_disks :: "disk_os \<Rightarrow> (u32 \<times> string) list \<Rightarrow> DiskMap \<Rightarrow> DiskMap \<times> bool" where
  "add_disks os [] m = (m, True)"
| "add_disks os ((devno, path) # ds) m =
     (case Add os devno path m of (m', ok) \<Rightarrow> if ok then add_disks os ds m' else (m', False))"

section \<open>Invariant\<close>

text \<open>
  A registered device has an open descriptor and a positive size; the descriptors open are
  exactly those registered; distinct devices have distinct descriptors.
\<close>

definition dm_fds :: "DiskMap \<Rightarrow> int set" where
  "dm_fds m = (bf_fd \<circ> snd) ` set (dm_map m)"

definition dm_wf :: "DiskMap \<Rightarrow> bool" where
  "dm_wf m \<longleftrightarrow> distinct (map fst (dm_map m)) \<and> distinct (map (bf_fd \<circ> snd) (dm_map m))
     \<and> (\<forall>(d, bf) \<in> set (dm_map m). 0 \<le> bf_fd bf \<and> 0 < bf_size_bytes bf)
     \<and> dm_fds m \<subseteq> set (dm_open m)"

text \<open>
  What the table relies on from the operating system: an open returns a descriptor that is
  not in use, and a file size fits \<open>off_t\<close>.
\<close>

definition os_ok :: "disk_os \<Rightarrow> DiskMap \<Rightarrow> bool" where
  "os_ok os m \<longleftrightarrow> (\<forall>path. sys_open os path \<notin> set (dm_open m))
     \<and> (\<forall>fd st. sys_fstat os fd = Some st \<longrightarrow> st_size st < 2 ^ 63)"

lemma dm_wf_new [simp]: "dm_wf DiskMap_new"
  by (simp add: dm_wf_def DiskMap_new_def dm_fds_def)

lemma removeAll_fresh: "x \<notin> set xs \<Longrightarrow> removeAll x (x # xs) = xs"
  by (simp add: removeAll_id)

lemma Add_fail_unchanged: "os_ok os m \<Longrightarrow> Add os devno path m = (m', False) \<Longrightarrow> m' = m"
  by (auto simp: Add_def Let_def close_fd_def os_ok_def removeAll_id
      split: if_splits option.splits)

lemma Add_True:
  assumes "os_ok os m" and "Add os devno path m = (m', True)"
  shows "\<exists>st. sys_fstat os (sys_open os path) = Some st \<and> st_isreg st \<and> 0 < st_size st
     \<and> 0 \<le> sys_open os path
     \<and> m' = \<lparr> dm_map = AList.update devno \<lparr> bf_fd = sys_open os path, bf_size_bytes = word_of_int (st_size st),
                bf_path = path \<rparr> (dm_map m), dm_open = sys_open os path # dm_open m \<rparr>"
  using assms by (auto simp: Add_def Let_def split: if_splits option.splits)

lemma set_AList_update_subset: "set (AList.update k v al) \<subseteq> insert (k, v) (set al)"
  by (induction al) auto

lemma distinct_snd_update:
  assumes "distinct (map (f \<circ> snd) al)" and "f v \<notin> (f \<circ> snd) ` set al"
  shows "distinct (map (f \<circ> snd) (AList.update k v al))"
  using assms
proof (induction al)
  case (Cons a al)
  obtain k' v' where a: "a = (k', v')" by (cases a)
  have "f v' \<notin> (f \<circ> snd) ` set (AList.update k v al)"
    if "k \<noteq> k'"
    using Cons.prems a set_AList_update_subset [of k v al] by force
  then show ?case using Cons a by auto
qed simp

lemma word_of_int_pos: "0 < n \<Longrightarrow> n < 2 ^ 63 \<Longrightarrow> (0::u64) < word_of_int n"
  by (simp add: word_less_def uint_word_of_int)

text \<open>The table is a key-value store.\<close>

interpretation dkv: kv_store map_of AList.update "\<lambda>_. True"
  by unfold_locales (simp_all add: update_conv')

lemma Add_wf:
  assumes "dm_wf m" and "os_ok os m" and "Add os devno path m = (m', ok)"
  shows "dm_wf m'"
proof (cases ok)
  case False
  then show ?thesis using assms Add_fail_unchanged [of os m devno path m'] by simp
next
  case True
  then obtain st where st: "sys_fstat os (sys_open os path) = Some st" "0 < st_size st" "0 \<le> sys_open os path"
    and m': "m' = \<lparr> dm_map = AList.update devno \<lparr> bf_fd = sys_open os path, bf_size_bytes = word_of_int (st_size st),
                bf_path = path \<rparr> (dm_map m), dm_open = sys_open os path # dm_open m \<rparr>" (is "_ = \<lparr> dm_map = AList.update _ ?bf _, dm_open = _ \<rparr>")
    using Add_True [OF assms(2), of devno path m'] assms(3) by auto
  have fresh: "sys_open os path \<notin> set (dm_open m)" and "st_size st < 2 ^ 63"
    using assms(2) st(1) by (auto simp: os_ok_def)
  then have pos: "(0::u64) < word_of_int (st_size st)" using st(2) by (simp add: word_of_int_pos)
  have sub: "set (dm_map m') \<subseteq> insert (devno, ?bf) (set (dm_map m))"
    by (simp add: m' set_AList_update_subset)
  have nofd: "bf_fd ?bf \<notin> (bf_fd \<circ> snd) ` set (dm_map m)"
    using assms(1) fresh by (auto simp: dm_wf_def dm_fds_def)
  show ?thesis
    unfolding dm_wf_def
  proof (intro conjI)
    show "distinct (map fst (dm_map m'))"
      using assms(1) by (simp add: m' dm_wf_def distinct_update)
    show "distinct (map (bf_fd \<circ> snd) (dm_map m'))"
      using assms(1) nofd by (simp add: m' dm_wf_def distinct_snd_update)
    show "\<forall>(d, bf) \<in> set (dm_map m'). 0 \<le> bf_fd bf \<and> 0 < bf_size_bytes bf"
      using assms(1) sub pos st(3) by (fastforce simp: dm_wf_def)
    show "dm_fds m' \<subseteq> set (dm_open m')"
      using assms(1) sub by (fastforce simp: dm_wf_def dm_fds_def m')
  qed
qed

lemma Get_Add:
  assumes "os_ok os m" and "Add os devno path m = (m', True)"
  shows "\<exists>bf. Get m' = (Get m)(devno \<mapsto> bf) \<and> bf_fd bf = sys_open os path \<and> bf_path bf = path"
  using Add_True [OF assms] by (auto simp: Get_def dkv.lookup_put fun_eq_iff)

section \<open>Closing\<close>

lemma fold_close:
  "set (dm_open (fold (\<lambda>kv m. if 0 \<le> bf_fd (snd kv) then close_fd (bf_fd (snd kv)) m else m) al m))
   = set (dm_open m) - {fd \<in> (bf_fd \<circ> snd) ` set al. 0 \<le> fd}"
  by (induction al arbitrary: m) (auto simp: close_fd_def)

lemma CloseAll_open:
  "dm_wf m \<Longrightarrow> set (dm_open (CloseAll m)) = set (dm_open m) - dm_fds m"
  unfolding CloseAll_def by (auto simp: fold_close dm_fds_def dm_wf_def)

end
