(* ===== verification/Block_Processor.thy ===== *)
theory Block_Processor
  imports Disk_Map Wire_Format
begin

text \<open>
  Block ingestion, \<open>server/BlockProcessor.{h,cpp}\<close>: look the device up, check the range,
  inflate, verify the SHA-256, write, and fill the acknowledgement. zlib's \<open>uncompress2\<close>,
  OpenSSL's \<open>SHA256\<close> and the system call \<open>pwrite\<close> are parameters, gathered in \<open>Platform\<close>.
  The backing files are the model's disk state: a byte list per descriptor.
\<close>

record Platform =
  uncompress2 :: "nat \<Rightarrow> byte list \<Rightarrow> byte list option"
  SHA256 :: "byte list \<Rightarrow> byte list"
  sys_pwrite :: "int \<Rightarrow> byte list \<Rightarrow> int \<Rightarrow> int"

text \<open>
  \<open>uncompress2 cap src\<close> is the output for \<open>Z_OK\<close> and \<open>None\<close> for every other return code;
  \<open>sys_pwrite fd data off\<close> is the return value: a byte count or -1.
\<close>

type_synonym files = "int \<Rightarrow> byte list"

text \<open>What a return value of \<open>w\<close> from \<open>pwrite\<close> means for the file (POSIX: \<open>w\<close> bytes are
  stored at the offset, a gap or an extension is filled with zeros).\<close>

definition file_write :: "byte list \<Rightarrow> nat \<Rightarrow> byte list \<Rightarrow> byte list" where
  "file_write f off d = overwrite (f @ replicate (off + length d - length f) 0) off d"

definition do_pwrite :: "Platform \<Rightarrow> files \<Rightarrow> int \<Rightarrow> byte list \<Rightarrow> int \<Rightarrow> files \<times> int" where
  "do_pwrite P fs fd d off =
     (let w = sys_pwrite P fd d off in
      (if 0 \<le> w then fs(fd := file_write (fs fd) (nat off) (take (nat w) d)) else fs, w))"

text \<open>The scratch buffer \<open>rawBuf_\<close> holds \<open>BLOCK_SIZE + 64\<close> bytes.\<close>

definition raw_capacity :: nat where
  "raw_capacity = BLOCK_SIZE + 64"

definition ComputeSha256 :: "Platform \<Rightarrow> byte list \<Rightarrow> byte list" where
  "ComputeSha256 P data = SHA256 P data"

definition block_offset :: "BlockHeader \<Rightarrow> u64" where
  "block_offset bh = bh_BlockIndex bh * BLOCK_SIZE"

definition Process ::
  "Platform \<Rightarrow> DiskMap \<Rightarrow> files \<Rightarrow> u32 \<Rightarrow> BlockHeader \<Rightarrow> byte list \<Rightarrow> files \<times> AckBody \<times> AckStatus" where
  "Process P dm fs devno bh compressedData =
     (let ackOut = \<lparr> ak_BlockIndex = bh_BlockIndex bh, ak_Status = 0, ak_DevNo = devno,
                     ak_Hash = bh_Hash bh \<rparr>;
          answer = (\<lambda>fs st. (fs, ackOut\<lparr> ak_Status := ack_code st \<rparr>, st))
      in
      case Get dm devno of
        None \<Rightarrow> answer fs INVALID_DEV
      | Some bf \<Rightarrow>
          if bh_DataSize bh = 0 \<or> BLOCK_SIZE < bh_DataSize bh then answer fs OUT_OF_RANGE
          else
            let offset = block_offset bh in
            if bf_size_bytes bf < offset + ucast (bh_DataSize bh) then answer fs OUT_OF_RANGE
            else
              (case uncompress2 P raw_capacity (take (unat (bh_CompressedSize bh)) compressedData) of
                 None \<Rightarrow> answer fs DECOMPRESS_ERROR
               | Some raw \<Rightarrow>
                   if length raw \<noteq> unat (bh_DataSize bh) then answer fs DECOMPRESS_ERROR
                   else if ComputeSha256 P raw \<noteq> bh_Hash bh then answer fs HASH_MISMATCH
                   else
                     (case do_pwrite P fs (bf_fd bf) raw (sint offset) of (fs', w) \<Rightarrow>
                        if w < 0 \<or> nat w \<noteq> length raw then answer fs' WRITE_ERROR
                        else answer fs' OK)))"

section \<open>Behaviour\<close>

text \<open>
  What the code relies on from \<open>pwrite\<close> (POSIX): a negative offset is refused, and no more
  bytes are stored than were passed.
\<close>

definition pwrite_ok :: "Platform \<Rightarrow> bool" where
  "pwrite_ok P \<longleftrightarrow> (\<forall>fd d off. (off < 0 \<longrightarrow> sys_pwrite P fd d off < 0)
     \<and> sys_pwrite P fd d off \<le> int (length d))"

lemma file_write_inside: "off + length d \<le> length f \<Longrightarrow> file_write f off d = overwrite f off d"
  by (simp add: file_write_def)

lemmas process_cases = Process_def Let_def do_pwrite_def

text \<open>The acknowledgement echoes the request: device, block index and hash, with the status.\<close>

lemma Process_ack:
  "Process P dm fs devno bh cd = (fs', ack, st) \<Longrightarrow>
   ack = \<lparr> ak_BlockIndex = bh_BlockIndex bh, ak_Status = ack_code st, ak_DevNo = devno, ak_Hash = bh_Hash bh \<rparr>"
  by (auto simp: process_cases split: option.splits if_splits)

lemma Process_no_write:
  "Process P dm fs devno bh cd = (fs', ack, st) \<Longrightarrow> st \<noteq> OK \<Longrightarrow> st \<noteq> WRITE_ERROR \<Longrightarrow> fs' = fs"
  by (auto simp: process_cases split: option.splits if_splits)

text \<open>The writing branch, entered by \<open>OK\<close> and \<open>WRITE_ERROR\<close> only.\<close>

lemma Process_write_branch:
  assumes "Process P dm fs devno bh cd = (fs', ack, st)" and "st = OK \<or> st = WRITE_ERROR"
  obtains bf raw where
    "Get dm devno = Some bf" "bh_DataSize bh \<noteq> 0" "bh_DataSize bh \<le> BLOCK_SIZE"
    "block_offset bh + ucast (bh_DataSize bh) \<le> bf_size_bytes bf"
    "uncompress2 P raw_capacity (take (unat (bh_CompressedSize bh)) cd) = Some raw"
    "length raw = unat (bh_DataSize bh)" "ComputeSha256 P raw = bh_Hash bh"
    "(fs', sys_pwrite P (bf_fd bf) raw (sint (block_offset bh)))
       = do_pwrite P fs (bf_fd bf) raw (sint (block_offset bh))"
    "st = OK \<longleftrightarrow> 0 \<le> sys_pwrite P (bf_fd bf) raw (sint (block_offset bh))
       \<and> nat (sys_pwrite P (bf_fd bf) raw (sint (block_offset bh))) = length raw"
proof -
  from assms obtain bf where bf: "Get dm devno = Some bf"
    by (cases "Get dm devno") (auto simp: Process_def)
  from assms bf obtain raw where raw:
    "uncompress2 P raw_capacity (take (unat (bh_CompressedSize bh)) cd) = Some raw"
    by (cases "uncompress2 P raw_capacity (take (unat (bh_CompressedSize bh)) cd)")
      (auto simp: Process_def Let_def split: if_splits)
  show thesis
    by (rule that [OF bf _ _ _ raw])
      (use assms bf raw in \<open>auto simp: process_cases not_less split: if_splits\<close>)
qed

text \<open>The 64-bit offset arithmetic, read as natural numbers.\<close>

lemma unat_block_offset:
  "unat (block_offset bh) = (unat (bh_BlockIndex bh) * BLOCK_SIZE) mod 2 ^ 64"
  by (simp add: block_offset_def unat_word_ariths)

lemma unat_block_offset_small:
  "unat (bh_BlockIndex bh) < 2 ^ 44 \<Longrightarrow> unat (block_offset bh) = unat (bh_BlockIndex bh) * BLOCK_SIZE"
  by (simp add: unat_block_offset)

lemma range_check_nat:
  fixes off sz :: u64 and n :: u32
  assumes "off + ucast n \<le> sz" and "unat off + unat n < 2 ^ 64"
  shows "unat off + unat n \<le> unat sz"
proof -
  have "unat (off + ucast n) = unat off + unat n"
    using assms(2) by (simp add: unat_word_ariths)
  with assms(1) show ?thesis by (simp add: word_le_nat_alt)
qed

text \<open>
  The table describes the files: every registered size is the length of its file, and fits
  \<open>off_t\<close>.
\<close>

definition dm_sized :: "DiskMap \<Rightarrow> files \<Rightarrow> bool" where
  "dm_sized dm fs \<longleftrightarrow> (\<forall>devno bf. Get dm devno = Some bf \<longrightarrow>
     length (fs (bf_fd bf)) = unat (bf_size_bytes bf) \<and> unat (bf_size_bytes bf) < 2 ^ 63)"

lemma offset_aligned: "\<exists>k. unat (block_offset bh) = k * BLOCK_SIZE \<and> k < 2 ^ 44"
proof -
  have "unat (block_offset bh) = (unat (bh_BlockIndex bh) mod 2 ^ 44) * BLOCK_SIZE"
    using mult_mod_left [of "unat (bh_BlockIndex bh)" "2 ^ 44" BLOCK_SIZE] by (simp add: unat_block_offset)
  then show ?thesis by (intro exI [of _ "unat (bh_BlockIndex bh) mod 2 ^ 44"]) simp
qed

lemma DataSize_le: "(n::u32) \<le> BLOCK_SIZE \<longleftrightarrow> unat n \<le> BLOCK_SIZE"
  by (simp add: word_le_nat_alt)

text \<open>
  A write that is not refused lies inside its file: the only way for the range check to wrap
  around leaves a negative \<open>off_t\<close>.
\<close>

lemma write_inside:
  assumes "block_offset bh + ucast (bh_DataSize bh) \<le> sz" and "unat sz < 2 ^ 63"
    and "bh_DataSize bh \<le> BLOCK_SIZE" and "bh_DataSize bh \<noteq> 0"
    and "0 \<le> sint (block_offset bh)"
  shows "sint (block_offset bh) = int (unat (block_offset bh))
         \<and> unat (block_offset bh) + unat (bh_DataSize bh) \<le> unat sz"
proof -
  obtain k where k: "unat (block_offset bh) = k * BLOCK_SIZE" "k < 2 ^ 44" using offset_aligned by blast
  have d: "unat (bh_DataSize bh) \<le> 1048576" using assms(3) by (simp add: DataSize_le)
  have small: "unat (block_offset bh) < 2 ^ 63" using assms(5) by (simp only: sint_nonneg_iff)
  have "unat (block_offset bh) + unat (bh_DataSize bh) < 2 ^ 64" using small d by simp
  with range_check_nat [OF assms(1)] show ?thesis using small by (simp add: sint_small)
qed

text \<open>The effect of a completed or refused write on the files.\<close>

lemma Process_write_effect:
  assumes "Process P dm fs devno bh cd = (fs', ack, st)" and "st = OK \<or> st = WRITE_ERROR"
    and "pwrite_ok P" and "dm_sized dm fs"
  shows "fs' = fs \<or> (\<exists>bf raw d. Get dm devno = Some bf \<and> d = take (length d) raw
     \<and> (st = OK \<longrightarrow> d = raw)
     \<and> length raw = unat (bh_DataSize bh) \<and> ComputeSha256 P raw = bh_Hash bh
     \<and> unat (block_offset bh) + length d \<le> length (fs (bf_fd bf))
     \<and> fs' = fs(bf_fd bf := overwrite (fs (bf_fd bf)) (unat (block_offset bh)) d))"
proof -
  obtain bf raw where bf: "Get dm devno = Some bf"
    and ds: "bh_DataSize bh \<noteq> 0" "bh_DataSize bh \<le> BLOCK_SIZE"
    and range: "block_offset bh + ucast (bh_DataSize bh) \<le> bf_size_bytes bf"
    and len: "length raw = unat (bh_DataSize bh)" and hash: "ComputeSha256 P raw = bh_Hash bh"
    and w: "(fs', sys_pwrite P (bf_fd bf) raw (sint (block_offset bh)))
       = do_pwrite P fs (bf_fd bf) raw (sint (block_offset bh))"
    and ok: "st = OK \<longleftrightarrow> 0 \<le> sys_pwrite P (bf_fd bf) raw (sint (block_offset bh))
       \<and> nat (sys_pwrite P (bf_fd bf) raw (sint (block_offset bh))) = length raw"
    by (rule Process_write_branch [OF assms(1,2)])
  define w where "w = sys_pwrite P (bf_fd bf) raw (sint (block_offset bh))"
  show ?thesis
  proof (cases "0 \<le> w")
    case False
    then show ?thesis using w by (simp add: do_pwrite_def w_def Let_def)
  next
    case True
    then have nn: "0 \<le> sint (block_offset bh)" and wle: "nat w \<le> length raw"
      using assms(3) by (force simp: pwrite_ok_def w_def not_less [symmetric])+
    have sz: "length (fs (bf_fd bf)) = unat (bf_size_bytes bf)" "unat (bf_size_bytes bf) < 2 ^ 63"
      using assms(4) bf by (auto simp: dm_sized_def)
    from write_inside [OF range sz(2) ds(2,1) nn] have
      s: "sint (block_offset bh) = int (unat (block_offset bh))" and
      i: "unat (block_offset bh) + unat (bh_DataSize bh) \<le> length (fs (bf_fd bf))"
      using sz by auto
    let ?d = "take (nat w) raw"
    have "fs' = fs(bf_fd bf := overwrite (fs (bf_fd bf)) (unat (block_offset bh)) ?d)"
    proof -
      have "fs' = fs(bf_fd bf := file_write (fs (bf_fd bf)) (nat (sint (block_offset bh))) ?d)"
        using w True by (simp add: do_pwrite_def w_def [symmetric] Let_def)
      then show ?thesis using i wle len by (simp add: s file_write_inside del: of_nat_unat)
    qed
    then show ?thesis using bf len hash i wle ok
      by (intro disjI2 exI [of _ bf] exI [of _ raw] exI [of _ ?d]) (auto simp: w_def)
  qed
qed

lemma Process_length:
  assumes "Process P dm fs devno bh cd = (fs', ack, st)" and "pwrite_ok P" and "dm_sized dm fs"
  shows "length (fs' fd) = length (fs fd)"
proof (cases "st = OK \<or> st = WRITE_ERROR")
  case True
  from Process_write_effect [OF assms(1) True assms(2,3)] show ?thesis by auto
next
  case False
  then show ?thesis using Process_no_write [OF assms(1)] by auto
qed

lemma Process_dm_sized:
  assumes "Process P dm fs devno bh cd = (fs', ack, st)" and "pwrite_ok P" and "dm_sized dm fs"
  shows "dm_sized dm fs'"
  using assms(3) Process_length [OF assms] by (simp add: dm_sized_def)

text \<open>With an index below 2^43 nothing wraps, and the checks of the code are the specification's.\<close>

lemma offset_small:
  assumes "unat (bh_BlockIndex bh) < 2 ^ 43"
  shows "unat (block_offset bh) = unat (bh_BlockIndex bh) * BLOCK_SIZE"
    and "sint (block_offset bh) = int (unat (bh_BlockIndex bh) * BLOCK_SIZE)"
proof -
  show u: "unat (block_offset bh) = unat (bh_BlockIndex bh) * BLOCK_SIZE"
    using assms by (intro unat_block_offset_small) simp
  then show "sint (block_offset bh) = int (unat (bh_BlockIndex bh) * BLOCK_SIZE)"
    using assms sint_small [of "block_offset bh"] by simp
qed

lemma range_check_iff:
  assumes "unat (bh_BlockIndex bh) < 2 ^ 43" and "unat (bh_DataSize bh) \<le> BLOCK_SIZE"
  shows "block_offset bh + ucast (bh_DataSize bh) \<le> sz
         \<longleftrightarrow> unat (bh_BlockIndex bh) * BLOCK_SIZE + unat (bh_DataSize bh) \<le> unat sz"
  using assms offset_small [OF assms(1)] by (simp add: word_le_nat_alt unat_word_ariths)

text \<open>The code's tests, in their order, as one equation over the specification's terms.\<close>

lemma Process_status:
  assumes "unat (bh_BlockIndex bh) < 2 ^ 43" and "Process P dm fs devno bh cd = (fs', ack, st)"
  shows "st = (case Get dm devno of None \<Rightarrow> INVALID_DEV
     | Some bf \<Rightarrow>
         if unat (bh_DataSize bh) = 0 \<or> BLOCK_SIZE < unat (bh_DataSize bh)
            \<or> unat (bf_size_bytes bf) < unat (bh_BlockIndex bh) * BLOCK_SIZE + unat (bh_DataSize bh)
         then OUT_OF_RANGE
         else case uncompress2 P raw_capacity (take (unat (bh_CompressedSize bh)) cd) of
             None \<Rightarrow> DECOMPRESS_ERROR
           | Some raw \<Rightarrow>
               if length raw \<noteq> unat (bh_DataSize bh) then DECOMPRESS_ERROR
               else if SHA256 P raw \<noteq> bh_Hash bh then HASH_MISMATCH
               else let w = sys_pwrite P (bf_fd bf) raw (int (unat (bh_BlockIndex bh) * BLOCK_SIZE))
                 in if 0 \<le> w \<and> nat w = length raw then OK else WRITE_ERROR)"
proof -
  have z: "bh_DataSize bh = 0 \<longleftrightarrow> unat (bh_DataSize bh) = 0" by (simp add: unat_eq_0)
  have b: "(BLOCK_SIZE < bh_DataSize bh) \<longleftrightarrow> BLOCK_SIZE < unat (bh_DataSize bh)"
    by (simp add: word_less_nat_alt)
  have r: "unat (bh_DataSize bh) \<le> BLOCK_SIZE \<Longrightarrow> bf_size_bytes bf < block_offset bh + ucast (bh_DataSize bh)
    \<longleftrightarrow> unat (bf_size_bytes bf) < unat (bh_BlockIndex bh) * BLOCK_SIZE + unat (bh_DataSize bh)" for bf
    using range_check_iff [OF assms(1), of "bf_size_bytes bf"] by (simp add: not_less [symmetric])
  show ?thesis
    using assms(2)
    by (auto simp: process_cases z b r offset_small(2) [OF assms(1)] ComputeSha256_def not_less
        simp del: unat_eq_0 split: option.splits if_splits)
qed

section \<open>Specification and properties\<close>

text \<open>Ingestion over natural numbers, on a file seen as a list: the intended behaviour.\<close>

definition ingest ::
  "Platform \<Rightarrow> DiskMap \<Rightarrow> files \<Rightarrow> u32 \<Rightarrow> nat \<Rightarrow> nat \<Rightarrow> byte list \<Rightarrow> byte list \<Rightarrow> files \<times> AckStatus" where
  "ingest P dm fs devno idx n hash payload =
     (case Get dm devno of
        None \<Rightarrow> (fs, INVALID_DEV)
      | Some bf \<Rightarrow>
          (if n = 0 \<or> BLOCK_SIZE < n \<or> length (fs (bf_fd bf)) < idx * BLOCK_SIZE + n
          then (fs, OUT_OF_RANGE)
          else (case uncompress2 P raw_capacity payload of
              None \<Rightarrow> (fs, DECOMPRESS_ERROR)
            | Some raw \<Rightarrow>
                if length raw \<noteq> n then (fs, DECOMPRESS_ERROR)
                else if SHA256 P raw \<noteq> hash then (fs, HASH_MISMATCH)
                else
                  let w = sys_pwrite P (bf_fd bf) raw (int (idx * BLOCK_SIZE));
                      stored = take (nat w) raw
                  in (fs(bf_fd bf := overwrite (fs (bf_fd bf)) (idx * BLOCK_SIZE) stored),
                      if w = int n then OK else WRITE_ERROR))))"

text \<open>A concrete platform (the identity codec, a constant digest, a file system that never
  fails) and a device of six bytes, at which the properties are instantiated.\<close>

definition demo_platform :: Platform where
  "demo_platform = \<lparr> uncompress2 = (\<lambda>cap src. if length src \<le> cap then Some src else None),
     SHA256 = (\<lambda>d. replicate 32 7), sys_pwrite = (\<lambda>fd d off. if off < 0 then -1 else int (length d)) \<rparr>"

definition demo_disk :: DiskMap where
  "demo_disk = \<lparr> dm_map = [(0, \<lparr> bf_fd = 3, bf_size_bytes = 6, bf_path = ''/img'' \<rparr>)], dm_open = [3] \<rparr>"

definition demo_files :: files where
  "demo_files = (\<lambda>fd. if fd = 3 then [1, 2, 3, 4, 5, 6] else [])"

definition demo_block :: BlockHeader where
  "demo_block = \<lparr> bh_BlockIndex = 0, bh_DataSize = 4, bh_CompressedSize = 4,
     bh_Hash = replicate 32 7, bh_VersionId = 1 \<rparr>"

lemmas demo_defs = demo_platform_def demo_disk_def demo_files_def demo_block_def

lemma demo_pwrite_ok: "pwrite_ok demo_platform"
  by (simp add: pwrite_ok_def demo_platform_def)

lemma demo_dm_sized: "dm_sized demo_disk demo_files"
  by (simp add: dm_sized_def demo_defs Get_def)

lemma Process_ingest:
  assumes "unat (bh_BlockIndex bh) < 2 ^ 43" and "pwrite_ok P" and "dm_sized dm fs"
    and "ingest P dm fs devno (unat (bh_BlockIndex bh)) (unat (bh_DataSize bh)) (bh_Hash bh)
           (take (unat (bh_CompressedSize bh)) cd) = (fs', st)"
  shows "Process P dm fs devno bh cd =
     (fs', \<lparr> ak_BlockIndex = bh_BlockIndex bh, ak_Status = ack_code st, ak_DevNo = devno,
             ak_Hash = bh_Hash bh \<rparr>, st)"
proof -
  obtain fs1 ack1 st1 where pr: "Process P dm fs devno bh cd = (fs1, ack1, st1)" by (metis prod_cases3)
  note st1 = Process_status [OF assms(1) pr]
  have sz: "length (fs (bf_fd bf)) = unat (bf_size_bytes bf)" if "Get dm devno = Some bf" for bf
    using assms(3) that by (auto simp: dm_sized_def)
  have conv: "w = int n \<longleftrightarrow> 0 \<le> w \<and> nat w = n" for w n by auto
  have st: "st = st1"
    using assms(4) unfolding st1 ingest_def
    by (auto simp: Let_def sz conv simp del: of_nat_unat split: option.splits if_splits)
  have "fs1 = fs'"
  proof (cases "st1 = OK \<or> st1 = WRITE_ERROR")
    case False
    then show ?thesis using Process_no_write [OF pr] assms(4) st
      by (auto simp: ingest_def Let_def split: option.splits if_splits)
  next
    case True
    then obtain bf raw where bf: "Get dm devno = Some bf"
      and ds: "bh_DataSize bh \<noteq> 0" "bh_DataSize bh \<le> BLOCK_SIZE"
      and range: "block_offset bh + ucast (bh_DataSize bh) \<le> bf_size_bytes bf"
      and raw: "uncompress2 P raw_capacity (take (unat (bh_CompressedSize bh)) cd) = Some raw"
      and len: "length raw = unat (bh_DataSize bh)" and hash: "ComputeSha256 P raw = bh_Hash bh"
      and w: "(fs1, sys_pwrite P (bf_fd bf) raw (sint (block_offset bh)))
         = do_pwrite P fs (bf_fd bf) raw (sint (block_offset bh))"
      by (rule Process_write_branch [OF pr])
    define w where "w = sys_pwrite P (bf_fd bf) raw (int (unat (bh_BlockIndex bh) * BLOCK_SIZE))"
    have size: "unat (bh_DataSize bh) \<noteq> 0" "unat (bh_DataSize bh) \<le> BLOCK_SIZE"
      using ds by (auto simp: unat_eq_0 DataSize_le)
    have inside: "unat (bh_BlockIndex bh) * BLOCK_SIZE + unat (bh_DataSize bh) \<le> length (fs (bf_fd bf))"
      using range sz [OF bf] range_check_iff [OF assms(1) size(2)] by simp
    have "nat w \<le> length raw" using assms(2) by (auto simp: pwrite_ok_def w_def nat_le_iff)
    then have fw: "file_write (fs (bf_fd bf)) (unat (bh_BlockIndex bh) * BLOCK_SIZE) (take (nat w) raw)
        = overwrite (fs (bf_fd bf)) (unat (bh_BlockIndex bh) * BLOCK_SIZE) (take (nat w) raw)"
      using inside len by (intro file_write_inside) simp
    have "fs' = fs(bf_fd bf := overwrite (fs (bf_fd bf)) (unat (bh_BlockIndex bh) * BLOCK_SIZE) (take (nat w) raw))"
      using assms(4) bf size inside raw len hash
      unfolding ingest_def by (simp add: Let_def w_def ComputeSha256_def not_less)
    moreover have "fs1 = (if 0 \<le> w then fs(bf_fd bf := file_write (fs (bf_fd bf))
        (unat (bh_BlockIndex bh) * BLOCK_SIZE) (take (nat w) raw)) else fs)"
      using w unfolding offset_small(2) [OF assms(1)] do_pwrite_def Let_def w_def [symmetric]
      by (simp only: nat_int fst_conv prod.inject)
    ultimately show ?thesis by (simp add: fw)
  qed
  then show ?thesis using pr st Process_ack [OF pr] by simp
qed

text \<open>
  C13. For block indices below 2^43 (every file that \<open>off_t\<close> can address) the word arithmetic
  of \<open>Process\<close> implements the specification: same status on every branch, same effect on the
  files; and the acknowledgement echoes device, index and hash with that status.
\<close>

theorem Process_refines_ingest:
  assumes "unat (bh_BlockIndex bh) < 2 ^ 43" and "pwrite_ok P" and "dm_sized dm fs"
    and "ingest P dm fs devno (unat (bh_BlockIndex bh)) (unat (bh_DataSize bh)) (bh_Hash bh)
           (take (unat (bh_CompressedSize bh)) cd) = (fs', st)"
  shows "Process P dm fs devno bh cd =
     (fs', \<lparr> ak_BlockIndex = bh_BlockIndex bh, ak_Status = ack_code st, ak_DevNo = devno,
             ak_Hash = bh_Hash bh \<rparr>, st)"
  by (rule Process_ingest [OF assms])

theorem Process_refines_ingest_witness:
  "Process demo_platform demo_disk demo_files 0 demo_block [9, 8, 7, 6] =
     (demo_files(3 := [9, 8, 7, 6, 5, 6]),
      \<lparr> ak_BlockIndex = 0, ak_Status = 0, ak_DevNo = 0, ak_Hash = replicate 32 7 \<rparr>, OK)"
proof -
  have "ingest demo_platform demo_disk demo_files 0 (unat (bh_BlockIndex demo_block))
          (unat (bh_DataSize demo_block)) (bh_Hash demo_block)
          (take (unat (bh_CompressedSize demo_block)) [9, 8, 7, 6])
        = (demo_files(3 := [9, 8, 7, 6, 5, 6]), OK)"
    by (simp add: ingest_def demo_defs Get_def raw_capacity_def overwrite_def)
  from Process_refines_ingest [OF _ demo_pwrite_ok demo_dm_sized this] show ?thesis
    by (simp add: demo_block_def)
qed

text \<open>
  C24. A block that is acknowledged or refused touches nothing else: for every index, also one
  whose byte offset wraps around, every file keeps its length, other files keep their content,
  and in the device's file only bytes of the range that starts at the 64-bit offset can
  change, to data whose SHA-256 is the announced one.
\<close>

theorem Process_contained:
  assumes "Process P dm fs devno bh cd = (fs', ack, st)" and "pwrite_ok P" and "dm_sized dm fs"
  shows "length (fs' fd) = length (fs fd)
     \<and> (\<forall>i. fs' fd ! i \<noteq> fs fd ! i \<longrightarrow> i < length (fs fd) \<longrightarrow>
          fd = GetFd dm devno \<and> (\<exists>raw. SHA256 P raw = bh_Hash bh \<and> length raw = unat (bh_DataSize bh)
            \<and> unat (block_offset bh) \<le> i \<and> i - unat (block_offset bh) < length raw
            \<and> fs' fd ! i = raw ! (i - unat (block_offset bh))))"
proof (cases "st = OK \<or> st = WRITE_ERROR")
  case False
  then show ?thesis using Process_no_write [OF assms(1)] by auto
next
  case True
  show ?thesis
  proof (cases "fs' fd = fs fd")
    case False
    with Process_write_effect [OF assms(1) True assms(2,3)] obtain bf raw d where
      bf: "Get dm devno = Some bf" and d: "d = take (length d) raw"
      and raw: "length raw = unat (bh_DataSize bh)" "ComputeSha256 P raw = bh_Hash bh"
      and fits: "unat (block_offset bh) + length d \<le> length (fs (bf_fd bf))"
      and fs': "fs' = fs(bf_fd bf := overwrite (fs (bf_fd bf)) (unat (block_offset bh)) d)"
      by auto
    have fd: "fd = bf_fd bf" using False fs' by (auto split: if_splits)
    have "length d \<le> length raw" using d by (metis length_take min.cobounded1)
    moreover have "d ! j = raw ! j" if "j < length d" for j using d that by (metis nth_take)
    moreover have "GetFd dm devno = fd" using bf fd by (simp add: GetFd_def Get_def)
    ultimately show ?thesis
      using fd fits raw by (auto simp: fs' nth_overwrite ComputeSha256_def split: if_splits)
  qed simp
qed

theorem Process_contained_witness:
  "\<exists>fs' ack st. Process demo_platform demo_disk demo_files 0 demo_block [9, 8, 7, 6] = (fs', ack, st)
     \<and> length (fs' 3) = 6"
proof -
  obtain fs' ack st where p: "Process demo_platform demo_disk demo_files 0 demo_block [9, 8, 7, 6] = (fs', ack, st)"
    by (metis prod_cases3)
  from Process_contained [OF p demo_pwrite_ok demo_dm_sized, of 3] have "length (fs' 3) = 6"
    by (simp add: demo_files_def)
  with p show ?thesis by blast
qed

text \<open>
  C40. The byte offset is the index times 2^20 modulo 2^64: a block whose index is 2^44 too
  large passes the range check and is written over the block it aliases, with the same status.
\<close>

theorem Process_index_alias:
  "Process P dm fs devno (bh\<lparr> bh_BlockIndex := bh_BlockIndex bh + 2 ^ 44 \<rparr>) cd =
   (case Process P dm fs devno bh cd of (fs', ack, st) \<Rightarrow>
      (fs', ack\<lparr> ak_BlockIndex := bh_BlockIndex bh + 2 ^ 44 \<rparr>, st))"
proof -
  have off: "block_offset (bh\<lparr> bh_BlockIndex := bh_BlockIndex bh + 2 ^ 44 \<rparr>) = block_offset bh"
    by (simp add: block_offset_def distrib_right)
  show ?thesis
    unfolding Process_def Let_def off
    by (auto split: option.split prod.split)
qed

end
