(* ===== verification/Server_Loop.thy ===== *)
theory Server_Loop
  imports Message_Parser Block_Processor
begin

text \<open>
  The single-threaded \<open>epoll\<close> server, \<open>server/Server.{h,cpp}\<close>. A \<open>Conn\<close> is named by its
  descriptor, the key of \<open>conns_\<close>; a reference \<open>Conn&\<close> of the code is that key. The kernel's
  side of a socket is part of the state: what \<open>send\<close> will answer (\<open>sv_tx\<close>, any script), the
  bytes it has accepted (\<open>sv_sent\<close>) and the registered interest (\<open>sv_epoll\<close>, true when
  \<open>EPOLLOUT\<close> is armed). The flag \<open>sv_uaf\<close> records a read of a \<open>Conn\<close> after \<open>CloseConn\<close>
  destroyed it: the code only reads \<open>c.fd\<close> and log values there, and the model goes on with
  the descriptor the reference was made from.
\<close>

section \<open>State\<close>

definition kRecvBufSize :: nat where
  "kRecvBufSize = 4 * 1024 * 1024"

definition kSendBufSize :: nat where
  "kSendBufSize = 256 * 1024"

record Conn =
  c_fd :: int
  c_devno :: u32
  helloDone :: bool
  recvBuf :: RingBuffer
  sendBuf :: RingBuffer
  blocksReceived :: u64
  bytesWritten :: u64
  conn_errors :: u64

definition Conn_new :: "int \<Rightarrow> Conn" where
  "Conn_new fd = \<lparr> c_fd = fd, c_devno = 0, helloDone = False,
     recvBuf = RingBuffer_new kRecvBufSize, sendBuf = RingBuffer_new kSendBufSize,
     blocksReceived = 0, bytesWritten = 0, conn_errors = 0 \<rparr>"

record Server =
  sv_disk :: DiskMap
  sv_files :: files
  sv_conns :: "int \<rightharpoonup> Conn"
  sv_listenFd :: int
  sv_epollFd :: int
  sv_running :: bool
  sv_epoll :: "int \<rightharpoonup> bool"
  sv_tx :: "int \<Rightarrow> send_result list"
  sv_sent :: "int \<Rightarrow> byte list"
  sv_uaf :: bool

text \<open>Reading a connection through a reference: harmless while it is registered.\<close>

definition touch :: "int \<Rightarrow> Server \<Rightarrow> Server" where
  "touch h s = (if sv_conns s h = None then s\<lparr> sv_uaf := True \<rparr> else s)"

definition set_conn :: "int \<Rightarrow> Conn \<Rightarrow> Server \<Rightarrow> Server" where
  "set_conn h c s = s\<lparr> sv_conns := (sv_conns s)(h \<mapsto> c) \<rparr>"

section \<open>Interest list and closing\<close>

definition EpollAdd :: "int \<Rightarrow> bool \<Rightarrow> Server \<Rightarrow> Server" where
  "EpollAdd fd out s = s\<lparr> sv_epoll := (sv_epoll s)(fd \<mapsto> out) \<rparr>"

text \<open>\<open>EPOLL_CTL_MOD\<close> of a descriptor that is not registered fails and changes nothing.\<close>

definition EpollMod :: "int \<Rightarrow> bool \<Rightarrow> Server \<Rightarrow> Server" where
  "EpollMod fd out s =
     (if sv_epoll s fd = None then s else s\<lparr> sv_epoll := (sv_epoll s)(fd \<mapsto> out) \<rparr>)"

definition CloseConn :: "int \<Rightarrow> Server \<Rightarrow> Server" where
  "CloseConn fd s =
     (case sv_conns s fd of
        None \<Rightarrow> s
      | Some c \<Rightarrow> s\<lparr> sv_epoll := (sv_epoll s)(fd := None), sv_conns := (sv_conns s)(fd := None) \<rparr>)"

definition HandleConnError :: "int \<Rightarrow> Server \<Rightarrow> Server" where
  "HandleConnError h s = CloseConn h (touch h s)"

section \<open>Sending\<close>

datatype send_end = Drained | Blocked | Broken

text \<open>
  The loop of \<open>HandleConnWritable\<close> over the answers of the kernel; a kernel with nothing more
  to say would block. The third component collects the bytes it accepted.
\<close>

fun send_loop ::
  "send_result list \<Rightarrow> RingBuffer \<Rightarrow> byte list \<Rightarrow> RingBuffer \<times> send_result list \<times> byte list \<times> send_end" where
  "send_loop tx b out =
     (if ReadableBytes b = 0 then (b, tx, out, Drained)
      else case tx of
          [] \<Rightarrow> (b, [], out, Blocked)
        | Sent n # tx' \<Rightarrow>
            let k = min n (ReadableBytes b) in
            if 0 < k then send_loop tx' (Consume b k) (out @ take k (ReadPtr b))
            else (b, tx', out, Broken)
        | SendErr e # tx' \<Rightarrow> (b, tx', out, if e = EAGAIN then Blocked else Broken))"

declare send_loop.simps [simp del]

definition HandleConnWritable :: "int \<Rightarrow> Server \<Rightarrow> Server" where
  "HandleConnWritable h s =
     (case sv_conns s h of
        None \<Rightarrow> touch h s
      | Some c \<Rightarrow>
          (case send_loop (sv_tx s h) (sendBuf c) [] of (b, tx', out, e) \<Rightarrow>
             let s1 = (set_conn h (c\<lparr> sendBuf := b \<rparr>) s)
                        \<lparr> sv_tx := (sv_tx s)(h := tx'), sv_sent := (sv_sent s)(h := sv_sent s h @ out) \<rparr>
             in case e of
                  Broken \<Rightarrow> CloseConn h s1
                | Blocked \<Rightarrow> s1
                | Drained \<Rightarrow>
                    let b' = Compact b;
                        s2 = set_conn h (c\<lparr> sendBuf := b' \<rparr>) s1
                    in if ReadableBytes b' = 0 then EpollMod h False s2 else s2))"

definition TryArmWrite :: "int \<Rightarrow> Server \<Rightarrow> Server" where
  "TryArmWrite h s =
     (case sv_conns s h of
        None \<Rightarrow> touch h s
      | Some c \<Rightarrow>
          if 0 < ReadableBytes (sendBuf c) then HandleConnWritable h (EpollMod h True s) else s)"

definition ack_header :: "AckBody \<Rightarrow> MsgHeader" where
  "ack_header ack = \<lparr> mh_Magic = PROTOCOL_MAGIC, mh_Type = msg_code ACK, mh_DevNo = ak_DevNo ack,
                      mh_Reserved = 0 \<rparr>"

definition EnqueueAck :: "int \<Rightarrow> AckBody \<Rightarrow> Server \<Rightarrow> Server" where
  "EnqueueAck h ack s =
     (case sv_conns s h of
        None \<Rightarrow> touch h s
      | Some c \<Rightarrow>
          let b = Append (Append (sendBuf c) (MsgHeader_bytes (ack_header ack))) (AckBody_bytes ack)
          in TryArmWrite h (set_conn h (c\<lparr> sendBuf := b \<rparr>) s))"

section \<open>Message handlers\<close>

text \<open>\<open>AckBody ack{}\<close> with device and status filled in.\<close>

definition plain_ack :: "u32 \<Rightarrow> AckStatus \<Rightarrow> AckBody" where
  "plain_ack devno st =
     \<lparr> ak_BlockIndex = 0, ak_Status = ack_code st, ak_DevNo = devno, ak_Hash = replicate 32 0 \<rparr>"

definition reject :: "int \<Rightarrow> AckBody \<Rightarrow> Server \<Rightarrow> Server" where
  "reject h ack s = CloseConn h (touch h (EnqueueAck h ack s))"

definition HandleHello :: "int \<Rightarrow> MsgHeader \<Rightarrow> byte list \<Rightarrow> Server \<Rightarrow> Server" where
  "HandleHello h hdr body s =
     (case sv_conns s h of
        None \<Rightarrow> touch h s
      | Some c \<Rightarrow>
          if helloDone c then s
          else if length body < unat HELLO_BODY_SIZE then reject h (plain_ack (mh_DevNo hdr) INVALID_DEV) s
          else
            let hb = HelloBody_of (take 88 body) in
            (case Get (sv_disk s) (hb_DevNo hb) of
               None \<Rightarrow> reject h (plain_ack (hb_DevNo hb) INVALID_DEV) s
             | Some bf \<Rightarrow>
                 if bf_size_bytes bf < hb_TotalSize hb then reject h (plain_ack (hb_DevNo hb) OUT_OF_RANGE) s
                 else touch h (EnqueueAck h (plain_ack (hb_DevNo hb) OK)
                        (set_conn h (c\<lparr> c_devno := hb_DevNo hb, helloDone := True \<rparr>) s))))"

definition HandleDataBlock :: "Platform \<Rightarrow> int \<Rightarrow> MsgHeader \<Rightarrow> byte list \<Rightarrow> Server \<Rightarrow> Server" where
  "HandleDataBlock P h hdr body s =
     (case sv_conns s h of
        None \<Rightarrow> touch h s
      | Some c \<Rightarrow>
          if \<not> helloDone c then CloseConn h s
          else if length body < unat BLOCK_HEADER_SIZE then s
          else
            let bh = BlockHeader_of (take 52 body) in
            if length body < unat (BLOCK_HEADER_SIZE + bh_CompressedSize bh) then s
            else
              let compressed = drop (unat BLOCK_HEADER_SIZE) body in
              (case Process P (sv_disk s) (sv_files s) (mh_DevNo hdr) bh compressed of (fs', ack, st) \<Rightarrow>
                 let c1 = c\<lparr> blocksReceived := blocksReceived c + 1 \<rparr>;
                     c2 = (if st = OK then c1\<lparr> bytesWritten := bytesWritten c1 + ucast (bh_DataSize bh) \<rparr>
                           else c1\<lparr> conn_errors := conn_errors c1 + 1 \<rparr>)
                 in EnqueueAck h ack ((set_conn h c2 s)\<lparr> sv_files := fs' \<rparr>)))"

definition HandleBye :: "int \<Rightarrow> MsgHeader \<Rightarrow> Server \<Rightarrow> Server" where
  "HandleBye h hdr s = reject h (plain_ack (mh_DevNo hdr) OK) (touch h s)"

text \<open>The \<open>switch\<close> of \<open>ProcessMessages\<close>.\<close>

definition dispatch :: "Platform \<Rightarrow> int \<Rightarrow> ParsedMessage \<Rightarrow> Server \<Rightarrow> Server" where
  "dispatch P h m s =
     (case msg_type_of (mh_Type (pm_header m)) of
        Some HELLO \<Rightarrow> HandleHello h (pm_header m) (pm_body m) s
      | Some DATA_BLOCK \<Rightarrow> HandleDataBlock P h (pm_header m) (pm_body m) s
      | Some BYE \<Rightarrow> HandleBye h (pm_header m) s
      | Some ACK \<Rightarrow> s
      | Some ERROR \<Rightarrow> s
      | None \<Rightarrow> s)"

text \<open>Replacing the receive buffer of a connection; no handler looks at it.\<close>

definition set_recv :: "int \<Rightarrow> RingBuffer \<Rightarrow> Server \<Rightarrow> Server" where
  "set_recv h b s = (case sv_conns s h of None \<Rightarrow> s | Some c \<Rightarrow> set_conn h (c\<lparr> recvBuf := b \<rparr>) s)"

lemma recv_swap:
  "c\<lparr> recvBuf := b, sendBuf := x \<rparr> = c\<lparr> sendBuf := x, recvBuf := b \<rparr>"
  "c\<lparr> recvBuf := b, c_devno := d \<rparr> = c\<lparr> c_devno := d, recvBuf := b \<rparr>"
  "c\<lparr> recvBuf := b, helloDone := k \<rparr> = c\<lparr> helloDone := k, recvBuf := b \<rparr>"
  "c\<lparr> recvBuf := b, blocksReceived := n \<rparr> = c\<lparr> blocksReceived := n, recvBuf := b \<rparr>"
  "c\<lparr> recvBuf := b, bytesWritten := n \<rparr> = c\<lparr> bytesWritten := n, recvBuf := b \<rparr>"
  "c\<lparr> recvBuf := b, conn_errors := n \<rparr> = c\<lparr> conn_errors := n, recvBuf := b \<rparr>"
  by (cases c; simp)+

lemma set_recv_simps [simp]:
  "sv_disk (set_recv h b s) = sv_disk s" "sv_files (set_recv h b s) = sv_files s"
  "sv_epoll (set_recv h b s) = sv_epoll s" "sv_tx (set_recv h b s) = sv_tx s"
  "sv_sent (set_recv h b s) = sv_sent s" "sv_uaf (set_recv h b s) = sv_uaf s"
  "sv_conns (set_recv h b s) h = map_option (\<lambda>c. c\<lparr> recvBuf := b \<rparr>) (sv_conns s h)"
  by (simp_all add: set_recv_def set_conn_def split: option.split)

lemma set_recv_None: "sv_conns s h = None \<Longrightarrow> set_recv h b s = s"
  by (simp add: set_recv_def)

lemma set_recv_set_conn: "set_recv h b (set_conn h c s) = set_conn h (c\<lparr> recvBuf := b \<rparr>) s"
  by (simp add: set_recv_def set_conn_def)

lemma set_conn_set_recv: "sv_conns s h \<noteq> None \<Longrightarrow> set_conn h c (set_recv h b s) = set_conn h c s"
  by (auto simp: set_recv_def set_conn_def)

lemma touch_set_recv: "touch h (set_recv h b s) = set_recv h b (touch h s)"
  by (auto simp: touch_def set_recv_def set_conn_def split: option.split)

lemma EpollMod_set_recv: "EpollMod h v (set_recv h b s) = set_recv h b (EpollMod h v s)"
  by (auto simp: EpollMod_def set_recv_def set_conn_def split: option.split)

lemma CloseConn_set_recv: "CloseConn h (set_recv h b s) = CloseConn h s"
  by (auto simp: CloseConn_def set_recv_def set_conn_def split: option.split)

lemma set_recv_CloseConn [simp]: "set_recv h b (CloseConn h s) = CloseConn h s"
  by (auto simp: CloseConn_def set_recv_def split: option.split)

lemma HandleConnWritable_set_recv:
  "HandleConnWritable h (set_recv h b s) = set_recv h b (HandleConnWritable h s)"
proof (cases "sv_conns s h")
  case None
  then show ?thesis by (simp add: HandleConnWritable_def set_recv_None touch_def set_recv_def)
next
  case (Some c)
  then show ?thesis
    by (auto simp: HandleConnWritable_def set_recv_def set_conn_def CloseConn_def EpollMod_def Let_def recv_swap
        split: prod.split send_end.split)
qed

lemma TryArmWrite_set_recv: "TryArmWrite h (set_recv h b s) = set_recv h b (TryArmWrite h s)"
  by (cases "sv_conns s h")
    (auto simp: TryArmWrite_def HandleConnWritable_set_recv EpollMod_set_recv touch_set_recv)

lemma EnqueueAck_set_recv: "EnqueueAck h a (set_recv h b s) = set_recv h b (EnqueueAck h a s)"
proof (cases "sv_conns s h")
  case None
  then show ?thesis by (simp add: EnqueueAck_def touch_set_recv)
next
  case (Some c)
  then show ?thesis
    by (simp add: EnqueueAck_def Let_def set_conn_set_recv TryArmWrite_set_recv [symmetric] set_recv_set_conn recv_swap)
qed

lemma reject_set_recv: "reject h a (set_recv h b s) = set_recv h b (reject h a s)"
  by (simp add: reject_def EnqueueAck_set_recv touch_set_recv CloseConn_set_recv)

lemma set_recv_files: "(set_recv h b s)\<lparr> sv_files := fs \<rparr> = set_recv h b (s\<lparr> sv_files := fs \<rparr>)"
  by (simp add: set_recv_def set_conn_def split: option.split)

lemma HandleHello_set_recv: "HandleHello h hdr body (set_recv h b s) = set_recv h b (HandleHello h hdr body s)"
proof (cases "sv_conns s h")
  case None
  then show ?thesis by (simp add: HandleHello_def touch_set_recv)
next
  case (Some c)
  then show ?thesis
    by (simp add: HandleHello_def Let_def set_conn_set_recv reject_set_recv EnqueueAck_set_recv [symmetric]
        touch_set_recv [symmetric] set_recv_set_conn recv_swap split: option.split)
qed

lemma HandleDataBlock_set_recv:
  "HandleDataBlock P h hdr body (set_recv h b s) = set_recv h b (HandleDataBlock P h hdr body s)"
proof (cases "sv_conns s h")
  case None
  then show ?thesis by (simp add: HandleDataBlock_def touch_set_recv)
next
  case (Some c)
  then show ?thesis
    by (simp add: HandleDataBlock_def Let_def CloseConn_set_recv set_conn_set_recv
        EnqueueAck_set_recv [symmetric] set_recv_files [symmetric] set_recv_set_conn recv_swap split: prod.split)
qed

lemma dispatch_set_recv: "dispatch P h m (set_recv h b s) = set_recv h b (dispatch P h m s)"
  by (simp add: dispatch_def HandleHello_set_recv HandleDataBlock_set_recv HandleBye_def reject_set_recv
      touch_set_recv split: option.split MessageType.split)

lemma set_recv_self: "sv_conns s h = Some c \<Longrightarrow> set_recv h (recvBuf c) s = s"
  by (simp add: set_recv_def set_conn_def fun_upd_idem)

text \<open>A handler that leaves the connection open leaves its receive buffer alone.\<close>

lemma dispatch_recvBuf:
  assumes "sv_conns s h = Some c" and "sv_conns (dispatch P h m s) h = Some c'"
  shows "recvBuf c' = recvBuf c"
proof -
  have "dispatch P h m s = set_recv h (recvBuf c) (dispatch P h m s)"
    using dispatch_set_recv [of P h m "recvBuf c" s] assms(1) by (simp add: set_recv_self)
  then have "sv_conns (dispatch P h m s) h = map_option (\<lambda>c'. c'\<lparr> recvBuf := recvBuf c \<rparr>) (sv_conns (dispatch P h m s) h)"
    by (metis set_recv_simps(7))
  then show ?thesis using assms(2)
    by (metis (no_types, lifting) Conn.select_convs(4) Conn.surjective Conn.update_convs(4) option.simps(9) option.inject)
qed

section \<open>The message loop\<close>

definition ParsedMessage_zero :: ParsedMessage where
  "ParsedMessage_zero =
     \<lparr> pm_header = \<lparr> mh_Magic = 0, mh_Type = 0, mh_DevNo = 0, mh_Reserved = 0 \<rparr>, pm_body = [] \<rparr>"

text \<open>
  \<open>ProcessMessages\<close>: the test \<open>conns_.find(c.fd)\<close> after the handler reads the connection the
  handler may have destroyed, hence the \<open>touch\<close>.
\<close>

function ProcessMessages :: "Platform \<Rightarrow> int \<Rightarrow> Server \<Rightarrow> Server" where
  "ProcessMessages P h s =
     (case sv_conns s h of
        None \<Rightarrow> touch h s
      | Some c \<Rightarrow>
          (case TryParse (recvBuf c) ParsedMessage_zero of (r, msg, diag) \<Rightarrow>
             (case r of
                kNeedMore \<Rightarrow> s
              | kBadMagic \<Rightarrow> ProcessMessages P h (set_recv h (Compact (Consume (recvBuf c) 1)) s)
              | kInvalidType \<Rightarrow> ProcessMessages P h (set_recv h (Compact (Consume (recvBuf c) 1)) s)
              | kOversizeBlock \<Rightarrow> CloseConn h s
              | kOk \<Rightarrow>
                  let total = unat HEADER_SIZE + length (pm_body msg);
                      s1 = touch h (dispatch P h msg s)
                  in (case sv_conns s1 h of
                        None \<Rightarrow> s1
                      | Some c1 \<Rightarrow>
                          ProcessMessages P h (set_recv h (Compact (Consume (recvBuf c1) total)) s1)))))"
  by auto

lemma ReadableBytes_Consume: "ReadableBytes (Consume b n) = ReadableBytes b - n"
  by (auto simp: ReadableBytes_def Consume_def min_def)

lemma ReadableBytes_Compact [simp]: "ReadableBytes (Compact b) = ReadableBytes b"
  by (simp add: ReadableBytes_def Compact_def Let_def)

lemma TryParse_decided: "TryParse b m0 = (r, m, d) \<Longrightarrow> r \<noteq> kNeedMore \<Longrightarrow> 16 \<le> ReadableBytes b"
  by (auto simp: TryParse_def TryParse_at_def Let_def split: if_splits)

lemma sv_conns_touch [simp]: "sv_conns (touch h s) = sv_conns s"
  by (simp add: touch_def)

definition pending_bytes :: "int \<Rightarrow> Server \<Rightarrow> nat" where
  "pending_bytes h s = (case sv_conns s h of None \<Rightarrow> 0 | Some c \<Rightarrow> ReadableBytes (recvBuf c))"

lemma pending_bytes_set_recv:
  "sv_conns s h \<noteq> None \<Longrightarrow> pending_bytes h (set_recv h b s) = ReadableBytes b"
  by (auto simp: pending_bytes_def)

lemma pending_bytes_decrease:
  assumes "sv_conns s h = Some c" and "(r, m, d) = TryParse (recvBuf c) m0" and "r \<noteq> kNeedMore"
    and "sv_conns s' h = Some c'" and "recvBuf c' = recvBuf c" and "0 < n"
  shows "pending_bytes h (set_recv h (Compact (Consume (recvBuf c') n)) s') < pending_bytes h s"
proof -
  have "16 \<le> ReadableBytes (recvBuf c)" using TryParse_decided [OF assms(2) [symmetric] assms(3)] .
  with assms show ?thesis
    by (simp add: pending_bytes_set_recv ReadableBytes_Consume) (simp add: pending_bytes_def)
qed

termination ProcessMessages
  by (relation "measure (\<lambda>(P, h, s). pending_bytes h s)")
    (auto intro!: pending_bytes_decrease dest: dispatch_recvBuf)

declare ProcessMessages.simps [simp del]

section \<open>Receiving\<close>

text \<open>
  The answers of successive \<open>recv\<close> calls on one socket; a segment larger than the offered
  room is delivered in parts, and a kernel with nothing more to say would block.
\<close>

fun recv_next :: "recv_result list \<Rightarrow> nat \<Rightarrow> recv_result" where
  "recv_next [] n = RecvErr EAGAIN"
| "recv_next (Received d # rx) n = Received (take n d)"
| "recv_next (RecvErr e # rx) n = RecvErr e"

fun recv_rest :: "recv_result list \<Rightarrow> io_ret \<Rightarrow> recv_result list" where
  "recv_rest (Received d # rx) (Bytes k) = (if k < length d then Received (drop k d) # rx else rx)"
| "recv_rest (RecvErr e # rx) (Failed e') = rx"
| "recv_rest rx r = rx"

fun rx_size :: "recv_result list \<Rightarrow> nat" where
  "rx_size [] = 0"
| "rx_size (Received d # rx) = Suc (length d) + rx_size rx"
| "rx_size (RecvErr e # rx) = Suc (rx_size rx)"

lemma WriteFromFd_Bytes:
  assumes "WriteFromFd (recv_next rx) b = (b', Bytes (Suc n))"
  shows "\<exists>d rx'. rx = Received d # rx' \<and> Suc n \<le> length d"
  using assms by (cases rx rule: recv_next.cases [of "(rx, 0)" for rx, simplified])
    (auto simp: WriteFromFd_def Let_def split: if_splits recv_result.splits)

function HandleConnReadable :: "Platform \<Rightarrow> int \<Rightarrow> recv_result list \<Rightarrow> Server \<Rightarrow> Server" where
  "HandleConnReadable P h rx s =
     (case sv_conns s h of
        None \<Rightarrow> touch h s
      | Some c \<Rightarrow>
          (case WriteFromFd (recv_next rx) (recvBuf c) of (b, n) \<Rightarrow>
             let s1 = set_recv h b s in
             (case n of
                Bytes (Suc k) \<Rightarrow>
                  let s2 = ProcessMessages P h s1 in
                  if sv_conns s2 h = None then s2
                  else HandleConnReadable P h (recv_rest rx (Bytes (Suc k))) s2
              | Bytes 0 \<Rightarrow> CloseConn h s1
              | Failed e \<Rightarrow> if e = EAGAIN then ProcessMessages P h s1 else CloseConn h s1)))"
  by auto

lemma rx_size_decrease:
  "(b', Bytes (Suc n)) = WriteFromFd (recv_next rx) b \<Longrightarrow> rx_size (recv_rest rx (Bytes (Suc n))) < rx_size rx"
  using WriteFromFd_Bytes [of rx b b' n] by auto

termination HandleConnReadable
  by (relation "measure (\<lambda>(P, h, rx, s). rx_size rx)") (auto intro: rx_size_decrease)

declare HandleConnReadable.simps [simp del]

section \<open>Accepting, events, stopping\<close>

text \<open>The answers of \<open>accept4\<close>; a negative one ends the loop. A new socket has sent nothing.\<close>

fun HandleAccept :: "int list \<Rightarrow> Server \<Rightarrow> Server" where
  "HandleAccept [] s = s"
| "HandleAccept (cfd # cfds) s =
     (if cfd < 0 then s
      else HandleAccept cfds
             (EpollAdd cfd False ((set_conn cfd (Conn_new cfd) s)\<lparr> sv_sent := (sv_sent s)(cfd := []) \<rparr>)))"

definition Stop :: "Server \<Rightarrow> Server" where
  "Stop s =
     (if \<not> sv_running s then s
      else s\<lparr> sv_running := False, sv_conns := Map.empty, sv_epoll := Map.empty,
              sv_listenFd := -1, sv_epollFd := -1 \<rparr>)"

text \<open>One event of \<open>epoll_wait\<close>, with what the kernel answers to the calls made for it.\<close>

record Event =
  ev_fd :: int
  ev_err :: bool
  ev_in :: bool
  ev_out :: bool
  ev_accepts :: "int list"
  ev_rx :: "recv_result list"

definition run_event :: "Platform \<Rightarrow> Event \<Rightarrow> Server \<Rightarrow> Server" where
  "run_event P ev s =
     (let fd = ev_fd ev in
      if fd = sv_listenFd s then HandleAccept (ev_accepts ev) s
      else case sv_conns s fd of
          None \<Rightarrow> s
        | Some c \<Rightarrow>
            if ev_err ev then HandleConnError fd s
            else
              let s1 = (if ev_in ev then HandleConnReadable P fd (ev_rx ev) s else s) in
              if sv_conns s1 fd = None then s1
              else if ev_out ev then HandleConnWritable fd s1 else s1)"

text \<open>
  The outcomes of successive \<open>epoll_wait\<close> calls: events, an interruption (by the stop signal,
  whose handler calls \<open>Stop\<close>, or another one), or a failure, which ends the loop.
\<close>

datatype poll_result = Polled "Event list" | Interrupted bool | PollFailed

fun Run :: "Platform \<Rightarrow> poll_result list \<Rightarrow> Server \<Rightarrow> Server" where
  "Run P [] s = s"
| "Run P (r # rs) s =
     (if \<not> sv_running s then s
      else case r of
          Polled evs \<Rightarrow> Run P rs (fold (run_event P) evs s)
        | Interrupted stop \<Rightarrow> Run P rs (if stop then Stop s else s)
        | PollFailed \<Rightarrow> s)"

end
