(* ===== verification/Server_Correct.thy ===== *)
theory Server_Correct
  imports Server_Loop
begin

text \<open>
  Correctness of the server loop. First what sending does to the state (every acknowledgement
  goes through it), then the invariant and its preservation by every operation up to \<open>Run\<close>,
  then the refinement of the buffered, segmented loop to a function on the byte stream, and
  the protocol-level behaviour of that function.
\<close>

section \<open>Sending\<close>

text \<open>A socket that stays healthy: \<open>send\<close> makes progress or would block.\<close>

definition tx_ok :: "send_result list \<Rightarrow> bool" where
  "tx_ok tx \<longleftrightarrow> (\<forall>r \<in> set tx. r \<noteq> Sent 0 \<and> (\<forall>e. r = SendErr e \<longrightarrow> e = EAGAIN))"

lemma send_loop_effect:
  assumes "send_loop tx b out = (b', tx', out', e)" and "rb_wf b"
  shows "rb_wf b' \<and> out' @ ReadPtr b' = out @ ReadPtr b \<and> set tx' \<subseteq> set tx
     \<and> (e = Drained \<longleftrightarrow> ReadableBytes b' = 0) \<and> (e = Broken \<longrightarrow> \<not> tx_ok tx)"
  using assms
proof (induction tx b out rule: send_loop.induct)
  case (1 tx b out)
  show ?case
  proof (cases "ReadableBytes b = 0")
    case True
    then show ?thesis using 1 by (auto simp: send_loop.simps [of tx])
  next
    case nz: False
    show ?thesis
    proof (cases "\<exists>n tx1. tx = Sent n # tx1 \<and> 0 < n")
      case True
      then obtain n tx1 where tx: "tx = Sent n # tx1" "0 < n" by blast
      define k where "k = min n (ReadableBytes b)"
      have k: "0 < k" using tx nz by (simp add: k_def)
      have eq: "send_loop tx b out = send_loop tx1 (Consume b k) (out @ take k (ReadPtr b))"
        using nz tx k by (subst send_loop.simps) (simp add: Let_def k_def)
      have "rb_wf (Consume b k)" using "1.prems" by (simp add: Consume_wf)
      from "1.IH" [OF nz tx(1) refl k_def k _ this] eq "1.prems"
      have "rb_wf b' \<and> out' @ ReadPtr b' = (out @ take k (ReadPtr b)) @ ReadPtr (Consume b k)
        \<and> set tx' \<subseteq> set tx1 \<and> (e = Drained \<longleftrightarrow> ReadableBytes b' = 0) \<and> (e = Broken \<longrightarrow> \<not> tx_ok tx1)"
        by (simp add: k_def)
      then show ?thesis using "1.prems" tx by (auto simp: Consume_ReadPtr tx_ok_def)
    next
      case False
      then show ?thesis
        using 1 nz
        by (auto simp: send_loop.simps [of tx] tx_ok_def split: list.splits send_result.splits if_splits)
    qed
  qed
qed

text \<open>
  The two outcomes of a send on a connection: it stays, with the queue and the kernel sharing
  the same bytes in order, or the socket was broken and the connection is gone.
\<close>

definition send_open :: "int \<Rightarrow> Conn \<Rightarrow> byte list \<Rightarrow> Server \<Rightarrow> Server \<Rightarrow> bool" where
  "send_open h c stream s s' \<longleftrightarrow> (\<exists>b tx' out. rb_wf b \<and> out @ ReadPtr b = stream
     \<and> set tx' \<subseteq> set (sv_tx s h)
     \<and> s' = s\<lparr> sv_conns := (sv_conns s)(h \<mapsto> c\<lparr> sendBuf := b \<rparr>),
               sv_epoll := (sv_epoll s)(h \<mapsto> 0 < ReadableBytes b),
               sv_tx := (sv_tx s)(h := tx'), sv_sent := (sv_sent s)(h := sv_sent s h @ out) \<rparr>)"

definition send_closed :: "int \<Rightarrow> Server \<Rightarrow> Server \<Rightarrow> bool" where
  "send_closed h s s' \<longleftrightarrow> \<not> tx_ok (sv_tx s h) \<and> (\<exists>tx' out.
     s' = s\<lparr> sv_conns := (sv_conns s)(h := None), sv_epoll := (sv_epoll s)(h := None),
             sv_tx := (sv_tx s)(h := tx'), sv_sent := (sv_sent s)(h := sv_sent s h @ out) \<rparr>)"

lemma HandleConnWritable_cases:
  assumes "sv_conns s h = Some c" and "rb_wf (sendBuf c)" and "sv_epoll s h = Some a"
    and "0 < ReadableBytes (sendBuf c) \<Longrightarrow> a"
  shows "send_open h c (ReadPtr (sendBuf c)) s (HandleConnWritable h s)
         \<or> send_closed h s (HandleConnWritable h s)"
proof -
  obtain b tx' out e where sl: "send_loop (sv_tx s h) (sendBuf c) [] = (b, tx', out, e)"
    by (metis prod_cases4)
  from send_loop_effect [OF sl assms(2)] have
    eff: "rb_wf b" "out @ ReadPtr b = ReadPtr (sendBuf c)" "set tx' \<subseteq> set (sv_tx s h)"
      "e = Drained \<longleftrightarrow> ReadableBytes b = 0" "e = Broken \<longrightarrow> \<not> tx_ok (sv_tx s h)" by simp_all
  have same: "ReadableBytes b = 0 \<longrightarrow> e = Drained" "0 < ReadableBytes b \<longrightarrow> a"
    using eff(4) assms(2,4) eff(1) eff(2)
    by (simp, metis append_is_Nil_conv length_greater_0_conv length_ReadPtr)
  show ?thesis
  proof (cases e)
    case Broken
    then have "HandleConnWritable h s = s\<lparr> sv_conns := (sv_conns s)(h := None),
        sv_epoll := (sv_epoll s)(h := None), sv_tx := (sv_tx s)(h := tx'),
        sv_sent := (sv_sent s)(h := sv_sent s h @ out) \<rparr>"
      using assms(1) sl
      by (intro Server.equality) (simp_all add: HandleConnWritable_def Let_def CloseConn_def set_conn_def)
    then show ?thesis using Broken eff(5) by (auto simp: send_closed_def)
  next
    case Blocked
    then have "HandleConnWritable h s = s\<lparr> sv_conns := (sv_conns s)(h \<mapsto> c\<lparr> sendBuf := b \<rparr>),
               sv_epoll := (sv_epoll s)(h \<mapsto> 0 < ReadableBytes b),
               sv_tx := (sv_tx s)(h := tx'), sv_sent := (sv_sent s)(h := sv_sent s h @ out) \<rparr>"
      using assms(1,3) sl eff(4) same
      by (intro Server.equality) (simp_all add: HandleConnWritable_def Let_def set_conn_def fun_upd_idem)
    then show ?thesis using eff by (auto simp: send_open_def)
  next
    case Drained
    have "HandleConnWritable h s = s\<lparr> sv_conns := (sv_conns s)(h \<mapsto> c\<lparr> sendBuf := Compact b \<rparr>),
               sv_epoll := (sv_epoll s)(h \<mapsto> 0 < ReadableBytes (Compact b)),
               sv_tx := (sv_tx s)(h := tx'), sv_sent := (sv_sent s)(h := sv_sent s h @ out) \<rparr>"
      using assms(1,3) sl eff(4) Drained
      by (intro Server.equality) (simp_all add: HandleConnWritable_def Let_def set_conn_def EpollMod_def)
    then show ?thesis using eff
      unfolding send_open_def by (intro disjI1 exI [of _ "Compact b"]) (auto simp: Compact_wf Compact_ReadPtr)
  qed
qed

definition ack_bytes :: "AckBody \<Rightarrow> byte list" where
  "ack_bytes a = MsgHeader_bytes (ack_header a) @ AckBody_bytes a"

lemma EnqueueAck_cases:
  assumes "sv_conns s h = Some c" and "rb_wf (sendBuf c)" and "sv_epoll s h = Some a"
  shows "send_open h c (ReadPtr (sendBuf c) @ ack_bytes ack) s (EnqueueAck h ack s)
         \<or> send_closed h s (EnqueueAck h ack s)"
proof -
  define b where "b = Append (Append (sendBuf c) (MsgHeader_bytes (ack_header ack))) (AckBody_bytes ack)"
  have b: "rb_wf b" "ReadPtr b = ReadPtr (sendBuf c) @ ack_bytes ack"
    using assms(2) by (simp_all add: b_def ack_bytes_def stream_simps)
  have pos: "0 < ReadableBytes b" using b by (simp add: ack_bytes_def flip: length_ReadPtr)
  define s1 where "s1 = EpollMod h True (set_conn h (c\<lparr> sendBuf := b \<rparr>) s)"
  have s1: "s1 = s\<lparr> sv_conns := (sv_conns s)(h \<mapsto> c\<lparr> sendBuf := b \<rparr>), sv_epoll := (sv_epoll s)(h \<mapsto> True) \<rparr>"
    using assms(3) by (simp add: s1_def EpollMod_def set_conn_def)
  have "EnqueueAck h ack s = HandleConnWritable h s1"
    using assms(1) pos
    by (simp add: EnqueueAck_def Let_def b_def [symmetric] TryArmWrite_def s1_def set_conn_def)
  with HandleConnWritable_cases [of s1 h "c\<lparr> sendBuf := b \<rparr>" True] s1 b
  show ?thesis by (auto simp: send_open_def send_closed_def)
qed

section \<open>Invariant\<close>

definition conn_wf :: "DiskMap \<Rightarrow> int \<Rightarrow> Conn \<Rightarrow> bool" where
  "conn_wf dm h c \<longleftrightarrow> c_fd c = h \<and> rb_wf (recvBuf c) \<and> rb_wf (sendBuf c)
     \<and> length (rb_buf (recvBuf c)) = kRecvBufSize \<and> (helloDone c \<longrightarrow> Contains dm (c_devno c))"

text \<open>
  Every connection is well formed and registered; one with queued bytes has \<open>EPOLLOUT\<close> armed,
  so no wake-up is lost; nothing but connections and the listening socket is registered; the
  device table describes the files.
\<close>

definition srv_ok :: "Server \<Rightarrow> bool" where
  "srv_ok s \<longleftrightarrow> dm_sized (sv_disk s) (sv_files s)
     \<and> (\<forall>h c. sv_conns s h = Some c \<longrightarrow> conn_wf (sv_disk s) h c
          \<and> (\<exists>a. sv_epoll s h = Some a \<and> (0 < ReadableBytes (sendBuf c) \<longrightarrow> a)))
     \<and> (\<forall>h. sv_conns s h = None \<longrightarrow> h \<noteq> sv_listenFd s \<longrightarrow> sv_epoll s h = None)"

lemma srv_ok_conn: "srv_ok s \<Longrightarrow> sv_conns s h = Some c \<Longrightarrow> conn_wf (sv_disk s) h c"
  by (simp add: srv_ok_def)

lemma srv_ok_epoll:
  "srv_ok s \<Longrightarrow> sv_conns s h = Some c \<Longrightarrow> \<exists>a. sv_epoll s h = Some a \<and> (0 < ReadableBytes (sendBuf c) \<longrightarrow> a)"
  by (simp add: srv_ok_def)

lemma srv_ok_touch [simp]: "srv_ok (touch h s) \<longleftrightarrow> srv_ok s"
  by (simp add: srv_ok_def touch_def)

lemma srv_ok_CloseConn: "srv_ok s \<Longrightarrow> srv_ok (CloseConn h s)"
  by (auto simp: srv_ok_def CloseConn_def split: option.split)

lemma srv_ok_set_conn:
  "srv_ok s \<Longrightarrow> sv_conns s h = Some c \<Longrightarrow> conn_wf (sv_disk s) h c' \<Longrightarrow> sendBuf c' = sendBuf c
   \<Longrightarrow> srv_ok (set_conn h c' s)"
  by (auto simp: srv_ok_def set_conn_def)

lemma srv_ok_send:
  assumes "srv_ok s" and "sv_conns s h = Some c" and "send_open h c str s s' \<or> send_closed h s s'"
  shows "srv_ok s'"
  using assms(3)
proof
  assume "send_open h c str s s'"
  then obtain b tx' out where b: "rb_wf b" and s': "s' = s\<lparr> sv_conns := (sv_conns s)(h \<mapsto> c\<lparr> sendBuf := b \<rparr>),
      sv_epoll := (sv_epoll s)(h \<mapsto> 0 < ReadableBytes b),
      sv_tx := (sv_tx s)(h := tx'), sv_sent := (sv_sent s)(h := sv_sent s h @ out) \<rparr>"
    by (auto simp: send_open_def)
  have "conn_wf (sv_disk s) h (c\<lparr> sendBuf := b \<rparr>)"
    using srv_ok_conn [OF assms(1,2)] b by (simp add: conn_wf_def)
  then show ?thesis using assms(1) by (auto simp: s' srv_ok_def)
next
  assume "send_closed h s s'"
  then show ?thesis using assms(1) by (auto simp: send_closed_def srv_ok_def split: if_splits)
qed

lemma srv_ok_HandleConnWritable: "srv_ok s \<Longrightarrow> srv_ok (HandleConnWritable h s)"
proof (cases "sv_conns s h")
  case (Some c)
  assume ok: "srv_ok s"
  have b: "rb_wf (sendBuf c)" using srv_ok_conn [OF ok Some] by (simp add: conn_wf_def)
  from srv_ok_epoll [OF ok Some] obtain a
    where a: "sv_epoll s h = Some a \<and> (0 < ReadableBytes (sendBuf c) \<longrightarrow> a)" ..
  from srv_ok_send [OF ok Some HandleConnWritable_cases [OF Some b a [THEN conjunct1] a [THEN conjunct2, rule_format]]]
  show ?thesis .
qed (simp add: HandleConnWritable_def)

lemma srv_ok_EnqueueAck: "srv_ok s \<Longrightarrow> srv_ok (EnqueueAck h ack s)"
proof (cases "sv_conns s h")
  case (Some c)
  assume ok: "srv_ok s"
  have b: "rb_wf (sendBuf c)" using srv_ok_conn [OF ok Some] by (simp add: conn_wf_def)
  from srv_ok_epoll [OF ok Some] obtain a
    where a: "sv_epoll s h = Some a \<and> (0 < ReadableBytes (sendBuf c) \<longrightarrow> a)" ..
  from srv_ok_send [OF ok Some EnqueueAck_cases [OF Some b a [THEN conjunct1]]] show ?thesis .
qed (simp add: EnqueueAck_def)

lemma srv_ok_reject: "srv_ok s \<Longrightarrow> srv_ok (reject h ack s)"
  by (simp add: reject_def srv_ok_CloseConn srv_ok_EnqueueAck)

lemma srv_ok_HandleHello: "srv_ok s \<Longrightarrow> srv_ok (HandleHello h hdr body s)"
proof (cases "sv_conns s h")
  case (Some c)
  assume ok: "srv_ok s"
  have "srv_ok (set_conn h (c\<lparr> c_devno := d, helloDone := True \<rparr>) s)" if "Get (sv_disk s) d = Some bf" for d bf
    using srv_ok_conn [OF ok Some] that
    by (intro srv_ok_set_conn [OF ok Some]) (auto simp: conn_wf_def Contains_def Get_def)
  then show ?thesis
    using ok Some by (auto simp: HandleHello_def Let_def srv_ok_reject srv_ok_EnqueueAck split: option.split)
qed (simp add: HandleHello_def)

lemma srv_ok_files:
  "srv_ok s \<Longrightarrow> dm_sized (sv_disk s) fs \<Longrightarrow> srv_ok (s\<lparr> sv_files := fs \<rparr>)"
  by (simp add: srv_ok_def)

lemma srv_ok_HandleDataBlock:
  assumes "pwrite_ok P" and ok: "srv_ok s"
  shows "srv_ok (HandleDataBlock P h hdr body s)"
proof (cases "sv_conns s h")
  case (Some c)
  have sized: "dm_sized (sv_disk s) (sv_files s)" using ok by (simp add: srv_ok_def)
  have wf: "srv_ok (set_conn h (c\<lparr> blocksReceived := n, bytesWritten := k \<rparr>) s)"
     "srv_ok (set_conn h (c\<lparr> blocksReceived := n, conn_errors := k \<rparr>) s)" for n k
    using srv_ok_conn [OF ok Some] by (simp_all add: conn_wf_def srv_ok_set_conn [OF ok Some])
  have disk: "sv_disk (set_conn h c' s) = sv_disk s" for c' by (simp add: set_conn_def)
  show ?thesis
    using ok Some Process_dm_sized [OF _ assms(1) sized]
    by (auto simp: HandleDataBlock_def Let_def srv_ok_CloseConn disk wf split: prod.split
        intro!: srv_ok_EnqueueAck srv_ok_files)
qed (use ok in \<open>simp add: HandleDataBlock_def\<close>)

lemma srv_ok_dispatch: "pwrite_ok P \<Longrightarrow> srv_ok s \<Longrightarrow> srv_ok (dispatch P h m s)"
  by (auto simp: dispatch_def HandleBye_def srv_ok_HandleHello srv_ok_HandleDataBlock srv_ok_reject
      split: option.split MessageType.split)

lemma srv_ok_set_recv:
  assumes "srv_ok s" and "rb_wf b" and "length (rb_buf b) = kRecvBufSize"
  shows "srv_ok (set_recv h b s)"
  using assms srv_ok_conn [OF assms(1)]
  by (auto simp: set_recv_def conn_wf_def split: option.split intro!: srv_ok_set_conn)

lemma srv_ok_recvBuf:
  "srv_ok s \<Longrightarrow> sv_conns s h = Some c \<Longrightarrow> rb_wf (recvBuf c) \<and> length (rb_buf (recvBuf c)) = kRecvBufSize"
  using srv_ok_conn by (fastforce simp: conn_wf_def)

lemma srv_ok_advance:
  "srv_ok s \<Longrightarrow> sv_conns s h = Some c \<Longrightarrow> srv_ok (set_recv h (Compact (Consume (recvBuf c) n)) s)"
  using srv_ok_recvBuf [of s h c] by (auto intro!: srv_ok_set_recv simp: Compact_wf Consume_wf)

lemma srv_ok_ProcessMessages: "pwrite_ok P \<Longrightarrow> srv_ok s \<Longrightarrow> srv_ok (ProcessMessages P h s)"
proof (induction P h s rule: ProcessMessages.induct)
  case (1 P h s)
  show ?case
  proof (cases "sv_conns s h")
    case None
    then show ?thesis using 1 by (simp add: ProcessMessages.simps)
  next
    case (Some c)
    obtain r m d where tp: "TryParse (recvBuf c) ParsedMessage_zero = (r, m, d)" by (metis prod_cases3)
    note IH = "1.IH" [OF Some tp [symmetric] refl]
    show ?thesis
    proof (cases r)
      case kOk
      define s1 where "s1 = touch h (dispatch P h m s)"
      have ok1: "srv_ok s1" using 1 by (simp add: s1_def srv_ok_dispatch)
      show ?thesis
      proof (cases "sv_conns s1 h")
        case None
        then show ?thesis using ok1 Some tp kOk by (simp add: ProcessMessages.simps [of P h s] Let_def s1_def)
      next
        case (Some c1)
        from IH(1) [OF kOk refl s1_def Some "1.prems"(1)] srv_ok_advance [OF ok1 Some]
        show ?thesis using \<open>sv_conns s h = Some c\<close> tp kOk Some
          by (simp add: ProcessMessages.simps [of P h s] Let_def s1_def)
      qed
    qed (use 1 Some tp IH srv_ok_advance [OF "1.prems"(2) Some, of 1] in
        \<open>simp_all add: ProcessMessages.simps [of P h s] srv_ok_CloseConn\<close>)
  qed
qed

lemma sv_conns_CloseConn [simp]: "sv_conns (CloseConn h s) h = None"
  by (simp add: CloseConn_def split: option.split)

lemma recv_bounded_next: "recv_bounded (recv_next rx)"
  unfolding recv_bounded_def
  by (cases rx rule: recv_next.cases [of "(rx, 0)" for rx, simplified]) auto

lemma srv_ok_HandleConnReadable: "pwrite_ok P \<Longrightarrow> srv_ok s \<Longrightarrow> srv_ok (HandleConnReadable P h rx s)"
proof (induction P h rx s rule: HandleConnReadable.induct)
  case (1 P h rx s)
  show ?case
  proof (cases "sv_conns s h")
    case None
    then show ?thesis using 1 by (simp add: HandleConnReadable.simps)
  next
    case (Some c)
    obtain b n where w: "WriteFromFd (recv_next rx) (recvBuf c) = (b, n)" by (metis surj_pair)
    have "rb_wf b \<and> length (rb_buf b) = kRecvBufSize"
      using WriteFromFd_cases [OF _ recv_bounded_next, of "recvBuf c" rx] srv_ok_recvBuf [OF "1.prems"(2) Some] w
      by simp
    then have ok1: "srv_ok (set_recv h b s)" using "1.prems" by (simp add: srv_ok_set_recv)
    then have ok2: "srv_ok (ProcessMessages P h (set_recv h b s))" using "1.prems" by (simp add: srv_ok_ProcessMessages)
    note IH = "1.IH" [OF Some w [symmetric] refl]
    show ?thesis
      using w Some ok1 ok2 "1.prems"(1) IH
      by (auto simp: HandleConnReadable.simps [of P h rx s] Let_def srv_ok_CloseConn split: io_ret.split nat.split)
  qed
qed

lemma conn_wf_new: "conn_wf dm fd (Conn_new fd)"
  by (simp add: conn_wf_def Conn_new_def) (simp add: RingBuffer_new_def)

lemma srv_ok_HandleAccept: "srv_ok s \<Longrightarrow> srv_ok (HandleAccept cfds s)"
proof (induction cfds s rule: HandleAccept.induct)
  case (2 cfd cfds s)
  have "ReadableBytes (sendBuf (Conn_new cfd)) = 0"
    by (simp add: Conn_new_def RingBuffer_new_def ReadableBytes_def)
  then have "srv_ok (EpollAdd cfd False ((set_conn cfd (Conn_new cfd) s)\<lparr> sv_sent := (sv_sent s)(cfd := []) \<rparr>))"
    using "2.prems" conn_wf_new by (auto simp: srv_ok_def EpollAdd_def set_conn_def)
  then show ?case using 2 by auto
qed simp

lemma srv_ok_Stop: "srv_ok s \<Longrightarrow> srv_ok (Stop s)"
  by (simp add: srv_ok_def Stop_def)

lemma srv_ok_run_event: "pwrite_ok P \<Longrightarrow> srv_ok s \<Longrightarrow> srv_ok (run_event P ev s)"
  by (auto simp: run_event_def Let_def HandleConnError_def srv_ok_HandleAccept srv_ok_CloseConn
      srv_ok_HandleConnReadable srv_ok_HandleConnWritable split: option.split)

lemma srv_ok_fold_events: "pwrite_ok P \<Longrightarrow> srv_ok s \<Longrightarrow> srv_ok (fold (run_event P) evs s)"
  by (induction evs arbitrary: s) (auto simp: srv_ok_run_event)

lemma srv_ok_Run: "pwrite_ok P \<Longrightarrow> srv_ok s \<Longrightarrow> srv_ok (Run P rs s)"
  by (induction P rs s rule: Run.induct) (auto simp: srv_ok_fold_events srv_ok_Stop split: poll_result.split)

section \<open>Refinement to the byte stream\<close>

text \<open>
  The loop on a byte list instead of a buffer: handle every complete message, return the bytes
  that are left over (none once the connection is gone).
\<close>

function serve :: "Platform \<Rightarrow> int \<Rightarrow> byte list \<Rightarrow> Server \<Rightarrow> Server \<times> byte list" where
  "serve P h bs s =
     (if sv_conns s h = None then (touch h s, [])
      else (case TryParse_at (length bs) bs ParsedMessage_zero of (r, msg, diag) \<Rightarrow>
        (case r of
           kNeedMore \<Rightarrow> (s, bs)
         | kBadMagic \<Rightarrow> serve P h (drop 1 bs) s
         | kInvalidType \<Rightarrow> serve P h (drop 1 bs) s
         | kOversizeBlock \<Rightarrow> (CloseConn h s, [])
         | kOk \<Rightarrow>
             let s1 = touch h (dispatch P h msg s)
             in if sv_conns s1 h = None then (s1, [])
                else serve P h (drop (16 + length (pm_body msg)) bs) s1)))"
  by auto

lemma TryParse_at_decided:
  "(r, m, d) = TryParse_at (length bs) bs m0 \<Longrightarrow> r \<noteq> kNeedMore \<Longrightarrow> 16 \<le> length bs"
  by (auto simp: TryParse_at_def Let_def split: if_splits)

termination serve
  by (relation "measure (\<lambda>(P, h, bs, s). length bs)") (auto dest: TryParse_at_decided)

declare serve.simps [simp del]

lemma serve_dead: "sv_conns s h = None \<Longrightarrow> serve P h bs s = (touch h s, [])"
  by (simp add: serve.simps)

lemma serve_undecided:
  "sv_conns s h \<noteq> None \<Longrightarrow> TryParse_at (length bs) bs ParsedMessage_zero = (kNeedMore, m, d) \<Longrightarrow> serve P h bs s = (s, bs)"
  by (subst serve.simps) auto

text \<open>Serving a stream in two portions is serving it whole.\<close>

lemma serve_append:
  "serve P h (a @ b) s = (case serve P h a s of (s1, r) \<Rightarrow> if sv_conns s1 h = None then (s1, []) else serve P h (r @ b) s1)"
proof (induction P h a s rule: serve.induct)
  case (1 P h a s)
  show ?case
  proof (cases "sv_conns s h = None")
    case True
    then show ?thesis by (simp add: serve_dead)
  next
    case live: False
    obtain r m d where tp: "TryParse_at (length a) a ParsedMessage_zero = (r, m, d)" by (metis prod_cases3)
    note IH = "1.IH" [OF live tp [symmetric] refl]
    show ?thesis
    proof (cases "r = kNeedMore")
      case True
      then show ?thesis using live tp by (auto simp: serve_undecided)
    next
      case False
      have ext: "TryParse_at (length (a @ b)) (a @ b) ParsedMessage_zero = (r, m, d)"
        using TryParse_at_extend [OF tp False] .
      have l: "16 \<le> length a" using TryParse_at_decided [OF tp [symmetric] False] .
      have body: "16 + length (pm_body m) \<le> length a" if "r = kOk"
        using TryParse_at_kOk [of "length a" a] tp that by (metis length_append length_msg_bytes le_add1)
      show ?thesis
        using live tp False l ext IH body
        by (cases r) (auto simp: serve.simps [of P h "a @ b" s] serve.simps [of P h a s] Let_def)
    qed
  qed
qed

text \<open>The buffered loop computes \<open>serve\<close> on the readable bytes, whatever buffer stands for them.\<close>

lemma set_recv_dead: "sv_conns (set_recv h b s) h = None \<longleftrightarrow> sv_conns s h = None"
  by simp

lemma set_recv_twice [simp]: "set_recv h b (set_recv h b' s) = set_recv h b s"
  by (auto simp: set_recv_def set_conn_def split: option.split)

lemma ProcessMessages_serve:
  assumes "pwrite_ok P" and "srv_ok s" and "sv_conns s h = Some c"
    and "serve P h (ReadPtr (recvBuf c)) (set_recv h b0 s) = (s1, r)"
  shows "set_recv h b0 (ProcessMessages P h s) = s1
     \<and> (\<forall>c'. sv_conns (ProcessMessages P h s) h = Some c' \<longrightarrow> ReadPtr (recvBuf c') = r
          \<and> fst (TryParse (recvBuf c') ParsedMessage_zero) = kNeedMore)"
  using assms
proof (induction P h s arbitrary: c s1 r rule: ProcessMessages.induct)
  case (1 P h s)
  note wf = srv_ok_recvBuf [OF "1.prems"(2,3)]
  note live = "1.prems"(3)
  obtain x m d where tp: "TryParse (recvBuf c) ParsedMessage_zero = (x, m, d)" by (metis prod_cases3)
  have tpa: "TryParse_at (length (ReadPtr (recvBuf c))) (ReadPtr (recvBuf c)) ParsedMessage_zero = (x, m, d)"
    using tp wf by (simp add: TryParse_def)
  note IH = "1.IH" [OF live tp [symmetric] refl]
  have adv: "ReadPtr (Compact (Consume (recvBuf c) n)) = drop n (ReadPtr (recvBuf c))" for n
    using wf by (simp add: Compact_ReadPtr Consume_ReadPtr Consume_wf)
  have skip: "?case" if x: "x = kBadMagic \<or> x = kInvalidType"
  proof -
    define s' where "s' = set_recv h (Compact (Consume (recvBuf c) 1)) s"
    have pm: "ProcessMessages P h s = ProcessMessages P h s'"
      using live tp x by (subst ProcessMessages.simps) (auto simp: s'_def)
    have sv: "serve P h (drop 1 (ReadPtr (recvBuf c))) (set_recv h b0 s') = (s1, r)"
      using "1.prems"(4) live tpa x by (subst (asm) serve.simps) (auto simp: s'_def)
    have c': "sv_conns s' h = Some (c\<lparr> recvBuf := Compact (Consume (recvBuf c) 1) \<rparr>)"
      using live by (simp add: s'_def)
    have ok: "srv_ok s'" using srv_ok_advance [OF "1.prems"(2) live] by (simp add: s'_def)
    show ?thesis
      using x IH(2) [OF _ "1.prems"(1) ok [unfolded s'_def] c' [unfolded s'_def], of s1 r]
        IH(3) [OF _ "1.prems"(1) ok [unfolded s'_def] c' [unfolded s'_def], of s1 r] sv
      unfolding pm by (auto simp: s'_def adv)
  qed
  show ?case
  proof (cases x)
    case kNeedMore
    then show ?thesis using "1.prems" tp tpa
      by (auto simp: ProcessMessages.simps [of P h s] serve_undecided)
  next
    case kOversizeBlock
    then show ?thesis using "1.prems"(4) live tp tpa
      by (subst (asm) serve.simps) (auto simp: ProcessMessages.simps [of P h s] CloseConn_set_recv)
  next
    case kOk
    define s2 where "s2 = touch h (dispatch P h m s)"
    have ok2: "srv_ok s2" using "1.prems" by (simp add: s2_def srv_ok_dispatch)
    show ?thesis
    proof (cases "sv_conns s2 h")
      case None
      then have "ProcessMessages P h s = s2" and "s1 = set_recv h b0 s2"
        using "1.prems"(4) live tp tpa kOk
        by (auto simp: ProcessMessages.simps [of P h s] serve.simps Let_def s2_def dispatch_set_recv touch_set_recv)
      then show ?thesis using None by simp
    next
      case (Some c2)
      have rb: "recvBuf c2 = recvBuf c" using dispatch_recvBuf [OF live] Some by (simp add: s2_def)
      define n where "n = 16 + length (pm_body m)"
      define s3 where "s3 = set_recv h (Compact (Consume (recvBuf c) n)) s2"
      have pm: "ProcessMessages P h s = ProcessMessages P h s3"
        using live tp kOk Some rb by (simp add: ProcessMessages.simps [of P h s] Let_def s2_def s3_def n_def)
      have sv: "serve P h (drop n (ReadPtr (recvBuf c))) (set_recv h b0 s3) = (s1, r)"
        using "1.prems"(4) live tpa kOk Some
        by (subst (asm) serve.simps) (auto simp: Let_def n_def s3_def s2_def dispatch_set_recv touch_set_recv)
      have c3: "sv_conns s3 h = Some (c2\<lparr> recvBuf := Compact (Consume (recvBuf c) n) \<rparr>)"
        using Some by (simp add: s3_def)
      have ok3: "srv_ok s3" using srv_ok_advance [OF ok2 Some] rb by (simp add: s3_def)
      have s3': "set_recv h (Compact (Consume (recvBuf c2) (unat HEADER_SIZE + length (pm_body m)))) s2 = s3"
        by (simp add: s3_def n_def rb)
      show ?thesis
        unfolding pm
        by (rule IH(1) [OF kOk refl s2_def Some "1.prems"(1), unfolded s3', OF ok3 c3]) (simp add: adv sv)
    qed
  qed (use skip in auto)
qed

section \<open>Segmentation\<close>

text \<open>Between events no connection holds a complete message, so its buffer has room.\<close>

definition conn_idle :: "Conn \<Rightarrow> bool" where
  "conn_idle c \<longleftrightarrow> fst (TryParse (recvBuf c) ParsedMessage_zero) = kNeedMore"

lemma conn_idle_room:
  assumes "conn_idle c" and "rb_wf (recvBuf c)" and "length (rb_buf (recvBuf c)) = kRecvBufSize"
  shows "0 < fd_room (recvBuf c)"
proof -
  obtain m d where "TryParse (recvBuf c) ParsedMessage_zero = (kNeedMore, m, d)"
    using assms(1) unfolding conn_idle_def by (metis prod.collapse)
  then have "ReadableBytes (recvBuf c) < 68 + 2 * BLOCK_SIZE"
    using TryParse_at_kNeedMore_bound [of "ReadPtr (recvBuf c)" ParsedMessage_zero m d] assms(2)
    by (simp add: TryParse_def)
  then show ?thesis
    using assms by (auto simp: fd_room_def kRecvBufSize_def rb_wf_def)
qed

lemma serve_idle:
  assumes "sv_conns s h = Some c" and "conn_idle c" and "rb_wf (recvBuf c)" and "sv_conns s' h \<noteq> None"
  shows "serve P h (ReadPtr (recvBuf c)) s' = (s', ReadPtr (recvBuf c))"
proof -
  obtain m d where "TryParse (recvBuf c) ParsedMessage_zero = (kNeedMore, m, d)"
    using assms(2) unfolding conn_idle_def by (metis prod.collapse)
  then show ?thesis using assms(3,4) by (intro serve_undecided) (simp_all add: TryParse_def)
qed

lemma HandleConnReadable_serve:
  assumes "pwrite_ok P" and "srv_ok s" and "sv_conns s h = Some c" and "conn_idle c" and "rx_plain rx"
    and "serve P h (ReadPtr (recvBuf c) @ rx_stream rx) (set_recv h b0 s) = (s1, r)"
  shows "set_recv h b0 (HandleConnReadable P h rx s) = s1
     \<and> (\<forall>c'. sv_conns (HandleConnReadable P h rx s) h = Some c' \<longrightarrow> ReadPtr (recvBuf c') = r \<and> conn_idle c')"
  using assms
proof (induction P h rx s arbitrary: c s1 r rule: HandleConnReadable.induct)
  case (1 P h rx s)
  note live = "1.prems"(3)
  have wf: "rb_wf (recvBuf c)" "length (rb_buf (recvBuf c)) = kRecvBufSize"
    using srv_ok_recvBuf [OF "1.prems"(2,3)] by auto
  have room: "0 < fd_room (recvBuf c)" using conn_idle_room wf "1.prems"(4) by blast
  obtain b n where w: "WriteFromFd (recv_next rx) (recvBuf c) = (b, n)" by (metis surj_pair)
  note eff = WriteFromFd_cases [OF wf(1) recv_bounded_next, of rx, unfolded w fst_conv snd_conv]
  define s2 where "s2 = set_recv h b s"
  have ok2: "srv_ok s2" using eff wf "1.prems" by (simp add: s2_def srv_ok_set_recv)
  have live2: "sv_conns s2 h = Some (c\<lparr> recvBuf := b \<rparr>)" using live by (simp add: s2_def)
  have erase2: "set_recv h b0 s2 = set_recv h b0 s" by (simp add: s2_def)
  show ?case
  proof (cases rx)
    case Nil
    then have n: "n = Failed EAGAIN" and R: "ReadPtr b = ReadPtr (recvBuf c)" using eff room by auto
    have "HandleConnReadable P h rx s = ProcessMessages P h s2"
      using live w n by (simp add: HandleConnReadable.simps [of P h rx s] Let_def s2_def)
    then show ?thesis
      using ProcessMessages_serve [OF "1.prems"(1) ok2 live2, of b0 s1 r] "1.prems"(6) Nil R erase2
      by (simp add: conn_idle_def)
  next
    case (Cons x rx')
    then obtain d where x: "x = Received d" and d: "d \<noteq> []" using "1.prems"(5) by (cases x) auto
    define k where "k = fd_room (recvBuf c)"
    have n: "n = Bytes (length (take k d))" and R: "ReadPtr b = ReadPtr (recvBuf c) @ take k d"
      using eff room Cons x by (auto simp: k_def)
    obtain j where j: "length (take k d) = Suc j"
      using d room by (metis k_def length_greater_0_conv not0_implies_Suc take_eq_Nil less_numeral_extra(3))
    define s3 where "s3 = ProcessMessages P h s2"
    have ok3: "srv_ok s3" using "1.prems"(1) ok2 by (simp add: s3_def srv_ok_ProcessMessages)
    obtain s4 r4 where sv: "serve P h (ReadPtr (recvBuf c) @ take k d) (set_recv h b0 s) = (s4, r4)" by (metis surj_pair)
    from ProcessMessages_serve [OF "1.prems"(1) ok2 live2, of b0 s4 r4] sv R erase2
    have pm: "set_recv h b0 s3 = s4" "\<forall>c'. sv_conns s3 h = Some c' \<longrightarrow> ReadPtr (recvBuf c') = r4 \<and> conn_idle c'"
      by (simp_all add: s3_def conn_idle_def)
    have dead: "sv_conns s4 h = None \<longleftrightarrow> sv_conns s3 h = None" using pm(1) by auto
    define rest where "rest = recv_rest rx (Bytes (Suc j))"
    have stream: "rx_stream rx = take k d @ rx_stream rest" and plain: "rx_plain rest"
      using Cons x d j "1.prems"(5) by (auto simp: rest_def min_def split: if_splits)
    have app: "(if sv_conns s4 h = None then (s4, []) else serve P h (r4 @ rx_stream rest) s4) = (s1, r)"
      using "1.prems"(6) serve_append [of P h "ReadPtr (recvBuf c) @ take k d" "rx_stream rest" "set_recv h b0 s"] sv stream
      by simp
    have hr: "HandleConnReadable P h rx s = (if sv_conns s3 h = None then s3 else HandleConnReadable P h rest s3)"
      using live w n j by (simp add: HandleConnReadable.simps [of P h rx s] Let_def s2_def s3_def rest_def)
    show ?thesis
    proof (cases "sv_conns s3 h")
      case None
      then show ?thesis using hr app dead pm by simp
    next
      case (Some c3)
      have "serve P h (ReadPtr (recvBuf c3) @ rx_stream rest) (set_recv h b0 s3) = (s1, r)"
        using app dead Some pm by simp
      with "1.IH" [OF live w [symmetric] s2_def _ refl s3_def _ "1.prems"(1), unfolded rest_def [symmetric], of j c3 s1 r]
      show ?thesis using Some n j ok3 pm(2) plain hr by (simp add: rest_def)
    qed
  qed
qed

section \<open>The protocol\<close>

text \<open>Everything the server has answered on a connection: accepted by the kernel or still queued.\<close>

definition out_stream :: "int \<Rightarrow> Server \<Rightarrow> byte list" where
  "out_stream h s = sv_sent s h @ (case sv_conns s h of None \<Rightarrow> [] | Some c \<Rightarrow> ReadPtr (sendBuf c))"

lemma EnqueueAck_healthy:
  assumes "srv_ok s" and "sv_conns s h = Some c" and "tx_ok (sv_tx s h)"
  shows "\<exists>b. sv_conns (EnqueueAck h ack s) = (sv_conns s)(h \<mapsto> c\<lparr> sendBuf := b \<rparr>)
     \<and> out_stream h (EnqueueAck h ack s) = out_stream h s @ ack_bytes ack
     \<and> tx_ok (sv_tx (EnqueueAck h ack s) h) \<and> sv_files (EnqueueAck h ack s) = sv_files s
     \<and> sv_disk (EnqueueAck h ack s) = sv_disk s"
proof -
  have b: "rb_wf (sendBuf c)" using srv_ok_conn [OF assms(1,2)] by (simp add: conn_wf_def)
  from srv_ok_epoll [OF assms(1,2)] obtain a
    where a: "sv_epoll s h = Some a \<and> (0 < ReadableBytes (sendBuf c) \<longrightarrow> a)" ..
  have "send_open h c (ReadPtr (sendBuf c) @ ack_bytes ack) s (EnqueueAck h ack s)"
    using EnqueueAck_cases [OF assms(2) b a [THEN conjunct1], of ack] assms(3) by (auto simp: send_closed_def)
  then obtain b' tx' out where o: "out @ ReadPtr b' = ReadPtr (sendBuf c) @ ack_bytes ack"
    "set tx' \<subseteq> set (sv_tx s h)"
    "EnqueueAck h ack s = s\<lparr> sv_conns := (sv_conns s)(h \<mapsto> c\<lparr> sendBuf := b' \<rparr>),
       sv_epoll := (sv_epoll s)(h \<mapsto> 0 < ReadableBytes b'),
       sv_tx := (sv_tx s)(h := tx'), sv_sent := (sv_sent s)(h := sv_sent s h @ out) \<rparr>"
    unfolding send_open_def by blast
  then show ?thesis using assms(2,3)
    by (intro exI [of _ b']) (auto simp: out_stream_def tx_ok_def)
qed

text \<open>A handshaken connection on a healthy socket.\<close>

definition session_ready :: "int \<Rightarrow> Server \<Rightarrow> bool" where
  "session_ready h s \<longleftrightarrow> tx_ok (sv_tx s h) \<and> (\<exists>c. sv_conns s h = Some c \<and> helloDone c)"

definition is_data :: "ParsedMessage \<Rightarrow> bool" where
  "is_data m \<longleftrightarrow> wf_msg m \<and> mh_Type (pm_header m) = msg_code DATA_BLOCK"

text \<open>What a sequence of data blocks does to the files, and the acknowledgements it earns.\<close>

fun process_all :: "Platform \<Rightarrow> DiskMap \<Rightarrow> files \<Rightarrow> ParsedMessage list \<Rightarrow> files \<times> AckBody list" where
  "process_all P dm fs [] = (fs, [])"
| "process_all P dm fs (m # ms) =
     (case Process P dm fs (mh_DevNo (pm_header m)) (BlockHeader_of (take 52 (pm_body m))) (drop 52 (pm_body m))
      of (fs1, ack, st) \<Rightarrow> (case process_all P dm fs1 ms of (fs2, acks) \<Rightarrow> (fs2, ack # acks)))"

lemma data_body:
  assumes "is_data m"
  shows "52 \<le> length (pm_body m)"
    and "length (pm_body m) = unat (BLOCK_HEADER_SIZE + bh_CompressedSize (BlockHeader_of (take 52 (pm_body m))))"
proof -
  obtain t where t: "mh_Type (pm_header m) = msg_code t" "body_ok t (pm_body m)"
    using assms by (auto simp: is_data_def wf_msg_def)
  then have "t = DATA_BLOCK" using assms by (metis is_data_def msg_type_of_code option.inject)
  then have b: "52 \<le> length (pm_body m)"
    "length (pm_body m) = 52 + unat (bh_CompressedSize (BlockHeader_of (take 52 (pm_body m))))"
    "unat (bh_CompressedSize (BlockHeader_of (take 52 (pm_body m)))) \<le> 2 * BLOCK_SIZE"
    using t by (simp_all add: body_ok_def Let_def)
  show "52 \<le> length (pm_body m)" by (rule b(1))
  have "bh_CompressedSize (BlockHeader_of (take 52 (pm_body m))) \<le> BLOCK_SIZE * 2"
    using b(3) by (simp add: word_le_nat_alt)
  from unat_data_len [OF this] b(2)
  show "length (pm_body m) = unat (BLOCK_HEADER_SIZE + bh_CompressedSize (BlockHeader_of (take 52 (pm_body m))))"
    by simp
qed

lemma dispatch_enqueues:
  assumes "is_data m" and "sv_conns s h = Some c" and "helloDone c"
    and "Process P (sv_disk s) (sv_files s) (mh_DevNo (pm_header m)) (BlockHeader_of (take 52 (pm_body m)))
           (drop 52 (pm_body m)) = (fs1, ack, st)"
  shows "\<exists>c2. dispatch P h m s = EnqueueAck h ack ((set_conn h c2 s)\<lparr> sv_files := fs1 \<rparr>) \<and> sendBuf c2 = sendBuf c \<and> helloDone c2
     \<and> (conn_wf (sv_disk s) h c \<longrightarrow> conn_wf (sv_disk s) h c2)"
proof -
  define bh where "bh = BlockHeader_of (take 52 (pm_body m))"
  define c2 where "c2 = (if st = OK then c\<lparr> blocksReceived := blocksReceived c + 1, bytesWritten := bytesWritten c + ucast (bh_DataSize bh) \<rparr>
    else c\<lparr> blocksReceived := blocksReceived c + 1, conn_errors := conn_errors c + 1 \<rparr>)"
  have g: "\<not> length (pm_body m) < 52" "\<not> length (pm_body m) < unat (BLOCK_HEADER_SIZE + bh_CompressedSize bh)"
    using data_body [OF assms(1)] by (simp_all only: bh_def not_less)
  have "dispatch P h m s = HandleDataBlock P h (pm_header m) (pm_body m) s"
    using assms(1) by (simp add: dispatch_def is_data_def)
  also have "\<dots> = EnqueueAck h ack ((set_conn h c2 s)\<lparr> sv_files := fs1 \<rparr>)"
    unfolding HandleDataBlock_def using assms(2,3) g assms(4) [folded bh_def]
    by (simp add: Let_def bh_def [symmetric] c2_def)
  finally show ?thesis using assms(3) by (intro exI [of _ c2]) (auto simp: c2_def conn_wf_def)
qed

lemma dispatch_data:
  assumes "pwrite_ok P" and "srv_ok s" and "session_ready h s" and "is_data m"
    and "Process P (sv_disk s) (sv_files s) (mh_DevNo (pm_header m)) (BlockHeader_of (take 52 (pm_body m)))
           (drop 52 (pm_body m)) = (fs1, ack, st)"
  shows "session_ready h (dispatch P h m s) \<and> sv_files (dispatch P h m s) = fs1
     \<and> sv_disk (dispatch P h m s) = sv_disk s
     \<and> out_stream h (dispatch P h m s) = out_stream h s @ ack_bytes ack"
proof -
  obtain c where c: "sv_conns s h = Some c" "helloDone c" and tx: "tx_ok (sv_tx s h)"
    using assms(3) by (auto simp: session_ready_def)
  obtain c2 where d: "dispatch P h m s = EnqueueAck h ack ((set_conn h c2 s)\<lparr> sv_files := fs1 \<rparr>)"
    and c2: "sendBuf c2 = sendBuf c" "helloDone c2" "conn_wf (sv_disk s) h c2"
    using dispatch_enqueues [OF assms(4) c assms(5)] srv_ok_conn [OF assms(2) c(1)] by blast
  define s1 where "s1 = (set_conn h c2 s)\<lparr> sv_files := fs1 \<rparr>"
  have sized: "dm_sized (sv_disk s) (sv_files s)" using assms(2) by (simp add: srv_ok_def)
  have ok1: "srv_ok s1"
    using srv_ok_set_conn [OF assms(2) c(1) c2(3) c2(1)] Process_dm_sized [OF assms(5,1) sized]
    unfolding s1_def by (intro srv_ok_files) (simp_all add: set_conn_def)
  have s1: "sv_conns s1 h = Some c2" "sv_files s1 = fs1" "sv_disk s1 = sv_disk s" "sv_tx s1 = sv_tx s"
    "out_stream h s1 = out_stream h s"
    using c c2 by (simp_all add: s1_def set_conn_def out_stream_def)
  from EnqueueAck_healthy [OF ok1 s1(1), of ack] tx s1 c2 show ?thesis
    by (auto simp: d session_ready_def simp flip: s1_def)
qed

lemma serve_frame:
  assumes "wf_msg m" and "sv_conns s h \<noteq> None" and "sv_conns (dispatch P h m s) h \<noteq> None"
  shows "serve P h (msg_bytes m @ rest) s = serve P h rest (dispatch P h m s)"
proof -
  have "TryParse_at (length (msg_bytes m @ rest)) (msg_bytes m @ rest) ParsedMessage_zero = (kOk, m, ParseDiag_zero)"
    using TryParse_at_frame [OF assms(1) refl refl] .
  moreover have "touch h (dispatch P h m s) = dispatch P h m s" using assms(3) by (auto simp: touch_def)
  ultimately show ?thesis
    using assms(2,3) by (subst serve.simps) (auto simp: Let_def)
qed

lemma serve_data:
  assumes "pwrite_ok P" and "srv_ok s" and "session_ready h s" and "\<forall>m \<in> set ms. is_data m"
    and "process_all P (sv_disk s) (sv_files s) ms = (fs', acks)"
  shows "\<exists>s'. serve P h (concat (map msg_bytes ms) @ rest) s = serve P h rest s'
     \<and> srv_ok s' \<and> session_ready h s' \<and> sv_files s' = fs' \<and> sv_disk s' = sv_disk s
     \<and> out_stream h s' = out_stream h s @ concat (map ack_bytes acks)"
  using assms(2-)
proof (induction ms arbitrary: s fs' acks)
  case Nil
  then show ?case by auto
next
  case (Cons m ms)
  obtain fs1 ack st where p: "Process P (sv_disk s) (sv_files s) (mh_DevNo (pm_header m))
      (BlockHeader_of (take 52 (pm_body m))) (drop 52 (pm_body m)) = (fs1, ack, st)"
    by (metis prod_cases3)
  obtain fs2 acks2 where pa: "process_all P (sv_disk s) fs1 ms = (fs2, acks2)" by (metis surj_pair)
  have out: "fs' = fs2" "acks = ack # acks2" using Cons.prems(4) p pa by auto
  define s1 where "s1 = dispatch P h m s"
  have m: "is_data m" using Cons.prems by simp
  from dispatch_data [OF assms(1) Cons.prems(1,2) m p]
  have s1: "session_ready h s1" "sv_files s1 = fs1" "sv_disk s1 = sv_disk s"
    "out_stream h s1 = out_stream h s @ ack_bytes ack" by (simp_all add: s1_def)
  have ok1: "srv_ok s1" using srv_ok_dispatch [OF assms(1) Cons.prems(1)] by (simp add: s1_def)
  have step: "serve P h (msg_bytes m @ concat (map msg_bytes ms) @ rest) s
      = serve P h (concat (map msg_bytes ms) @ rest) s1"
    unfolding s1_def
    by (rule serve_frame) (use m Cons.prems(2) s1(1) in \<open>auto simp: is_data_def session_ready_def s1_def\<close>)
  from Cons.IH [OF ok1 s1(1), of fs2 acks2] Cons.prems(3) pa s1 step out show ?case by auto
qed

lemma out_stream_set_recv [simp]: "out_stream h (set_recv h b s) = out_stream h s"
  by (simp add: out_stream_def split: option.split)

lemma session_ready_set_recv [simp]: "session_ready h (set_recv h b s) \<longleftrightarrow> session_ready h s"
  by (auto simp: session_ready_def)

lemma process_all_length: "process_all P dm fs ms = (fs', acks) \<Longrightarrow> length acks = length ms"
  by (induction ms arbitrary: fs fs' acks) (auto split: prod.splits)

lemma demo_cut: "length bs = 72 \<Longrightarrow> bs \<noteq> [] \<and> drop 30 bs \<noteq> [] \<and> take 30 bs \<noteq> []"
  by auto

section \<open>Properties\<close>

text \<open>A server with one fresh connection (descriptor 5), and one whose handshake is done.\<close>

definition demo_conn :: "bool \<Rightarrow> Conn" where
  "demo_conn hello = (Conn_new 5)\<lparr> helloDone := hello \<rparr>"

definition demo_server :: "bool \<Rightarrow> Server" where
  "demo_server hello =
     \<lparr> sv_disk = demo_disk, sv_files = demo_files, sv_conns = [5 \<mapsto> demo_conn hello], sv_listenFd = 4, sv_epollFd = 6,
       sv_running = True, sv_epoll = [4 \<mapsto> False, 5 \<mapsto> False], sv_tx = (\<lambda>_. [Sent 10, SendErr EAGAIN]),
       sv_sent = (\<lambda>_. []), sv_uaf = False \<rparr>"

lemma demo_conn_fields [simp]:
  "recvBuf (demo_conn b) = RingBuffer_new kRecvBufSize" "sendBuf (demo_conn b) = RingBuffer_new kSendBufSize"
  "helloDone (demo_conn b) = b" "c_devno (demo_conn b) = 0" "c_fd (demo_conn b) = 5"
  by (simp_all add: demo_conn_def Conn_new_def)

lemma ReadableBytes_new [simp]: "ReadableBytes (RingBuffer_new n) = 0"
  by (simp add: ReadableBytes_def RingBuffer_new_def)

lemma length_new [simp]: "length (rb_buf (RingBuffer_new n)) = n"
  by (simp add: RingBuffer_new_def)

lemma demo_server_fields [simp]:
  "sv_conns (demo_server b) = [5 \<mapsto> demo_conn b]" "sv_disk (demo_server b) = demo_disk"
  "sv_files (demo_server b) = demo_files" "sv_tx (demo_server b) = (\<lambda>_. [Sent 10, SendErr EAGAIN])"
  "sv_sent (demo_server b) = (\<lambda>_. [])"
  by (simp_all add: demo_server_def)

lemma demo_server_ok: "srv_ok (demo_server b)"
  using demo_dm_sized
  by (simp add: srv_ok_def conn_wf_def)
    (auto simp: demo_server_def Contains_def demo_disk_def)

lemma demo_conn_idle: "conn_idle (demo_conn b)"
  by (simp add: conn_idle_def TryParse_def TryParse_at_def Let_def)

definition demo_data :: ParsedMessage where
  "demo_data = \<lparr> pm_header = \<lparr> mh_Magic = PROTOCOL_MAGIC, mh_Type = msg_code DATA_BLOCK, mh_DevNo = 0, mh_Reserved = 0 \<rparr>,
     pm_body = BlockHeader_bytes demo_block @ [9, 8, 7, 6] \<rparr>"

lemma demo_block_bytes [simp]:
  "length (BlockHeader_bytes demo_block) = 52" "BlockHeader_of (BlockHeader_bytes demo_block) = demo_block"
  by (simp_all add: demo_block_def)

lemma demo_data_ok: "is_data demo_data"
  by (auto simp: is_data_def wf_msg_def demo_data_def body_ok_def Let_def intro!: exI [of _ DATA_BLOCK])
    (simp_all add: demo_block_def)

text \<open>
  C15. The invariant of the server holds in every state the event loop reaches: connections and
  their buffers are well formed, queued acknowledgements always have \<open>EPOLLOUT\<close> armed, nothing
  stale is registered, and the device table keeps describing the files.
\<close>

theorem Run_invariant:
  assumes "pwrite_ok P" and "srv_ok s"
  shows "srv_ok (Run P rs s)"
  by (rule srv_ok_Run [OF assms])

theorem Run_invariant_witness:
  "srv_ok (Run demo_platform
     [Polled [\<lparr> ev_fd = 5, ev_err = False, ev_in = True, ev_out = True, ev_accepts = [], ev_rx = [Received (msg_bytes demo_data)] \<rparr>],
      Interrupted True] (demo_server True))"
  by (rule Run_invariant [OF demo_pwrite_ok demo_server_ok])

text \<open>
  C14. The server's behaviour depends on the byte stream only: two ways TCP may cut the same
  bytes into segments lead to the same files, connections, acknowledgements and statistics,
  and leave the same unprocessed bytes, whatever the layout of the receive buffer.
\<close>

theorem segmentation_independence:
  assumes "pwrite_ok P" and "srv_ok s" and "sv_conns s h = Some c" and "conn_idle c"
    and "rx_plain rx" and "rx_plain rx'" and "rx_stream rx = rx_stream rx'"
  shows "set_recv h b (HandleConnReadable P h rx s) = set_recv h b (HandleConnReadable P h rx' s)
     \<and> map_option (ReadPtr \<circ> recvBuf) (sv_conns (HandleConnReadable P h rx s) h)
       = map_option (ReadPtr \<circ> recvBuf) (sv_conns (HandleConnReadable P h rx' s) h)"
proof -
  obtain s1 r where sv: "serve P h (ReadPtr (recvBuf c) @ rx_stream rx) (set_recv h b s) = (s1, r)" by (metis surj_pair)
  note one = HandleConnReadable_serve [OF assms(1-5) sv]
  note two = HandleConnReadable_serve [OF assms(1-4,6) sv [unfolded assms(7)]]
  from one two have eq: "set_recv h b (HandleConnReadable P h rx s) = set_recv h b (HandleConnReadable P h rx' s)" by simp
  then have "sv_conns (HandleConnReadable P h rx s) h = None \<longleftrightarrow> sv_conns (HandleConnReadable P h rx' s) h = None"
    using set_recv_dead by metis
  then show ?thesis using one two eq
    by (cases "sv_conns (HandleConnReadable P h rx s) h"; cases "sv_conns (HandleConnReadable P h rx' s) h") auto
qed

theorem segmentation_independence_witness:
  "set_recv 5 (RingBuffer_new 0) (HandleConnReadable demo_platform 5
      [Received (take 30 (msg_bytes demo_data)), Received (drop 30 (msg_bytes demo_data))] (demo_server True))
   = set_recv 5 (RingBuffer_new 0) (HandleConnReadable demo_platform 5 [Received (msg_bytes demo_data)] (demo_server True))"
proof -
  have "length (msg_bytes demo_data) = 72" by (simp add: demo_data_def)
  from demo_cut [OF this] show ?thesis
    by (intro segmentation_independence [OF demo_pwrite_ok demo_server_ok _ demo_conn_idle [of True], THEN conjunct1]) simp_all
qed

lemma HandleConnReadable_data:
  assumes "pwrite_ok P" and "srv_ok s" and "sv_conns s h = Some c" and "conn_idle c" and "helloDone c"
    and "tx_ok (sv_tx s h)" and "rx_plain rx"
    and "ReadPtr (recvBuf c) @ rx_stream rx = concat (map msg_bytes ms) @ rest"
    and "\<forall>m \<in> set ms. is_data m" and "fst (TryParse_at (length rest) rest ParsedMessage_zero) = kNeedMore"
    and "process_all P (sv_disk s) (sv_files s) ms = (fs', acks)"
  shows "sv_files (HandleConnReadable P h rx s) = fs' \<and> length acks = length ms
     \<and> out_stream h (HandleConnReadable P h rx s) = out_stream h s @ concat (map ack_bytes acks)
     \<and> (\<exists>c'. sv_conns (HandleConnReadable P h rx s) h = Some c' \<and> ReadPtr (recvBuf c') = rest)"
proof -
  define s0 where "s0 = set_recv h (recvBuf c) s"
  have s0: "s0 = s" using set_recv_self [OF assms(3)] by (simp add: s0_def)
  have "session_ready h s" using assms(3,5,6) by (simp add: session_ready_def)
  from serve_data [OF assms(1,2) this assms(9,11), of rest] obtain s' where
    sv: "serve P h (concat (map msg_bytes ms) @ rest) s = serve P h rest s'" and s': "session_ready h s'"
    "sv_files s' = fs'" "out_stream h s' = out_stream h s @ concat (map ack_bytes acks)" by blast
  have "serve P h rest s' = (s', rest)"
    using s'(1) assms(10) serve_undecided [of s' h rest] by (auto simp: session_ready_def) (metis prod.collapse)
  then have "serve P h (ReadPtr (recvBuf c) @ rx_stream rx) (set_recv h (recvBuf c) s) = (s', rest)"
    using sv assms(8) s0 by (simp add: s0_def)
  from HandleConnReadable_serve [OF assms(1-4,7) this]
  have r: "set_recv h (recvBuf c) (HandleConnReadable P h rx s) = s'"
    and rest: "\<forall>c'. sv_conns (HandleConnReadable P h rx s) h = Some c' \<longrightarrow> ReadPtr (recvBuf c') = rest" by auto
  have "sv_conns (HandleConnReadable P h rx s) h \<noteq> None"
    using s'(1) unfolding r [symmetric] by (auto simp: session_ready_def)
  moreover have "length acks = length ms" using process_all_length assms(11) .
  ultimately show ?thesis using s' rest unfolding r [symmetric] by auto
qed

text \<open>
  Pipelined blocks: on a handshaken connection whose socket stays healthy, a stream of data
  blocks (however segmented, with any undecided bytes after them) is processed block by block in
  order, the files become what the block processor makes of them, one acknowledgement per block
  is answered, in the same order, and the bytes after the last block are kept.
\<close>

lemma pipeline_acknowledged:
  assumes "pwrite_ok P" and "srv_ok s" and "sv_conns s h = Some c" and "conn_idle c" and "helloDone c"
    and "tx_ok (sv_tx s h)" and "rx_plain rx"
    and "ReadPtr (recvBuf c) @ rx_stream rx = concat (map msg_bytes ms) @ rest"
    and "\<forall>m \<in> set ms. is_data m" and "fst (TryParse_at (length rest) rest ParsedMessage_zero) = kNeedMore"
    and "process_all P (sv_disk s) (sv_files s) ms = (fs', acks)"
  shows "sv_files (HandleConnReadable P h rx s) = fs' \<and> length acks = length ms
     \<and> out_stream h (HandleConnReadable P h rx s) = out_stream h s @ concat (map ack_bytes acks)
     \<and> (\<exists>c'. sv_conns (HandleConnReadable P h rx s) h = Some c' \<and> ReadPtr (recvBuf c') = rest)"
  by (rule HandleConnReadable_data [OF assms])

lemma pipeline_acknowledged_witness:
  "out_stream 5 (HandleConnReadable demo_platform 5
      [Received (take 30 (msg_bytes demo_data)), Received (drop 30 (msg_bytes demo_data))] (demo_server True))
   = ack_bytes \<lparr> ak_BlockIndex = 0, ak_Status = 0, ak_DevNo = 0, ak_Hash = replicate 32 7 \<rparr>"
proof -
  have l: "length (msg_bytes demo_data) = 72" by (simp add: demo_data_def)
  note ne = demo_cut [OF l]
  have "process_all demo_platform demo_disk demo_files [demo_data]
    = (demo_files(3 := [9, 8, 7, 6, 5, 6]), [\<lparr> ak_BlockIndex = 0, ak_Status = 0, ak_DevNo = 0, ak_Hash = replicate 32 7 \<rparr>])"
    by (simp add: demo_data_def)
      (simp add: Process_def demo_defs Get_def raw_capacity_def block_offset_def ComputeSha256_def do_pwrite_def
        file_write_def overwrite_def)
  from pipeline_acknowledged [OF demo_pwrite_ok demo_server_ok [of True], of 5 "demo_conn True"
      "[Received (take 30 (msg_bytes demo_data)), Received (drop 30 (msg_bytes demo_data))]" "[demo_data]" "[]", OF _ demo_conn_idle]
    this ne demo_data_ok
  show ?thesis by (simp add: tx_ok_def TryParse_at_def out_stream_def)
qed

text \<open>The device of a \<open>HELLO\<close> is registered, and its file is at least as large as the announced disk.\<close>

definition device_fits :: "DiskMap \<Rightarrow> HelloBody \<Rightarrow> bool" where
  "device_fits dm hb \<longleftrightarrow> (\<exists>bf. Get dm (hb_DevNo hb) = Some bf \<and> hb_TotalSize hb \<le> bf_size_bytes bf)"

text \<open>A refusal: the connection is closed, and of the answer as much was sent as the socket took at once.\<close>

definition refused :: "int \<Rightarrow> Server \<Rightarrow> HelloBody \<Rightarrow> Server \<Rightarrow> bool" where
  "refused h s hb t \<longleftrightarrow> sv_conns t h = None
     \<and> (\<exists>st q. st \<noteq> OK \<and> sv_sent t h @ q = out_stream h s @ ack_bytes (plain_ack (hb_DevNo hb) st))"

lemma HandleHello_accepts:
  assumes "sv_conns s h = Some c" and "\<not> helloDone c" and "length (hb_VersionType hb) = 32" and "device_fits (sv_disk s) hb"
  shows "HandleHello h hdr (HelloBody_bytes hb) s
    = touch h (EnqueueAck h (plain_ack (hb_DevNo hb) OK) (set_conn h (c\<lparr> c_devno := hb_DevNo hb, helloDone := True \<rparr>) s))"
proof -
  have "HelloBody_of (take 88 (HelloBody_bytes hb)) = hb" "\<not> length (HelloBody_bytes hb) < 88" using assms(3) by simp_all
  then show ?thesis using assms by (auto simp: device_fits_def HandleHello_def Let_def not_less [symmetric])
qed

lemma HandleHello_effect:
  assumes "srv_ok s" and "sv_conns s h = Some c" and "\<not> helloDone c" and "tx_ok (sv_tx s h)"
    and "length (hb_VersionType hb) = 32" and t: "t = HandleHello h hdr (HelloBody_bytes hb) s"
  shows "sv_files t = sv_files s \<and> sv_disk t = sv_disk s
     \<and> (if device_fits (sv_disk s) hb
        then session_ready h t \<and> out_stream h t = out_stream h s @ ack_bytes (plain_ack (hb_DevNo hb) OK)
           \<and> (\<exists>c'. sv_conns t h = Some c' \<and> helloDone c' \<and> c_devno c' = hb_DevNo hb)
        else refused h s hb t)"
proof (cases "device_fits (sv_disk s) hb")
  case True
  then obtain bf where bf: "Get (sv_disk s) (hb_DevNo hb) = Some bf" by (auto simp: device_fits_def)
  define c1 where "c1 = c\<lparr> c_devno := hb_DevNo hb, helloDone := True \<rparr>"
  have ok1: "srv_ok (set_conn h c1 s)"
    using srv_ok_conn [OF assms(1,2)] bf(1)
    by (intro srv_ok_set_conn [OF assms(1,2)]) (auto simp: c1_def conn_wf_def Contains_def Get_def)
  have st: "sv_conns (set_conn h c1 s) h = Some c1" "sv_tx (set_conn h c1 s) = sv_tx s"
    "out_stream h (set_conn h c1 s) = out_stream h s" "sv_files (set_conn h c1 s) = sv_files s" "sv_disk (set_conn h c1 s) = sv_disk s"
    using assms(2) by (simp_all add: set_conn_def out_stream_def c1_def)
  have "t = touch h (EnqueueAck h (plain_ack (hb_DevNo hb) OK) (set_conn h c1 s))"
    using HandleHello_accepts [OF assms(2,3,5) True] by (simp add: t c1_def)
  with EnqueueAck_healthy [OF ok1 st(1), of "plain_ack (hb_DevNo hb) OK"] st assms(4) True
  show ?thesis by (auto simp: touch_def c1_def session_ready_def)
next
  case False
  have dec: "HelloBody_of (take 88 (HelloBody_bytes hb)) = hb" "\<not> length (HelloBody_bytes hb) < 88" using assms(5) by simp_all
  have "\<exists>st. st \<noteq> OK \<and> t = reject h (plain_ack (hb_DevNo hb) st) s"
    using False assms(2,3) dec by (auto simp: t device_fits_def HandleHello_def Let_def not_le split: option.split)
  then obtain st where st: "st \<noteq> OK" "t = reject h (plain_ack (hb_DevNo hb) st) s" by blast
  obtain b where b: "sv_conns (EnqueueAck h (plain_ack (hb_DevNo hb) st) s) = (sv_conns s)(h \<mapsto> c\<lparr> sendBuf := b \<rparr>)"
    "out_stream h (EnqueueAck h (plain_ack (hb_DevNo hb) st) s) = out_stream h s @ ack_bytes (plain_ack (hb_DevNo hb) st)"
    "sv_files (EnqueueAck h (plain_ack (hb_DevNo hb) st) s) = sv_files s" "sv_disk (EnqueueAck h (plain_ack (hb_DevNo hb) st) s) = sv_disk s"
    using EnqueueAck_healthy [OF assms(1,2,4)] by blast
  then have "sv_sent t h @ ReadPtr b = out_stream h s @ ack_bytes (plain_ack (hb_DevNo hb) st)"
    by (simp add: st(2) reject_def CloseConn_def touch_def out_stream_def)
  moreover have "sv_conns t h = None" "sv_files t = sv_files s" "sv_disk t = sv_disk s" using b by (simp_all add: st(2) reject_def CloseConn_def touch_def)
  ultimately show ?thesis using False st(1) by (auto simp: refused_def)
qed

text \<open>
  The handshake: on a connection that has not yet said hello, a \<open>HELLO\<close> message is accepted
  exactly when the device is registered and its file is at least as large as the announced
  disk; then the connection is bound to the device and answered with \<open>OK\<close>. Every other
  \<open>HELLO\<close> closes the connection. No file changes.
\<close>

lemma hello_decides:
  assumes "srv_ok s" and "sv_conns s h = Some c" and "\<not> helloDone c" and "tx_ok (sv_tx s h)"
    and "length (hb_VersionType hb) = 32"
  shows "sv_files (HandleHello h hdr (HelloBody_bytes hb) s) = sv_files s
     \<and> (if (\<exists>bf. Get (sv_disk s) (hb_DevNo hb) = Some bf \<and> hb_TotalSize hb \<le> bf_size_bytes bf)
        then out_stream h (HandleHello h hdr (HelloBody_bytes hb) s)
               = out_stream h s @ ack_bytes (plain_ack (hb_DevNo hb) OK)
             \<and> (\<exists>c'. sv_conns (HandleHello h hdr (HelloBody_bytes hb) s) h = Some c'
                    \<and> helloDone c' \<and> c_devno c' = hb_DevNo hb)
        else sv_conns (HandleHello h hdr (HelloBody_bytes hb) s) h = None)"
  using HandleHello_effect [where hdr = hdr, OF assms refl]
  by (cases "device_fits (sv_disk s) hb") (simp_all add: refused_def flip: device_fits_def)

definition demo_hello :: HelloBody where
  "demo_hello = \<lparr> hb_VersionId = 1, hb_DevNo = 0, hb_TotalBlocks = 1, hb_TotalSize = 6, hb_VersionType = replicate 32 0 \<rparr>"

lemma hello_decides_witness:
  "\<exists>c'. sv_conns (HandleHello 5 (pm_header demo_data) (HelloBody_bytes demo_hello) (demo_server False)) 5 = Some c' \<and> helloDone c'"
  using hello_decides [OF demo_server_ok [of False], of 5 "demo_conn False" demo_hello "pm_header demo_data"]
  by (auto simp: demo_hello_def tx_ok_def Get_def demo_disk_def)

text \<open>
  C23. No message changes a file before the handshake, or without being a data block.
\<close>

theorem no_write_before_hello:
  assumes "sv_files (dispatch P h m s) \<noteq> sv_files s"
  shows "mh_Type (pm_header m) = msg_code DATA_BLOCK \<and> (\<exists>c. sv_conns s h = Some c \<and> helloDone c)"
proof (rule ccontr)
  assume no: "\<not> ?thesis"
  have w: "sv_files (HandleConnWritable h s) = sv_files s" for s
    by (auto simp: HandleConnWritable_def CloseConn_def EpollMod_def set_conn_def touch_def Let_def
        split: option.split prod.split send_end.split)
  then have e: "sv_files (EnqueueAck h ack s) = sv_files s" for ack s
    by (auto simp: EnqueueAck_def TryArmWrite_def EpollMod_def set_conn_def touch_def Let_def split: option.split)
  have r: "sv_files (reject h ack s) = sv_files s" for ack s
    using e by (auto simp: reject_def CloseConn_def touch_def split: option.split)
  have "sv_files (HandleHello h hdr body s) = sv_files s" for hdr body
    by (auto simp: HandleHello_def Let_def e r touch_def set_conn_def split: option.split)
  moreover have "sv_files (HandleBye h hdr s) = sv_files s" for hdr
    by (simp add: HandleBye_def r) (simp add: touch_def)
  moreover have "sv_files (HandleDataBlock P h hdr body s) = sv_files s"
    if "mh_Type (pm_header m) = msg_code DATA_BLOCK" for hdr body
    using no that by (auto simp: HandleDataBlock_def CloseConn_def touch_def split: option.split)
  ultimately have "sv_files (dispatch P h m s) = sv_files s"
    by (auto simp: dispatch_def msg_type_of_Some_iff split: option.split MessageType.split)
  with assms show False by simp
qed

theorem no_write_before_hello_witness:
  "\<exists>c. sv_conns (demo_server True) 5 = Some c \<and> helloDone c"
proof -
  have "sv_files (dispatch demo_platform 5 demo_data (demo_server True)) 3 \<noteq> sv_files (demo_server True) 3"
  proof -
    have p: "Process demo_platform demo_disk demo_files 0 demo_block [9, 8, 7, 6] =
     (demo_files(3 := [9, 8, 7, 6, 5, 6]), \<lparr> ak_BlockIndex = 0, ak_Status = 0, ak_DevNo = 0, ak_Hash = replicate 32 7 \<rparr>, OK)"
      by (simp add: Process_def demo_defs Get_def raw_capacity_def block_offset_def ComputeSha256_def do_pwrite_def
        file_write_def overwrite_def)
    from dispatch_data [OF demo_pwrite_ok demo_server_ok [of True] _ demo_data_ok, of 5] p
    show ?thesis by (simp add: session_ready_def tx_ok_def demo_data_def demo_files_def)
  qed
  then have "sv_files (dispatch demo_platform 5 demo_data (demo_server True)) \<noteq> sv_files (demo_server True)" by metis
  from no_write_before_hello [OF this] show ?thesis ..
qed

text \<open>
  After a \<open>BYE\<close> the message loop reads the connection that its handler has destroyed: the
  connection is gone and a use after free has happened, whatever the socket does.
\<close>

lemma bye_use_after_free:
  assumes "srv_ok s" and "sv_conns s h = Some c" and "ReadPtr (recvBuf c) = msg_bytes m @ rest"
    and "wf_msg m" and "mh_Type (pm_header m) = msg_code BYE"
  shows "sv_conns (ProcessMessages P h s) h = None \<and> sv_uaf (ProcessMessages P h s)"
proof -
  have wf: "rb_wf (recvBuf c)" using srv_ok_recvBuf [OF assms(1,2)] by simp
  have "TryParse (recvBuf c) ParsedMessage_zero = (kOk, m, ParseDiag_zero)"
    unfolding TryParse_def by (rule TryParse_at_frame [OF assms(4,3)]) (use wf in simp)
  moreover have "sv_conns (dispatch P h m s) h = None"
    using assms(5) by (simp add: dispatch_def HandleBye_def reject_def)
  ultimately show ?thesis
    using assms(2) by (simp add: ProcessMessages.simps [of P h s] Let_def) (simp add: touch_def)
qed


theorem bye_use_after_free_witness:
  "sv_uaf (ProcessMessages demo_platform 5 (set_recv 5
     (WriteFrom (RingBuffer_new kRecvBufSize) (msg_bytes demo_bye)) (demo_server True)))"
proof -
  define b where "b = WriteFrom (RingBuffer_new kRecvBufSize) (msg_bytes demo_bye)"
  have b: "rb_wf b" "ReadPtr b = msg_bytes demo_bye" by (simp_all add: b_def WriteFrom_wf WriteFrom_ReadPtr)
  have "length (rb_buf b) = kRecvBufSize"
    by (simp add: b_def WriteFrom_def Let_def) (simp add: RingBuffer_new_def kRecvBufSize_def demo_bye_def)
  then have "srv_ok (set_recv 5 b (demo_server True))" using b demo_server_ok by (simp add: srv_ok_set_recv)
  from bye_use_after_free [OF this, of 5 "(demo_conn True)\<lparr> recvBuf := b \<rparr>" demo_bye "[]" demo_platform] b demo_bye_wf
  show ?thesis by (simp add: b_def [symmetric]) (simp add: demo_bye_def)
qed

end
