(* ===== verification/Network_Client.thy ===== *)
theory Network_Client
  imports Message_Parser
begin

text \<open>
  The TCP client, \<open>client/NetworkClient.{h,cpp}\<close>. The socket is blocking with a time-out; its
  answers to \<open>send\<close> and \<open>recv\<close> are scripts in the state, a script that has run out is the
  time-out, and \<open>nc_out\<close> collects the bytes the kernel accepted. The structs are those of
  \<open>Wire_Format\<close>: the client's declarations mirror the server's.
\<close>

section \<open>State\<close>

text \<open>The options of a socket that are set, in the order of the calls; times in milliseconds.\<close>

datatype socket_option = ReceiveTimeout u32 | SendTimeout u32 | KeepAlive | KeepAliveValues u32 u32

record NetworkClient =
  nc_socket :: bool
  nc_connected :: bool
  nc_timeoutSec :: int
  nc_serverIp :: string
  nc_port :: u16
  nc_ackRunning :: bool
  nc_options :: "socket_option list"
  nc_tx :: "send_result list"
  nc_rx :: "recv_result list"
  nc_out :: "byte list"

definition NetworkClient_new :: NetworkClient where
  "NetworkClient_new = \<lparr> nc_socket = False, nc_connected = False, nc_timeoutSec = 30, nc_serverIp = [], nc_port = 0,
     nc_ackRunning = False, nc_options = [], nc_tx = [], nc_rx = [], nc_out = [] \<rparr>"

text \<open>
  \<open>Connect\<close>: the results of \<open>socket\<close>, \<open>inet_pton\<close> and \<open>connect\<close> and the answers of the new
  socket are the environment's; \<open>ce_option_ok\<close> says whether \<open>setsockopt\<close> or \<open>WSAIoctl\<close> accepts an option.
\<close>

record connect_env =
  ce_socket_ok :: bool
  ce_option_ok :: "socket_option \<Rightarrow> bool"
  ce_addr_ok :: bool
  ce_connect_ok :: bool
  ce_tx :: "send_result list"
  ce_rx :: "recv_result list"

definition apply_option :: "connect_env \<Rightarrow> socket_option \<Rightarrow> NetworkClient \<Rightarrow> NetworkClient \<times> bool" where
  "apply_option e opt c = (if ce_option_ok e opt then (c\<lparr> nc_options := nc_options c @ [opt] \<rparr>, True) else (c, False))"

definition SetSocketTimeout :: "connect_env \<Rightarrow> int \<Rightarrow> NetworkClient \<Rightarrow> NetworkClient \<times> bool" where
  "SetSocketTimeout e timeoutSec c =
     (let timeout = (of_int (timeoutSec * 1000) :: u32) in
      case apply_option e (ReceiveTimeout timeout) c of (c1, ok) \<Rightarrow>
        if \<not> ok then (c1, False) else apply_option e (SendTimeout timeout) c1)"

definition SetTcpKeepAlive :: "connect_env \<Rightarrow> NetworkClient \<Rightarrow> NetworkClient \<times> bool" where
  "SetTcpKeepAlive e c =
     (case apply_option e KeepAlive c of (c1, ok) \<Rightarrow>
        if \<not> ok then (c1, False) else apply_option e (KeepAliveValues (30 * 1000) (5 * 1000)) c1)"

text \<open>The static flag of \<open>InitializeWinsock\<close> and its result; \<open>startup\<close> is what \<open>WSAStartup\<close> returns. The constructor ignores it.\<close>

definition InitializeWinsock :: "int \<Rightarrow> bool \<Rightarrow> bool \<times> bool" where
  "InitializeWinsock startup winsockReady = (if winsockReady then (True, True) else if startup \<noteq> 0 then (False, False) else (True, True))"

text \<open>The results of the options are ignored; the time-outs are set twice.\<close>

definition Connect :: "connect_env \<Rightarrow> string \<Rightarrow> u16 \<Rightarrow> int \<Rightarrow> NetworkClient \<Rightarrow> NetworkClient \<times> bool" where
  "Connect e serverIp port timeoutSec c0 =
     (let c1 = c0\<lparr> nc_serverIp := serverIp, nc_port := port, nc_timeoutSec := timeoutSec \<rparr> in
      if \<not> ce_socket_ok e then (c1\<lparr> nc_socket := False \<rparr>, False)
      else
        let c2 = fst (SetTcpKeepAlive e (c1\<lparr> nc_options := [] \<rparr>));
            c = fst (SetSocketTimeout e timeoutSec (fst (SetSocketTimeout e timeoutSec c2)))
        in
      if \<not> ce_addr_ok e then (c\<lparr> nc_socket := False \<rparr>, False)
      else if \<not> ce_connect_ok e then (c\<lparr> nc_socket := False \<rparr>, False)
      else (c\<lparr> nc_socket := True, nc_connected := True, nc_tx := ce_tx e, nc_rx := ce_rx e, nc_out := [] \<rparr>, True))"

definition Disconnect :: "NetworkClient \<Rightarrow> NetworkClient" where
  "Disconnect c = c\<lparr> nc_socket := False, nc_connected := False \<rparr>"

section \<open>Exact transfers\<close>

text \<open>The loop of \<open>SendAll\<close>: the bytes accepted, the answers left, and success.\<close>

fun send_all :: "send_result list \<Rightarrow> byte list \<Rightarrow> byte list \<times> send_result list \<times> bool" where
  "send_all tx data =
     (if data = [] then ([], tx, True)
      else case tx of
          [] \<Rightarrow> ([], [], False)
        | SendErr e # tx' \<Rightarrow> ([], tx', False)
        | Sent n # tx' \<Rightarrow>
            let k = min n (length data) in
            (case send_all tx' (drop k data) of (out, tx'', ok) \<Rightarrow> (take k data @ out, tx'', ok)))"

declare send_all.simps [simp del]

definition SendAll :: "byte list \<Rightarrow> NetworkClient \<Rightarrow> NetworkClient \<times> bool" where
  "SendAll data c =
     (case send_all (nc_tx c) data of (out, tx', ok) \<Rightarrow>
        (let c1 = c\<lparr> nc_tx := tx', nc_out := nc_out c @ out \<rparr>
         in (if ok then c1 else c1\<lparr> nc_connected := False \<rparr>, ok)))"

text \<open>The loop of \<open>RecvAll\<close>: \<open>n\<close> bytes, or \<open>None\<close> on an error or a closed connection.\<close>

fun recv_all :: "nat \<Rightarrow> recv_result list \<Rightarrow> byte list option \<times> recv_result list" where
  "recv_all n rx =
     (if n = 0 then (Some [], rx)
      else case rx of
          [] \<Rightarrow> (None, [])
        | RecvErr e # rx' \<Rightarrow> (None, rx')
        | Received d # rx' \<Rightarrow>
            (if d = [] then (None, rx')
             else if n < length d then (Some (take n d), Received (drop n d) # rx')
             else case recv_all (n - length d) rx' of (r, rx'') \<Rightarrow> (map_option ((@) d) r, rx'')))"

declare recv_all.simps [simp del]

definition RecvAll :: "nat \<Rightarrow> NetworkClient \<Rightarrow> NetworkClient \<times> byte list option" where
  "RecvAll n c =
     (case recv_all n (nc_rx c) of (r, rx') \<Rightarrow>
        (let c1 = c\<lparr> nc_rx := rx' \<rparr> in (if r = None then c1\<lparr> nc_connected := False \<rparr> else c1, r)))"

section \<open>Messages\<close>

definition client_header :: "MessageType \<Rightarrow> u32 \<Rightarrow> MsgHeader" where
  "client_header t devNo = \<lparr> mh_Magic = PROTOCOL_MAGIC, mh_Type = msg_code t, mh_DevNo = devNo, mh_Reserved = 0 \<rparr>"

text \<open>\<open>expectedBlockIndex\<close> is a parameter of the code that its body never reads.\<close>

definition ReceiveAck :: "u32 \<Rightarrow> u64 \<Rightarrow> NetworkClient \<Rightarrow> NetworkClient \<times> bool" where
  "ReceiveAck devNo expectedBlockIndex c =
     (case RecvAll 16 c of
        (c1, None) \<Rightarrow> (c1, False)
      | (c1, Some hb) \<Rightarrow>
          let hdr = MsgHeader_of hb in
          if mh_Magic hdr \<noteq> PROTOCOL_MAGIC then (c1, False)
          else if mh_Type hdr \<noteq> msg_code ACK then (c1, False)
          else (case RecvAll 48 c1 of
                  (c2, None) \<Rightarrow> (c2, False)
                | (c2, Some ab) \<Rightarrow> (c2, ak_Status (AckBody_of ab) = 0)))"

text \<open>\<open>wcsncpy_s(body.VersionType, versionType.c_str(), 31)\<close> into a zeroed array of 32.\<close>

definition hello_type :: "wstring \<Rightarrow> u16 list" where
  "hello_type ty = (let s = take 31 (takeWhile (\<lambda>ch. ch \<noteq> 0) ty) in s @ replicate (32 - length s) 0)"

definition hello_body :: "u32 \<Rightarrow> u32 \<Rightarrow> u64 \<Rightarrow> u64 \<Rightarrow> wstring \<Rightarrow> HelloBody" where
  "hello_body versionId devNo totalBlocks totalSize versionType =
     \<lparr> hb_VersionId = versionId, hb_DevNo = devNo, hb_TotalBlocks = totalBlocks, hb_TotalSize = totalSize,
       hb_VersionType = hello_type versionType \<rparr>"

definition SendHello :: "u32 \<Rightarrow> u32 \<Rightarrow> u64 \<Rightarrow> u64 \<Rightarrow> wstring \<Rightarrow> NetworkClient \<Rightarrow> NetworkClient \<times> bool" where
  "SendHello versionId devNo totalBlocks totalSize versionType c =
     (if \<not> nc_connected c then (c, False)
      else case SendAll (MsgHeader_bytes (client_header HELLO devNo)) c of (c1, ok1) \<Rightarrow>
        if \<not> ok1 then (c1, False)
        else case SendAll (HelloBody_bytes (hello_body versionId devNo totalBlocks totalSize versionType)) c1 of (c2, ok2) \<Rightarrow>
          if \<not> ok2 then (c2, False) else ReceiveAck devNo 0 c2)"

definition client_block :: "u64 \<Rightarrow> u32 \<Rightarrow> byte list \<Rightarrow> byte list \<Rightarrow> u32 \<Rightarrow> BlockHeader" where
  "client_block blockIndex rawSize compressed hash versionId =
     \<lparr> bh_BlockIndex = blockIndex, bh_DataSize = rawSize, bh_CompressedSize = of_nat (length compressed),
       bh_Hash = take 32 hash, bh_VersionId = versionId \<rparr>"

definition SendBlockNoWait ::
  "u32 \<Rightarrow> u64 \<Rightarrow> u32 \<Rightarrow> byte list \<Rightarrow> byte list \<Rightarrow> u32 \<Rightarrow> NetworkClient \<Rightarrow> NetworkClient \<times> bool" where
  "SendBlockNoWait devNo blockIndex rawSize compressed hash versionId c =
     (if \<not> nc_connected c then (c, False)
      else case SendAll (MsgHeader_bytes (client_header DATA_BLOCK devNo)) c of (c1, ok1) \<Rightarrow>
        if \<not> ok1 then (c1, False)
        else case SendAll (BlockHeader_bytes (client_block blockIndex rawSize compressed hash versionId)) c1 of (c2, ok2) \<Rightarrow>
          if \<not> ok2 then (c2, False) else SendAll compressed c2)"

definition SendBlock ::
  "u32 \<Rightarrow> u64 \<Rightarrow> u32 \<Rightarrow> byte list \<Rightarrow> byte list \<Rightarrow> u32 \<Rightarrow> NetworkClient \<Rightarrow> NetworkClient \<times> bool" where
  "SendBlock devNo blockIndex rawSize compressed hash versionId c =
     (if \<not> nc_connected c then (c, False)
      else case SendAll (MsgHeader_bytes (client_header DATA_BLOCK devNo)) c of (c1, ok1) \<Rightarrow>
        if \<not> ok1 then (c1, False)
        else case SendAll (BlockHeader_bytes (client_block blockIndex rawSize compressed hash versionId)) c1 of (c2, ok2) \<Rightarrow>
          if \<not> ok2 then (c2, False)
          else case SendAll compressed c2 of (c3, ok3) \<Rightarrow>
            if \<not> ok3 then (c3, False) else ReceiveAck devNo blockIndex c3)"

definition SendBye :: "u32 \<Rightarrow> NetworkClient \<Rightarrow> NetworkClient \<times> bool" where
  "SendBye devNo c =
     (if \<not> nc_connected c then (c, False)
      else case SendAll (MsgHeader_bytes (client_header BYE devNo)) c of (c1, ok1) \<Rightarrow>
        if \<not> ok1 then (c1, False) else ReceiveAck devNo 0xFFFFFFFFFFFFFFFF c1)"

section \<open>The acknowledgement thread\<close>

text \<open>One round of the loop: the flag was cleared, or what \<open>select\<close> returned.\<close>

datatype ack_poll = FlagCleared | SelectError | SelectTimeout | SelectReady

text \<open>A call of \<open>AckCallback\<close>: device, block index, hash, status.\<close>

record ack_call =
  ac_DevNo :: u32
  ac_BlockIndex :: u64
  ac_Hash :: "byte list"
  ac_Status :: u32

definition error_call :: "u32 \<Rightarrow> ack_call" where
  "error_call status = \<lparr> ac_DevNo = 0, ac_BlockIndex = 0xFFFFFFFFFFFFFFFF, ac_Hash = replicate 32 0, ac_Status = status \<rparr>"

definition ack_call_of :: "AckBody \<Rightarrow> ack_call" where
  "ack_call_of a = \<lparr> ac_DevNo = ak_DevNo a, ac_BlockIndex = ak_BlockIndex a, ac_Hash = ak_Hash a, ac_Status = ak_Status a \<rparr>"

text \<open>One reception: \<open>Inl\<close> the error code that ends the loop, \<open>Inr\<close> the acknowledgement.\<close>

definition receive_one :: "NetworkClient \<Rightarrow> NetworkClient \<times> (u32 + AckBody)" where
  "receive_one c =
     (case RecvAll 16 c of
        (c1, None) \<Rightarrow> (c1, Inl (-2))
      | (c1, Some hb) \<Rightarrow>
          let hdr = MsgHeader_of hb in
          if mh_Magic hdr \<noteq> PROTOCOL_MAGIC then (c1, Inl (-3))
          else if mh_Type hdr \<noteq> msg_code ACK then (c1, Inl (-4))
          else (case RecvAll 48 c1 of
                  (c2, None) \<Rightarrow> (c2, Inl (-5))
                | (c2, Some ab) \<Rightarrow> (c2, Inr (AckBody_of ab))))"

fun AckReceiverLoop :: "ack_poll list \<Rightarrow> NetworkClient \<Rightarrow> NetworkClient \<times> ack_call list" where
  "AckReceiverLoop [] c = (c, [])"
| "AckReceiverLoop (FlagCleared # ps) c = (c, [])"
| "AckReceiverLoop (SelectError # ps) c = (c, [error_call (-1)])"
| "AckReceiverLoop (SelectTimeout # ps) c = AckReceiverLoop ps c"
| "AckReceiverLoop (SelectReady # ps) c =
     (case receive_one c of
        (c1, Inl err) \<Rightarrow> (c1, [error_call err])
      | (c1, Inr ack) \<Rightarrow> (case AckReceiverLoop ps c1 of (c2, calls) \<Rightarrow> (c2, ack_call_of ack # calls)))"

text \<open>
  Joining the thread runs its loop to the end: \<open>StopAckReceiver\<close> clears the flag and joins;
  the rounds it still makes are the argument.
\<close>

definition StopAckReceiver :: "ack_poll list \<Rightarrow> NetworkClient \<Rightarrow> NetworkClient \<times> ack_call list" where
  "StopAckReceiver ps c =
     (case AckReceiverLoop ps c of (c1, calls) \<Rightarrow> (c1\<lparr> nc_ackRunning := False \<rparr>, calls))"

definition StartAckReceiver :: "ack_poll list \<Rightarrow> NetworkClient \<Rightarrow> NetworkClient \<times> ack_call list" where
  "StartAckReceiver ps c =
     (case StopAckReceiver ps c of (c1, calls) \<Rightarrow> (c1\<lparr> nc_ackRunning := True \<rparr>, calls))"

text \<open>The destructor: the thread may still deliver before it ends.\<close>

definition destroy_client :: "ack_poll list \<Rightarrow> NetworkClient \<Rightarrow> NetworkClient \<times> ack_call list" where
  "destroy_client ps c = (case StopAckReceiver ps c of (c1, calls) \<Rightarrow> (Disconnect c1, calls))"

section \<open>Exact transfers\<close>

lemma send_all_effect:
  "send_all tx data = (out, tx', ok) \<Longrightarrow> (ok \<longrightarrow> out = data) \<and> (\<exists>rest. data = out @ rest \<and> (\<not> ok \<longrightarrow> rest \<noteq> []))"
proof (induction tx data arbitrary: out tx' ok rule: send_all.induct)
  case (1 tx data)
  show ?case
  proof (cases "\<exists>n tx1. tx = Sent n # tx1 \<and> data \<noteq> []")
    case True
    then obtain n tx1 where tx: "tx = Sent n # tx1" "data \<noteq> []" by blast
    define k where "k = min n (length data)"
    obtain out1 tx2 ok1 where r: "send_all tx1 (drop k data) = (out1, tx2, ok1)" by (metis prod_cases3)
    have eq: "out = take k data @ out1" "ok = ok1"
      using "1.prems" tx r by (simp_all add: send_all.simps [of "Sent n # tx1" data] k_def)
    have "(ok1 \<longrightarrow> out1 = drop k data) \<and> (\<exists>rest. drop k data = out1 @ rest \<and> (\<not> ok1 \<longrightarrow> rest \<noteq> []))"
      using "1.IH" [OF tx(2,1) refl k_def r] .
    then obtain rest where "ok1 \<longrightarrow> out1 = drop k data" "drop k data = out1 @ rest" "\<not> ok1 \<longrightarrow> rest \<noteq> []" by blast
    moreover have "data = take k data @ drop k data" by simp
    ultimately show ?thesis unfolding eq by (metis append.assoc)
  next
    case False
    then show ?thesis
      using "1.prems" by (auto simp: send_all.simps [of tx] split: if_splits list.splits send_result.splits)
  qed
qed

text \<open>A socket that accepts something every time takes everything, given enough rounds.\<close>

lemma send_all_succeeds:
  "length data \<le> length tx \<Longrightarrow> \<forall>r \<in> set tx. \<exists>n > 0. r = Sent n \<Longrightarrow> \<exists>tx'. send_all tx data = (data, tx', True)"
proof (induction tx arbitrary: data)
  case Nil
  then show ?case by (simp add: send_all.simps)
next
  case (Cons r tx)
  obtain n where n: "r = Sent n" "0 < n" using Cons.prems(2) by auto
  show ?case
  proof (cases "data = []")
    case False
    have "length (drop (min n (length data)) data) \<le> length tx"
      using Cons.prems(1) n(2) False by (cases data) auto
    then obtain tx' where "send_all tx (drop (min n (length data)) data) = (drop (min n (length data)) data, tx', True)"
      using Cons by fastforce
    then show ?thesis using False n by (simp add: send_all.simps [of "Sent n # tx" data] Let_def)
  qed (simp add: send_all.simps)
qed

lemma SendAll_effect:
  assumes "SendAll data c = (c', ok)"
  shows "(ok \<longrightarrow> nc_out c' = nc_out c @ data \<and> nc_connected c' = nc_connected c)
     \<and> (\<not> ok \<longrightarrow> \<not> nc_connected c' \<and> (\<exists>p q. data = p @ q \<and> q \<noteq> [] \<and> nc_out c' = nc_out c @ p))
     \<and> nc_rx c' = nc_rx c"
proof -
  obtain out tx' ok1 where sa: "send_all (nc_tx c) data = (out, tx', ok1)" by (metis prod_cases3)
  from send_all_effect [OF sa] obtain rest where e: "ok1 \<longrightarrow> out = data" "data = out @ rest" "\<not> ok1 \<longrightarrow> rest \<noteq> []" by blast
  show ?thesis
  proof (cases ok1)
    case True
    then have "ok \<and> c' = c\<lparr> nc_tx := tx', nc_out := nc_out c @ out \<rparr>"
      using assms sa by (simp add: SendAll_def Let_def)
    then show ?thesis using e(1) True by simp
  next
    case False
    then have "\<not> ok \<and> c' = c\<lparr> nc_tx := tx', nc_out := nc_out c @ out, nc_connected := False \<rparr>"
      using assms sa by (simp add: SendAll_def Let_def)
    then show ?thesis using e(2,3) False by auto
  qed
qed

lemma recv_all_plain:
  "rx_plain rx \<Longrightarrow> n \<le> length (rx_stream rx) \<Longrightarrow>
   \<exists>rx'. recv_all n rx = (Some (take n (rx_stream rx)), rx') \<and> rx_plain rx' \<and> rx_stream rx' = drop n (rx_stream rx)"
proof (induction rx arbitrary: n rule: rx_stream.induct)
  case 1
  then show ?case by (simp add: recv_all.simps)
next
  case (2 d rx)
  show ?case
  proof (cases "n < length d \<or> n = 0")
    case True
    then show ?thesis using "2.prems" by (auto simp: recv_all.simps [of n])
  next
    case False
    obtain rx' where rx': "recv_all (n - length d) rx = (Some (take (n - length d) (rx_stream rx)), rx')"
      "rx_plain rx'" "rx_stream rx' = drop (n - length d) (rx_stream rx)"
    proof -
      have "n - length d \<le> length (rx_stream rx)" using "2.prems"(2) by simp
      then show thesis using "2.IH" [of "n - length d"] "2.prems"(1) that by auto
    qed
    then show ?thesis using False "2.prems" by (simp add: recv_all.simps [of n])
  qed
qed simp

lemma RecvAll_plain:
  assumes "rx_plain (nc_rx c)" and "rx_stream (nc_rx c) = d @ rest" and "length d = n"
  shows "\<exists>rx'. RecvAll n c = (c\<lparr> nc_rx := rx' \<rparr>, Some d) \<and> rx_plain rx' \<and> rx_stream rx' = rest"
  using recv_all_plain [OF assms(1), of n] assms by (auto simp: RecvAll_def Let_def)

section \<open>Acknowledgements\<close>

definition ack_msg :: "AckBody \<Rightarrow> byte list" where
  "ack_msg a = MsgHeader_bytes (client_header ACK (ak_DevNo a)) @ AckBody_bytes a"

lemma receive_one_ack:
  assumes "rx_plain (nc_rx c)" and "rx_stream (nc_rx c) = ack_msg a @ rest" and "length (ak_Hash a) = 32"
  shows "\<exists>rx'. receive_one c = (c\<lparr> nc_rx := rx' \<rparr>, Inr a) \<and> rx_plain rx' \<and> rx_stream rx' = rest"
proof -
  obtain rx1 where r1: "RecvAll 16 c = (c\<lparr> nc_rx := rx1 \<rparr>, Some (MsgHeader_bytes (client_header ACK (ak_DevNo a))))"
    "rx_plain rx1" "rx_stream rx1 = AckBody_bytes a @ rest"
    using RecvAll_plain [OF assms(1), of "MsgHeader_bytes (client_header ACK (ak_DevNo a))" "AckBody_bytes a @ rest" 16] assms(2)
    by (auto simp: ack_msg_def)
  obtain rx2 where r2: "RecvAll 48 (c\<lparr> nc_rx := rx1 \<rparr>) = (c\<lparr> nc_rx := rx2 \<rparr>, Some (AckBody_bytes a))"
    "rx_plain rx2" "rx_stream rx2 = rest"
    using RecvAll_plain [of "c\<lparr> nc_rx := rx1 \<rparr>" "AckBody_bytes a" rest 48] r1 assms(3) by auto
  have "receive_one c = (c\<lparr> nc_rx := rx2 \<rparr>, Inr a)"
    using r1 r2 assms(3) by (simp add: receive_one_def Let_def client_header_def)
  then show ?thesis using r2 by blast
qed

lemma ReceiveAck_eq: "ReceiveAck devNo idx c = (case receive_one c of (c1, r) \<Rightarrow> (c1, case r of Inl e \<Rightarrow> False | Inr a \<Rightarrow> ak_Status a = 0))"
  by (auto simp: ReceiveAck_def receive_one_def Let_def split: prod.split option.split)

lemma ReceiveAck_ack:
  assumes "rx_plain (nc_rx c)" and "rx_stream (nc_rx c) = ack_msg a @ rest" and "length (ak_Hash a) = 32"
  shows "\<exists>rx'. ReceiveAck devNo idx c = (c\<lparr> nc_rx := rx' \<rparr>, ak_Status a = 0) \<and> rx_plain rx' \<and> rx_stream rx' = rest"
  using receive_one_ack [OF assms] by (auto simp: ReceiveAck_eq)

lemma AckReceiverLoop_acks:
  assumes "rx_plain (nc_rx c)" and "rx_stream (nc_rx c) = concat (map ack_msg acks) @ rest"
    and "\<forall>a \<in> set acks. length (ak_Hash a) = 32"
  shows "\<exists>rx'. AckReceiverLoop (replicate (length acks) SelectReady @ FlagCleared # ps) c = (c\<lparr> nc_rx := rx' \<rparr>, map ack_call_of acks)
     \<and> rx_plain rx' \<and> rx_stream rx' = rest"
  using assms
proof (induction acks arbitrary: c)
  case Nil
  then show ?case by (auto intro: exI [of _ "nc_rx c"])
next
  case (Cons a acks)
  obtain rx1 where r: "receive_one c = (c\<lparr> nc_rx := rx1 \<rparr>, Inr a)" "rx_plain rx1"
    "rx_stream rx1 = concat (map ack_msg acks) @ rest"
    using receive_one_ack [OF Cons.prems(1), of a] Cons.prems(2,3) by auto
  from Cons.IH [of "c\<lparr> nc_rx := rx1 \<rparr>"] r Cons.prems(3) show ?case by auto
qed

section \<open>Data blocks\<close>

definition data_msg :: "u32 \<Rightarrow> u64 \<Rightarrow> u32 \<Rightarrow> byte list \<Rightarrow> byte list \<Rightarrow> u32 \<Rightarrow> ParsedMessage" where
  "data_msg devNo blockIndex rawSize compressed hash versionId =
     \<lparr> pm_header = client_header DATA_BLOCK devNo,
       pm_body = BlockHeader_bytes (client_block blockIndex rawSize compressed hash versionId) @ compressed \<rparr>"

lemma data_msg_wf:
  assumes "length hash = 32" and "length compressed \<le> 2 * BLOCK_SIZE"
  shows "wf_msg (data_msg devNo blockIndex rawSize compressed hash versionId)"
proof -
  define bh where "bh = client_block blockIndex rawSize compressed hash versionId"
  have l: "length (bh_Hash bh) = 32" "unat (bh_CompressedSize bh) = length compressed"
    using assms by (simp_all add: bh_def client_block_def unat_of_nat)
  show ?thesis
    unfolding wf_msg_def data_msg_def bh_def [symmetric]
    using l assms(2) by (auto simp: client_header_def body_ok_def Let_def intro!: exI [of _ DATA_BLOCK])
qed

lemma SendBlockNoWait_True:
  assumes "SendBlockNoWait devNo blockIndex rawSize compressed hash versionId c = (c', True)"
  shows "nc_out c' = nc_out c @ msg_bytes (data_msg devNo blockIndex rawSize compressed hash versionId)
     \<and> nc_connected c' \<and> nc_rx c' = nc_rx c"
  using assms SendAll_effect
  by (fastforce simp: SendBlockNoWait_def msg_bytes_def data_msg_def split: if_splits prod.splits)

lemma SendBlock_split:
  "SendBlock devNo blockIndex rawSize compressed hash versionId c =
   (case SendBlockNoWait devNo blockIndex rawSize compressed hash versionId c of
      (c1, ok) \<Rightarrow> if ok then ReceiveAck devNo blockIndex c1 else (c1, False))"
  by (auto simp: SendBlock_def SendBlockNoWait_def split: prod.splits)

lemma SendBlockNoWait_False:
  assumes "SendBlockNoWait devNo blockIndex rawSize compressed hash versionId c = (c', False)" and "nc_connected c"
  shows "\<not> nc_connected c' \<and> (\<exists>p q. msg_bytes (data_msg devNo blockIndex rawSize compressed hash versionId) = p @ q
     \<and> q \<noteq> [] \<and> nc_out c' = nc_out c @ p) \<and> nc_rx c' = nc_rx c"
proof -
  define h where "h = MsgHeader_bytes (client_header DATA_BLOCK devNo)"
  define b where "b = BlockHeader_bytes (client_block blockIndex rawSize compressed hash versionId)"
  have frame: "msg_bytes (data_msg devNo blockIndex rawSize compressed hash versionId) = h @ b @ compressed"
    by (simp add: msg_bytes_def data_msg_def h_def b_def)
  obtain c1 o1 where s1: "SendAll h c = (c1, o1)" by (metis surj_pair)
  obtain c2 o2 where s2: "SendAll b c1 = (c2, o2)" by (metis surj_pair)
  obtain c3 o3 where s3: "SendAll compressed c2 = (c3, o3)" by (metis surj_pair)
  have eq: "(if \<not> o1 then (c1, False) else if \<not> o2 then (c2, False) else (c3, o3)) = (c', False)"
    using assms s1 s2 s3 unfolding h_def b_def by (cases o1; cases o2) (simp_all add: SendBlockNoWait_def)
  note e = SendAll_effect [OF s1] SendAll_effect [OF s2] SendAll_effect [OF s3]
  show ?thesis
  proof (cases "o1 \<and> o2")
    case True
    then obtain p q where "compressed = p @ q" "q \<noteq> []" "nc_out c' = (nc_out c @ h @ b) @ p" "\<not> nc_connected c'" "nc_rx c' = nc_rx c"
      using eq e by auto
    then show ?thesis unfolding frame by (intro conjI exI [of _ "h @ b @ p"] exI [of _ q]) auto
  next
    case False
    show ?thesis
    proof (cases o1)
      case True
      then obtain p q where "b = p @ q" "q \<noteq> []" "nc_out c' = (nc_out c @ h) @ p" "\<not> nc_connected c'" "nc_rx c' = nc_rx c"
        using eq e False by auto
      then show ?thesis unfolding frame by (intro conjI exI [of _ "h @ p"] exI [of _ "q @ compressed"]) auto
    next
      case False
      then obtain p q where "h = p @ q" "q \<noteq> []" "nc_out c' = nc_out c @ p" "\<not> nc_connected c'" "nc_rx c' = nc_rx c" using eq e by auto
      then show ?thesis unfolding frame by (intro conjI exI [of _ p] exI [of _ "q @ b @ compressed"]) auto
    qed
  qed
qed

section \<open>Properties\<close>

text \<open>
  A block that was sent successfully is on the wire as exactly one frame the server's parser
  accepts, whatever follows it: header, block header with the declared sizes and hash, and the
  compressed bytes. A failed send leaves a prefix of that frame and marks the connection lost.
\<close>

lemma sent_block_on_wire:
  assumes "SendBlockNoWait devNo blockIndex rawSize compressed hash versionId c = (c', ok)" and "nc_connected c"
    and "length hash = 32" and "length compressed \<le> 2 * BLOCK_SIZE"
  shows "if ok then (\<exists>frame. nc_out c' = nc_out c @ frame \<and>
        (\<forall>rest parsed. TryParse_at (length (frame @ rest)) (frame @ rest) parsed
          = (kOk, data_msg devNo blockIndex rawSize compressed hash versionId, ParseDiag_zero)))
     else \<not> nc_connected c' \<and> (\<exists>p q. msg_bytes (data_msg devNo blockIndex rawSize compressed hash versionId) = p @ q
        \<and> nc_out c' = nc_out c @ p)"
proof (cases ok)
  case True
  have wf: "wf_msg (data_msg devNo blockIndex rawSize compressed hash versionId)" using assms(3,4) by (rule data_msg_wf)
  from True SendBlockNoWait_True [of devNo blockIndex rawSize compressed hash versionId c c'] assms(1)
    TryParse_at_frame [OF wf refl refl]
  show ?thesis by auto
next
  case False
  then show ?thesis using SendBlockNoWait_False [of devNo blockIndex rawSize compressed hash versionId c c'] assms(1,2) by auto
qed

definition demo_client :: NetworkClient where
  "demo_client = NetworkClient_new\<lparr> nc_socket := True, nc_connected := True, nc_tx := replicate 100 (Sent 1000) \<rparr>"

lemma send_all_one_call:
  assumes "0 < k" and "0 < length d" and "length d \<le> 1000"
  shows "\<exists>tx'. send_all (replicate k (Sent 1000)) d = (d, tx', True) \<and> tx' = replicate (k - 1) (Sent 1000)"
  using assms by (cases k) (simp_all add: send_all.simps [of "Sent 1000 # _"] send_all.simps [of _ "[]"] Let_def)

theorem sent_block_on_wire_witness:
  "\<exists>c' frame. SendBlockNoWait 0 0 4 [9, 8, 7, 6] (replicate 32 7) 1 demo_client = (c', True) \<and> nc_out c' = frame
     \<and> TryParse_at (length frame) frame \<lparr> pm_header = client_header BYE 0, pm_body = [] \<rparr>
       = (kOk, data_msg 0 0 4 [9, 8, 7, 6] (replicate 32 7) 1, ParseDiag_zero)"
proof -
  note s = send_all_one_call
  have l: "length (BlockHeader_bytes (client_block 0 4 [9, 8, 7, 6] (replicate 32 7) 1)) = 52"
    by (simp add: client_block_def)
  have "snd (SendBlockNoWait 0 0 4 [9, 8, 7, 6] (replicate 32 7) 1 demo_client)"
    using s [of 100 "MsgHeader_bytes (client_header DATA_BLOCK 0)"] l
      s [of 99 "BlockHeader_bytes (client_block 0 4 [9, 8, 7, 6] (replicate 32 7) 1)"] s [of 98 "[9, 8, 7, 6]"]
    by (auto simp: SendBlockNoWait_def SendAll_def Let_def demo_client_def)
  then obtain c' where c': "SendBlockNoWait 0 0 4 [9, 8, 7, 6] (replicate 32 7) 1 demo_client = (c', True)"
    by (metis prod.collapse)
  have o: "nc_out demo_client = []" "nc_connected demo_client" by (simp_all add: demo_client_def NetworkClient_new_def)
  from sent_block_on_wire [OF c' o(2)] o(1) obtain frame where f: "nc_out c' = frame"
    "\<forall>rest parsed. TryParse_at (length (frame @ rest)) (frame @ rest) parsed
       = (kOk, data_msg 0 0 4 [9, 8, 7, 6] (replicate 32 7) 1, ParseDiag_zero)" by auto
  from f(2) [rule_format, of "[]"] c' f(1) show ?thesis by auto
qed

text \<open>
  C25. The acknowledgement thread delivers every acknowledgement in the stream to the callback,
  in order and unchanged, however TCP cut the stream, and keeps the bytes after them.
\<close>

theorem acks_delivered:
  assumes "rx_plain (nc_rx c)" and "rx_stream (nc_rx c) = concat (map ack_msg acks) @ rest"
    and "\<forall>a \<in> set acks. length (ak_Hash a) = 32"
  shows "\<exists>rx'. AckReceiverLoop (replicate (length acks) SelectReady @ FlagCleared # ps) c = (c\<lparr> nc_rx := rx' \<rparr>, map ack_call_of acks)
     \<and> rx_plain rx' \<and> rx_stream rx' = rest"
  by (rule AckReceiverLoop_acks [OF assms])

definition demo_ack :: AckBody where
  "demo_ack = \<lparr> ak_BlockIndex = 3, ak_Status = 0, ak_DevNo = 1, ak_Hash = replicate 32 7 \<rparr>"

theorem acks_delivered_witness:
  "snd (AckReceiverLoop [SelectReady, SelectReady, FlagCleared]
     (demo_client\<lparr> nc_rx := [Received (take 5 (ack_msg demo_ack)), Received (drop 5 (ack_msg demo_ack) @ ack_msg demo_ack)] \<rparr>))
   = [ack_call_of demo_ack, ack_call_of demo_ack]"
proof -
  have l: "length (ack_msg demo_ack) = 64" by (simp add: ack_msg_def demo_ack_def)
  then have ne: "take 5 (ack_msg demo_ack) \<noteq> []" "drop 5 (ack_msg demo_ack) \<noteq> []" by auto
  from acks_delivered [of "demo_client\<lparr> nc_rx := [Received (take 5 (ack_msg demo_ack)), Received (drop 5 (ack_msg demo_ack) @ ack_msg demo_ack)] \<rparr>"
      "[demo_ack, demo_ack]" "[]" "[]"] ne
  show ?thesis by (fastforce simp: demo_ack_def numeral_2_eq_2)
qed

end
