(* ===== verification/Data_Compressor.thy ===== *)
theory Data_Compressor
  imports Cbt_Prelude
begin

text \<open>
  The client's compressor, \<open>client/DataCompressor.{h,cpp}\<close>: the output of the Windows compression
  API is repackaged as a zlib stream, which the server's \<open>uncompress2\<close> reads; a stored-block
  encoder is the fallback. The Windows API is a parameter. The container formats of RFC 1950
  and RFC 1951 (stored blocks) are given as reference decoders.
\<close>

section \<open>State\<close>

record DataCompressor =
  dc_hCompressor :: bool
  dc_initialized :: bool

definition DataCompressor_new :: DataCompressor where
  "DataCompressor_new = \<lparr> dc_hCompressor = False, dc_initialized = False \<rparr>"

definition Initialize_compressor :: "bool \<Rightarrow> DataCompressor \<Rightarrow> DataCompressor \<times> bool" where
  "Initialize_compressor create_ok c =
     (if dc_initialized c then (c, True)
      else if \<not> create_ok then (c, False)
      else (c\<lparr> dc_hCompressor := True, dc_initialized := True \<rparr>, True))"

definition Shutdown_compressor :: "DataCompressor \<Rightarrow> DataCompressor" where
  "Shutdown_compressor c = c\<lparr> dc_hCompressor := False, dc_initialized := False \<rparr>"

text \<open>
  The Windows compression API: the compressed bytes, or one of the two kinds of failure
  \<open>Compress\<close> tells apart. The arguments are the input and the size of the output buffer.
\<close>

datatype compress_result = Compressed "byte list" | InsufficientBuffer | CompressFailed

type_synonym win_compress = "byte list \<Rightarrow> nat \<Rightarrow> compress_result"
type_synonym win_decompress = "byte list \<Rightarrow> nat \<Rightarrow> byte list option"

section \<open>Adler-32\<close>

definition adler_step :: "byte \<Rightarrow> u32 \<times> u32 \<Rightarrow> u32 \<times> u32" where
  "adler_step d = (\<lambda>(a, b). let a' = (a + ucast d) mod 65521 in (a', (b + a') mod 65521))"

definition ComputeAdler32 :: "byte list \<Rightarrow> u32" where
  "ComputeAdler32 data = (case fold adler_step data (1, 0) of (a, b) \<Rightarrow> push_bit 16 b OR a)"

text \<open>The checksum as it is stored: most significant byte first.\<close>

definition be_bytes32 :: "u32 \<Rightarrow> byte list" where
  "be_bytes32 w = [ucast (drop_bit 24 w), ucast (drop_bit 16 w), ucast (drop_bit 8 w), ucast w]"

section \<open>The zlib container\<close>

fun stored_blocks :: "byte list \<Rightarrow> byte list" where
  "stored_blocks rest =
     (if rest = [] then []
      else
        let chunkSize = (of_nat (min (length rest) 65535) :: u32);
            isFinal = (length rest \<le> 65535);
            nlen = (ucast (NOT chunkSize) :: u16)
        in [if isFinal then 1 else 0, ucast chunkSize, ucast (drop_bit 8 chunkSize), ucast nlen, ucast (drop_bit 8 nlen)]
           @ take 65535 rest @ stored_blocks (drop 65535 rest))"

declare stored_blocks.simps [simp del]

text \<open>
  \<open>CreateStoredZlib\<close> sizes its output before filling it; \<open>numChunks\<close> is computed with 32 bits.
  \<open>None\<close> is the write past the end of a vector that was made too small.
\<close>

definition stored_total :: "nat \<Rightarrow> nat" where
  "stored_total inputSize = 2 + unat ((of_nat inputSize + 65534 :: u32) div 65535) * 5 + inputSize + 4"

definition CreateStoredZlib :: "byte list \<Rightarrow> byte list option" where
  "CreateStoredZlib input =
     (let adler = ComputeAdler32 input;
          totalSize = stored_total (length input);
          output = [0x78, 0x01] @ stored_blocks input @ be_bytes32 adler
      in if length output \<le> totalSize then Some output else None)"

definition WrapDeflateAsZlib :: "byte list \<Rightarrow> byte list \<Rightarrow> byte list" where
  "WrapDeflateAsZlib deflateData originalData =
     [0x78, 0x9C] @ deflateData @ be_bytes32 (ComputeAdler32 originalData)"

definition GetMaxCompressedSize :: "nat \<Rightarrow> nat" where
  "GetMaxCompressedSize inputSize = inputSize + (inputSize div 1024) + 128 + 4"

text \<open>The call with its single retry on a buffer twice as large.\<close>

definition compress_call :: "win_compress \<Rightarrow> byte list \<Rightarrow> byte list option" where
  "compress_call W input =
     (let maxSize = GetMaxCompressedSize (length input) in
      case W input maxSize of
        Compressed s \<Rightarrow> Some s
      | CompressFailed \<Rightarrow> None
      | InsufficientBuffer \<Rightarrow> (case W input (maxSize * 2) of Compressed s \<Rightarrow> Some s | _ \<Rightarrow> None))"

definition Compress :: "win_compress \<Rightarrow> DataCompressor \<Rightarrow> byte list \<Rightarrow> byte list option" where
  "Compress W c input =
     (if \<not> dc_initialized c then None
      else case compress_call W input of
          None \<Rightarrow> None
        | Some s \<Rightarrow>
            if length s < 2 then CreateStoredZlib input
            else if s ! 0 = 0x43 \<and> s ! 1 = 0x4B then Some (WrapDeflateAsZlib (drop 2 s) input)
            else Some (WrapDeflateAsZlib s input))"

text \<open>\<open>Decompress\<close>: \<open>None\<close> for the answer false, otherwise the output vector. \<open>create_ok\<close> is the result of
  \<open>CreateDecompressor\<close>.\<close>

definition Decompress :: "bool \<Rightarrow> win_decompress \<Rightarrow> byte list \<Rightarrow> nat \<Rightarrow> byte list option" where
  "Decompress create_ok D input originalSize =
     (if length input < 6 then None
      else if (input ! 0) AND 0x0F \<noteq> 8 then None
      else
        let deflateSize = length input - 2 - 4;
            mszipData = [0x43, 0x4B] @ segment 2 deflateSize input
        in if \<not> create_ok then None
           else case D mszipData originalSize of
               None \<Rightarrow> None
             | Some out \<Rightarrow> if length out = originalSize then Some out else None)"

section \<open>Adler-32 is the checksum of RFC 1950\<close>

text \<open>The closed form: the sum of the bytes plus one, and the sum of the running sums.\<close>

definition adler_a :: "byte list \<Rightarrow> nat" where
  "adler_a ds = (1 + sum_list (map unat ds)) mod 65521"

definition adler_b :: "byte list \<Rightarrow> nat" where
  "adler_b ds = (\<Sum>i<length ds. 1 + sum_list (map unat (take (Suc i) ds))) mod 65521"

lemma unat_add_small: "unat (x::u32) + unat y < 2 ^ 32 \<Longrightarrow> unat (x + y) = unat x + unat y"
  by (simp add: unat_word_ariths)

lemma unat_byte_bound: "unat (d::byte) < 256"
  using unsigned_less [of d] by simp

lemma adler_step_unat:
  assumes "unat a < 65521" "unat b < 65521"
  shows "(case adler_step d (a, b) of (a', b') \<Rightarrow> unat a' = (unat a + unat d) mod 65521
     \<and> unat b' = (unat b + (unat a + unat d) mod 65521) mod 65521)"
proof -
  have d: "unat (ucast d :: u32) = unat d" by transfer (simp add: take_bit_take_bit)
  have a': "unat ((a + ucast d) mod 65521 :: u32) = (unat a + unat d) mod 65521"
    using assms(1) unat_byte_bound [of d] d by (simp add: unat_mod unat_add_small)
  have "(unat a + unat d) mod 65521 < 65521" by simp
  then have "unat ((b + (a + ucast d) mod 65521) mod 65521 :: u32) = (unat b + (unat a + unat d) mod 65521) mod 65521"
    using assms(2) a' by (simp add: unat_mod unat_add_small del: mod_less_divisor)
  with a' show ?thesis by (simp add: adler_step_def Let_def)
qed

lemma adler_a_snoc: "adler_a (ds @ [d]) = (adler_a ds + unat d) mod 65521"
  by (simp add: adler_a_def mod_simps)

lemma adler_b_snoc: "adler_b (ds @ [d]) = (adler_b ds + adler_a (ds @ [d])) mod 65521"
proof -
  have "(\<Sum>i<length ds. 1 + sum_list (map unat (take (Suc i) (ds @ [d]))))
      = (\<Sum>i<length ds. 1 + sum_list (map unat (take (Suc i) ds)))"
    by (intro sum.cong) auto
  then have "(\<Sum>i<length (ds @ [d]). 1 + sum_list (map unat (take (Suc i) (ds @ [d]))))
      = (\<Sum>i<length ds. 1 + sum_list (map unat (take (Suc i) ds))) + (1 + sum_list (map unat (ds @ [d])))"
    by simp
  then show ?thesis by (simp only: adler_b_def adler_a_def mod_add_eq)
qed

lemma fold_adler:
  "fold adler_step ds (1, 0) = (a, b) \<Longrightarrow> unat a = adler_a ds \<and> unat b = adler_b ds"
proof (induction ds arbitrary: a b rule: rev_induct)
  case Nil
  then show ?case by (auto simp: adler_a_def adler_b_def)
next
  case (snoc d ds)
  obtain a0 b0 where f: "fold adler_step ds (1, 0) = (a0, b0)" by (metis surj_pair)
  have i: "unat a0 = adler_a ds" "unat b0 = adler_b ds" using snoc.IH [OF f] by simp_all
  then have "unat a0 < 65521" "unat b0 < 65521" by (simp_all add: adler_a_def adler_b_def)
  from adler_step_unat [OF this, of d] snoc.prems f i show ?case
    by (auto simp: adler_a_snoc adler_b_snoc)
qed


lemma unat_push_or:
  assumes "unat (b::u32) < 2 ^ 16" and "unat a < 2 ^ 16"
  shows "unat (push_bit 16 b OR a) = 65536 * unat b + unat a"
proof -
  have z: "push_bit 16 b AND a = 0"
  proof (rule bit_word_eqI)
    fix n
    have "a = take_bit 16 a" using assms(2) by (simp add: word_unat_eq_iff unsigned_take_bit_eq take_bit_nat_eq_self)
    then have "bit a n \<longrightarrow> n < 16" by (metis bit_take_bit_iff)
    then show "bit (push_bit 16 b AND a) n = bit (0 :: u32) n" by (auto simp: bit_and_iff bit_push_bit_iff)
  qed
  have "unat (push_bit 16 b) = 65536 * unat b"
    using assms(1) by (simp add: push_bit_eq_mult unat_word_ariths)
  moreover have "unat (push_bit 16 b + a) = unat (push_bit 16 b) + unat a"
    using calculation assms by (simp add: unat_add_small)
  ultimately show ?thesis using disjunctive_add_eq_or [OF z] by simp
qed

lemma unat_ComputeAdler32: "unat (ComputeAdler32 ds) = 65536 * adler_b ds + adler_a ds"
proof -
  obtain a b where f: "fold adler_step ds (1, 0) = (a, b)" by (metis surj_pair)
  have ab: "unat a = adler_a ds" "unat b = adler_b ds" using fold_adler [OF f] by simp_all
  have "adler_a ds < 65521" "adler_b ds < 65521" by (simp_all add: adler_a_def adler_b_def)
  with ab have "unat (push_bit 16 b OR a) = 65536 * unat b + unat a" by (intro unat_push_or) simp_all
  with f ab show ?thesis by (simp add: ComputeAdler32_def)
qed

section \<open>Reference decoders\<close>

text \<open>RFC 1951, the streams that consist of stored blocks.\<close>

fun inflate_stored :: "byte list \<Rightarrow> byte list option" where
  "inflate_stored (h # l0 # l1 # n0 # n1 # rest) =
     (let len = (le_word [l0, l1] :: u16) in
      if le_word [n0, n1] \<noteq> NOT len then None
      else if h = 1 then (if length rest = unat len then Some rest else None)
      else if h = 0 \<and> unat len \<le> length rest
        then map_option ((@) (take (unat len) rest)) (inflate_stored (drop (unat len) rest))
      else None)"
| "inflate_stored _ = None"

text \<open>RFC 1950: header check, a deflate stream, and the checksum, most significant byte first.\<close>

definition be_value :: "byte list \<Rightarrow> nat" where
  "be_value bs = foldl (\<lambda>v b. v * 256 + unat b) 0 bs"

definition zlib_decode :: "(byte list \<Rightarrow> byte list option) \<Rightarrow> byte list \<Rightarrow> byte list option" where
  "zlib_decode inflate s =
     (if length s < 6 \<or> s ! 0 AND 0x0F \<noteq> 8 \<or> (256 * unat (s ! 0) + unat (s ! 1)) mod 31 \<noteq> 0 then None
      else case inflate (segment 2 (length s - 6) s) of
          None \<Rightarrow> None
        | Some raw \<Rightarrow>
            if be_value (drop (length s - 4) s) = 65536 * adler_b raw + adler_a raw then Some raw else None)"

lemma be_value_be_bytes32: "be_value (be_bytes32 w) = unat w"
proof -
  define x where "x = unat w"
  have x: "x < 4294967296" using unat_u32_bound [of w] by (simp add: x_def)
  have "be_value (be_bytes32 w) = ((x div 16777216 mod 256 * 256 + x div 65536 mod 256) * 256 + x div 256 mod 256) * 256 + x mod 256"
    by (simp add: be_value_def be_bytes32_def x_def unsigned_ucast_eq unsigned_drop_bit_eq take_bit_eq_mod drop_bit_eq_div unat_div)
  also have "\<dots> = x"
  proof -
    have d: "x div 65536 = x div 256 div 256" "x div 16777216 = x div 256 div 256 div 256"
      by (simp_all flip: div_mult2_eq)
    have "x div 16777216 < 256" using x by (simp add: less_mult_imp_div_less)
    then show ?thesis
      using d div_mult_mod_eq [of x 256] div_mult_mod_eq [of "x div 256" 256] div_mult_mod_eq [of "x div 256 div 256" 256] by simp
  qed
  finally show ?thesis by (simp add: x_def)
qed

lemma zlib_decode_container:
  assumes "inflate d = Some raw" and "c = [0x78, 0x01] \<or> c = [0x78, 0x9C]"
  shows "zlib_decode inflate (c @ d @ be_bytes32 (ComputeAdler32 raw)) = Some raw"
proof -
  have l: "length (be_bytes32 w) = 4" for w by (simp add: be_bytes32_def)
  from assms(2) have c: "length c = 2" "c ! 0 AND 0x0F = 8" "(256 * unat (c ! 0) + unat (c ! 1)) mod 31 = 0" by auto
  then show ?thesis
    using assms(1) l [of "ComputeAdler32 raw"]
    by (auto simp: zlib_decode_def segment_def nth_append be_value_be_bytes32 unat_ComputeAdler32)
qed

section \<open>Stored blocks\<close>

lemma le_word_low16:
  "le_word [ucast (c::u32), ucast (drop_bit 8 c)] = (ucast c :: u16)"
  by (rule bit_word_eqI)
    (auto simp: bit_or_iff bit_unsigned_iff bit_push_bit_iff bit_drop_bit_eq)

lemma le_word_u16: "le_word [ucast (w::u16), ucast (drop_bit 8 w)] = w"
  using le_word_le_bytes [of 2 w] by (simp add: numeral_2_eq_2)

lemma stored_chunk_header:
  assumes "n \<le> 65535"
  shows "unat (ucast (of_nat n :: u32) :: u16) = n"
    and "ucast (NOT (of_nat n :: u32)) = NOT (ucast (of_nat n :: u32) :: u16)"
  using assms by (simp_all add: unsigned_ucast_eq unat_of_nat take_bit_eq_mod)
    (rule bit_word_eqI, auto simp: bit_unsigned_iff bit_not_iff)

lemma inflate_chunk:
  assumes "n \<le> 65535" and "c = (of_nat n :: u32)" and "nlen = (ucast (NOT c) :: u16)"
  shows "inflate_stored ([h, ucast c, ucast (drop_bit 8 c), ucast nlen, ucast (drop_bit 8 nlen)] @ rest) =
     (if h = 1 then (if length rest = n then Some rest else None)
      else if h = 0 \<and> n \<le> length rest then map_option ((@) (take n rest)) (inflate_stored (drop n rest))
      else None)"
  using stored_chunk_header [OF assms(1)] assms(2,3)
  by (simp add: Let_def le_word_low16 le_word_u16 del: le_word.simps)

lemma inflate_stored_blocks: "d \<noteq> [] \<Longrightarrow> inflate_stored (stored_blocks d) = Some d"
proof (induction d rule: stored_blocks.induct)
  case (1 d)
  note chunk = inflate_chunk [of "min (length d) 65535", OF _ refl refl]
  show ?case
  proof (cases "length d \<le> 65535")
    case True
    then show ?thesis using 1(2)
      by (subst stored_blocks.simps, unfold Let_def, subst if_not_P, simp, subst chunk)
        (simp_all add: stored_blocks.simps [of "[]"])
  next
    case False
    then show ?thesis using 1(2) 1(1) [OF 1(2) refl refl refl]
      by (subst stored_blocks.simps, unfold Let_def, subst if_not_P, simp, subst chunk) simp_all
  qed
qed

lemma ceil_step: "0 < n \<Longrightarrow> (n + 65534) div 65535 = Suc ((n - 1) div (65535 :: nat))"
proof -
  assume "0 < n"
  then have "n + 65534 = (n - 1) + 65535" by simp
  then show ?thesis by (metis div_add_self2 Suc_eq_plus1 zero_neq_numeral)
qed

lemma length_stored_blocks: "length (stored_blocks d) = length d + 5 * ((length d + 65534) div 65535)"
proof (induction d rule: stored_blocks.induct)
  case (1 d)
  show ?case
  proof (cases "d = []")
    case True then show ?thesis by (simp add: stored_blocks.simps)
  next
    case False
    have "length (stored_blocks d) = 5 + min (length d) 65535 + length (stored_blocks (drop 65535 d))"
      using False by (subst stored_blocks.simps) (simp add: Let_def)
    moreover have "length d \<le> 65535 \<Longrightarrow> (length d - 1) div 65535 = 0" using False by (simp add: div_less)
    moreover have "65535 < length d \<Longrightarrow> length d - 65535 + 65534 = length d - 1" by simp
    ultimately show ?thesis
      using 1 [OF False refl refl refl] ceil_step [of "length d"] False by (cases "length d \<le> 65535") simp_all
  qed
qed

lemma stored_total_exact:
  assumes "n + 65534 < 2 ^ 32"
  shows "stored_total n = 2 + (n + 5 * ((n + 65534) div 65535)) + 4"
proof -
  have "unat (of_nat n + 65534 :: u32) = n + 65534"
    using assms by (simp add: unat_word_ariths unat_of_nat)
  then show ?thesis by (simp add: stored_total_def unat_div)
qed

lemma CreateStoredZlib_eq:
  assumes "length input + 65534 < 2 ^ 32"
  shows "CreateStoredZlib input = Some ([0x78, 0x01] @ stored_blocks input @ be_bytes32 (ComputeAdler32 input))"
  using stored_total_exact [OF assms] by (simp add: CreateStoredZlib_def Let_def length_stored_blocks be_bytes32_def)


section \<open>Properties\<close>

text \<open>
  \<open>ComputeAdler32\<close> is Adler-32 of RFC 1950: the 32-bit loop with its two reductions per byte
  equals the checksum defined by the two sums over the whole input, for inputs of every length.
\<close>

lemma adler32_spec:
  "unat (ComputeAdler32 data) =
     65536 * ((\<Sum>i<length data. 1 + sum_list (map unat (take (Suc i) data))) mod 65521)
     + (1 + sum_list (map unat data)) mod 65521"
  by (simp only: unat_ComputeAdler32 adler_a_def adler_b_def)

text \<open>
  The fallback always works for a non-empty block: the vector is large enough, and what
  \<open>CreateStoredZlib\<close> produces decodes, by RFC 1950 and the stored blocks of RFC 1951, to the
  input. For the empty input it does not: the stream has no final block.
\<close>

lemma stored_zlib_roundtrip:
  assumes "length input + 65534 < 2 ^ 32"
  shows "\<exists>z. CreateStoredZlib input = Some z \<and> length z = stored_total (length input)
     \<and> zlib_decode inflate_stored z = (if input = [] then None else Some input)"
proof (cases "input = []")
  case True
  then show ?thesis
    by (simp add: CreateStoredZlib_eq stored_total_exact stored_blocks.simps zlib_decode_def be_bytes32_def segment_def)
next
  case False
  then show ?thesis
    using assms inflate_stored_blocks [OF False]
      zlib_decode_container [of inflate_stored "stored_blocks input" input "[0x78, 0x01]"]
    by (simp add: CreateStoredZlib_eq stored_total_exact length_stored_blocks be_bytes32_def)
qed

theorem stored_zlib_roundtrip_witness:
  "\<exists>z. CreateStoredZlib [1, 2, 3] = Some z \<and> zlib_decode inflate_stored z = Some [1, 2, 3]"
  using stored_zlib_roundtrip [of "[1, 2, 3]"] by auto

text \<open>
  What \<open>Compress\<close> relies on from the Windows API, for a decoder \<open>inflate\<close> of raw deflate streams:
  a successful call returns a deflate stream of the input, alone or after the signature \<open>CK\<close>,
  and an unsigned stream does not happen to start with these two bytes; and \<open>inflate\<close> decodes
  stored blocks.
\<close>

definition deflate_api :: "(byte list \<Rightarrow> byte list option) \<Rightarrow> win_compress \<Rightarrow> bool" where
  "deflate_api inflate W \<longleftrightarrow>
     (\<forall>d r. inflate_stored d = Some r \<longrightarrow> inflate d = Some r) \<and>
     (\<forall>inp cap s. W inp cap = Compressed s \<longrightarrow> 2 \<le> length s \<longrightarrow>
        (if s ! 0 = 0x43 \<and> s ! 1 = 0x4B then inflate (drop 2 s) = Some inp else inflate s = Some inp))"

lemma compress_call_api:
  assumes "deflate_api inflate W" and "compress_call W input = Some s" and "2 \<le> length s"
  shows "inflate (if s ! 0 = 0x43 \<and> s ! 1 = 0x4B then drop 2 s else s) = Some input"
  using assms by (auto simp: compress_call_def deflate_api_def Let_def split: compress_result.splits)

lemma Compress_container:
  assumes "Compress W c input = Some z" and "deflate_api inflate W"
    and "input \<noteq> []" and "length input + 65534 < 2 ^ 32"
  obtains d hd where "z = hd @ d @ be_bytes32 (ComputeAdler32 input)" "hd = [0x78, 0x01] \<or> hd = [0x78, 0x9C]" "inflate d = Some input"
proof -
  from assms(1) obtain s where s: "compress_call W input = Some s" by (auto simp: Compress_def split: if_splits option.splits)
  show ?thesis
  proof (cases "length s < 2")
    case True
    have "inflate (stored_blocks input) = Some input"
      using assms(2) inflate_stored_blocks [OF assms(3)] by (simp add: deflate_api_def)
    then show ?thesis
      using that [of "[0x78, 0x01]" "stored_blocks input"] assms(1,4) s True
      by (simp add: Compress_def CreateStoredZlib_eq split: if_splits)
  next
    case False
    define d where "d = (if s ! 0 = 0x43 \<and> s ! 1 = 0x4B then drop 2 s else s)"
    have "inflate d = Some input" unfolding d_def using compress_call_api [OF assms(2) s] False by simp
    then show ?thesis
      using that [of "[0x78, 0x9C]" d] assms(1) s False by (auto simp: Compress_def WrapDeflateAsZlib_def d_def split: if_splits)
  qed
qed


text \<open>A Windows API that always stores, with the signature.\<close>

definition demo_win :: win_compress where
  "demo_win inp cap = (if inp = [] then Compressed [] else
     if length inp + 100 \<le> cap then Compressed ([0x43, 0x4B] @ stored_blocks inp) else InsufficientBuffer)"

lemma demo_win_api: "deflate_api inflate_stored demo_win"
  by (auto simp: deflate_api_def demo_win_def inflate_stored_blocks split: if_splits)


text \<open>
  \<open>Decompress\<close> inverts \<open>Compress\<close>, for a Windows API that decodes what follows \<open>CK\<close>, and
  refuses any other original size.
\<close>

lemma Decompress_Compress:
  assumes "Compress W c input = Some z" and "deflate_api inflate W"
    and "input \<noteq> []" and "length input + 65534 < 2 ^ 32"
    and "\<And>d r cap. inflate d = Some r \<Longrightarrow> length r \<le> cap \<Longrightarrow> D ([0x43, 0x4B] @ d) cap = Some r"
    and "length input \<le> n"
  shows "Decompress True D z n = (if n = length input then Some input else None)"
proof -
  obtain d hd where z: "z = hd @ d @ be_bytes32 (ComputeAdler32 input)" "hd = [0x78, 0x01] \<or> hd = [0x78, 0x9C]"
    "inflate d = Some input" using Compress_container [OF assms(1-4)] .
  have h: "length hd = 2" "hd ! 0 AND 0x0F = 8" using z(2) by auto
  have z': "length z = 2 + length d + 4" "segment 2 (length d) z = d" "z ! 0 = hd ! 0"
    using h(1) by (simp_all add: z(1) be_bytes32_def segment_def nth_append)
  show ?thesis using z' h(2) assms(5) [OF z(3) assms(6)] by (auto simp: Decompress_def)
qed

theorem Decompress_Compress_witness:
  "\<exists>z. Compress demo_win \<lparr> dc_hCompressor = True, dc_initialized = True \<rparr> [1, 2, 3] = Some z
     \<and> Decompress True (\<lambda>s cap. inflate_stored (drop 2 s)) z 3 = Some [1, 2, 3]"
proof -
  have "Compress demo_win \<lparr> dc_hCompressor = True, dc_initialized = True \<rparr> [1, 2, 3] \<noteq> None"
    by (simp add: Compress_def compress_call_def demo_win_def Let_def GetMaxCompressedSize_def)
  then obtain z where z: "Compress demo_win \<lparr> dc_hCompressor = True, dc_initialized = True \<rparr> [1, 2, 3] = Some z" by auto
  with Decompress_Compress [OF z demo_win_api, of "\<lambda>s cap. inflate_stored (drop 2 s)" 3] show ?thesis by simp
qed

end
