(* ===== verification/End_To_End.thy ===== *)
theory End_To_End
  imports Server_Correct Network_Client Data_Compressor
begin

text \<open>
  Client and server together: the bytes \<open>NetworkClient\<close> sends are those the server's
  connection receives, and the acknowledgements the server queues are those the client reads.
  Each direction may be cut into segments in any way.
\<close>

section \<open>The two sides of the protocol agree\<close>

lemma ack_msg_bytes: "ack_msg a = ack_bytes a"
  by (simp add: ack_msg_def ack_bytes_def client_header_def ack_header_def)

lemma data_msg_is_data:
  assumes "length hash = 32" and "length compressed \<le> 2 * BLOCK_SIZE"
  shows "is_data (data_msg devNo idx rawSize compressed hash ver)"
  using data_msg_wf [OF assms] by (simp add: is_data_def data_msg_def client_header_def)

text \<open>What the server does with a block as the client frames it.\<close>

lemma Process_data_msg:
  assumes "length hash = 32" and "length compressed \<le> 2 * BLOCK_SIZE" and "unat idx < 2 ^ 43"
    and "pwrite_ok P" and "dm_sized dm fs"
    and "ingest P dm fs devNo (unat idx) (unat rawSize) hash compressed = (fs', st)"
  shows "process_all P dm fs [data_msg devNo idx rawSize compressed hash ver] =
     (fs', [\<lparr> ak_BlockIndex = idx, ak_Status = ack_code st, ak_DevNo = devNo, ak_Hash = hash \<rparr>])"
proof -
  define bh where "bh = client_block idx rawSize compressed hash ver"
  have f: "bh_BlockIndex bh = idx" "bh_DataSize bh = rawSize" "bh_Hash bh = hash" "unat (bh_CompressedSize bh) = length compressed"
    using assms(1,2) by (simp_all add: bh_def client_block_def unat_of_nat)
  have "Process P dm fs devNo bh compressed =
     (fs', \<lparr> ak_BlockIndex = idx, ak_Status = ack_code st, ak_DevNo = devNo, ak_Hash = hash \<rparr>, st)"
    using Process_ingest [of bh P dm fs devNo compressed fs' st] f assms by simp
  moreover have "BlockHeader_of (take 52 (pm_body (data_msg devNo idx rawSize compressed hash ver))) = bh"
    "drop 52 (pm_body (data_msg devNo idx rawSize compressed hash ver)) = compressed"
    using f assms(1) by (simp_all add: data_msg_def flip: bh_def)
  moreover have "mh_DevNo (pm_header (data_msg devNo idx rawSize compressed hash ver)) = devNo"
    by (simp add: data_msg_def client_header_def)
  ultimately show ?thesis by simp
qed

lemma TryParse_at_empty: "fst (TryParse_at (length []) [] ParsedMessage_zero) = kNeedMore"
  by (simp add: TryParse_at_def)

text \<open>One block over the wire: \<open>SendBlock\<close> on one side, one readiness event on the other.\<close>

lemma exchange_block:
  assumes client: "SendBlockNoWait devNo idx rawSize compressed hash ver c = (c1, True)"
    and hash: "length hash = 32" "length compressed \<le> 2 * BLOCK_SIZE" "unat idx < 2 ^ 43"
    and wire: "rx_plain rx" "nc_out c @ rx_stream rx = nc_out c1"
    and server: "pwrite_ok P" "srv_ok s" "dm_sized (sv_disk s) (sv_files s)"
    and conn: "sv_conns s h = Some cn" "conn_idle cn" "helloDone cn" "tx_ok (sv_tx s h)" "ReadPtr (recvBuf cn) = []"
    and reply: "rx_plain (nc_rx c)" "out_stream h (HandleConnReadable P h rx s) = out_stream h s @ rx_stream (nc_rx c)"
    and spec: "ingest P (sv_disk s) (sv_files s) devNo (unat idx) (unat rawSize) hash compressed = (fs', st)"
  shows "snd (SendBlock devNo idx rawSize compressed hash ver c) = (st = OK)
     \<and> sv_files (HandleConnReadable P h rx s) = fs'"
proof -
  let ?m = "data_msg devNo idx rawSize compressed hash ver"
  let ?a = "\<lparr> ak_BlockIndex = idx, ak_Status = ack_code st, ak_DevNo = devNo, ak_Hash = hash \<rparr>"
  have c1: "nc_out c1 = nc_out c @ msg_bytes ?m" "nc_rx c1 = nc_rx c"
    using SendBlockNoWait_True [OF client] by simp_all
  have "ReadPtr (recvBuf cn) @ rx_stream rx = concat (map msg_bytes [?m]) @ []" using wire(2) c1(1) conn(5) by simp
  from HandleConnReadable_data [OF server(1,2) conn(1-4) wire(1) this _ TryParse_at_empty
      Process_data_msg [OF hash server(1,3) spec]]
  have s': "sv_files (HandleConnReadable P h rx s) = fs'" "rx_stream (nc_rx c) = ack_msg ?a @ []"
    using data_msg_is_data [OF hash(1,2)] reply(2) by (simp_all add: ack_msg_bytes)
  from ReceiveAck_ack [of c1 ?a "[]" devNo idx] reply(1) s'(2) hash(1) c1(2)
  have "snd (ReceiveAck devNo idx c1) = (st = OK)" by auto
  then show ?thesis using client s'(1) by (simp add: SendBlock_split)
qed

lemma ingest_OK:
  assumes "ingest P dm fs devno idx n hash payload = (fs', OK)"
  obtains bf raw where "Get dm devno = Some bf" "uncompress2 P raw_capacity payload = Some raw" "SHA256 P raw = hash"
    "length raw = n" "idx * BLOCK_SIZE + n \<le> length (fs (bf_fd bf))"
    "fs' = fs(bf_fd bf := overwrite (fs (bf_fd bf)) (idx * BLOCK_SIZE) raw)"
  using assms by (auto simp: ingest_def Let_def split: option.splits if_splits)

text \<open>A session of the demonstration server and client with a one-block exchange under way.\<close>

definition demo_frame :: "byte list \<Rightarrow> byte list \<Rightarrow> byte list" where
  "demo_frame z hash = msg_bytes (data_msg 0 0 4 z hash 1)"

lemma demo_frame_nonempty: "demo_frame z hash \<noteq> []"
  unfolding demo_frame_def msg_bytes_def by (simp flip: length_0_conv)

lemma ack_msg_nonempty: "ack_msg a \<noteq> []"
  unfolding ack_msg_def by (simp flip: length_0_conv)

definition demo_session :: "byte list \<Rightarrow> AckStatus \<Rightarrow> NetworkClient" where
  "demo_session hash st = demo_client\<lparr> nc_rx :=
     [Received (ack_msg \<lparr> ak_BlockIndex = 0, ak_Status = ack_code st, ak_DevNo = 0, ak_Hash = hash \<rparr>)] \<rparr>"

lemma demo_session_fields:
  "nc_out (demo_session hash st) = []" "rx_plain (nc_rx (demo_session hash st))" "rx_plain [Received (demo_frame z hash)]"
  by (simp_all add: demo_session_def demo_client_def NetworkClient_new_def demo_frame_nonempty ack_msg_nonempty)

lemma demo_send:
  assumes "length hash = 32" and "z \<noteq> []" and "length z \<le> 1000"
  shows "\<exists>c1. SendBlockNoWait 0 0 4 z hash 1 (demo_session hash st) = (c1, True) \<and> nc_out c1 = demo_frame z hash"
proof -
  note s = send_all_one_call
  have l: "length (BlockHeader_bytes (client_block 0 4 z hash 1)) = 52"
    using assms by (simp add: client_block_def)
  have "snd (SendBlockNoWait 0 0 4 z hash 1 (demo_session hash st))"
    using s [of 100 "MsgHeader_bytes (client_header DATA_BLOCK 0)"] l
      s [of 99 "BlockHeader_bytes (client_block 0 4 z hash 1)"] s [of 98 z] assms(2,3)
    by (auto simp: SendBlockNoWait_def SendAll_def Let_def demo_session_def demo_client_def)
  then obtain c1 where "SendBlockNoWait 0 0 4 z hash 1 (demo_session hash st) = (c1, True)" by (metis prod.collapse)
  with SendBlockNoWait_True [OF this] show ?thesis
    by (simp add: demo_frame_def demo_session_def demo_client_def NetworkClient_new_def)
qed

lemma demo_recv_empty: "ReadPtr (recvBuf (demo_conn b)) = []"
  by (simp add: ReadPtr_def segment_def)

lemma demo_reply:
  assumes "pwrite_ok P" and "length hash = 32" and "length z \<le> 1000"
    and "ingest P demo_disk demo_files 0 0 4 hash z = (fs', st)"
  shows "out_stream 5 (HandleConnReadable P 5 [Received (demo_frame z hash)] (demo_server True))
     = out_stream 5 (demo_server True) @ rx_stream (nc_rx (demo_session hash st))"
proof -
  let ?a = "\<lparr> ak_BlockIndex = 0, ak_Status = ack_code st, ak_DevNo = 0, ak_Hash = hash \<rparr>"
  have p: "process_all P demo_disk demo_files [data_msg 0 0 4 z hash 1] = (fs', [?a])"
    by (rule Process_data_msg) (use assms demo_dm_sized in simp_all)
  have "is_data (data_msg 0 0 4 z hash 1)" using assms(2,3) by (intro data_msg_is_data) simp_all
  with HandleConnReadable_data [OF assms(1) demo_server_ok [of True], of 5 "demo_conn True" "[Received (demo_frame z hash)]"
      "[data_msg 0 0 4 z hash 1]" "[]" fs' "[?a]"] p TryParse_at_empty
    demo_conn_idle demo_recv_empty demo_frame_nonempty [of z hash]
  show ?thesis by (simp add: tx_ok_def demo_session_def ack_msg_bytes demo_frame_def del: process_all.simps)
qed


lemma demo_ingest:
  "ingest demo_platform demo_disk demo_files 0 0 4 hash [9, 8, 7, 6] =
     (if hash = replicate 32 7 then (demo_files(3 := [9, 8, 7, 6, 5, 6]), OK) else (demo_files, HASH_MISMATCH))"
  by (auto simp: ingest_def demo_defs Get_def raw_capacity_def overwrite_def)

lemma demo_lookup:
  "Get demo_disk 0 = Some \<lparr> bf_fd = 3, bf_size_bytes = 6, bf_path = ''/img'' \<rparr>"
  "uncompress2 demo_platform raw_capacity [9, 8, 7, 6] = Some [9, 8, 7, 6]"
  by (simp_all add: demo_defs Get_def raw_capacity_def)


text \<open>
  A refused block is reported: the client's \<open>SendBlock\<close> returns false for every block the
  specification refuses (unknown device, range, decompression, hash), and the server's files
  are then unchanged.
\<close>

lemma refused_block_reported:
  assumes client: "SendBlockNoWait devNo idx rawSize compressed hash ver c = (c1, True)"
    and hash: "length hash = 32" "length compressed \<le> 2 * BLOCK_SIZE" "unat idx < 2 ^ 43"
    and wire: "rx_plain rx" "nc_out c @ rx_stream rx = nc_out c1"
    and server: "pwrite_ok P" "srv_ok s" "dm_sized (sv_disk s) (sv_files s)"
    and conn: "sv_conns s h = Some cn" "conn_idle cn" "helloDone cn" "tx_ok (sv_tx s h)" "ReadPtr (recvBuf cn) = []"
    and reply: "rx_plain (nc_rx c)" "out_stream h (HandleConnReadable P h rx s) = out_stream h s @ rx_stream (nc_rx c)"
    and bad: "Get (sv_disk s) devNo = None \<or> rawSize = 0 \<or> BLOCK_SIZE < unat rawSize
      \<or> (\<exists>bf. Get (sv_disk s) devNo = Some bf \<and> length (sv_files s (bf_fd bf)) < unat idx * BLOCK_SIZE + unat rawSize)
      \<or> uncompress2 P raw_capacity compressed = None
      \<or> (\<exists>raw. uncompress2 P raw_capacity compressed = Some raw \<and> (length raw \<noteq> unat rawSize \<or> SHA256 P raw \<noteq> hash))"
  shows "\<not> snd (SendBlock devNo idx rawSize compressed hash ver c)
     \<and> sv_files (HandleConnReadable P h rx s) = sv_files s"
proof -
  obtain fs' st where spec: "ingest P (sv_disk s) (sv_files s) devNo (unat idx) (unat rawSize) hash compressed = (fs', st)"
    by (metis surj_pair)
  have "st \<noteq> OK" "fs' = sv_files s"
    using spec bad by (auto simp: ingest_def Let_def unat_eq_0 split: option.splits if_splits)
  then show ?thesis using exchange_block [OF client hash wire server conn reply spec] by simp
qed

theorem refused_block_reported_witness:
  "\<not> snd (SendBlock 0 0 4 [9, 8, 7, 6] (replicate 32 8) 1 (demo_session (replicate 32 8) HASH_MISMATCH))
   \<and> sv_files (HandleConnReadable demo_platform 5 [Received (demo_frame [9, 8, 7, 6] (replicate 32 8))] (demo_server True)) = demo_files"
proof -
  let ?h = "replicate 32 (8 :: byte)"
  have i: "ingest demo_platform demo_disk demo_files 0 0 4 ?h [9, 8, 7, 6] = (demo_files, HASH_MISMATCH)"
    by (simp add: demo_ingest)
  obtain c1 where c1: "SendBlockNoWait 0 0 4 [9, 8, 7, 6] ?h 1 (demo_session ?h HASH_MISMATCH) = (c1, True)"
    "nc_out c1 = demo_frame [9, 8, 7, 6] ?h"
    using demo_send [of ?h "[9, 8, 7, 6]" HASH_MISMATCH] by auto
  note f = demo_session_fields
  have r: "out_stream 5 (HandleConnReadable demo_platform 5 [Received (demo_frame [9, 8, 7, 6] ?h)] (demo_server True))
     = out_stream 5 (demo_server True) @ rx_stream (nc_rx (demo_session ?h HASH_MISMATCH))"
    by (rule demo_reply [OF demo_pwrite_ok _ _ i]) simp_all
  have bad: "SHA256 demo_platform [9, 8, 7, 6] \<noteq> ?h" by (simp add: demo_platform_def)
  from refused_block_reported [OF c1(1), of "[Received (demo_frame [9, 8, 7, 6] ?h)]" demo_platform "demo_server True" 5 "demo_conn True"]
    c1(2) f r bad demo_lookup(2) demo_pwrite_ok demo_server_ok demo_dm_sized demo_conn_idle demo_recv_empty
  show ?thesis by (simp add: tx_ok_def)
qed

section \<open>A block from the client's disk to the server's file\<close>

text \<open>What the server relies on from zlib, for a deflate decoder \<open>inflate\<close>: \<open>uncompress2\<close> decodes every
  zlib stream whose content fits into the buffer.\<close>

definition zlib_ok :: "(byte list \<Rightarrow> byte list option) \<Rightarrow> Platform \<Rightarrow> bool" where
  "zlib_ok inflate P \<longleftrightarrow>
     (\<forall>cap z raw. zlib_decode inflate z = Some raw \<longrightarrow> length raw \<le> cap \<longrightarrow> uncompress2 P cap z = Some raw)"

lemma uncompress_compressed:
  assumes "Compress W cpr data = Some z" and "deflate_api inflate W" and "zlib_ok inflate P"
    and "data \<noteq> []" and "length data \<le> BLOCK_SIZE"
  shows "uncompress2 P raw_capacity z = Some data"
proof -
  have small: "length data + 65534 < 2 ^ 32" using assms(5) by simp
  obtain d hd where z: "z = hd @ d @ be_bytes32 (ComputeAdler32 data)" "hd = [0x78, 0x01] \<or> hd = [0x78, 0x9C]"
    "inflate d = Some data" using Compress_container [OF assms(1,2,4) small] .
  have "zlib_decode inflate z = Some data" unfolding z(1) using z(2,3) by (intro zlib_decode_container)
  then show ?thesis using assms(3,5) by (simp add: zlib_ok_def raw_capacity_def)
qed

lemma ingest_compressed:
  assumes "Compress W cpr data = Some z" and "deflate_api inflate W" and "zlib_ok inflate P"
    and "data \<noteq> []" and "length data \<le> BLOCK_SIZE"
    and "Get dm devno = Some bf" and "idx * BLOCK_SIZE + length data \<le> length (fs (bf_fd bf))"
    and "sys_pwrite P (bf_fd bf) data (int (idx * BLOCK_SIZE)) = int (length data)"
  shows "ingest P dm fs devno idx (length data) (SHA256 P data) z =
    (fs(bf_fd bf := overwrite (fs (bf_fd bf)) (idx * BLOCK_SIZE) data), OK)"
proof -
  have "uncompress2 P raw_capacity z = Some data" using uncompress_compressed [OF assms(1-5)] .
  then show ?thesis using assms(4-8) by (simp add: ingest_def Let_def not_less)
qed

text \<open>
  C10. A block read from the client's disk arrives: compressed by the client, hashed with the
  same SHA-256 as the server's, sent with \<open>SendBlock\<close> and received in any segmentation on a
  session whose device file is large enough, it is acknowledged as stored and the file holds
  it at its place. The assumptions are those on the libraries on both sides (the Windows
  compressor, zlib, a \<open>pwrite\<close> that writes this block completely) and on a healthy connection.
\<close>

theorem block_arrives:
  assumes codec: "Compress W cpr data = Some z" "deflate_api inflate W" "zlib_ok inflate P"
    and data: "data \<noteq> []" "length data \<le> BLOCK_SIZE" "length z \<le> 2 * BLOCK_SIZE" "length (SHA256 P data) = 32" "unat idx < 2 ^ 43"
    and client: "SendBlockNoWait devNo idx (of_nat (length data)) z (SHA256 P data) ver c = (c1, True)"
    and wire: "rx_plain rx" "nc_out c @ rx_stream rx = nc_out c1"
    and server: "pwrite_ok P" "srv_ok s" "dm_sized (sv_disk s) (sv_files s)"
    and conn: "sv_conns s h = Some cn" "conn_idle cn" "helloDone cn" "tx_ok (sv_tx s h)" "ReadPtr (recvBuf cn) = []"
    and reply: "rx_plain (nc_rx c)" "out_stream h (HandleConnReadable P h rx s) = out_stream h s @ rx_stream (nc_rx c)"
    and device: "Get (sv_disk s) devNo = Some bf" "unat idx * BLOCK_SIZE + length data \<le> length (sv_files s (bf_fd bf))"
      "sys_pwrite P (bf_fd bf) data (int (unat idx * BLOCK_SIZE)) = int (length data)"
  shows "snd (SendBlock devNo idx (of_nat (length data)) z (SHA256 P data) ver c)
     \<and> sv_files (HandleConnReadable P h rx s) =
         (sv_files s)(bf_fd bf := overwrite (sv_files s (bf_fd bf)) (unat idx * BLOCK_SIZE) data)"
proof -
  have n: "unat (of_nat (length data) :: u32) = length data" using data(2) by (simp add: unat_of_nat)
  have "ingest P (sv_disk s) (sv_files s) devNo (unat idx) (unat (of_nat (length data) :: u32)) (SHA256 P data) z =
    ((sv_files s)(bf_fd bf := overwrite (sv_files s (bf_fd bf)) (unat idx * BLOCK_SIZE) data), OK)"
    unfolding n using codec data(1,2) device by (intro ingest_compressed)
  from exchange_block [OF client data(4,3,5) wire server conn reply this] show ?thesis by simp
qed


definition demo_zlib :: Platform where
  "demo_zlib = demo_platform\<lparr> uncompress2 := (\<lambda>cap z. case zlib_decode inflate_stored z of
     None \<Rightarrow> None | Some raw \<Rightarrow> if length raw \<le> cap then Some raw else None) \<rparr>"

theorem block_arrives_witness:
  "\<exists>z. Compress demo_win \<lparr> dc_hCompressor = True, dc_initialized = True \<rparr> [9, 8, 7, 6] = Some z
     \<and> sv_files (HandleConnReadable demo_zlib 5 [Received (demo_frame z (replicate 32 7))] (demo_server True)) 3 = [9, 8, 7, 6, 5, 6]"
proof -
  let ?h = "replicate 32 (7 :: byte)" and ?d = "[9, 8, 7, 6] :: byte list"
  obtain z where z: "Compress demo_win \<lparr> dc_hCompressor = True, dc_initialized = True \<rparr> ?d = Some z" "z \<noteq> []" "length z \<le> 1000"
    by (simp add: Compress_def compress_call_def demo_win_def Let_def GetMaxCompressedSize_def WrapDeflateAsZlib_def
        length_stored_blocks be_bytes32_def)
  have P: "pwrite_ok demo_zlib" "zlib_ok inflate_stored demo_zlib" "SHA256 demo_zlib ?d = ?h"
    by (auto simp: pwrite_ok_def zlib_ok_def demo_zlib_def demo_platform_def)
  have l: "length ?d = 4" by simp
  have w: "sys_pwrite demo_zlib 3 ?d 0 = 4" by (simp add: demo_zlib_def demo_platform_def)
  have i: "ingest demo_zlib demo_disk demo_files 0 0 4 ?h z = (demo_files(3 := [9, 8, 7, 6, 5, 6]), OK)"
    using ingest_compressed [of demo_win _ ?d z inflate_stored demo_zlib demo_disk 0 _ 0 demo_files,
        OF z(1) demo_win_api P(2) _ _ demo_lookup(1), unfolded l P(3)] w
    by (simp add: overwrite_def demo_files_def [THEN fun_cong, of 3])
  obtain c1 where c1: "SendBlockNoWait 0 0 4 z ?h 1 (demo_session ?h OK) = (c1, True)" "nc_out c1 = demo_frame z ?h"
    using demo_send [OF _ z(2,3), of ?h OK] by auto
  have r: "out_stream 5 (HandleConnReadable demo_zlib 5 [Received (demo_frame z ?h)] (demo_server True))
     = out_stream 5 (demo_server True) @ rx_stream (nc_rx (demo_session ?h OK))"
    by (rule demo_reply [OF P(1) _ z(3) i]) simp
  from block_arrives [OF z(1) demo_win_api P(2), of 0 0 1 "demo_session ?h OK" c1 "[Received (demo_frame z ?h)]" "demo_server True" 5 "demo_conn True"]
    P w z(3) c1 r demo_session_fields demo_server_ok demo_dm_sized demo_conn_idle demo_recv_empty demo_lookup(1)
  have "sv_files (HandleConnReadable demo_zlib 5 [Received (demo_frame z ?h)] (demo_server True)) =
      demo_files(3 := overwrite (demo_files 3) 0 ?d)" by (simp add: tx_ok_def demo_files_def)
  then show ?thesis using z(1) by (simp add: demo_files_def overwrite_def)
qed

section \<open>Blocks in a device's file\<close>

lemma ack_code_OK: "ack_code st = 0 \<Longrightarrow> st = OK"
  by (cases st) simp_all

text \<open>Block \<open>i\<close> of the contents \<open>D\<close> is at its place.\<close>

definition holds :: "DiskMap \<Rightarrow> u32 \<Rightarrow> (u64 \<Rightarrow> byte list) \<Rightarrow> files \<Rightarrow> u64 \<Rightarrow> bool" where
  "holds dm devno D fs i \<longleftrightarrow> (\<exists>bf. Get dm devno = Some bf \<and> unat i * BLOCK_SIZE + length (D i) \<le> length (fs (bf_fd bf))
     \<and> segment (unat i * BLOCK_SIZE) (length (D i)) (fs (bf_fd bf)) = D i)"

lemma ingest_effect:
  assumes "ingest P dm fs devno idx n hash payload = (fs', st)" and "uncompress2 P raw_capacity payload = Some raw"
  shows "fs' = fs \<and> st \<noteq> OK \<or> (\<exists>bf k. Get dm devno = Some bf \<and> length raw = n
    \<and> idx * BLOCK_SIZE + n \<le> length (fs (bf_fd bf))
    \<and> fs' = fs(bf_fd bf := overwrite (fs (bf_fd bf)) (idx * BLOCK_SIZE) (take k raw)) \<and> (st = OK \<longrightarrow> length raw \<le> k))"
proof (cases "Get dm devno")
  case None
  then show ?thesis using assms(1) by (simp add: ingest_def)
next
  case (Some bf)
  define w where "w = nat (sys_pwrite P (bf_fd bf) raw (int (idx * BLOCK_SIZE)))"
  show ?thesis using assms Some
    by (auto simp: ingest_def Let_def not_less split: if_splits intro!: exI [of _ w]) (auto simp: w_def)
qed

text \<open>Writing a beginning of a block keeps what is there of these contents; writing all of it puts it there.\<close>

lemma holds_write:
  assumes small: "\<And>b. length (D b) \<le> BLOCK_SIZE" and bf: "Get dm devno = Some bf"
    and room: "unat i * BLOCK_SIZE + length (D i) \<le> length (fs (bf_fd bf))"
    and fs': "fs' = fs(bf_fd bf := overwrite (fs (bf_fd bf)) (unat i * BLOCK_SIZE) (take k (D i)))"
  shows "holds dm devno D fs b \<Longrightarrow> holds dm devno D fs' b" and "length (D i) \<le> k \<Longrightarrow> holds dm devno D fs' i"
proof -
  have room': "unat i * BLOCK_SIZE + length (take k (D i)) \<le> length (fs (bf_fd bf))" using room by simp
  note len = length_overwrite [OF room']
  show "holds dm devno D fs' i" if "length (D i) \<le> k"
    using bf room len segment_overwrite [OF room] that by (simp add: holds_def fs')
  show "holds dm devno D fs' b" if h: "holds dm devno D fs b"
  proof -
    have b: "unat b * BLOCK_SIZE + length (D b) \<le> length (fs (bf_fd bf))"
      "segment (unat b * BLOCK_SIZE) (length (D b)) (fs (bf_fd bf)) = D b"
      using h bf by (auto simp: holds_def)
    have "segment (unat b * BLOCK_SIZE) (length (D b)) (overwrite (fs (bf_fd bf)) (unat i * BLOCK_SIZE) (take k (D i))) = D b"
    proof (cases "b = i")
      case True
      then show ?thesis using b overwrite_prefix [of "unat i * BLOCK_SIZE" "D i" "fs (bf_fd bf)" k] by simp
    next
      case False
      then have "unat b < unat i \<or> unat i < unat b" by (metis linorder_neqE_nat word_unat_eq_iff)
      then have "unat b * BLOCK_SIZE + length (D b) \<le> unat i * BLOCK_SIZE \<or> unat i * BLOCK_SIZE + length (take k (D i)) \<le> unat b * BLOCK_SIZE"
        using small [of b] small [of i] by auto
      then show ?thesis using segment_overwrite_other [OF _ room'] b(2) by metis
    qed
    then show ?thesis using b(1) bf len by (simp add: holds_def fs')
  qed
qed

text \<open>The server at a block of these contents.\<close>

lemma Process_holds:
  assumes small: "\<And>b. length (D b) \<le> BLOCK_SIZE" and "pwrite_ok P" and "dm_sized dm fs" and "unat (bh_BlockIndex bh) < 2 ^ 43"
    and raw: "uncompress2 P raw_capacity (take (unat (bh_CompressedSize bh)) cd) = Some (D (bh_BlockIndex bh))"
    and run: "Process P dm fs devno bh cd = (fs', ack, st)"
  shows "holds dm devno D fs b \<Longrightarrow> holds dm devno D fs' b" and "st = OK \<Longrightarrow> holds dm devno D fs' (bh_BlockIndex bh)"
proof -
  define i where "i = bh_BlockIndex bh"
  obtain fs1 st1 where spec: "ingest P dm fs devno (unat i) (unat (bh_DataSize bh)) (bh_Hash bh) (take (unat (bh_CompressedSize bh)) cd) = (fs1, st1)"
    by (metis surj_pair)
  have "fs1 = fs' \<and> st1 = st" using Process_ingest [OF assms(4,2,3) spec [unfolded i_def]] run by simp
  with ingest_effect [OF spec raw [folded i_def]] consider "fs' = fs" "st \<noteq> OK"
    | bf k where "Get dm devno = Some bf" "unat i * BLOCK_SIZE + length (D i) \<le> length (fs (bf_fd bf))"
      "fs' = fs(bf_fd bf := overwrite (fs (bf_fd bf)) (unat i * BLOCK_SIZE) (take k (D i)))" "st = OK \<longrightarrow> length (D i) \<le> k" by metis
  note cases = this
  show "holds dm devno D fs' b" if "holds dm devno D fs b"
    using cases
  proof cases
    case (2 bf k)
    from holds_write(1) [where D = D and i = i and fs = fs, OF small 2(1-3)] that show ?thesis .
  qed (use that in simp)
  show "holds dm devno D fs' (bh_BlockIndex bh)" if "st = OK"
    using cases
  proof cases
    case (2 bf k)
    from holds_write(2) [where D = D and i = i and fs = fs, OF small 2(1-3)] 2(4) that show ?thesis by (simp add: i_def)
  qed (use that in simp)
qed

end
