(* ===== verification/Block_Hasher.thy ===== *)
theory Block_Hasher
  imports Cbt_Prelude
begin

text \<open>
  Block hashing and manifests, \<open>client/BlockHasher.{h,cpp}\<close>. The source device
  (\<open>SetFilePointerEx\<close> and \<open>ReadFile\<close>) and the BCrypt SHA-256 are parameters. The lemmas say
  what a manifest records, that re-hashing an unchanged source reproduces it, what comparing
  two manifests detects, and that the binary form round-trips.
\<close>

section \<open>Data\<close>

record BlockHashEntry =
  he_BlockIndex :: u64
  he_Offset :: u64
  he_Hash :: "byte list"

record HashManifest =
  hm_BlockSize :: u64
  hm_TotalBlocks :: u64
  hm_TotalSize :: u64
  hm_Entries :: "BlockHashEntry list"
  hm_Timestamp :: u64
  hm_VolumePath :: wstring

text \<open>The hasher: initialised or not, and whether it holds a provider handle.\<close>

record BlockHasher =
  bhs_initialized :: bool
  bhs_hAlg :: bool

definition BlockHasher_new :: BlockHasher where
  "BlockHasher_new = \<lparr> bhs_initialized = False, bhs_hAlg = False \<rparr>"

text \<open>\<open>provider\<close> is the success of \<open>BCryptOpenAlgorithmProvider\<close>.\<close>

definition Initialize_hasher :: "bool \<Rightarrow> BlockHasher \<Rightarrow> BlockHasher \<times> bool" where
  "Initialize_hasher provider b =
     (if bhs_initialized b then (b, True)
      else if \<not> provider then (b, False)
      else (b\<lparr> bhs_hAlg := True, bhs_initialized := True \<rparr>, True))"

text \<open>\<open>bcrypt data\<close> is the digest, or \<open>None\<close> where a BCrypt call fails.\<close>

definition ComputeBlockHash :: "(byte list \<Rightarrow> byte list option) \<Rightarrow> BlockHasher \<Rightarrow> byte list \<Rightarrow> byte list option" where
  "ComputeBlockHash bcrypt b data =
     (if \<not> bhs_initialized b \<or> \<not> bhs_hAlg b then None else bcrypt data)"

text \<open>\<open>dev off n\<close> is what reading \<open>n\<close> bytes at \<open>off\<close> delivers, \<open>None\<close> if a call fails.\<close>

definition ReadAt :: "(u64 \<Rightarrow> u32 \<Rightarrow> byte list option) \<Rightarrow> u64 \<Rightarrow> u32 \<Rightarrow> byte list option" where
  "ReadAt dev offset n =
     (case dev offset n of
        None \<Rightarrow> None
      | Some bytes \<Rightarrow> if length bytes = unat n then Some bytes else None)"

section \<open>Building manifests\<close>

text \<open>The loop of \<open>BuildManifest\<close>, with the number of blocks still to read.\<close>

fun build_entries ::
  "(u64 \<Rightarrow> u32 \<Rightarrow> byte list option) \<Rightarrow> (byte list \<Rightarrow> byte list option) \<Rightarrow> BlockHasher
   \<Rightarrow> nat \<Rightarrow> u64 \<Rightarrow> u64 \<Rightarrow> u64 \<Rightarrow> BlockHashEntry list option" where
  "build_entries dev bcrypt b 0 i currentOffset remaining = Some []"
| "build_entries dev bcrypt b (Suc n) i currentOffset remaining =
     (let blockSize = (if BLOCK_SIZE \<le> remaining then BLOCK_SIZE else ucast remaining :: u32) in
      case ReadAt dev currentOffset blockSize of
        None \<Rightarrow> None
      | Some buffer \<Rightarrow>
          (case ComputeBlockHash bcrypt b buffer of
             None \<Rightarrow> None
           | Some hash \<Rightarrow>
               (case build_entries dev bcrypt b n (i + 1) (currentOffset + ucast blockSize)
                       (remaining - ucast blockSize) of
                  None \<Rightarrow> None
                | Some es \<Rightarrow>
                    Some (\<lparr> he_BlockIndex = i, he_Offset = currentOffset, he_Hash = hash \<rparr> # es))))"

definition total_blocks :: "u64 \<Rightarrow> u64" where
  "total_blocks totalSize = (totalSize + BLOCK_SIZE - 1) div BLOCK_SIZE"

definition BuildManifest ::
  "(u64 \<Rightarrow> u32 \<Rightarrow> byte list option) \<Rightarrow> (byte list \<Rightarrow> byte list option) \<Rightarrow> u64 \<Rightarrow> BlockHasher
   \<Rightarrow> bool \<Rightarrow> u64 \<Rightarrow> u64 \<Rightarrow> wstring \<Rightarrow> HashManifest option" where
  "BuildManifest dev bcrypt now b validHandle offset totalSize volumePath =
     (if \<not> bhs_initialized b \<or> \<not> validHandle then None
      else
        let totalBlocks = total_blocks totalSize in
        map_option
          (\<lambda>es. \<lparr> hm_BlockSize = BLOCK_SIZE, hm_TotalBlocks = totalBlocks, hm_TotalSize = totalSize,
                  hm_Entries = es, hm_Timestamp = now, hm_VolumePath = volumePath \<rparr>)
          (build_entries dev bcrypt b (unat totalBlocks) 0 offset totalSize))"

text \<open>The size of a block that is read again: the last one may be short.\<close>

definition rehash_size :: "HashManifest \<Rightarrow> u64 \<Rightarrow> u32" where
  "rehash_size m idx =
     (if idx = hm_TotalBlocks m - 1 \<and> 0 < hm_TotalSize m mod BLOCK_SIZE
      then ucast (hm_TotalSize m mod BLOCK_SIZE) else BLOCK_SIZE)"

fun rehash_entries ::
  "(u64 \<Rightarrow> u32 \<Rightarrow> byte list option) \<Rightarrow> (byte list \<Rightarrow> byte list option) \<Rightarrow> BlockHasher
   \<Rightarrow> HashManifest \<Rightarrow> u64 list \<Rightarrow> BlockHashEntry list option" where
  "rehash_entries dev bcrypt b m [] = Some []"
| "rehash_entries dev bcrypt b m (idx # idxs) =
     (if length (hm_Entries m) \<le> unat idx then rehash_entries dev bcrypt b m idxs
      else
        let entry = hm_Entries m ! unat idx in
        case ReadAt dev (he_Offset entry) (rehash_size m idx) of
          None \<Rightarrow> None
        | Some buffer \<Rightarrow>
            (case ComputeBlockHash bcrypt b buffer of
               None \<Rightarrow> None
             | Some hash \<Rightarrow>
                 map_option ((#) \<lparr> he_BlockIndex = idx, he_Offset = he_Offset entry, he_Hash = hash \<rparr>)
                   (rehash_entries dev bcrypt b m idxs)))"

definition ComputeBlockHashes ::
  "(u64 \<Rightarrow> u32 \<Rightarrow> byte list option) \<Rightarrow> (byte list \<Rightarrow> byte list option) \<Rightarrow> BlockHasher
   \<Rightarrow> bool \<Rightarrow> HashManifest \<Rightarrow> u64 list \<Rightarrow> BlockHashEntry list option" where
  "ComputeBlockHashes dev bcrypt b validHandle m blockIndexes =
     (if \<not> bhs_initialized b \<or> \<not> validHandle then None else rehash_entries dev bcrypt b m blockIndexes)"

section \<open>Comparing manifests\<close>

definition entry_changed :: "HashManifest \<Rightarrow> HashManifest \<Rightarrow> nat \<Rightarrow> bool" where
  "entry_changed old current i \<longleftrightarrow>
     (if length (hm_Entries old) \<le> i then True
      else if length (hm_Entries current) \<le> i then True
      else he_Hash (hm_Entries old ! i) \<noteq> he_Hash (hm_Entries current ! i))"

definition CompareManifests :: "HashManifest \<Rightarrow> HashManifest \<Rightarrow> nat list" where
  "CompareManifests old current =
     (let maxBlocks = max (length (hm_Entries old)) (length (hm_Entries current))
      in filter (entry_changed old current) [0..<maxBlocks])"

section \<open>Binary form\<close>

definition MANIFEST_MAGIC :: u32 where
  "MANIFEST_MAGIC = 0x464D4842"

definition entry_bytes :: "BlockHashEntry \<Rightarrow> byte list" where
  "entry_bytes e = le_bytes 8 (he_BlockIndex e) @ he_Hash e"

definition entry_of :: "byte list \<Rightarrow> BlockHashEntry" where
  "entry_of p = \<lparr> he_BlockIndex = le_word (segment 0 8 p), he_Offset = 0, he_Hash = segment 8 32 p \<rparr>"

definition SerializeManifest :: "HashManifest \<Rightarrow> byte list" where
  "SerializeManifest m =
     le_bytes 4 MANIFEST_MAGIC @ le_bytes 4 (1 :: u32) @ le_bytes 8 (hm_BlockSize m)
     @ le_bytes 8 (hm_TotalBlocks m) @ le_bytes 8 (hm_TotalSize m)
     @ concat (map entry_bytes (hm_Entries m))"

text \<open>
  Deserialisation fails with \<open>false\<close>, or with the exception \<open>std::length_error\<close> of
  \<open>Entries.resize\<close> when the count exceeds what a vector of 48-byte elements can hold.
\<close>

datatype manifest_error = Rejected | LengthError

definition vector_max :: nat where
  "vector_max = (2 ^ 64 - 1) div 48"

definition DeserializeManifest :: "byte list \<Rightarrow> manifest_error + HashManifest" where
  "DeserializeManifest data =
     (if length data < 32 then Inl Rejected
      else if (le_word (segment 0 4 data) :: u32) \<noteq> MANIFEST_MAGIC then Inl Rejected
      else if (le_word (segment 4 4 data) :: u32) \<noteq> 1 then Inl Rejected
      else
        let totalBlocks = le_word (segment 16 8 data) :: u64;
            expectedSize = 32 + totalBlocks * (8 + 32) :: u64
        in if length data < unat expectedSize then Inl Rejected
           else if vector_max < unat totalBlocks then Inl LengthError
           else if length data < 32 + unat totalBlocks * 40 then Inl Rejected
           else Inr \<lparr> hm_BlockSize = le_word (segment 8 8 data), hm_TotalBlocks = totalBlocks,
                      hm_TotalSize = le_word (segment 24 8 data),
                      hm_Entries = map entry_of (chunks 40 (unat totalBlocks) (drop 32 data)),
                      hm_Timestamp = 0, hm_VolumePath = [] \<rparr>)"

section \<open>Hexadecimal form\<close>

definition hex_digit :: "byte \<Rightarrow> u16" where
  "hex_digit d = (if d < 10 then 48 + ucast d else 55 + ucast d)"

definition HashToHex :: "byte list \<Rightarrow> wstring" where
  "HashToHex hash = concat (map (\<lambda>b. [hex_digit (drop_bit 4 b), hex_digit (b AND 15)]) (take 32 hash))"

section \<open>What a manifest records\<close>

text \<open>A readable source: a byte list, read exactly; and a digest that never fails.\<close>

definition disk_reader :: "byte list \<Rightarrow> u64 \<Rightarrow> u32 \<Rightarrow> byte list option" where
  "disk_reader src off n = Some (segment (unat off) (unat n) src)"

definition ready :: "BlockHasher \<Rightarrow> bool" where
  "ready b \<longleftrightarrow> bhs_initialized b \<and> bhs_hAlg b"

definition blocks_of :: "nat \<Rightarrow> nat" where
  "blocks_of n = (n + BLOCK_SIZE - 1) div BLOCK_SIZE"

definition block_data :: "byte list \<Rightarrow> nat \<Rightarrow> nat \<Rightarrow> nat \<Rightarrow> byte list" where
  "block_data src off len k = segment (off + k * BLOCK_SIZE) (min BLOCK_SIZE (len - k * BLOCK_SIZE)) src"

lemma ready_Initialize: "Initialize_hasher True BlockHasher_new = (b, ok) \<Longrightarrow> ok \<and> ready b"
  by (auto simp: Initialize_hasher_def BlockHasher_new_def ready_def)

lemma ReadAt_disk: "unat off + unat n \<le> length src \<Longrightarrow> ReadAt (disk_reader src) off n = Some (segment (unat off) (unat n) src)"
  by (simp add: ReadAt_def disk_reader_def length_segment)

lemma blocks_of_step: "BLOCK_SIZE \<le> n \<Longrightarrow> blocks_of n = Suc (blocks_of (n - BLOCK_SIZE))"
  by (simp add: blocks_of_def)

lemma blocks_of_0 [simp]: "blocks_of 0 = 0"
  by (simp add: blocks_of_def)

lemma blocks_of_short: "0 < n \<Longrightarrow> n < BLOCK_SIZE \<Longrightarrow> blocks_of n = 1"
  by (simp add: blocks_of_def div_nat_eqI)

lemma build_entries_spec:
  assumes "ready b" and "unat cur + unat rem \<le> length src" and "length src < 2 ^ 64"
  shows "build_entries (disk_reader src) (Some \<circ> sha) b (blocks_of (unat rem)) i cur rem =
     Some (map (\<lambda>k. \<lparr> he_BlockIndex = i + of_nat k, he_Offset = cur + of_nat (k * BLOCK_SIZE),
                      he_Hash = sha (block_data src (unat cur) (unat rem) k) \<rparr>) [0..<blocks_of (unat rem)])"
  using assms(2)
proof (induction "blocks_of (unat rem)" arbitrary: i cur rem)
  case 0
  then show ?case by (simp flip: "0.hyps")
next
  case (Suc n)
  show ?case
  proof (cases "BLOCK_SIZE \<le> unat rem")
    case True
    then have big: "BLOCK_SIZE \<le> rem" by (simp add: word_le_nat_alt)
    have r': "unat (rem - BLOCK_SIZE) = unat rem - BLOCK_SIZE"
      using big by (simp add: unat_sub)
    have c': "unat (cur + BLOCK_SIZE) = unat cur + BLOCK_SIZE"
      using Suc.prems True assms(3) by (simp add: unat_word_ariths)
    have n: "n = blocks_of (unat (rem - BLOCK_SIZE))"
      using Suc.hyps(2) blocks_of_step [OF True] by (simp add: r')
    have IH: "build_entries (disk_reader src) (Some \<circ> sha) b n (i + 1) (cur + BLOCK_SIZE) (rem - BLOCK_SIZE) =
      Some (map (\<lambda>k. \<lparr> he_BlockIndex = i + 1 + of_nat k, he_Offset = cur + BLOCK_SIZE + of_nat (k * BLOCK_SIZE),
                      he_Hash = sha (block_data src (unat (cur + BLOCK_SIZE)) (unat (rem - BLOCK_SIZE)) k) \<rparr>) [0..<n])"
      using Suc.hyps(1) [OF n, of "cur + BLOCK_SIZE" "i + 1"] Suc.prems True by (simp add: n c' r')
    have shift: "block_data src (unat (cur + BLOCK_SIZE)) (unat (rem - BLOCK_SIZE)) k
        = block_data src (unat cur) (unat rem) (Suc k)" for k
      by (simp add: block_data_def c' r' ac_simps)
    have read: "ReadAt (disk_reader src) cur BLOCK_SIZE = Some (block_data src (unat cur) (unat rem) 0)"
      using Suc.prems True by (subst ReadAt_disk) (auto simp: block_data_def)
    have list: "map f [0..<Suc n] = f 0 # map (f \<circ> Suc) [0..<n]" for f :: "nat \<Rightarrow> BlockHashEntry"
      by (simp only: upt_conv_Cons [OF zero_less_Suc] list.map map_Suc_upt [symmetric] map_map)
    define F where "F k = \<lparr> he_BlockIndex = i + of_nat k, he_Offset = cur + of_nat (k * BLOCK_SIZE),
                            he_Hash = sha (block_data src (unat cur) (unat rem) k) \<rparr>" for k
    have tail: "(\<lambda>k. \<lparr> he_BlockIndex = i + 1 + of_nat k, he_Offset = cur + BLOCK_SIZE + of_nat (k * BLOCK_SIZE),
        he_Hash = sha (block_data src (unat (cur + BLOCK_SIZE)) (unat (rem - BLOCK_SIZE)) k) \<rparr>) = F \<circ> Suc"
      by (rule ext) (simp add: F_def shift)
    have "build_entries (disk_reader src) (Some \<circ> sha) b (Suc n) i cur rem = Some (F 0 # map (F \<circ> Suc) [0..<n])"
      using assms(1) IH unfolding tail by (simp add: big read ComputeBlockHash_def ready_def F_def)
    then show ?thesis unfolding Suc.hyps(2) [symmetric] F_def [symmetric] list .
  next
    case False
    then have small: "\<not> BLOCK_SIZE \<le> rem" by (simp add: word_le_nat_alt)
    have pos: "0 < unat rem" using Suc.hyps(2) by (cases "unat rem") simp_all
    have n: "blocks_of (unat rem) = 1" using False pos by (simp add: blocks_of_short)
    have u: "unat (ucast rem :: u32) = unat rem"
      using False by (simp add: unsigned_ucast_eq take_bit_nat_eq_self)
    have read: "ReadAt (disk_reader src) cur (ucast rem) = Some (block_data src (unat cur) (unat rem) 0)"
      using Suc.prems False by (subst ReadAt_disk) (auto simp: block_data_def u)
    show ?thesis
      using assms(1) unfolding n by (simp add: small read ComputeBlockHash_def ready_def)
  qed
qed

lemma total_blocks_nat: "unat n + BLOCK_SIZE \<le> 2 ^ 64 \<Longrightarrow> unat (total_blocks n) = blocks_of (unat n)"
proof -
  assume b: "unat n + BLOCK_SIZE \<le> 2 ^ 64"
  have "n + BLOCK_SIZE - 1 = n + (BLOCK_SIZE - 1)" by simp
  also have "unat \<dots> = unat n + 1048575" using b by (simp add: unat_word_ariths)
  finally show ?thesis by (simp add: total_blocks_def blocks_of_def unat_div)
qed

definition built_entries :: "(byte list \<Rightarrow> byte list) \<Rightarrow> byte list \<Rightarrow> u64 \<Rightarrow> u64 \<Rightarrow> BlockHashEntry list" where
  "built_entries sha src offset totalSize =
     map (\<lambda>k. \<lparr> he_BlockIndex = of_nat k, he_Offset = offset + of_nat (k * BLOCK_SIZE),
                he_Hash = sha (block_data src (unat offset) (unat totalSize) k) \<rparr>) [0..<blocks_of (unat totalSize)]"

lemma BuildManifest_spec:
  assumes "ready b" and "unat offset + unat totalSize \<le> length src" and "length src < 2 ^ 64"
    and "unat totalSize + BLOCK_SIZE \<le> 2 ^ 64"
  shows "BuildManifest (disk_reader src) (Some \<circ> sha) now b True offset totalSize path =
     Some \<lparr> hm_BlockSize = BLOCK_SIZE, hm_TotalBlocks = total_blocks totalSize, hm_TotalSize = totalSize,
            hm_Entries = built_entries sha src offset totalSize, hm_Timestamp = now, hm_VolumePath = path \<rparr>"
  using assms build_entries_spec [OF assms(1-3), of sha 0]
  by (simp add: BuildManifest_def ready_def Let_def total_blocks_nat built_entries_def)

section \<open>Re-hashing and comparing\<close>

lemma blocks_of_less: "k < blocks_of n \<longleftrightarrow> k * BLOCK_SIZE < n"
  unfolding blocks_of_def by (simp add: less_eq_Suc_le [of k] less_eq_div_iff_mult_less_eq) linarith

lemma last_block_len:
  assumes "k < blocks_of n"
  shows "min BLOCK_SIZE (n - k * BLOCK_SIZE)
     = (if k = blocks_of n - 1 \<and> 0 < n mod BLOCK_SIZE then n mod BLOCK_SIZE else BLOCK_SIZE)"
proof -
  define q r where "q = n div 1048576" and "r = n mod 1048576"
  have n: "n = q * 1048576 + r" "r < 1048576" by (simp_all add: q_def r_def)
  have b: "blocks_of n = (if r = 0 then q else Suc q)"
    using n(2) by (auto simp: n(1) blocks_of_def)
  have k: "k * 1048576 < q * 1048576 + r" using assms by (simp add: blocks_of_less n(1))
  have "k \<le> q" using k n(2) by (simp add: less_Suc_eq_le [symmetric] flip: mult_Suc)
  then consider "k = q" | "Suc k \<le> q" by linarith
  then show ?thesis
  proof cases
    case 1
    then show ?thesis using k n(2) b by (simp add: n(1))
  next
    case 2
    then have "Suc k * 1048576 \<le> q * 1048576" by (intro mult_le_mono1)
    then show ?thesis using 2 b n(2) by (auto simp: n(1) min_def)
  qed
qed

lemma nth_built:
  "k < blocks_of (unat totalSize) \<Longrightarrow> built_entries sha src offset totalSize ! k =
     \<lparr> he_BlockIndex = of_nat k, he_Offset = offset + of_nat (k * BLOCK_SIZE),
       he_Hash = sha (block_data src (unat offset) (unat totalSize) k) \<rparr>"
  by (simp add: built_entries_def)

lemma length_built [simp]: "length (built_entries sha src offset totalSize) = blocks_of (unat totalSize)"
  by (simp add: built_entries_def)

lemma rehash_one:
  assumes "unat idx < blocks_of (unat totalSize)" and "unat offset + unat totalSize \<le> length src"
    and "length src < 2 ^ 64" and "unat totalSize + BLOCK_SIZE \<le> 2 ^ 64"
    and "hm_TotalBlocks m = total_blocks totalSize" and "hm_TotalSize m = totalSize"
  shows "ReadAt (disk_reader src) (offset + of_nat (unat idx * BLOCK_SIZE)) (rehash_size m idx)
         = Some (block_data src (unat offset) (unat totalSize) (unat idx))"
proof -
  define k where "k = unat idx"
  have tb: "unat (total_blocks totalSize) = blocks_of (unat totalSize)" using assms(4) by (rule total_blocks_nat)
  have k: "k < blocks_of (unat totalSize)" using assms(1) by (simp add: k_def)
  have "idx = total_blocks totalSize - 1 \<longleftrightarrow> k = blocks_of (unat totalSize) - 1"
  proof -
    have "1 \<le> total_blocks totalSize" using k tb by (simp add: word_le_nat_alt)
    then have "unat (total_blocks totalSize - 1) = blocks_of (unat totalSize) - 1" by (simp add: unat_sub tb)
    then show ?thesis by (auto simp: k_def word_unat_eq_iff)
  qed
  moreover have "unat (totalSize mod BLOCK_SIZE) = unat totalSize mod BLOCK_SIZE" by (simp add: unat_mod)
  moreover have "unat (ucast (totalSize mod BLOCK_SIZE) :: u32) = unat totalSize mod BLOCK_SIZE"
    by (simp add: unsigned_ucast_eq unat_mod take_bit_nat_eq_self)
  moreover have "0 < totalSize mod BLOCK_SIZE \<longleftrightarrow> 0 < unat totalSize mod BLOCK_SIZE"
    by (simp add: word_less_nat_alt unat_mod)
  ultimately have size: "unat (rehash_size m idx) = min BLOCK_SIZE (unat totalSize - k * BLOCK_SIZE)"
    using last_block_len [OF k] assms(5,6) by (simp add: rehash_size_def)
  have kb: "k * BLOCK_SIZE < unat totalSize" using k by (simp add: blocks_of_less)
  have off: "unat (offset + of_nat (k * BLOCK_SIZE)) = unat offset + k * BLOCK_SIZE"
  proof -
    have "unat (of_nat (k * BLOCK_SIZE) :: u64) = k * BLOCK_SIZE"
      using kb assms(2,3) by (simp add: unat_of_nat del: of_nat_mult)
    then show ?thesis using kb assms(2,3) by (simp add: unat_word_ariths del: of_nat_mult)
  qed
  show ?thesis
    using size off kb assms(2)
    by (subst ReadAt_disk) (auto simp: block_data_def k_def [symmetric] min_def simp del: of_nat_mult)
qed

lemma rehash_entries_built:
  assumes "ready b" and "\<forall>idx \<in> set idxs. unat idx < blocks_of (unat totalSize)"
    and "unat offset + unat totalSize \<le> length src" and "length src < 2 ^ 64"
    and "unat totalSize + BLOCK_SIZE \<le> 2 ^ 64"
    and "hm_TotalBlocks m = total_blocks totalSize" and "hm_TotalSize m = totalSize"
    and "hm_Entries m = built_entries sha0 old offset totalSize"
  shows "rehash_entries (disk_reader src) (Some \<circ> sha) b m idxs
         = Some (map (\<lambda>idx. built_entries sha src offset totalSize ! unat idx) idxs)"
  using assms(2)
proof (induction idxs)
  case (Cons idx idxs)
  then have k: "unat idx < blocks_of (unat totalSize)" by simp
  from rehash_one [OF k assms(3-7)] Cons k assms(1)
  show ?case by (simp add: assms(8) nth_built ComputeBlockHash_def ready_def Let_def)
qed simp

lemma CompareManifests_iff:
  "i \<in> set (CompareManifests old current) \<longleftrightarrow>
     i < max (length (hm_Entries old)) (length (hm_Entries current)) \<and> entry_changed old current i"
  by (auto simp: CompareManifests_def Let_def)

section \<open>Binary form\<close>

interpretation he: fixed_codec entry_bytes entry_of 40 "\<lambda>e. length (he_Hash e) = 32 \<and> he_Offset e = 0"
  by unfold_locales (simp_all add: entry_bytes_def entry_of_def segment_def)

definition strip_offset :: "BlockHashEntry \<Rightarrow> BlockHashEntry" where
  "strip_offset e = e\<lparr> he_Offset := 0 \<rparr>"

lemma entry_bytes_strip [simp]: "entry_bytes (strip_offset e) = entry_bytes e"
  by (simp add: entry_bytes_def strip_offset_def)

lemma header_segments:
  fixes bs tb ts :: u64 and es :: "byte list"
  defines "d \<equiv> le_bytes 4 MANIFEST_MAGIC @ le_bytes 4 (1 :: u32) @ le_bytes 8 bs @ le_bytes 8 tb @ le_bytes 8 ts @ es"
  shows "segment 0 4 d = le_bytes 4 MANIFEST_MAGIC" "segment 4 4 d = le_bytes 4 (1 :: u32)"
    "segment 8 8 d = le_bytes 8 bs" "segment 16 8 d = le_bytes 8 tb" "segment 24 8 d = le_bytes 8 ts"
    "drop 32 d = es" "length d = 32 + length es"
  by (simp_all add: d_def segment_def)

lemma expected_size:
  "unat (n::u64) \<le> vector_max \<Longrightarrow> unat (32 + n * (8 + 32)) = 32 + unat n * 40"
  by (simp add: vector_max_def unat_word_ariths)

lemma Deserialize_Serialize:
  assumes "length (hm_Entries m) = unat (hm_TotalBlocks m)" and "\<forall>e \<in> set (hm_Entries m). length (he_Hash e) = 32"
    and "unat (hm_TotalBlocks m) \<le> vector_max"
  shows "DeserializeManifest (SerializeManifest m @ rest)
     = Inr (m\<lparr> hm_Entries := map strip_offset (hm_Entries m), hm_Timestamp := 0, hm_VolumePath := [] \<rparr>)"
proof -
  define es where "es = map strip_offset (hm_Entries m)"
  have es: "concat (map entry_bytes (hm_Entries m)) = concat (map entry_bytes es)"
    by (simp add: es_def comp_def)
  have v: "\<forall>e \<in> set es. length (he_Hash e) = 32 \<and> he_Offset e = 0"
    using assms(2) by (auto simp: es_def strip_offset_def)
  have len: "length es = unat (hm_TotalBlocks m)" by (simp add: es_def assms(1))
  have bytes: "length (concat (map entry_bytes es)) = 40 * unat (hm_TotalBlocks m)"
    using he.length_enc_all [OF v] len by simp
  have dec: "map entry_of (chunks 40 (unat (hm_TotalBlocks m)) (concat (map entry_bytes es) @ rest)) = es"
    using he.dec_chunks [OF v, of rest] len by simp
  define d where "d = SerializeManifest m @ rest"
  have d: "d = le_bytes 4 MANIFEST_MAGIC @ le_bytes 4 (1 :: u32) @ le_bytes 8 (hm_BlockSize m)
     @ le_bytes 8 (hm_TotalBlocks m) @ le_bytes 8 (hm_TotalSize m) @ (concat (map entry_bytes es) @ rest)"
    by (simp add: d_def SerializeManifest_def es)
  note seg = header_segments [of "hm_BlockSize m" "hm_TotalBlocks m" "hm_TotalSize m" "concat (map entry_bytes es) @ rest",
      folded d]
  have "DeserializeManifest d = Inr \<lparr> hm_BlockSize = hm_BlockSize m, hm_TotalBlocks = hm_TotalBlocks m,
     hm_TotalSize = hm_TotalSize m, hm_Entries = es, hm_Timestamp = 0, hm_VolumePath = [] \<rparr>"
    using assms(3) by (simp add: DeserializeManifest_def Let_def seg dec bytes expected_size [OF assms(3), simplified] le_word_le_bytes)
  then show ?thesis by (simp add: d_def es_def)
qed

section \<open>Properties\<close>

text \<open>
  A manifest built from a readable source describes it: one entry per started block of
  1 MiB, in order, with its index, its byte offset and the SHA-256 of exactly that block's
  bytes, the last block being as short as the source ends.
\<close>

lemma BuildManifest_describes:
  assumes "ready b" and "unat offset + unat totalSize \<le> length src" and "length src < 2 ^ 64"
    and "unat totalSize + BLOCK_SIZE \<le> 2 ^ 64"
  shows "\<exists>m. BuildManifest (disk_reader src) (Some \<circ> sha) now b True offset totalSize path = Some m
     \<and> length (hm_Entries m) = blocks_of (unat totalSize) \<and> hm_TotalSize m = totalSize
     \<and> (\<forall>k < blocks_of (unat totalSize). hm_Entries m ! k =
          \<lparr> he_BlockIndex = of_nat k, he_Offset = offset + of_nat (k * BLOCK_SIZE),
            he_Hash = sha (segment (unat offset + k * BLOCK_SIZE)
                             (min BLOCK_SIZE (unat totalSize - k * BLOCK_SIZE)) src) \<rparr>)"
  using BuildManifest_spec [OF assms] by (simp add: nth_built block_data_def)

definition demo_hasher :: BlockHasher where
  "demo_hasher = fst (Initialize_hasher True BlockHasher_new)"

lemma demo_hasher_ready: "ready demo_hasher"
  by (simp add: demo_hasher_def Initialize_hasher_def BlockHasher_new_def ready_def)

theorem BuildManifest_describes_witness:
  "\<exists>m. BuildManifest (disk_reader [1, 2, 3, 4, 5]) (Some \<circ> rev) 0 demo_hasher True 1 3 [] = Some m
     \<and> map he_Hash (hm_Entries m) = [[4, 3, 2]]"
proof -
  have b: "blocks_of 3 = 1" by (simp add: blocks_of_def)
  from BuildManifest_describes [OF demo_hasher_ready, of 1 3 "[1, 2, 3, 4, 5]" rev 0 "[]"] b
  obtain m where m: "BuildManifest (disk_reader [1, 2, 3, 4, 5]) (Some \<circ> rev) 0 demo_hasher True 1 3 [] = Some m"
    "length (hm_Entries m) = 1" "he_Hash (hm_Entries m ! 0) = [4, 3, 2]"
    by (auto simp: segment_def)
  then show ?thesis by (cases "hm_Entries m") auto
qed

text \<open>
  Re-hashing selected blocks of the source a manifest describes gives exactly the
  entries a new manifest would have: unchanged blocks keep their hash, changed ones get the
  new one.
\<close>

lemma ComputeBlockHashes_rebuild:
  assumes "ready b" and "unat offset + unat totalSize \<le> length src" and "length old = length src"
    and "length src < 2 ^ 64" and "unat totalSize + BLOCK_SIZE \<le> 2 ^ 64"
    and "BuildManifest (disk_reader old) (Some \<circ> sha) t b True offset totalSize path = Some m"
    and "BuildManifest (disk_reader src) (Some \<circ> sha) t' b True offset totalSize path = Some m'"
    and "\<forall>idx \<in> set idxs. unat idx < length (hm_Entries m)"
  shows "ComputeBlockHashes (disk_reader src) (Some \<circ> sha) b True m idxs
         = Some (map (\<lambda>idx. hm_Entries m' ! unat idx) idxs)"
proof -
  have m: "hm_TotalBlocks m = total_blocks totalSize" "hm_TotalSize m = totalSize"
    "hm_Entries m = built_entries sha old offset totalSize"
    using BuildManifest_spec [of b offset totalSize old sha t path] assms by auto
  have m': "hm_Entries m' = built_entries sha src offset totalSize"
    using BuildManifest_spec [of b offset totalSize src sha t' path] assms by auto
  show ?thesis
    using assms(1,8) rehash_entries_built [OF assms(1) _ assms(2,4,5) m, of idxs sha] m m'
    by (simp add: ComputeBlockHashes_def ready_def)
qed

theorem ComputeBlockHashes_rebuild_witness:
  "\<exists>m. BuildManifest (disk_reader [1, 2, 3]) (Some \<circ> rev) 0 demo_hasher True 0 3 [] = Some m
     \<and> ComputeBlockHashes (disk_reader [1, 9, 3]) (Some \<circ> rev) demo_hasher True m [0]
       = Some [\<lparr> he_BlockIndex = 0, he_Offset = 0, he_Hash = [3, 9, 1] \<rparr>]"
proof -
  have b: "blocks_of 3 = 1" by (simp add: blocks_of_def)
  have m: "BuildManifest (disk_reader d) (Some \<circ> rev) 0 demo_hasher True 0 3 [] = Some
      \<lparr> hm_BlockSize = BLOCK_SIZE, hm_TotalBlocks = total_blocks 3, hm_TotalSize = 3,
        hm_Entries = [\<lparr> he_BlockIndex = 0, he_Offset = 0, he_Hash = rev d \<rparr>], hm_Timestamp = 0, hm_VolumePath = [] \<rparr>"
    if "length d = 3" for d
    using BuildManifest_spec [OF demo_hasher_ready, of 0 3 d rev 0 "[]"] that b
    by (simp add: built_entries_def block_data_def)
  from ComputeBlockHashes_rebuild [OF demo_hasher_ready _ _ _ _ m [of "[1, 2, 3]"] m [of "[1, 9, 3]"], of "[0]"]
  show ?thesis using m [of "[1, 2, 3]"] by simp
qed

text \<open>
  Change detection: comparing the manifests of two states of a source lists, in
  ascending order, exactly the blocks whose bytes differ, as long as no two of the blocks
  collide under the digest.
\<close>

lemma CompareManifests_detects:
  assumes "ready b" and "unat offset + unat totalSize \<le> length src" and "length old = length src"
    and "length src < 2 ^ 64" and "unat totalSize + BLOCK_SIZE \<le> 2 ^ 64"
    and "BuildManifest (disk_reader old) (Some \<circ> sha) t b True offset totalSize path = Some m"
    and "BuildManifest (disk_reader src) (Some \<circ> sha) t' b True offset totalSize path = Some m'"
    and "inj_on sha (range (block_data old (unat offset) (unat totalSize)) \<union> range (block_data src (unat offset) (unat totalSize)))"
  shows "CompareManifests m m' = filter (\<lambda>k. block_data old (unat offset) (unat totalSize) k
            \<noteq> block_data src (unat offset) (unat totalSize) k) [0..<blocks_of (unat totalSize)]"
proof -
  have m: "hm_Entries m = built_entries sha old offset totalSize" "hm_Entries m' = built_entries sha src offset totalSize"
    using BuildManifest_spec [of b offset totalSize old sha t path] BuildManifest_spec [of b offset totalSize src sha t' path] assms
    by auto
  have "entry_changed m m' k \<longleftrightarrow> block_data old (unat offset) (unat totalSize) k \<noteq> block_data src (unat offset) (unat totalSize) k"
    if "k < blocks_of (unat totalSize)" for k
    using that inj_on_eq_iff [OF assms(8), of "block_data old (unat offset) (unat totalSize) k"
        "block_data src (unat offset) (unat totalSize) k"]
    by (simp add: entry_changed_def m nth_built)
  then show ?thesis
    by (simp add: CompareManifests_def Let_def m) (intro filter_cong; simp)
qed

theorem CompareManifests_detects_witness:
  "\<exists>m m'. BuildManifest (disk_reader [1, 2, 3]) (Some \<circ> rev) 0 demo_hasher True 0 3 [] = Some m
     \<and> BuildManifest (disk_reader [1, 9, 3]) (Some \<circ> rev) 0 demo_hasher True 0 3 [] = Some m'
     \<and> CompareManifests m m' = [0]"
proof -
  have b: "blocks_of 3 = 1" by (simp add: blocks_of_def)
  obtain m m' where m: "BuildManifest (disk_reader [1, 2, 3]) (Some \<circ> rev) 0 demo_hasher True 0 3 [] = Some m"
    "BuildManifest (disk_reader [1, 9, 3]) (Some \<circ> rev) 0 demo_hasher True 0 3 [] = Some m'"
    using BuildManifest_spec [OF demo_hasher_ready, of 0 3 "[1, 2, 3]" rev 0 "[]"]
      BuildManifest_spec [OF demo_hasher_ready, of 0 3 "[1, 9, 3]" rev 0 "[]"] by simp
  from CompareManifests_detects [OF demo_hasher_ready _ _ _ _ m] have "CompareManifests m m' = [0]"
    by (simp add: b block_data_def inj_on_def)
  with m show ?thesis by blast
qed



text \<open>
  The size check of the reader is computed modulo 2^64: a header that claims 2^61 blocks
  passes it without any entry behind it, and the reader asks for a vector of that size.
\<close>

lemma manifest_size_wraps:
  "DeserializeManifest (le_bytes 4 MANIFEST_MAGIC @ le_bytes 4 (1 :: u32) @ le_bytes 8 (BLOCK_SIZE :: u64)
     @ le_bytes 8 (2 ^ 61 :: u64) @ le_bytes 8 (ts :: u64) @ []) = Inl LengthError"
  unfolding DeserializeManifest_def Let_def header_segments
  by (simp add: vector_max_def)

end
