(* ===== verification/Block_State.thy ===== *)
theory Block_State
  imports Block_Hasher
begin

text \<open>
  The per-disk block table and version history, \<open>client/BlockStateManager.{h,cpp}\<close> without
  its file (see \<open>State_File\<close>). Every public operation is a state transformer; the mutex makes
  each of them atomic, so an interleaving of threads is a sequence of operations.
\<close>

section \<open>Data\<close>

text \<open>\<open>AckStatus\<close> has 32 bits: a value read from a file may be none of the enumerators.\<close>

datatype BlockAck = AckPending | AckSent | AckAcknowledged | AckFailed | AckSkipped | AckUnnamed u32

record BlockState =
  bs_BlockIndex :: u64
  bs_Offset :: u64
  bs_Hash :: "byte list"
  bs_VersionId :: u64
  bs_Ack :: BlockAck
  bs_Changed :: bool

definition NeedsUpload :: "BlockState \<Rightarrow> bool" where
  "NeedsUpload b \<longleftrightarrow> bs_Changed b \<and> bs_Ack b \<noteq> AckAcknowledged"

record FILETIME =
  dwLowDateTime :: u32
  dwHighDateTime :: u32

definition filetime64 :: "FILETIME \<Rightarrow> u64" where
  "filetime64 ft = push_bit 32 (ucast (dwHighDateTime ft)) OR ucast (dwLowDateTime ft)"

record VersionRecord =
  vr_VersionId :: u64
  vr_DevNo :: int
  vr_VersionType :: wstring
  vr_SnapshotTime :: FILETIME
  vr_TotalBlocks :: u64
  vr_ChangedBlocks :: u64
  vr_TotalSize :: u64
  vr_AckedBlocks :: u64
  vr_CreateTimestamp :: u64

record BlockStateManager =
  m_initialized :: bool
  m_dirty :: bool
  m_devNo :: int
  m_totalBlocks :: u64
  m_stateDir :: wstring
  m_blocks :: "BlockState list"
  m_versions :: "(u64 \<times> VersionRecord) list"
  m_nextVersionId :: u64

definition BlockStateManager_new :: BlockStateManager where
  "BlockStateManager_new = \<lparr> m_initialized = False, m_dirty = False, m_devNo = -1, m_totalBlocks = 0,
     m_stateDir = [], m_blocks = [], m_versions = [], m_nextVersionId = 0 \<rparr>"

section \<open>Operations\<close>

text \<open>\<open>now\<close> is the value of \<open>GetSystemTimeAsFileTime\<close>.\<close>

definition CreateVersion ::
  "FILETIME \<Rightarrow> wstring \<Rightarrow> FILETIME \<Rightarrow> u64 \<Rightarrow> u64 \<Rightarrow> BlockStateManager \<Rightarrow> BlockStateManager \<times> VersionRecord" where
  "CreateVersion now type snapshotTime totalBlocks totalSize m =
     (let ver = \<lparr> vr_VersionId = m_nextVersionId m, vr_DevNo = m_devNo m, vr_VersionType = type,
                  vr_SnapshotTime = snapshotTime, vr_TotalBlocks = totalBlocks, vr_ChangedBlocks = 0,
                  vr_TotalSize = totalSize, vr_AckedBlocks = 0, vr_CreateTimestamp = filetime64 now \<rparr>
      in (m\<lparr> m_nextVersionId := m_nextVersionId m + 1,
             m_versions := omap_put (vr_VersionId ver) ver (m_versions m), m_dirty := True \<rparr>, ver))"

text \<open>\<open>it->second.f = ...\<close> for the iterator of a key that is present.\<close>

definition set_version :: "u64 \<Rightarrow> (VersionRecord \<Rightarrow> VersionRecord) \<Rightarrow> BlockStateManager \<Rightarrow> BlockStateManager" where
  "set_version vid f m =
     (case map_of (m_versions m) vid of
        None \<Rightarrow> m
      | Some v \<Rightarrow> m\<lparr> m_versions := omap_put vid (f v) (m_versions m) \<rparr>)"

definition fresh_block :: "u64 \<Rightarrow> byte list \<Rightarrow> nat \<Rightarrow> BlockState" where
  "fresh_block versionId hash i =
     \<lparr> bs_BlockIndex = of_nat i, bs_Offset = of_nat i * BLOCK_SIZE, bs_Hash = hash, bs_VersionId = versionId,
       bs_Ack = AckPending, bs_Changed = True \<rparr>"

definition InitFullBlocks :: "u64 \<Rightarrow> HashManifest \<Rightarrow> BlockStateManager \<Rightarrow> BlockStateManager \<times> bool" where
  "InitFullBlocks versionId manifest m =
     (case map_of (m_versions m) versionId of
        None \<Rightarrow> (m, False)
      | Some v \<Rightarrow>
          let totalBlocks = hm_TotalBlocks manifest;
              hash = (\<lambda>i. if i < length (hm_Entries manifest) then he_Hash (hm_Entries manifest ! i)
                          else replicate 32 0);
              m1 = m\<lparr> m_totalBlocks := totalBlocks, m_blocks := map (\<lambda>i. fresh_block versionId (hash i) i) [0..<unat totalBlocks] \<rparr>
          in ((set_version versionId (\<lambda>v. v\<lparr> vr_ChangedBlocks := totalBlocks \<rparr>) m1)\<lparr> m_dirty := True \<rparr>, True))"

definition InitFullBlocksEmpty :: "u64 \<Rightarrow> u64 \<Rightarrow> BlockStateManager \<Rightarrow> BlockStateManager \<times> bool" where
  "InitFullBlocksEmpty versionId totalBlocks m =
     (case map_of (m_versions m) versionId of
        None \<Rightarrow> (m, False)
      | Some v \<Rightarrow>
          let m1 = m\<lparr> m_totalBlocks := totalBlocks, m_blocks := map (fresh_block versionId (replicate 32 0)) [0..<unat totalBlocks] \<rparr>
          in ((set_version versionId (\<lambda>v. v\<lparr> vr_ChangedBlocks := totalBlocks \<rparr>) m1)\<lparr> m_dirty := True \<rparr>, True))"

definition SetBlockHash :: "u64 \<Rightarrow> byte list \<Rightarrow> BlockStateManager \<Rightarrow> BlockStateManager \<times> bool" where
  "SetBlockHash blockIndex hash m =
     (let i = unat blockIndex in
      if length (m_blocks m) \<le> i then (m, False)
      else (m\<lparr> m_blocks := (m_blocks m)[i := (m_blocks m ! i)\<lparr> bs_Hash := take 32 hash \<rparr>], m_dirty := True \<rparr>, True))"

text \<open>The loop of \<open>UpdateIncrementalBlocks\<close>, with the count of blocks it changed.\<close>

fun mark_changed ::
  "u64 \<Rightarrow> (u64 \<times> BlockHashEntry) list \<Rightarrow> BlockState list \<Rightarrow> u64 \<Rightarrow> BlockState list \<times> u64" where
  "mark_changed versionId [] blocks changedCount = (blocks, changedCount)"
| "mark_changed versionId ((idx, e) # rest) blocks changedCount =
     (if length blocks \<le> unat idx then mark_changed versionId rest blocks changedCount
      else mark_changed versionId rest
             (blocks[unat idx := (blocks ! unat idx)\<lparr> bs_VersionId := versionId, bs_Hash := he_Hash e,
                                                     bs_Ack := AckPending, bs_Changed := True \<rparr>])
             (changedCount + 1))"

definition UpdateIncrementalBlocks ::
  "u64 \<Rightarrow> u64 list \<Rightarrow> BlockHashEntry list \<Rightarrow> BlockStateManager \<Rightarrow> BlockStateManager \<times> bool" where
  "UpdateIncrementalBlocks versionId changedIndexes hashes m =
     (if length changedIndexes \<noteq> length hashes then (m, False)
      else if m_blocks m = [] then (m, False)
      else case map_of (m_versions m) versionId of
          None \<Rightarrow> (m, False)
        | Some v \<Rightarrow>
            let cleared = map (\<lambda>b. b\<lparr> bs_Changed := False, bs_Ack := AckSkipped \<rparr>) (m_blocks m)
            in (case mark_changed versionId (zip changedIndexes hashes) cleared 0 of (blocks, changedCount) \<Rightarrow>
                  ((set_version versionId (\<lambda>v. v\<lparr> vr_ChangedBlocks := changedCount, vr_AckedBlocks := 0 \<rparr>)
                      (m\<lparr> m_blocks := blocks \<rparr>))\<lparr> m_dirty := True \<rparr>, True)))"

text \<open>The body shared by the acknowledgement operations, for an index in range.\<close>

definition ack_block :: "BlockAck \<Rightarrow> nat \<Rightarrow> BlockStateManager \<Rightarrow> BlockStateManager" where
  "ack_block status i m =
     (let b = m_blocks m ! i;
          m1 = m\<lparr> m_blocks := (m_blocks m)[i := b\<lparr> bs_Ack := status \<rparr>] \<rparr>
      in if bs_Ack b \<noteq> AckAcknowledged \<and> status = AckAcknowledged
         then set_version (bs_VersionId b) (\<lambda>v. v\<lparr> vr_AckedBlocks := vr_AckedBlocks v + 1 \<rparr>) m1
         else m1)"

definition SetBlockAck :: "u64 \<Rightarrow> BlockAck \<Rightarrow> BlockStateManager \<Rightarrow> BlockStateManager \<times> bool" where
  "SetBlockAck blockIndex status m =
     (if length (m_blocks m) \<le> unat blockIndex then (m, False)
      else ((ack_block status (unat blockIndex) m)\<lparr> m_dirty := True \<rparr>, True))"

text \<open>\<open>startBlock + count\<close> is computed modulo 2^64 before the minimum is taken.\<close>

definition SetBlockAckRange :: "u64 \<Rightarrow> u64 \<Rightarrow> BlockAck \<Rightarrow> BlockStateManager \<Rightarrow> BlockStateManager \<times> bool" where
  "SetBlockAckRange startBlock count status m =
     (let e = min (unat (startBlock + count)) (length (m_blocks m))
      in ((fold (ack_block status) [unat startBlock..<e] m)\<lparr> m_dirty := True \<rparr>, True))"

definition SetBlockAckList :: "u64 list \<Rightarrow> BlockAck \<Rightarrow> BlockStateManager \<Rightarrow> BlockStateManager \<times> bool" where
  "SetBlockAckList blockIndexes status m =
     (fold (\<lambda>idx m. fst (SetBlockAck idx status m)) blockIndexes m, True)"

section \<open>Queries\<close>

definition BlockState_zero :: BlockState where
  "BlockState_zero = \<lparr> bs_BlockIndex = 0, bs_Offset = 0, bs_Hash = replicate 32 0, bs_VersionId = 0,
     bs_Ack = AckPending, bs_Changed = False \<rparr>"

definition GetBlockState :: "u64 \<Rightarrow> BlockStateManager \<Rightarrow> BlockState" where
  "GetBlockState blockIndex m =
     (if unat blockIndex < length (m_blocks m) then m_blocks m ! unat blockIndex else BlockState_zero)"

definition GetBlocksByAck :: "BlockAck \<Rightarrow> BlockStateManager \<Rightarrow> BlockState list" where
  "GetBlocksByAck status m = filter (\<lambda>b. bs_Ack b = status) (m_blocks m)"

definition GetPendingBlocks :: "BlockStateManager \<Rightarrow> BlockState list" where
  "GetPendingBlocks m = filter NeedsUpload (m_blocks m)"

definition settled :: "BlockState \<Rightarrow> bool" where
  "settled b \<longleftrightarrow> bs_Ack b = AckAcknowledged \<or> bs_Ack b = AckSkipped"

fun last_acked :: "BlockState list \<Rightarrow> nat \<Rightarrow> nat \<Rightarrow> nat" where
  "last_acked [] i lastAcked = lastAcked"
| "last_acked (b # bs) i lastAcked = (if settled b then last_acked bs (i + 1) (i + 1) else lastAcked)"

definition GetLastAcknowledgedBlock :: "BlockStateManager \<Rightarrow> nat" where
  "GetLastAcknowledgedBlock m = last_acked (m_blocks m) 0 0"

definition GetVersionHistory :: "BlockStateManager \<Rightarrow> VersionRecord list" where
  "GetVersionHistory m = sort_key vr_VersionId (map snd (m_versions m))"

definition VersionRecord_zero :: VersionRecord where
  "VersionRecord_zero = \<lparr> vr_VersionId = 0, vr_DevNo = 0, vr_VersionType = [],
     vr_SnapshotTime = \<lparr> dwLowDateTime = 0, dwHighDateTime = 0 \<rparr>, vr_TotalBlocks = 0, vr_ChangedBlocks = 0,
     vr_TotalSize = 0, vr_AckedBlocks = 0, vr_CreateTimestamp = 0 \<rparr>"

definition GetVersion :: "u64 \<Rightarrow> BlockStateManager \<Rightarrow> VersionRecord" where
  "GetVersion versionId m =
     (case map_of (m_versions m) versionId of None \<Rightarrow> VersionRecord_zero | Some v \<Rightarrow> v)"

definition GetBlockHistory :: "u64 \<Rightarrow> BlockStateManager \<Rightarrow> BlockState list" where
  "GetBlockHistory blockIndex m =
     (if length (m_blocks m) \<le> unat blockIndex then [] else [m_blocks m ! unat blockIndex])"

section \<open>Invariant\<close>

definition blocks_wf :: "BlockState list \<Rightarrow> bool" where
  "blocks_wf bs \<longleftrightarrow> (\<forall>i < length bs. bs_BlockIndex (bs ! i) = of_nat i
     \<and> bs_Offset (bs ! i) = of_nat i * BLOCK_SIZE \<and> length (bs_Hash (bs ! i)) = 32)"

definition versions_wf :: "u64 \<Rightarrow> (u64 \<times> VersionRecord) list \<Rightarrow> bool" where
  "versions_wf next vs \<longleftrightarrow> omap_wf vs \<and> (\<forall>(k, v) \<in> set vs. vr_VersionId v = k \<and> k < next)"

text \<open>
  The table is indexed by block number, records carry their byte offset and a full hash,
  version records carry their key, keys are below the next identifier, and every block
  belongs to a recorded version.
\<close>

definition bsm_wf :: "BlockStateManager \<Rightarrow> bool" where
  "bsm_wf m \<longleftrightarrow> blocks_wf (m_blocks m) \<and> versions_wf (m_nextVersionId m) (m_versions m)
     \<and> (\<forall>b \<in> set (m_blocks m). map_of (m_versions m) (bs_VersionId b) \<noteq> None)"

lemma blocks_wf_update:
  assumes "blocks_wf bs" and "bs_BlockIndex b = bs_BlockIndex (bs ! i)" and "bs_Offset b = bs_Offset (bs ! i)"
    and "length (bs_Hash b) = 32"
  shows "blocks_wf (bs[i := b])"
  using assms by (cases "i < length bs") (auto simp: blocks_wf_def nth_list_update)

lemma blocks_wf_fresh:
  "(\<And>i. length (h i) = 32) \<Longrightarrow> blocks_wf (map (\<lambda>i. fresh_block vid (h i) i) [0..<n])"
  by (auto simp: blocks_wf_def fresh_block_def)

lemma set_version_fields [simp]:
  "m_blocks (set_version vid f m) = m_blocks m" "m_nextVersionId (set_version vid f m) = m_nextVersionId m"
  "m_totalBlocks (set_version vid f m) = m_totalBlocks m"
  by (simp_all add: set_version_def split: option.split)

lemma versions_wf_put:
  "versions_wf n vs \<Longrightarrow> vr_VersionId v = k \<Longrightarrow> k < n \<Longrightarrow> versions_wf n (omap_put k v vs)"
  using set_omap_put [of k v vs] by (fastforce simp: versions_wf_def omap_put_wf)

lemma versions_wf_key: "versions_wf n vs \<Longrightarrow> map_of vs k = Some v \<Longrightarrow> vr_VersionId v = k \<and> k < n"
  by (auto simp: versions_wf_def dest!: map_of_SomeD)

lemma set_version_lookup:
  assumes "versions_wf n (m_versions m)"
  shows "map_of (m_versions (set_version vid f m)) =
    (case map_of (m_versions m) vid of None \<Rightarrow> map_of (m_versions m)
     | Some v \<Rightarrow> (map_of (m_versions m))(vid \<mapsto> f v))"
  using assms by (auto simp: set_version_def versions_wf_def om.lookup_put split: option.split)

lemma set_version_versions_wf:
  assumes "versions_wf n (m_versions m)" and "\<And>v. vr_VersionId (f v) = vr_VersionId v"
  shows "versions_wf n (m_versions (set_version vid f m))"
  using assms versions_wf_key [OF assms(1)]
  by (auto simp: set_version_def split: option.split intro!: versions_wf_put)

lemma bsm_wf_set_version:
  assumes "bsm_wf m" and "\<And>v. vr_VersionId (f v) = vr_VersionId v"
  shows "bsm_wf (set_version vid f m)"
proof -
  have v: "versions_wf (m_nextVersionId m) (m_versions m)" using assms(1) by (simp add: bsm_wf_def)
  show ?thesis
    using assms set_version_versions_wf [OF v assms(2)] set_version_lookup [OF v, of vid f]
    by (auto simp: bsm_wf_def split: option.splits)
qed

lemma bsm_wf_dirty [simp]: "bsm_wf (m\<lparr> m_dirty := d \<rparr>) \<longleftrightarrow> bsm_wf m"
  by (simp add: bsm_wf_def)

lemma bsm_wf_blocks:
  assumes "bsm_wf m" and "blocks_wf bs" and "\<And>b. b \<in> set bs \<Longrightarrow> map_of (m_versions m) (bs_VersionId b) \<noteq> None"
  shows "bsm_wf (m\<lparr> m_blocks := bs \<rparr>)"
  using assms by (simp add: bsm_wf_def)

lemma bsm_wf_set_block:
  assumes "bsm_wf m" and "i < length (m_blocks m)" and "bs_BlockIndex b = bs_BlockIndex (m_blocks m ! i)"
    and "bs_Offset b = bs_Offset (m_blocks m ! i)" and "length (bs_Hash b) = 32"
    and "map_of (m_versions m) (bs_VersionId b) \<noteq> None"
  shows "bsm_wf (m\<lparr> m_blocks := (m_blocks m)[i := b] \<rparr>)"
proof (rule bsm_wf_blocks [OF assms(1)])
  show "blocks_wf ((m_blocks m)[i := b])"
    using assms by (intro blocks_wf_update) (auto simp: bsm_wf_def)
  show "map_of (m_versions m) (bs_VersionId b') \<noteq> None" if "b' \<in> set ((m_blocks m)[i := b])" for b'
    using assms that set_update_subset_insert [of "m_blocks m" i b] by (auto simp: bsm_wf_def)
qed

lemma bsm_wf_block:
  assumes "bsm_wf m" and "i < length (m_blocks m)"
  shows "bs_BlockIndex (m_blocks m ! i) = of_nat i" "bs_Offset (m_blocks m ! i) = of_nat i * BLOCK_SIZE"
    "length (bs_Hash (m_blocks m ! i)) = 32" "map_of (m_versions m) (bs_VersionId (m_blocks m ! i)) \<noteq> None"
  using assms by (auto simp: bsm_wf_def blocks_wf_def)

lemma bsm_wf_new: "bsm_wf BlockStateManager_new"
  by (simp add: bsm_wf_def BlockStateManager_new_def blocks_wf_def versions_wf_def omap_wf_def)

lemma CreateVersion_wf:
  assumes "bsm_wf m" and "unat (m_nextVersionId m) < 2 ^ 64 - 1" and "CreateVersion now ty st n sz m = (m', v)"
  shows "bsm_wf m' \<and> map_of (m_versions m) (m_nextVersionId m) = None"
proof -
  have v: "versions_wf (m_nextVersionId m) (m_versions m)" using assms(1) by (simp add: bsm_wf_def)
  have lt: "m_nextVersionId m < m_nextVersionId m + 1"
    using assms(2) by (simp add: word_less_nat_alt unat_word_ariths)
  have v': "versions_wf (m_nextVersionId m + 1) (m_versions m)"
    using v lt by (force simp: versions_wf_def)
  have "bsm_wf m'"
    using assms(1,3) v v' lt versions_wf_put [OF v', of v "m_nextVersionId m"]
    by (auto simp: bsm_wf_def CreateVersion_def Let_def versions_wf_def om.lookup_put)
  moreover have "map_of (m_versions m) (m_nextVersionId m) = None"
    using versions_wf_key [OF v] by (cases "map_of (m_versions m) (m_nextVersionId m)") fastforce+
  ultimately show ?thesis by simp
qed

lemma InitFullBlocks_wf:
  assumes "bsm_wf m" and "\<forall>e \<in> set (hm_Entries mf). length (he_Hash e) = 32" and "InitFullBlocks vid mf m = (m', ok)"
  shows "bsm_wf m'"
  using assms
  by (auto simp: InitFullBlocks_def Let_def split: option.splits intro!: bsm_wf_set_version blocks_wf_fresh)
    (auto simp: bsm_wf_def fresh_block_def intro!: blocks_wf_fresh [unfolded fresh_block_def])

lemma InitFullBlocksEmpty_wf:
  assumes "bsm_wf m" and "InitFullBlocksEmpty vid n m = (m', ok)"
  shows "bsm_wf m'"
  using assms blocks_wf_fresh [of "\<lambda>_. replicate 32 0" vid "unat n"]
  by (auto simp: InitFullBlocksEmpty_def Let_def split: option.splits intro!: bsm_wf_set_version)
    (auto simp: bsm_wf_def fresh_block_def)

lemma SetBlockHash_wf:
  assumes "bsm_wf m" and "32 \<le> length h" and "SetBlockHash i h m = (m', ok)"
  shows "bsm_wf m'"
proof (cases "length (m_blocks m) \<le> unat i")
  case False
  then show ?thesis
    using assms bsm_wf_set_block [OF assms(1), of "unat i" "(m_blocks m ! unat i)\<lparr> bs_Hash := take 32 h \<rparr>"]
      bsm_wf_block [OF assms(1), of "unat i"]
    by (auto simp: SetBlockHash_def Let_def bsm_wf_def)
qed (use assms in \<open>auto simp: SetBlockHash_def\<close>)

lemma ack_block_wf:
  assumes "bsm_wf m" and "i < length (m_blocks m)"
  shows "bsm_wf (ack_block st i m)"
  using bsm_wf_set_block [OF assms, of "(m_blocks m ! i)\<lparr> bs_Ack := st \<rparr>"] bsm_wf_block [OF assms]
  by (auto simp: ack_block_def Let_def intro!: bsm_wf_set_version)

lemma length_ack_block [simp]: "length (m_blocks (ack_block st i m)) = length (m_blocks m)"
  by (simp add: ack_block_def Let_def)

lemma SetBlockAck_wf: "bsm_wf m \<Longrightarrow> bsm_wf (fst (SetBlockAck i st m))"
  by (simp add: SetBlockAck_def ack_block_wf)

lemma fold_ack_wf:
  "bsm_wf m \<Longrightarrow> \<forall>i \<in> set is. i < length (m_blocks m) \<Longrightarrow> bsm_wf (fold (ack_block st) is m)"
  by (induction "is" arbitrary: m) (auto simp: ack_block_wf)

lemma SetBlockAckRange_wf: "bsm_wf m \<Longrightarrow> bsm_wf (fst (SetBlockAckRange s c st m))"
  by (auto simp: SetBlockAckRange_def Let_def intro!: fold_ack_wf)

lemma SetBlockAckList_wf: "bsm_wf m \<Longrightarrow> bsm_wf (fst (SetBlockAckList is st m))"
  unfolding SetBlockAckList_def fst_conv by (induction "is" arbitrary: m) (auto simp: SetBlockAck_wf)

section \<open>Incremental update\<close>

text \<open>What the loop leaves at an index: the last entry given for it.\<close>

definition last_entry :: "(u64 \<times> BlockHashEntry) list \<Rightarrow> nat \<Rightarrow> BlockHashEntry option" where
  "last_entry ies k = map_of (rev (map (\<lambda>(i, e). (unat i, e)) ies)) k"

lemma last_entry_Nil [simp]: "last_entry [] k = None"
  by (simp add: last_entry_def)

lemma last_entry_Cons:
  "last_entry ((i, e) # ies) k = (case last_entry ies k of Some e' \<Rightarrow> Some e' | None \<Rightarrow> if k = unat i then Some e else None)"
  by (auto simp: last_entry_def map_add_def split: option.split)

lemma last_entry_None_iff: "last_entry ies k = None \<longleftrightarrow> k \<notin> unat ` fst ` set ies"
  by (induction ies) (auto simp: last_entry_Cons split: option.splits)

definition pending_with :: "u64 \<Rightarrow> BlockHashEntry \<Rightarrow> BlockState \<Rightarrow> BlockState" where
  "pending_with vid e b = b\<lparr> bs_VersionId := vid, bs_Hash := he_Hash e, bs_Ack := AckPending, bs_Changed := True \<rparr>"

lemma pending_with_twice [simp]: "pending_with vid e (pending_with vid e' b) = pending_with vid e b"
  by (simp add: pending_with_def)

lemma mark_changed_spec:
  assumes "mark_changed vid ies bs n = (bs', n')"
  shows "length bs' = length bs \<and> n' = n + of_nat (length (filter (\<lambda>(i, e). unat i < length bs) ies))
    \<and> (\<forall>k < length bs. bs' ! k = (case last_entry ies k of Some e \<Rightarrow> pending_with vid e (bs ! k) | None \<Rightarrow> bs ! k))"
  using assms
proof (induction ies arbitrary: bs n)
  case (Cons ie ies)
  obtain i e where ie: "ie = (i, e)" by (cases ie)
  show ?case
  proof (cases "unat i < length bs")
    case True
    define bs1 where "bs1 = bs[unat i := pending_with vid e (bs ! unat i)]"
    have "mark_changed vid ies bs1 (n + 1) = (bs', n')"
      using Cons.prems True by (simp add: ie bs1_def pending_with_def)
    from Cons.IH [OF this] show ?thesis using True
      by (auto simp: ie bs1_def last_entry_Cons nth_list_update split: option.split)
  next
    case False
    then show ?thesis using Cons by (auto simp: ie last_entry_Cons split: option.split)
  qed
qed simp

lemma UpdateIncremental_True:
  assumes "UpdateIncrementalBlocks vid idxs es m = (m', True)"
  obtains v bs n where "map_of (m_versions m) vid = Some v" "length idxs = length es" "m_blocks m \<noteq> []"
    "mark_changed vid (zip idxs es) (map (\<lambda>b. b\<lparr> bs_Changed := False, bs_Ack := AckSkipped \<rparr>) (m_blocks m)) 0 = (bs, n)"
    "m' = (set_version vid (\<lambda>v. v\<lparr> vr_ChangedBlocks := n, vr_AckedBlocks := 0 \<rparr>) (m\<lparr> m_blocks := bs \<rparr>))\<lparr> m_dirty := True \<rparr>"
  using assms by (auto simp: UpdateIncrementalBlocks_def Let_def split: if_splits option.splits prod.splits)

lemma UpdateIncremental_nth:
  assumes "UpdateIncrementalBlocks vid idxs es m = (m', True)"
  shows "length (m_blocks m') = length (m_blocks m)"
    and "\<And>k. k < length (m_blocks m) \<Longrightarrow> m_blocks m' ! k =
      (case last_entry (zip idxs es) k of
         Some e \<Rightarrow> pending_with vid e ((m_blocks m ! k)\<lparr> bs_Changed := False, bs_Ack := AckSkipped \<rparr>)
       | None \<Rightarrow> (m_blocks m ! k)\<lparr> bs_Changed := False, bs_Ack := AckSkipped \<rparr>)"
  using assms by (auto elim!: UpdateIncremental_True dest!: mark_changed_spec split: option.split)

lemma UpdateIncremental_False:
  "UpdateIncrementalBlocks vid idxs es m = (m', False) \<Longrightarrow> m' = m"
  by (auto simp: UpdateIncrementalBlocks_def Let_def split: if_splits option.splits prod.splits)

lemma UpdateIncrementalBlocks_wf:
  assumes "bsm_wf m" and "\<forall>e \<in> set es. length (he_Hash e) = 32" and "UpdateIncrementalBlocks vid idxs es m = (m', ok)"
  shows "bsm_wf m'"
proof (cases ok)
  case True
  then obtain v bs n where v: "map_of (m_versions m) vid = Some v"
    and mc: "mark_changed vid (zip idxs es) (map (\<lambda>b. b\<lparr> bs_Changed := False, bs_Ack := AckSkipped \<rparr>) (m_blocks m)) 0 = (bs, n)"
    and m': "m' = (set_version vid (\<lambda>v. v\<lparr> vr_ChangedBlocks := n, vr_AckedBlocks := 0 \<rparr>) (m\<lparr> m_blocks := bs \<rparr>))\<lparr> m_dirty := True \<rparr>"
    using assms(3) by (auto elim: UpdateIncremental_True)
  from mark_changed_spec [OF mc] have len: "length bs = length (m_blocks m)"
    and nth: "\<And>k. k < length (m_blocks m) \<Longrightarrow> bs ! k = (case last_entry (zip idxs es) k of
         Some e \<Rightarrow> pending_with vid e ((m_blocks m ! k)\<lparr> bs_Changed := False, bs_Ack := AckSkipped \<rparr>)
       | None \<Rightarrow> (m_blocks m ! k)\<lparr> bs_Changed := False, bs_Ack := AckSkipped \<rparr>)"
    by (auto split: option.split)
  have entry: "length (he_Hash e) = 32" if "last_entry (zip idxs es) k = Some e" for k e
    using that assms(2) by (auto simp: last_entry_def dest!: map_of_SomeD set_zip_rightD)
  have ok: "bs_BlockIndex (bs ! k) = of_nat k \<and> bs_Offset (bs ! k) = of_nat k * BLOCK_SIZE
      \<and> length (bs_Hash (bs ! k)) = 32 \<and> map_of (m_versions m) (bs_VersionId (bs ! k)) \<noteq> None"
    if "k < length (m_blocks m)" for k
    using bsm_wf_block [OF assms(1) that] nth [OF that] entry [of k] v
    by (auto simp: pending_with_def split: option.splits)
  have "bsm_wf (m\<lparr> m_blocks := bs \<rparr>)"
  proof (rule bsm_wf_blocks [OF assms(1)])
    show "blocks_wf bs" using ok len by (simp add: blocks_wf_def)
    show "map_of (m_versions m) (bs_VersionId b) \<noteq> None" if "b \<in> set bs" for b
      using that ok len by (metis in_set_conv_nth)
  qed
  then show ?thesis unfolding m' by (simp add: bsm_wf_set_version)
next
  case False
  then show ?thesis using assms UpdateIncremental_False [of vid idxs es m m'] by auto
qed

section \<open>Reachable states\<close>

text \<open>One call of a public operation, with the arguments the clients pass.\<close>

inductive bsm_step :: "BlockStateManager \<Rightarrow> BlockStateManager \<Rightarrow> bool" where
  create: "unat (m_nextVersionId m) < 2 ^ 64 - 1 \<Longrightarrow> bsm_step m (fst (CreateVersion now ty st n sz m))"
| full: "\<forall>e \<in> set (hm_Entries mf). length (he_Hash e) = 32 \<Longrightarrow> bsm_step m (fst (InitFullBlocks vid mf m))"
| full_empty: "bsm_step m (fst (InitFullBlocksEmpty vid n m))"
| set_hash: "32 \<le> length h \<Longrightarrow> bsm_step m (fst (SetBlockHash i h m))"
| incremental: "\<forall>e \<in> set es. length (he_Hash e) = 32 \<Longrightarrow> bsm_step m (fst (UpdateIncrementalBlocks vid idxs es m))"
| ack: "bsm_step m (fst (SetBlockAck i s m))"
| ack_range: "bsm_step m (fst (SetBlockAckRange i n s m))"
| ack_list: "bsm_step m (fst (SetBlockAckList ids s m))"

inductive_cases bsm_stepE: "bsm_step m m'"

lemma bsm_step_wf: "bsm_step m m' \<Longrightarrow> bsm_wf m \<Longrightarrow> bsm_wf m'"
  by (induction rule: bsm_step.induct)
    (metis CreateVersion_wf InitFullBlocks_wf InitFullBlocksEmpty_wf SetBlockHash_wf UpdateIncrementalBlocks_wf
      SetBlockAck_wf SetBlockAckRange_wf SetBlockAckList_wf prod.collapse)+

interpretation bsm: state_machine bsm_step "(=) BlockStateManager_new" bsm_wf
  by unfold_locales (auto simp: bsm_wf_new bsm_step_wf)

section \<open>Acknowledgement accounting\<close>

definition acked :: "BlockStateManager \<Rightarrow> nat set" where
  "acked m = {i. i < length (m_blocks m) \<and> bs_Ack (m_blocks m ! i) = AckAcknowledged}"

lemma finite_acked [simp]: "finite (acked m)"
  by (simp add: acked_def)

text \<open>A full backup under version \<open>vid\<close>: all blocks are its own, and its counter is exact.\<close>

definition full_run :: "u64 \<Rightarrow> BlockStateManager \<Rightarrow> bool" where
  "full_run vid m \<longleftrightarrow> bsm_wf m \<and> (\<forall>b \<in> set (m_blocks m). bs_VersionId b = vid \<and> bs_Changed b)
     \<and> (\<exists>v. map_of (m_versions m) vid = Some v \<and> vr_AckedBlocks v = of_nat (card (acked m)))"

lemma ack_block_nth:
  "k < length (m_blocks m) \<Longrightarrow> m_blocks (ack_block st i m) ! k =
     (if k = i then (m_blocks m ! i)\<lparr> bs_Ack := st \<rparr> else m_blocks m ! k)"
  by (auto simp: ack_block_def Let_def nth_list_update)

lemma acked_ack_block:
  "i < length (m_blocks m) \<Longrightarrow> acked (ack_block AckAcknowledged i m) = insert i (acked m)"
  by (auto simp: acked_def ack_block_nth split: if_splits)

lemma full_run_ack:
  assumes "full_run vid m"
  shows "full_run vid (fst (SetBlockAck idx AckAcknowledged m))
    \<and> acked (fst (SetBlockAck idx AckAcknowledged m)) = acked m \<union> ({unat idx} \<inter> {..<length (m_blocks m)})
    \<and> length (m_blocks (fst (SetBlockAck idx AckAcknowledged m))) = length (m_blocks m)"
proof (cases "unat idx < length (m_blocks m)")
  case True
  define i where "i = unat idx"
  define m1 where "m1 = ack_block AckAcknowledged i m"
  have i: "i < length (m_blocks m)" using True by (simp add: i_def)
  have wf: "bsm_wf m" and own: "\<forall>b \<in> set (m_blocks m). bs_VersionId b = vid \<and> bs_Changed b"
    using assms by (simp_all add: full_run_def)
  obtain v where v: "map_of (m_versions m) vid = Some v" "vr_AckedBlocks v = of_nat (card (acked m))"
    using assms by (auto simp: full_run_def)
  have vw: "versions_wf (m_nextVersionId m) (m_versions m)" using wf by (simp add: bsm_wf_def)
  have vid: "bs_VersionId (m_blocks m ! i) = vid" using own i by simp
  have look: "map_of (m_versions m1) vid = Some (if i \<in> acked m then v else v\<lparr> vr_AckedBlocks := vr_AckedBlocks v + 1 \<rparr>)"
    using i vid v(1) set_version_lookup [of "m_nextVersionId m" "m\<lparr> m_blocks := bs \<rparr>" for bs] vw
    by (auto simp: m1_def ack_block_def Let_def acked_def)
  have ac: "acked m1 = insert i (acked m)" using acked_ack_block [OF i] by (simp add: m1_def)
  have "\<exists>v. map_of (m_versions m1) vid = Some v \<and> vr_AckedBlocks v = of_nat (card (acked m1))"
    using look v(2) ac by (auto simp: insert_absorb)
  moreover have "bsm_wf m1" using ack_block_wf [OF wf i] by (simp add: m1_def)
  moreover have "\<forall>b \<in> set (m_blocks m1). bs_VersionId b = vid \<and> bs_Changed b"
  proof
    fix b assume "b \<in> set (m_blocks m1)"
    then obtain k where "k < length (m_blocks m)" "b = m_blocks m1 ! k" by (auto simp: m1_def in_set_conv_nth)
    moreover have "bs_VersionId (m_blocks m ! k) = vid \<and> bs_Changed (m_blocks m ! k)" if "k < length (m_blocks m)" for k
      using own that by simp
    ultimately show "bs_VersionId b = vid \<and> bs_Changed b" using i by (simp add: m1_def ack_block_nth)
  qed
  ultimately have "full_run vid m1" by (simp add: full_run_def)
  moreover have "fst (SetBlockAck idx AckAcknowledged m) = m1\<lparr> m_dirty := True \<rparr>"
    using True by (simp add: SetBlockAck_def m1_def i_def)
  ultimately show ?thesis using ac i by (simp add: full_run_def acked_def) (auto simp: i_def m1_def)
next
  case False
  then show ?thesis using assms by (auto simp: SetBlockAck_def)
qed

lemma full_run_ack_list:
  assumes "full_run vid m"
  shows "full_run vid (fst (SetBlockAckList idxs AckAcknowledged m))
    \<and> acked (fst (SetBlockAckList idxs AckAcknowledged m)) = acked m \<union> (unat ` set idxs \<inter> {..<length (m_blocks m)})
    \<and> length (m_blocks (fst (SetBlockAckList idxs AckAcknowledged m))) = length (m_blocks m)"
  using assms unfolding SetBlockAckList_def fst_conv
proof (induction idxs arbitrary: m)
  case (Cons idx idxs)
  from full_run_ack [OF Cons.prems, of idx] Cons.IH show ?case by fastforce
qed simp

lemma full_run_init:
  assumes "bsm_wf m" and "map_of (m_versions m) vid = Some v" and "vr_AckedBlocks v = 0"
    and "InitFullBlocksEmpty vid n m = (m', True)"
  shows "full_run vid m' \<and> acked m' = {} \<and> length (m_blocks m') = unat n"
proof -
  define m1 where "m1 = m\<lparr> m_totalBlocks := n, m_blocks := map (fresh_block vid (replicate 32 0)) [0..<unat n] \<rparr>"
  have m': "m' = (set_version vid (\<lambda>v. v\<lparr> vr_ChangedBlocks := n \<rparr>) m1)\<lparr> m_dirty := True \<rparr>"
    using assms(2,4) by (simp add: InitFullBlocksEmpty_def m1_def Let_def)
  have "acked m' = {}" by (auto simp: m' acked_def m1_def fresh_block_def)
  moreover have "map_of (m_versions m') vid = Some (v\<lparr> vr_ChangedBlocks := n \<rparr>)"
    using assms(1,2) set_version_lookup [of "m_nextVersionId m" m1 vid] by (simp add: m' m1_def bsm_wf_def)
  moreover have "bsm_wf m'" using InitFullBlocksEmpty_wf [OF assms(1,4)] .
  ultimately show ?thesis using assms(3) by (auto simp: full_run_def m' m1_def fresh_block_def)
qed

lemma length_takeWhile_iff:
  "length (takeWhile P xs) = k \<longleftrightarrow> k \<le> length xs \<and> list_all P (take k xs) \<and> (k = length xs \<or> \<not> P (xs ! k))"
proof (induction xs arbitrary: k)
  case (Cons x xs)
  then show ?case by (cases k) auto
qed auto

lemma last_acked_spec: "last_acked bs i i = i + length (takeWhile settled bs)"
  by (induction bs arbitrary: i) auto

section \<open>Properties\<close>



text \<open>
  Accounting of a full backup: after the table was pre-allocated for \<open>n\<close> blocks, any
  sequence of server acknowledgements, with repetitions and out-of-range numbers, leaves
  exactly the unacknowledged blocks pending, in order, and counts each acknowledged block once.
\<close>

lemma full_backup_accounting:
  assumes "bsm_wf m" and "map_of (m_versions m) vid = Some v" and "vr_AckedBlocks v = 0"
    and "InitFullBlocksEmpty vid n m = (m1, True)" and "SetBlockAckList idxs AckAcknowledged m1 = (m2, ok)"
  shows "map bs_BlockIndex (GetPendingBlocks m2) = map of_nat (filter (\<lambda>i. i \<notin> unat ` set idxs) [0..<unat n])
     \<and> vr_AckedBlocks (GetVersion vid m2) = of_nat (card (unat ` set idxs \<inter> {..<unat n}))"
proof -
  note init = full_run_init [OF assms(1-4)]
  from full_run_ack_list [of vid m1 idxs] init assms(5)
  have run: "full_run vid m2" and ac: "acked m2 = unat ` set idxs \<inter> {..<unat n}"
    and len: "length (m_blocks m2) = unat n" by auto
  have wf: "bsm_wf m2" using run by (simp add: full_run_def)
  have bl: "m_blocks m2 = map ((!) (m_blocks m2)) [0..<unat n]" using len by (simp add: map_nth [symmetric] flip: len)
  have need: "NeedsUpload (m_blocks m2 ! i) \<longleftrightarrow> i \<notin> unat ` set idxs" if "i < unat n" for i
    using run ac len that by (auto simp: NeedsUpload_def full_run_def acked_def)
  have "filter NeedsUpload (m_blocks m2) = map ((!) (m_blocks m2)) (filter (\<lambda>i. i \<notin> unat ` set idxs) [0..<unat n])"
    by (subst bl) (auto simp: filter_map comp_def need intro!: arg_cong [where f = "map ((!) (m_blocks m2))"] filter_cong)
  then have "map bs_BlockIndex (GetPendingBlocks m2) = map of_nat (filter (\<lambda>i. i \<notin> unat ` set idxs) [0..<unat n])"
    using bsm_wf_block(1) [OF wf] len by (simp add: GetPendingBlocks_def)
  then show ?thesis using run ac by (auto simp: full_run_def GetVersion_def)
qed

text \<open>A manager with one version (identifier 0) in its history.\<close>

definition demo_manager :: BlockStateManager where
  "demo_manager = fst (CreateVersion \<lparr> dwLowDateTime = 1, dwHighDateTime = 2 \<rparr> [70]
     \<lparr> dwLowDateTime = 0, dwHighDateTime = 0 \<rparr> 3 0 BlockStateManager_new)"

lemma demo_manager_versions: "\<exists>v. m_versions demo_manager = [(0, v)] \<and> vr_AckedBlocks v = 0"
  by (simp add: demo_manager_def CreateVersion_def Let_def BlockStateManager_new_def)

lemma demo_manager_wf: "bsm_wf demo_manager"
  unfolding demo_manager_def
  by (rule bsm_step_wf [OF bsm_step.create bsm_wf_new]) (simp add: BlockStateManager_new_def)

theorem full_backup_accounting_witness:
  "\<exists>m1 m2. InitFullBlocksEmpty 0 3 demo_manager = (m1, True) \<and> SetBlockAckList [1, 7, 1] AckAcknowledged m1 = (m2, True)
     \<and> map bs_BlockIndex (GetPendingBlocks m2) = [0, 2] \<and> vr_AckedBlocks (GetVersion 0 m2) = 1"
proof -
  obtain v where v: "m_versions demo_manager = [(0, v)]" "vr_AckedBlocks v = 0" using demo_manager_versions by blast
  obtain m1 where m1: "InitFullBlocksEmpty 0 3 demo_manager = (m1, True)"
    using v by (simp add: InitFullBlocksEmpty_def)
  obtain m2 where m2: "SetBlockAckList [1, 7, 1] AckAcknowledged m1 = (m2, True)" by (simp add: SetBlockAckList_def)
  have u: "[0..<3] = [0, 1, 2::nat]" by code_simp
  have "{1, 7, 1} \<inter> {..<3} = {1::nat}" by auto
  with full_backup_accounting [OF demo_manager_wf _ v(2) m1 m2] v(1) u
  have "map bs_BlockIndex (GetPendingBlocks m2) = [0, 2] \<and> vr_AckedBlocks (GetVersion 0 m2) = 1" by simp
  with m1 m2 show ?thesis by auto
qed

text \<open>
  An incremental update that is accepted makes exactly the listed blocks (those inside
  the table) pending under the new version with their new hash, the last one given where an
  index is repeated; every other block keeps hash and version and is marked skipped.
\<close>

lemma incremental_update_effect:
  assumes "UpdateIncrementalBlocks vid idxs es m = (m', True)" and "k < length (m_blocks m)"
  shows "length (m_blocks m') = length (m_blocks m)
     \<and> (NeedsUpload (m_blocks m' ! k) \<longleftrightarrow> k \<in> unat ` set idxs)
     \<and> (case last_entry (zip idxs es) k of
          Some e \<Rightarrow> bs_Hash (m_blocks m' ! k) = he_Hash e \<and> bs_VersionId (m_blocks m' ! k) = vid
                   \<and> bs_Ack (m_blocks m' ! k) = AckPending
        | None \<Rightarrow> bs_Hash (m_blocks m' ! k) = bs_Hash (m_blocks m ! k)
                   \<and> bs_VersionId (m_blocks m' ! k) = bs_VersionId (m_blocks m ! k)
                   \<and> bs_Ack (m_blocks m' ! k) = AckSkipped)"
proof -
  have "length idxs = length es" using assms(1) by (auto elim: UpdateIncremental_True)
  then have "fst ` set (zip idxs es) = set idxs" by (metis list.set_map map_fst_zip)
  then have listed: "k \<in> unat ` set idxs \<longleftrightarrow> last_entry (zip idxs es) k \<noteq> None"
    using last_entry_None_iff [of "zip idxs es" k] by simp
  show ?thesis
    using UpdateIncremental_nth [OF assms(1)] assms(2) listed
    by (auto simp: NeedsUpload_def pending_with_def split: option.split)
qed

theorem incremental_update_effect_witness:
  "\<exists>m1 m2. InitFullBlocksEmpty 0 3 demo_manager = (m1, True)
     \<and> UpdateIncrementalBlocks 0 [1, 9] [\<lparr> he_BlockIndex = 1, he_Offset = 0, he_Hash = replicate 32 5 \<rparr>,
          \<lparr> he_BlockIndex = 9, he_Offset = 0, he_Hash = replicate 32 6 \<rparr>] m1 = (m2, True)
     \<and> bs_Hash (m_blocks m2 ! 1) = replicate 32 5 \<and> NeedsUpload (m_blocks m2 ! 1) \<and> \<not> NeedsUpload (m_blocks m2 ! 2)"
proof -
  obtain v where v: "m_versions demo_manager = [(0, v)]" using demo_manager_versions by blast
  obtain m1 where m1: "InitFullBlocksEmpty 0 3 demo_manager = (m1, True)" "length (m_blocks m1) = 3"
    "map_of (m_versions m1) 0 \<noteq> None"
    using v by (simp add: InitFullBlocksEmpty_def Let_def set_version_def)
  define es where "es = [\<lparr> he_BlockIndex = 1, he_Offset = 0, he_Hash = replicate 32 5 \<rparr>,
          \<lparr> he_BlockIndex = 9, he_Offset = 0, he_Hash = replicate 32 (6::byte) \<rparr>]"
  obtain m2 where m2: "UpdateIncrementalBlocks 0 [1, 9] es m1 = (m2, True)"
    using m1(2,3) by (fastforce simp: UpdateIncrementalBlocks_def Let_def es_def split: prod.split)
  from incremental_update_effect [OF m2, of 1] incremental_update_effect [OF m2, of 2] m1(2)
  have "bs_Hash (m_blocks m2 ! 1) = replicate 32 5 \<and> NeedsUpload (m_blocks m2 ! 1) \<and> \<not> NeedsUpload (m_blocks m2 ! 2)"
    by (simp add: es_def last_entry_Cons)
  with m1 m2 show ?thesis unfolding es_def by blast
qed

text \<open>
  The resume point is the number of leading blocks that are settled (acknowledged or
  skipped): all blocks before it are settled and the block at it, if any, is not.
\<close>

lemma resume_point:
  "GetLastAcknowledgedBlock m = n \<longleftrightarrow> list_all settled (take n (m_blocks m))
     \<and> (if n < length (m_blocks m) then \<not> settled (m_blocks m ! n) else n = length (m_blocks m))"
proof -
  have "GetLastAcknowledgedBlock m = length (takeWhile settled (m_blocks m))"
    by (simp add: GetLastAcknowledgedBlock_def last_acked_spec)
  then show ?thesis by (auto simp: length_takeWhile_iff)
qed

text \<open>Acknowledging a range is acknowledging its blocks one by one, as long as the end of the range
  is a 64-bit number.\<close>

lemma ack_range_is_list:
  assumes "unat s + unat c < 2 ^ 64" and "length (m_blocks m) \<le> 2 ^ 64"
  shows "m_blocks (fst (SetBlockAckRange s c st m))
       = m_blocks (fst (SetBlockAckList (map of_nat [unat s..<min (unat s + unat c) (length (m_blocks m))]) st m))
     \<and> m_versions (fst (SetBlockAckRange s c st m))
       = m_versions (fst (SetBlockAckList (map of_nat [unat s..<min (unat s + unat c) (length (m_blocks m))]) st m))"
proof -
  define l where "l = length (m_blocks m)"
  define e where "e = min (unat s + unat c) l"
  have step: "fold (\<lambda>idx m. fst (SetBlockAck idx st m)) (map of_nat ks) m0 = (fold (ack_block st) ks m0)\<lparr> m_dirty := d \<rparr>"
    if "d = (m_dirty m0 \<or> ks \<noteq> [])" "\<forall>k \<in> set ks. k < l" "length (m_blocks m0) = l" for ks m0 d
    using that
  proof (induction ks arbitrary: m0 d)
    case (Cons k ks)
    have k: "unat (of_nat k :: u64) = k" using Cons.prems(2) assms(2) by (simp add: unat_of_nat l_def)
    have comm: "ack_block st i (m\<lparr> m_dirty := b \<rparr>) = (ack_block st i m)\<lparr> m_dirty := b \<rparr>" for i m b
      by (simp add: ack_block_def Let_def set_version_def split: option.split)
    have fcomm: "fold (ack_block st) is (m\<lparr> m_dirty := b \<rparr>) = (fold (ack_block st) is m)\<lparr> m_dirty := b \<rparr>" for "is" m b
      by (induction "is" arbitrary: m) (simp_all add: comm)
    show ?case
      using Cons k by (simp add: SetBlockAck_def fcomm)
  qed simp
  have sum: "unat (s + c) = unat s + unat c" using assms(1) by (simp add: unat_word_ariths)
  have "fst (SetBlockAckList (map of_nat [unat s..<e]) st m)
      = (fold (ack_block st) [unat s..<e] m)\<lparr> m_dirty := m_dirty m \<or> [unat s..<e] \<noteq> [] \<rparr>"
    unfolding SetBlockAckList_def fst_conv by (rule step) (auto simp: e_def l_def)
  then show ?thesis
    by (simp add: SetBlockAckRange_def Let_def sum e_def l_def)
qed

end
