(* ===== verification/State_File.thy ===== *)
theory State_File
  imports Block_State
begin

text \<open>
  The persistence of the block table, \<open>Save\<close>, \<open>Load\<close> and \<open>Initialize\<close> of
  \<open>client/BlockStateManager.cpp\<close>. The file system is a map from paths to contents; whether
  \<open>CreateFileW\<close> and \<open>MoveFileExW\<close> succeed are parameters, and \<open>WriteFile\<close>, whose result the
  code does not look at, writes what it is given. Where the code reads or writes past the end
  of its 48-byte record buffer the bytes behind the buffer are explicit.
\<close>

section \<open>CRC\<close>

definition crc_table :: "u32 list" where
  "crc_table =
     [0x00000000, 0x77073096, 0xEE0E612C, 0x990951BA, 0x076DC419, 0x706AF48F, 0xE963A535, 0x9E6495A3,
      0x0EDB8832, 0x79DCB8A4, 0xE0D5E91E, 0x97D2D988, 0x09B64C2B, 0x7EB17CBD, 0xE7B82D07, 0x90BF1D91,
      0x1DB71064, 0x6AB020F2, 0xF3B97148, 0x84BE41DE, 0x1ADAD47D, 0x6DDDE4EB, 0xF4D4B551, 0x83D385C7,
      0x136C9856, 0x646BA8C0, 0xFD62F97A, 0x8A65C9EC, 0x14015C4F, 0x63066CD9, 0xFA0F3D63, 0x8D080DF5,
      0x3B6E20C8, 0x4C69105E, 0xD56041E4, 0xA2677172, 0x3C03E4D1, 0x4B04D447, 0xD20D85FD, 0xA50AB56B,
      0x35B5A8FA, 0x42B2986C, 0xDBBBC9D6, 0xACBCF940, 0x32D86CE3, 0x45DF5C75, 0xDCD60DCF, 0xABD13D59,
      0x26D930AC, 0x51DE003A, 0xC8D75180, 0xBFD06116, 0x21B4F4B5, 0x56B3C423, 0xCFBA9599, 0xB8BDA50F,
      0x2802B89E, 0x5F058808, 0xC60CD9B2, 0xB10BE924, 0x2F6F7C87, 0x58684C11, 0xC1611DAB, 0xB6662D3D,
      0x76DC4190, 0x01DB7106, 0x98D220BC, 0xEFD5102A, 0x71B18589, 0x06B6B51F, 0x9FBFE4A5, 0xE8B8D433,
      0x7807C9A2, 0x0F00F934, 0x9609A88E, 0xE10E9818, 0x7F6A0DBB, 0x086D3D2D, 0x91646C97, 0xE6635C01,
      0x6B6B51F4, 0x1C6C6162, 0x856530D8, 0xF262004E, 0x6C0695ED, 0x1B01A57B, 0x8208F4C1, 0xF50FC457,
      0x65B0D9C6, 0x12B7E950, 0x8BBEB8EA, 0xFCB9887C, 0x62DD1DDF, 0x15DA2D49, 0x8CD37CF3, 0xFBD44C65,
      0x4DB26158, 0x3AB551CE, 0xA3BC0074, 0xD4BB30E2, 0x4ADFA541, 0x3DD895D7, 0xA4D1C46D, 0xD3D6F4FB,
      0x4369E96A, 0x346ED9FC, 0xAD678846, 0xDA60B8D0, 0x44042D73, 0x33031DE5, 0xAA0A4C5F, 0xDD0D7CC9,
      0x5005713C, 0x270241AA, 0xBE0B1010, 0xC90C2086, 0x5768B525, 0x206F85B3, 0xB966D409, 0xCE61E49F,
      0x5EDEF90E, 0x29D9C998, 0xB0D09822, 0xC7D7A8B4, 0x59B33D17, 0x2EB40D81, 0xB7BD5C3B, 0xC0BA6CAD,
      0xEDB88320, 0x9ABFB3B6, 0x03B6E20C, 0x74B1D29A, 0xEAD54739, 0x9DD277AF, 0x04DB2615, 0x73DC1683,
      0xE3630B12, 0x94643B84, 0x0D6D6A3E, 0x7A6A5AA8, 0xE40ECF0B, 0x9309FF9D, 0x0A00AE27, 0x7D079EB1,
      0xF00F9344, 0x8708A3D2, 0x1E01F268, 0x6906C2FE, 0xF762575D, 0x806567CB, 0x196C3671, 0x6E6B06E7,
      0xFED41B76, 0x89D32BE0, 0x10DA7A5A, 0x67DD4ACC, 0xF9B9DF6F, 0x8EBEEFF9, 0x17B7BE43, 0x60B08ED5,
      0xD6D6A3E8, 0xA1D1937E, 0x38D8C2C4, 0x4FDFF252, 0xD1BB67F1, 0xA6BC5767, 0x3FB506DD, 0x48B2364B,
      0xD80D2BDA, 0xAF0A1B4C, 0x36034AF6, 0x41047A60, 0xDF60EFC3, 0xA867DF55, 0x316E8EEF, 0x4669BE79,
      0xCB61B38C, 0xBC66831A, 0x256FD2A0, 0x5268E236, 0xCC0C7795, 0xBB0B4703, 0x220216B9, 0x5505262F,
      0xC5BA3BBE, 0xB2BD0B28, 0x2BB45A92, 0x5CB30A04, 0xC2D7FFA7, 0xB5D0CF31, 0x2CD99E8B, 0x5BDEAE1D,
      0x9B64C2B0, 0xEC63F226, 0x756AA39C, 0x026D930A, 0x9C0906A9, 0xEB0E363F, 0x72676785, 0x05605713,
      0x95BF4A82, 0xE2B87A14, 0x7BB12BAE, 0x0CB61B38, 0x92D28E9B, 0xE5D5BE0D, 0x7CDCEFB7, 0x0BDBDF21,
      0x86D3D2D4, 0xF1D4E242, 0x68DDB3F8, 0x1FDA836E, 0x81BE16CD, 0xF6B9265B, 0x6FB077E1, 0x18B74777,
      0x88085AE6, 0xFF0F6A70, 0x66063BCA, 0x11010B5C, 0x8F659EFF, 0xF862AE69, 0x616BFFD3, 0x166CCF45,
      0xA00AE278, 0xD70DD2EE, 0x4E048354, 0x3903B3C2, 0xA7672661, 0xD06016F7, 0x4969474D, 0x3E6E77DB,
      0xAED16A4A, 0xD9D65ADC, 0x40BF0B66, 0x37B83BF0, 0xA9BCAE53, 0xDEBB9EC5, 0x47A2CF7F, 0x30A5FFE9,
      0xBDBDF21C, 0xCABAC28A, 0x539BD330, 0x249CF3A6, 0xBA2D6605, 0xCD2A7693, 0x54052729, 0x230236BF,
      0xB300352E, 0xC40713B8, 0x5D0E4202, 0x2A09F294, 0xB4CF6737, 0xC3C857A1, 0x5AEF061B, 0x2DE8F58D]"

definition crc_step :: "u32 \<Rightarrow> byte \<Rightarrow> u32" where
  "crc_step crc b = drop_bit 8 crc XOR (crc_table ! unat ((crc XOR ucast b) AND 0xFF))"

definition ComputeCRC32 :: "byte list \<Rightarrow> u32" where
  "ComputeCRC32 data = fold (\<lambda>b crc. crc_step crc b) data 0xFFFFFFFF XOR 0xFFFFFFFF"

section \<open>Block records\<close>

definition STATE_FILE_MAGIC :: u32 where "STATE_FILE_MAGIC = 0x534B4C42"
definition STATE_FILE_VERSION :: u32 where "STATE_FILE_VERSION = 1"
definition BLOCK_RECORD_SIZE :: nat where "BLOCK_RECORD_SIZE = 48"
definition STATE_HEADER_SIZE :: nat where "STATE_HEADER_SIZE = 64"

fun ack_val :: "BlockAck \<Rightarrow> u32" where
  "ack_val AckPending = 0"
| "ack_val AckSent = 1"
| "ack_val AckAcknowledged = 2"
| "ack_val AckFailed = 3"
| "ack_val AckSkipped = 4"
| "ack_val (AckUnnamed w) = w"

text \<open>\<open>(AckStatus)v\<close>.\<close>

definition ack_of :: "u32 \<Rightarrow> BlockAck" where
  "ack_of v =
     (if v = 0 then AckPending else if v = 1 then AckSent else if v = 2 then AckAcknowledged
      else if v = 3 then AckFailed else if v = 4 then AckSkipped else AckUnnamed v)"

definition block_flags :: "BlockState \<Rightarrow> u32" where
  "block_flags b = (if bs_Changed b then 1 else 0) OR push_bit 1 (ack_val (bs_Ack b) AND 7)"

text \<open>
  \<open>SerializeBlock(state, out)\<close> on the memory that starts at \<open>out\<close>: 48 bytes are cleared, then
  the fields are stored at offsets 0, 4, 12 and 20.
\<close>

definition SerializeBlock :: "BlockState \<Rightarrow> byte list \<Rightarrow> byte list" where
  "SerializeBlock b out =
     (let m0 = overwrite out 0 (replicate BLOCK_RECORD_SIZE 0);
          m1 = overwrite m0 0 (le_bytes 4 (block_flags b));
          m2 = overwrite m1 4 (le_bytes 8 (bs_BlockIndex b));
          m3 = overwrite m2 12 (le_bytes 8 (bs_VersionId b))
      in overwrite m3 20 (bs_Hash b))"

text \<open>\<open>DeserializeBlock(data, state)\<close> on the memory that starts at \<open>data\<close>.\<close>

definition DeserializeBlock :: "byte list \<Rightarrow> BlockState" where
  "DeserializeBlock data =
     (let flags = le_word (segment 0 4 data) :: u32;
          idx = le_word (segment 4 8 data) :: u64
      in \<lparr> bs_BlockIndex = idx, bs_Offset = idx * BLOCK_SIZE, bs_Hash = segment 20 32 data,
           bs_VersionId = le_word (segment 12 8 data), bs_Ack = ack_of (drop_bit 1 flags AND 7),
           bs_Changed = (flags AND 1 \<noteq> 0) \<rparr>)"

section \<open>Version records\<close>

text \<open>\<open>wcsncpy_s\<close> of at most 15 characters into a zeroed array of 16.\<close>

definition type_buf :: "wstring \<Rightarrow> wstring" where
  "type_buf ty = (let s = take 15 (takeWhile (\<lambda>c. c \<noteq> 0) ty) in s @ replicate (16 - length s) 0)"

definition version_bytes :: "VersionRecord \<Rightarrow> byte list" where
  "version_bytes v =
     le_bytes 8 (vr_VersionId v) @ le_bytes 4 (word_of_int (vr_DevNo v) :: u32)
     @ concat (map (le_bytes 2) (type_buf (vr_VersionType v)))
     @ le_bytes 8 (filetime64 (vr_SnapshotTime v)) @ le_bytes 8 (vr_TotalBlocks v)
     @ le_bytes 8 (vr_ChangedBlocks v) @ le_bytes 8 (vr_TotalSize v) @ le_bytes 8 (vr_AckedBlocks v)
     @ le_bytes 8 (vr_CreateTimestamp v)"

definition version_of :: "byte list \<Rightarrow> VersionRecord" where
  "version_of p =
     (let snapTime = le_word (segment 44 8 p) :: u64 in
      \<lparr> vr_VersionId = le_word (segment 0 8 p), vr_DevNo = sint (le_word (segment 8 4 p) :: u32),
        vr_VersionType = takeWhile (\<lambda>c. c \<noteq> 0) (u16s_of 16 (segment 12 32 p)),
        vr_SnapshotTime = \<lparr> dwLowDateTime = ucast (snapTime AND 0xFFFFFFFF),
                            dwHighDateTime = ucast (drop_bit 32 snapTime) \<rparr>,
        vr_TotalBlocks = le_word (segment 52 8 p), vr_ChangedBlocks = le_word (segment 60 8 p),
        vr_TotalSize = le_word (segment 68 8 p), vr_AckedBlocks = le_word (segment 76 8 p),
        vr_CreateTimestamp = le_word (segment 84 8 p) \<rparr>)"

section \<open>Saving\<close>

text \<open>The first 36 bytes of the header, and the header with its CRC field and padding.\<close>

definition header_fields :: "BlockStateManager \<Rightarrow> byte list" where
  "header_fields m =
     le_bytes 4 STATE_FILE_MAGIC @ le_bytes 4 STATE_FILE_VERSION
     @ le_bytes 4 (word_of_int (m_devNo m) :: u32) @ le_bytes 4 (of_nat BLOCK_RECORD_SIZE :: u32)
     @ le_bytes 8 (BLOCK_SIZE :: u64) @ le_bytes 8 (m_totalBlocks m)
     @ le_bytes 4 (of_nat (length (m_versions m)) :: u32)"

definition header_with_crc :: "byte list \<Rightarrow> u32 \<Rightarrow> byte list" where
  "header_with_crc hdr crc = hdr @ le_bytes 4 crc @ replicate 24 0"

text \<open>\<open>heap\<close> stands for the memory behind the record buffer.\<close>

definition saved_file :: "byte list \<Rightarrow> BlockStateManager \<Rightarrow> byte list" where
  "saved_file heap m =
     header_with_crc (header_fields m) (ComputeCRC32 (header_fields m))
     @ concat (map (\<lambda>b. take BLOCK_RECORD_SIZE (SerializeBlock b (replicate BLOCK_RECORD_SIZE 0 @ heap))) (m_blocks m))
     @ concat (map (\<lambda>(k, v). version_bytes v) (m_versions m))"

type_synonym file_system = "wstring \<Rightarrow> byte list option"

fun dec_digits :: "nat \<Rightarrow> wstring" where
  "dec_digits n = (if n < 10 then [of_nat (48 + n)] else dec_digits (n div 10) @ [of_nat (48 + n mod 10)])"

declare dec_digits.simps [simp del]

definition GetStateFilePath :: "BlockStateManager \<Rightarrow> wstring" where
  "GetStateFilePath m =
     m_stateDir m @ wlit [CHR 0x5C] @ wlit ''block_state_''
     @ (if m_devNo m < 0 then wlit ''-'' else []) @ dec_digits (nat \<bar>m_devNo m\<bar>) @ wlit ''.dat''"

definition Save ::
  "bool \<Rightarrow> bool \<Rightarrow> byte list \<Rightarrow> BlockStateManager \<Rightarrow> file_system \<Rightarrow> BlockStateManager \<times> file_system \<times> bool" where
  "Save create_ok move_ok heap m fs =
     (if \<not> m_initialized m then (m, fs, False)
      else
        let filePath = GetStateFilePath m; tempPath = filePath @ wlit ''.tmp'' in
        if \<not> create_ok then (m, fs, False)
        else
          let fs1 = fs(tempPath \<mapsto> saved_file heap m) in
          if \<not> move_ok then (m, fs1(tempPath := None), False)
          else (m\<lparr> m_dirty := False \<rparr>, fs1(filePath := fs1 tempPath, tempPath := None), True))"

section \<open>Loading\<close>

text \<open>Records until the count is reached or the file ends; a partial record ends the loop.\<close>

fun load_blocks :: "byte list \<Rightarrow> nat \<Rightarrow> byte list \<Rightarrow> BlockState list \<times> byte list" where
  "load_blocks heap 0 rest = ([], rest)"
| "load_blocks heap (Suc n) rest =
     (if length rest < BLOCK_RECORD_SIZE then ([], [])
      else case load_blocks heap n (drop BLOCK_RECORD_SIZE rest) of (bs, rest') \<Rightarrow>
             (DeserializeBlock (take BLOCK_RECORD_SIZE rest @ heap) # bs, rest'))"

fun load_versions ::
  "nat \<Rightarrow> byte list \<Rightarrow> (u64 \<times> VersionRecord) list \<Rightarrow> u64 \<Rightarrow> (u64 \<times> VersionRecord) list \<times> u64" where
  "load_versions 0 rest vs next = (vs, next)"
| "load_versions (Suc n) rest vs next =
     (if length rest < 92 then (vs, next)
      else
        let v = version_of (take 92 rest); verId = vr_VersionId v
        in load_versions n (drop 92 rest) (omap_put verId v vs)
             (if next \<le> verId then verId + 1 else next))"

definition Load :: "byte list \<Rightarrow> BlockStateManager \<Rightarrow> file_system \<Rightarrow> BlockStateManager \<times> bool" where
  "Load heap m fs =
     (case fs (GetStateFilePath m) of
        None \<Rightarrow> (m, False)
      | Some file \<Rightarrow>
          if length file < STATE_HEADER_SIZE then (m, False)
          else
            let header = take STATE_HEADER_SIZE file;
                magic = le_word (segment 0 4 header) :: u32;
                devNo = le_word (segment 8 4 header) :: u32;
                blockRecordSize = le_word (segment 12 4 header) :: u32;
                totalBlocks = le_word (segment 24 8 header) :: u64;
                versionCount = le_word (segment 32 4 header) :: u32;
                m1 = m\<lparr> m_totalBlocks := totalBlocks \<rparr>;
                savedCRC = le_word (segment 36 4 header) :: u32;
                computedCRC = ComputeCRC32 (overwrite header 36 (replicate 4 0))
            in if savedCRC \<noteq> computedCRC then (m1, False)
               else if magic \<noteq> STATE_FILE_MAGIC \<or> blockRecordSize \<noteq> of_nat BLOCK_RECORD_SIZE then (m1, False)
               else
                 (case load_blocks heap (unat totalBlocks) (drop STATE_HEADER_SIZE file) of (bs, rest) \<Rightarrow>
                    case load_versions (unat versionCount) rest [] 0 of (vs, next) \<Rightarrow>
                      (m1\<lparr> m_devNo := sint devNo, m_blocks := bs, m_versions := vs, m_nextVersionId := next \<rparr>, True)))"

definition Initialize ::
  "byte list \<Rightarrow> wstring \<Rightarrow> int \<Rightarrow> BlockStateManager \<Rightarrow> file_system \<Rightarrow> BlockStateManager \<times> bool" where
  "Initialize heap stateDir devNo m fs =
     (case Load heap (m\<lparr> m_stateDir := stateDir, m_devNo := devNo, m_initialized := True \<rparr>) fs of
        (m', loaded) \<Rightarrow> (m', True))"

text \<open>The destructor saves what is unsaved.\<close>

definition destroy_manager ::
  "bool \<Rightarrow> bool \<Rightarrow> byte list \<Rightarrow> BlockStateManager \<Rightarrow> file_system \<Rightarrow> file_system" where
  "destroy_manager create_ok move_ok heap m fs =
     (if m_dirty m \<and> m_initialized m then fst (snd (Save create_ok move_ok heap m fs)) else fs)"

section \<open>Records\<close>

lemma length_type_buf [simp]: "length (type_buf ty) = 16"
  by (simp add: type_buf_def Let_def)

lemma type_buf_valid:
  assumes "length ty \<le> 15" and "0 \<notin> set ty"
  shows "takeWhile (\<lambda>c. c \<noteq> 0) (type_buf ty) = ty"
proof -
  have tw: "takeWhile (\<lambda>c. c \<noteq> 0) ty = ty" using assms(2) by (auto simp: takeWhile_eq_all_conv)
  have "type_buf ty = ty @ replicate (16 - length ty) 0"
    using assms(1) unfolding type_buf_def Let_def tw by simp
  then show ?thesis using assms(2) by (auto simp: takeWhile_append takeWhile_replicate)
qed

lemma filetime_split:
  "ucast (filetime64 ft AND 0xFFFFFFFF) = dwLowDateTime ft" "ucast (drop_bit 32 (filetime64 ft)) = dwHighDateTime ft"
proof -
  have m: "x AND 0xFFFFFFFF = take_bit 32 x" for x :: u64
    by (simp add: take_bit_eq_mask mask_numeral)
  show "ucast (filetime64 ft AND 0xFFFFFFFF) = dwLowDateTime ft"
    unfolding m by (rule bit_word_eqI) (auto simp: filetime64_def bit_simps)
  show "ucast (drop_bit 32 (filetime64 ft)) = dwHighDateTime ft"
    by (rule bit_word_eqI) (auto simp: filetime64_def bit_simps dest: bit_imp_le_length)
qed

definition version_ok :: "VersionRecord \<Rightarrow> bool" where
  "version_ok v \<longleftrightarrow> - (2 ^ 31) \<le> vr_DevNo v \<and> vr_DevNo v < 2 ^ 31 \<and> length (vr_VersionType v) \<le> 15
     \<and> 0 \<notin> set (vr_VersionType v)"

lemma sint_i32: "- (2 ^ 31) \<le> n \<Longrightarrow> n < 2 ^ 31 \<Longrightarrow> sint (word_of_int n :: u32) = n"
  by (simp add: sint_sbintrunc' signed_take_bit_int_eq_self)

interpretation vr: fixed_codec version_bytes version_of 92 version_ok
proof
  fix v assume v: "version_ok v"
  show "length (version_bytes v) = 92" by (simp add: version_bytes_def length_concat_le2)
  have s: "segment 12 32 (version_bytes v) = concat (map (le_bytes 2) (type_buf (vr_VersionType v)))"
    by (simp add: version_bytes_def segment_def length_concat_le2)
  have t: "segment 44 8 (version_bytes v) = le_bytes 8 (filetime64 (vr_SnapshotTime v))"
    "segment 0 8 (version_bytes v) = le_bytes 8 (vr_VersionId v)"
    "segment 8 4 (version_bytes v) = le_bytes 4 (word_of_int (vr_DevNo v) :: u32)"
    "segment 52 8 (version_bytes v) = le_bytes 8 (vr_TotalBlocks v)"
    "segment 60 8 (version_bytes v) = le_bytes 8 (vr_ChangedBlocks v)"
    "segment 68 8 (version_bytes v) = le_bytes 8 (vr_TotalSize v)"
    "segment 76 8 (version_bytes v) = le_bytes 8 (vr_AckedBlocks v)"
    "segment 84 8 (version_bytes v) = le_bytes 8 (vr_CreateTimestamp v)"
    by (simp_all add: version_bytes_def segment_def length_concat_le2)
  show "version_of (version_bytes v) = v"
    using v by (simp add: version_of_def Let_def s t u16s_of_concat type_buf_valid filetime_split sint_i32 version_ok_def)
qed

text \<open>
  A block record: the first 48 bytes, which go to the file, hold 28 bytes of the hash; the
  other four land behind the buffer.
\<close>

lemma SerializeBlock_image:
  assumes "length (bs_Hash b) = 32" and "length rec = 48" and "4 \<le> length heap"
  shows "SerializeBlock b (rec @ heap) =
     le_bytes 4 (block_flags b) @ le_bytes 8 (bs_BlockIndex b) @ le_bytes 8 (bs_VersionId b) @ bs_Hash b @ drop 4 heap"
proof -
  have r: "replicate 48 (0::byte) = replicate 4 0 @ replicate 8 0 @ replicate 8 0 @ replicate 28 0"
    by (simp flip: replicate_add)
  show ?thesis
    using assms unfolding SerializeBlock_def Let_def BLOCK_RECORD_SIZE_def r
    by (simp add: overwrite_def)
qed

definition record_bytes :: "BlockState \<Rightarrow> byte list" where
  "record_bytes b = le_bytes 4 (block_flags b) @ le_bytes 8 (bs_BlockIndex b) @ le_bytes 8 (bs_VersionId b)
     @ take 28 (bs_Hash b)"

lemma length_record_bytes [simp]: "length (bs_Hash b) = 32 \<Longrightarrow> length (record_bytes b) = 48"
  by (simp add: record_bytes_def)

lemma saved_record:
  "length (bs_Hash b) = 32 \<Longrightarrow> 4 \<le> length heap \<Longrightarrow>
   take BLOCK_RECORD_SIZE (SerializeBlock b (replicate BLOCK_RECORD_SIZE 0 @ heap)) = record_bytes b"
  by (simp add: SerializeBlock_image BLOCK_RECORD_SIZE_def record_bytes_def)

definition ack_storable :: "BlockAck \<Rightarrow> bool" where
  "ack_storable a \<longleftrightarrow> (\<forall>w. a = AckUnnamed w \<longrightarrow> w = 5 \<or> w = 6 \<or> w = 7)"

lemma flags_decode:
  assumes "ack_storable (bs_Ack b)"
  shows "ack_of (drop_bit 1 (block_flags b) AND 7) = bs_Ack b" "block_flags b AND 1 \<noteq> 0 \<longleftrightarrow> bs_Changed b"
  using assms
  by (cases "bs_Ack b"; cases "bs_Changed b"; auto simp: block_flags_def ack_of_def ack_storable_def)+

lemma Deserialize_record:
  assumes "length (bs_Hash b) = 32" and "length heap = 4" and "ack_storable (bs_Ack b)"
    and "bs_Offset b = bs_BlockIndex b * BLOCK_SIZE"
  shows "DeserializeBlock (record_bytes b @ heap) = b\<lparr> bs_Hash := take 28 (bs_Hash b) @ heap \<rparr>"
proof -
  have s: "segment 0 4 (record_bytes b @ heap) = le_bytes 4 (block_flags b)"
    "segment 4 8 (record_bytes b @ heap) = le_bytes 8 (bs_BlockIndex b)"
    "segment 12 8 (record_bytes b @ heap) = le_bytes 8 (bs_VersionId b)"
    "segment 20 32 (record_bytes b @ heap) = take 28 (bs_Hash b) @ heap"
    using assms(1,2) by (simp_all add: record_bytes_def segment_def)
  show ?thesis
    using assms(4) flags_decode [OF assms(3)]
    by (simp add: DeserializeBlock_def Let_def s)
qed

lemma load_blocks_saved:
  assumes "length heap = 4" and "\<forall>b \<in> set bs. length (bs_Hash b) = 32 \<and> ack_storable (bs_Ack b)
      \<and> bs_Offset b = bs_BlockIndex b * BLOCK_SIZE"
  shows "load_blocks heap (length bs) (concat (map record_bytes bs) @ rest)
     = (map (\<lambda>b. b\<lparr> bs_Hash := take 28 (bs_Hash b) @ heap \<rparr>) bs, rest)"
  using assms(2)
proof (induction bs)
  case (Cons b bs)
  then show ?case
    by (simp add: BLOCK_RECORD_SIZE_def Deserialize_record [OF _ assms(1)])
qed simp

lemma omap_put_last: "\<forall>k' \<in> fst ` set vs. k' < k \<Longrightarrow> omap_put k v vs = vs @ [(k, v)]"
  by (induction vs) auto

definition next_after :: "(u64 \<times> VersionRecord) list \<Rightarrow> u64 \<Rightarrow> u64" where
  "next_after vs n = fold (\<lambda>(k, v) n. if n \<le> k then k + 1 else n) vs n"

lemma load_versions_saved:
  assumes "\<forall>(k, v) \<in> set vs. version_ok v \<and> vr_VersionId v = k" and "omap_wf (acc @ vs)"
  shows "load_versions (length vs) (concat (map (\<lambda>(k, v). version_bytes v) vs) @ rest) acc n
     = (acc @ vs, next_after vs n)"
  using assms
proof (induction vs arbitrary: acc n)
  case (Cons kv vs)
  obtain k v where kv: "kv = (k, v)" by (cases kv)
  have "omap_put k v acc = acc @ [(k, v)]"
    using Cons.prems(2) by (intro omap_put_last) (auto simp: omap_wf_def sorted_wrt_append kv)
  moreover have "version_ok v" "vr_VersionId v = k" using Cons.prems(1) by (auto simp: kv)
  moreover have "omap_wf ((acc @ [(k, v)]) @ vs)" using Cons.prems(2) by (simp add: kv)
  ultimately show ?case
    using Cons.IH [of "acc @ [(k, v)]"] Cons.prems(1)
    by (simp add: kv vr.length_enc vr.dec_enc next_after_def)
qed (simp add: next_after_def)

section \<open>Header and file\<close>

lemma length_header_fields [simp]: "length (header_fields m) = 36"
  by (simp add: header_fields_def)

lemma header_segments_state:
  fixes m :: BlockStateManager and crc :: u32
  defines "h \<equiv> header_with_crc (header_fields m) crc"
  shows "segment 0 4 h = le_bytes 4 STATE_FILE_MAGIC" "segment 8 4 h = le_bytes 4 (word_of_int (m_devNo m) :: u32)"
    "segment 12 4 h = le_bytes 4 (of_nat BLOCK_RECORD_SIZE :: u32)" "segment 24 8 h = le_bytes 8 (m_totalBlocks m)"
    "segment 32 4 h = le_bytes 4 (of_nat (length (m_versions m)) :: u32)" "segment 36 4 h = le_bytes 4 crc"
    "overwrite h 36 (replicate 4 0) = header_fields m @ replicate 28 0" "length h = 64"
proof -
  show "overwrite h 36 (replicate 4 0) = header_fields m @ replicate 28 0"
    unfolding h_def header_with_crc_def by (simp add: overwrite_def flip: replicate_add append_assoc)
qed (simp_all add: h_def header_with_crc_def header_fields_def segment_def)

text \<open>The state of the CRC register after the 36 bytes \<open>Save\<close> covers; \<open>Load\<close> covers 28 zero bytes more.\<close>

definition crc_reg :: "byte list \<Rightarrow> u32" where
  "crc_reg d = fold (\<lambda>b crc. crc_step crc b) d 0xFFFFFFFF"

definition crc_zeros :: "u32 \<Rightarrow> u32" where
  "crc_zeros r = fold (\<lambda>b crc. crc_step crc b) (replicate 28 0) r"

lemma crc_accepts_iff:
  "ComputeCRC32 d = ComputeCRC32 (d @ replicate 28 0) \<longleftrightarrow> crc_zeros (crc_reg d) = crc_reg d"
proof -
  have inv: "(x XOR 0xFFFFFFFF) XOR 0xFFFFFFFF = x" for x :: u32 by (simp add: xor.assoc)
  have "x XOR 0xFFFFFFFF = y XOR 0xFFFFFFFF \<longleftrightarrow> x = y" for x y :: u32
    by (metis inv)
  then show ?thesis by (auto simp: ComputeCRC32_def crc_reg_def crc_zeros_def)
qed

lemma saved_file_shape:
  assumes "\<forall>b \<in> set (m_blocks m). length (bs_Hash b) = 32" and "4 \<le> length heap"
  shows "saved_file heap m = header_with_crc (header_fields m) (ComputeCRC32 (header_fields m))
     @ concat (map record_bytes (m_blocks m)) @ concat (map (\<lambda>(k, v). version_bytes v) (m_versions m))"
  using assms saved_record unfolding saved_file_def by (simp cong: map_cong)

lemma Load_saved:
  assumes "fs (GetStateFilePath m0) = Some (saved_file heap m)" and "\<forall>b \<in> set (m_blocks m). length (bs_Hash b) = 32"
    and "4 \<le> length heap"
  shows "Load heap' m0 fs =
    (if crc_zeros (crc_reg (header_fields m)) \<noteq> crc_reg (header_fields m)
     then (m0\<lparr> m_totalBlocks := m_totalBlocks m \<rparr>, False)
     else case load_blocks heap' (unat (m_totalBlocks m))
             (concat (map record_bytes (m_blocks m)) @ concat (map (\<lambda>(k, v). version_bytes v) (m_versions m))) of (bs, rest) \<Rightarrow>
          case load_versions (unat (of_nat (length (m_versions m)) :: u32)) rest [] 0 of (vs, next) \<Rightarrow>
            (m0\<lparr> m_totalBlocks := m_totalBlocks m, m_devNo := sint (word_of_int (m_devNo m) :: u32),
                 m_blocks := bs, m_versions := vs, m_nextVersionId := next \<rparr>, True))"
proof -
  define h where "h = header_with_crc (header_fields m) (ComputeCRC32 (header_fields m))"
  define t where "t = concat (map record_bytes (m_blocks m)) @ concat (map (\<lambda>(k, v). version_bytes v) (m_versions m))"
  note seg = header_segments_state [of m "ComputeCRC32 (header_fields m)", folded h_def]
  have img: "saved_file heap m = h @ t" using saved_file_shape [OF assms(2,3)] by (simp add: h_def t_def)
  have "take 64 (h @ t) = h" "drop 64 (h @ t) = t" "\<not> length (h @ t) < 64" using seg(8) by simp_all
  then show ?thesis
    unfolding t_def [symmetric] crc_accepts_iff [symmetric]
    by (simp add: Load_def assms(1) img STATE_HEADER_SIZE_def Let_def seg le_word_le_bytes split: prod.split)
qed

section \<open>Properties\<close>


definition demo_fresh :: BlockStateManager where
  "demo_fresh = BlockStateManager_new\<lparr> m_devNo := 0, m_initialized := True \<rparr>"

lemma demo_fresh_crc: "crc_zeros (crc_reg (header_fields demo_fresh)) \<noteq> crc_reg (header_fields demo_fresh)"
  by code_simp


text \<open>
  Where the check passes, a save and a load give back the versions and the blocks, except
  the last four bytes of every hash, which come from whatever lies behind the record buffer.
\<close>

lemma save_load_roundtrip:
  assumes "fs (GetStateFilePath m0) = Some (saved_file heap m)" and "bsm_wf m" and "4 \<le> length heap" and "length heap' = 4"
    and "crc_zeros (crc_reg (header_fields m)) = crc_reg (header_fields m)"
    and "length (m_blocks m) = unat (m_totalBlocks m)" and "length (m_versions m) < 2 ^ 32"
    and "\<forall>b \<in> set (m_blocks m). ack_storable (bs_Ack b)" and "\<forall>(k, v) \<in> set (m_versions m). version_ok v"
    and "- (2 ^ 31) \<le> m_devNo m" and "m_devNo m < 2 ^ 31"
  shows "Load heap' m0 fs = (m0\<lparr> m_totalBlocks := m_totalBlocks m, m_devNo := m_devNo m,
     m_blocks := map (\<lambda>b. b\<lparr> bs_Hash := take 28 (bs_Hash b) @ heap' \<rparr>) (m_blocks m),
     m_versions := m_versions m, m_nextVersionId := next_after (m_versions m) 0 \<rparr>, True)"
proof -
  have wf: "\<forall>b \<in> set (m_blocks m). length (bs_Hash b) = 32 \<and> bs_Offset b = bs_BlockIndex b * BLOCK_SIZE"
    using assms(2) by (auto simp: bsm_wf_def blocks_wf_def in_set_conv_nth)
  have vs: "\<forall>(k, v) \<in> set (m_versions m). version_ok v \<and> vr_VersionId v = k" "omap_wf ([] @ m_versions m)"
    using assms(2,9) by (auto simp: bsm_wf_def versions_wf_def)
  have bl: "load_blocks heap' (unat (m_totalBlocks m)) (concat (map record_bytes (m_blocks m))
      @ concat (map (\<lambda>(k, v). version_bytes v) (m_versions m)))
    = (map (\<lambda>b. b\<lparr> bs_Hash := take 28 (bs_Hash b) @ heap' \<rparr>) (m_blocks m), concat (map (\<lambda>(k, v). version_bytes v) (m_versions m)))"
    using load_blocks_saved [OF assms(4)] wf assms(8) by (simp flip: assms(6))
  have "unat (of_nat (length (m_versions m)) :: u32) = length (m_versions m)"
    using assms(7) by (simp add: unat_of_nat)
  with load_versions_saved [OF vs, of "[]" 0] bl wf assms Load_saved [of fs m0 heap m heap']
  show ?thesis by (simp add: sint_i32)
qed

text \<open>A disk number for which the check happens to pass, with one block and one version.\<close>

definition demo_lucky :: BlockStateManager where
  "demo_lucky = fst (InitFullBlocksEmpty 0 1 (fst (CreateVersion \<lparr> dwLowDateTime = 1, dwHighDateTime = 2 \<rparr> [70]
     \<lparr> dwLowDateTime = 0, dwHighDateTime = 0 \<rparr> 1 0 (BlockStateManager_new\<lparr> m_devNo := 341339237, m_initialized := True \<rparr>))))"

lemma demo_lucky_wf: "bsm_wf demo_lucky"
  unfolding demo_lucky_def
  by (rule bsm_step_wf [OF bsm_step.full_empty bsm_step_wf [OF bsm_step.create]])
    (simp_all add: BlockStateManager_new_def bsm_wf_def blocks_wf_def versions_wf_def omap_wf_def)

lemma demo_lucky_fields:
  "\<exists>v. m_versions demo_lucky = [(0, v)] \<and> version_ok v"
  "m_blocks demo_lucky = [fresh_block 0 (replicate 32 0) 0]" "m_totalBlocks demo_lucky = 1" "m_devNo demo_lucky = 341339237"
  by (simp_all add: demo_lucky_def CreateVersion_def InitFullBlocksEmpty_def set_version_def Let_def
      BlockStateManager_new_def version_ok_def)

lemma demo_lucky_crc: "crc_zeros (crc_reg (header_fields demo_lucky)) = crc_reg (header_fields demo_lucky)"
proof -
  have "header_fields demo_lucky = le_bytes 4 STATE_FILE_MAGIC @ le_bytes 4 STATE_FILE_VERSION
     @ le_bytes 4 (341339237 :: u32) @ le_bytes 4 (48 :: u32)
     @ le_bytes 8 (BLOCK_SIZE :: u64) @ le_bytes 8 (1 :: u64) @ le_bytes 4 (1 :: u32)" (is "_ = ?h")
    using demo_lucky_fields by (auto simp: header_fields_def BLOCK_RECORD_SIZE_def)
  moreover have "crc_reg ?h = 0" by code_simp
  moreover have "crc_zeros 0 = 0" by code_simp
  ultimately show ?thesis by simp
qed

theorem save_load_roundtrip_witness:
  "\<exists>m'. Load [1, 2, 3, 4] demo_lucky [GetStateFilePath demo_lucky \<mapsto> saved_file [0, 0, 0, 0] demo_lucky] = (m', True)
     \<and> map bs_Hash (m_blocks m') = [replicate 28 0 @ [1, 2, 3, 4]]"
proof -
  obtain v where v: "m_versions demo_lucky = [(0, v)]" "version_ok v" using demo_lucky_fields(1) by blast
  show ?thesis
    using save_load_roundtrip [of "[GetStateFilePath demo_lucky \<mapsto> saved_file [0, 0, 0, 0] demo_lucky]" demo_lucky
        "[0, 0, 0, 0]" demo_lucky "[1, 2, 3, 4]"] demo_lucky_wf demo_lucky_crc demo_lucky_fields(2-) v
    by (simp add: ack_storable_def fresh_block_def)
qed

section \<open>What a loaded table is\<close>

text \<open>Versions under their own numbers, in order, and the next number above them all, unless the largest number is in use.\<close>

definition versions_typed :: "u64 \<Rightarrow> (u64 \<times> VersionRecord) list \<Rightarrow> bool" where
  "versions_typed next vs \<longleftrightarrow> omap_wf vs \<and> (\<forall>(k, v) \<in> set vs. vr_VersionId v = k)
     \<and> (- 1 \<in> fst ` set vs \<or> (\<forall>k \<in> fst ` set vs. k < next))"

lemma less_next: "k \<noteq> - 1 \<Longrightarrow> k < k + (1 :: u64)"
proof -
  assume "k \<noteq> - 1"
  then have "1 + k \<noteq> 0" by (metis add.commute add_eq_0_iff)
  then have "unat (k + 1) = unat k + 1" by (simp add: add.commute unatSuc)
  then show ?thesis by (simp add: word_less_nat_alt)
qed

lemma versions_typed_put:
  assumes "versions_typed next vs" and "vr_VersionId v = k"
  shows "versions_typed (if next \<le> k then k + 1 else next) (omap_put k v vs)"
proof -
  have "\<forall>(i, w) \<in> set (omap_put k v vs). vr_VersionId w = i"
    using assms set_omap_put [of k v vs] by (fastforce simp: versions_typed_def)
  moreover have "- 1 \<in> insert k (fst ` set vs) \<or> (\<forall>i \<in> insert k (fst ` set vs). i < (if next \<le> k then k + 1 else next))"
    using assms(1) less_next [of k] unfolding versions_typed_def by (cases "k = - 1") (fastforce dest: less_le_trans less_trans)+
  ultimately show ?thesis using assms omap_put_wf [of vs k v]
    unfolding versions_typed_def keys_omap_put by blast
qed

lemma load_versions_typed:
  "versions_typed next vs \<Longrightarrow> load_versions n rest vs next = (vs', next') \<Longrightarrow> versions_typed next' vs'"
proof (induction n rest vs "next" rule: load_versions.induct)
  case (2 n rest vs "next")
  then show ?case using versions_typed_put [OF 2(2)] by (auto simp: Let_def split: if_splits)
qed simp

definition block_typed :: "BlockState \<Rightarrow> bool" where
  "block_typed b \<longleftrightarrow> length (bs_Hash b) = 32 \<and> bs_Offset b = bs_BlockIndex b * BLOCK_SIZE \<and> ack_val (bs_Ack b) < 8"

lemma DeserializeBlock_typed: "length rec = 48 \<Longrightarrow> 4 \<le> length heap \<Longrightarrow> block_typed (DeserializeBlock (rec @ heap))"
proof -
  assume a: "length rec = 48" "4 \<le> length heap"
  have "x AND 7 < 8" for x :: u32
  proof -
    have "x AND 7 = take_bit 3 x" by (simp add: take_bit_eq_mask mask_eq_exp_minus_1)
    then have "unat (x AND 7) = take_bit 3 (unat x)" by (simp only: unsigned_take_bit_eq)
    then show ?thesis by (simp add: word_less_nat_alt take_bit_eq_mod)
  qed
  moreover have "ack_val (ack_of v) = v" for v by (simp add: ack_of_def)
  ultimately show ?thesis using a by (simp add: block_typed_def DeserializeBlock_def Let_def segment_def)
qed

lemma load_blocks_typed:
  "load_blocks heap n rest = (bs, rest') \<Longrightarrow> 4 \<le> length heap \<Longrightarrow> length bs \<le> n \<and> (\<forall>b \<in> set bs. block_typed b)"
proof (induction n arbitrary: rest bs)
  case (Suc n)
  then show ?case using DeserializeBlock_typed [of "take 48 rest" heap]
    by (auto simp: BLOCK_RECORD_SIZE_def min_def split: if_splits prod.splits)
qed simp



section \<open>Effects of saving\<close>

text \<open>
  Serialising a block stores the last four bytes of its hash behind the 48-byte record it
  was given, whatever is there.
\<close>

lemma SerializeBlock_overflows:
  assumes "length (bs_Hash b) = 32" and "length rec = 48" and "4 \<le> length heap"
  shows "segment 48 4 (SerializeBlock b (rec @ heap)) = drop 28 (bs_Hash b)"
  using assms SerializeBlock_image [OF assms] by (simp add: segment_def)

theorem SerializeBlock_overflows_witness:
  "segment 48 4 (SerializeBlock (fresh_block 0 (replicate 32 9) 1) (replicate 48 0 @ [1, 2, 3, 4])) = [9, 9, 9, 9]"
  using SerializeBlock_overflows [of "fresh_block 0 (replicate 32 9) 1" "replicate 48 0" "[1, 2, 3, 4]"]
  by (simp add: fresh_block_def numeral_eq_Suc)

text \<open>
  Saving is atomic on the state file: whatever call fails, the file is afterwards what it
  was before or the complete new image, and the temporary file is gone once it was created.
\<close>

lemma save_atomic:
  assumes "Save create_ok move_ok heap m fs = (m', fs', ok)"
  shows "fs' (GetStateFilePath m) = (if ok then Some (saved_file heap m) else fs (GetStateFilePath m))
     \<and> (ok \<longrightarrow> fs' (GetStateFilePath m @ wlit ''.tmp'') = None)
     \<and> (\<forall>p. p \<noteq> GetStateFilePath m \<longrightarrow> p \<noteq> GetStateFilePath m @ wlit ''.tmp'' \<longrightarrow> fs' p = fs p)
     \<and> m' = (if ok then m\<lparr> m_dirty := False \<rparr> else m)"
  using assms by (auto simp: Save_def Let_def wlit_def split: if_splits)

theorem save_atomic_witness:
  "\<exists>m' fs'. Save True True [0, 0, 0, 0] demo_fresh Map.empty = (m', fs', True)
     \<and> fs' (GetStateFilePath demo_fresh) = Some (saved_file [0, 0, 0, 0] demo_fresh)"
proof -
  obtain m' fs' where s: "Save True True [0, 0, 0, 0] demo_fresh Map.empty = (m', fs', True)"
    by (simp add: Save_def Let_def demo_fresh_def)
  from save_atomic [OF s] s show ?thesis by auto
qed

text \<open>A table entry of CRC-32, the reflected polynomial 0xEDB88320, bit by bit.\<close>

definition crc_bit :: "u32 \<Rightarrow> u32" where
  "crc_bit c = (if c AND 1 = 0 then drop_bit 1 c else drop_bit 1 c XOR 0xEDB88320)"

definition crc_entry :: "u32 \<Rightarrow> u32" where
  "crc_entry i = crc_bit (crc_bit (crc_bit (crc_bit (crc_bit (crc_bit (crc_bit (crc_bit i)))))))"

text \<open>The table deviates from CRC-32, first at entry 187.\<close>

lemma crc_table_deviates: "crc_table ! 187 = 0x5CB30A04 \<and> crc_entry 187 = 0x5CB36A04"
proof
  show "crc_table ! 187 = 0x5CB30A04" by code_simp
  show "crc_entry 187 = 0x5CB36A04" by (simp add: crc_entry_def crc_bit_def)
qed

end
