(* ===== verification/Pipeline_Window.thy ===== *)
theory Pipeline_Window
  imports State_File Data_Compressor
begin

text \<open>
  The pipelined transfer of a full backup, \<open>client/BackupEngine.cpp\<close>: the window of slots
  (\<open>ResetPipelineWindow\<close>, \<open>AcquireSlot\<close>, \<open>ReleaseSlot\<close>, \<open>WaitForAllAcks\<close>) and
  \<open>PipelineTransferBlocks\<close>, whose loop and whose acknowledgement callback run in two threads. The
  threads are a step relation, one step per critical section or atomic access; the connection
  is seen as the list of blocks that were sent and are not yet answered. Shown are the
  invariant of the window, the counters and the block table, that no slot is lost, and that
  every run ends.
\<close>

section \<open>The window\<close>

record PipelineSlot =
  ps_InUse :: bool
  ps_BlockIndex :: u64
  ps_BlockData :: "byte list"
  ps_Compressed :: "byte list"
  ps_RawSize :: u32
  ps_Hash :: "byte list"
  ps_SendFailed :: bool

definition PipelineSlot_new :: PipelineSlot where
  "PipelineSlot_new = \<lparr> ps_InUse = False, ps_BlockIndex = 0, ps_BlockData = [], ps_Compressed = [], ps_RawSize = 0,
     ps_Hash = replicate 32 0, ps_SendFailed = False \<rparr>"

text \<open>The counters count blocks, each at most once per transfer, and are natural numbers here;
  \<open>m_inFlightCount\<close> can go below zero for a moment and is an integer.\<close>

record Engine =
  be_windowSize :: int
  be_window :: "PipelineSlot list"
  be_inFlight :: int
  be_acked :: nat
  be_failed :: nat
  be_error :: bool

definition Engine_new :: Engine where
  "Engine_new = \<lparr> be_windowSize = 0, be_window = [], be_inFlight = 0, be_acked = 0, be_failed = 0, be_error = False \<rparr>"

definition ResetPipelineWindow :: "Engine \<Rightarrow> Engine" where
  "ResetPipelineWindow e = e\<lparr> be_window := replicate (nat (be_windowSize e)) PipelineSlot_new, be_inFlight := 0,
     be_acked := 0, be_failed := 0, be_error := False \<rparr>"

definition set_slot :: "nat \<Rightarrow> (PipelineSlot \<Rightarrow> PipelineSlot) \<Rightarrow> Engine \<Rightarrow> Engine" where
  "set_slot s f e = e\<lparr> be_window := (be_window e)[s := f (be_window e ! s)] \<rparr>"

text \<open>
  \<open>AcquireSlot\<close> at the moment its wait ends: because a slot is free, because of the error flag, or
  because the time is over; \<open>None\<close> is the answer -1.
\<close>

definition AcquireSlot :: "Engine \<Rightarrow> Engine \<times> nat option" where
  "AcquireSlot e =
     (if be_error e then (e, None)
      else case find_index (\<lambda>sl. \<not> ps_InUse sl) (be_window e) of
          None \<Rightarrow> (e, None)
        | Some i \<Rightarrow> (set_slot i (\<lambda>sl. sl\<lparr> ps_InUse := True \<rparr>) e, Some i))"

definition ReleaseSlot :: "u64 \<Rightarrow> Engine \<Rightarrow> Engine \<times> bool" where
  "ReleaseSlot blockIndex e =
     (case find_index (\<lambda>sl. ps_InUse sl \<and> ps_BlockIndex sl = blockIndex) (be_window e) of
        None \<Rightarrow> (e, False)
      | Some i \<Rightarrow> (set_slot i (\<lambda>sl. sl\<lparr> ps_InUse := False, ps_BlockData := [], ps_Compressed := [] \<rparr>) e, True))"

text \<open>The condition \<open>WaitForAllAcks\<close> waits for.\<close>

definition acks_settled :: "Engine \<Rightarrow> bool" where
  "acks_settled e \<longleftrightarrow> be_inFlight e = 0 \<or> be_error e"

section \<open>One block\<close>

text \<open>What a transfer works on: the disk as \<open>ReadFile\<close> delivers it, the hash, the compressor, and
  the results of the calls that save the state file.\<close>

record job =
  jb_total :: u64
  jb_size :: u64
  jb_source :: "u64 \<Rightarrow> u32 \<Rightarrow> byte list option"
  jb_bcrypt :: "byte list \<Rightarrow> byte list option"
  jb_hasher :: BlockHasher
  jb_win :: win_compress
  jb_compressor :: DataCompressor
  jb_save :: "nat \<Rightarrow> bool \<times> bool"
  jb_heap :: "byte list"

definition pipeline_block_size :: "u64 \<Rightarrow> u64 \<Rightarrow> u64 \<Rightarrow> u32" where
  "pipeline_block_size totalBlocks totalSize i =
     (let remain = totalSize - i * BLOCK_SIZE in
      if i = totalBlocks - 1 \<and> remain < BLOCK_SIZE \<and> 0 < remain then ucast remain else BLOCK_SIZE)"

text \<open>Reading, hashing and compressing: on failure the hash that was already stored, if any.\<close>

datatype prepared = PrepFailed "byte list option" | PrepReady "byte list" "byte list" "byte list"

definition prepare_block :: "job \<Rightarrow> u64 \<Rightarrow> prepared" where
  "prepare_block j i =
     (case ReadAt (jb_source j) (i * BLOCK_SIZE) (pipeline_block_size (jb_total j) (jb_size j) i) of
        None \<Rightarrow> PrepFailed None
      | Some data \<Rightarrow>
          (case ComputeBlockHash (jb_bcrypt j) (jb_hasher j) data of
             None \<Rightarrow> PrepFailed None
           | Some hash \<Rightarrow>
               (case Compress (jb_win j) (jb_compressor j) data of
                  None \<Rightarrow> PrepFailed (Some hash)
                | Some z \<Rightarrow> PrepReady data hash z)))"

section \<open>The two threads\<close>

text \<open>
  Where the transferring thread stands: at the head of the loop; with a slot it has acquired but
  not yet filled; with the slot filled; ready to send; after a successful send that is not yet
  counted; waiting for the last acknowledgements; in \<open>StopAckReceiver\<close>; finished.
\<close>

datatype main_pc = AtTop | HaveSlot nat | Filled nat | ReadyToSend nat | JustSent nat | Waiting | Stopping | Finished

text \<open>Where the acknowledgement thread stands in its callback.\<close>

datatype ack_pc = AckIdle | AckRecorded u64 | AckReleased bool | AckStopped

record Pipe =
  pp_engine :: Engine
  pp_state :: BlockStateManager
  pp_files :: file_system
  pp_i :: u64
  pp_sent :: nat
  pp_compressed :: nat
  pp_skipped :: nat
  pp_failedStat :: nat
  pp_main :: main_pc
  pp_ack :: ack_pc
  pp_wire :: "u64 list"

text \<open>The assignments after \<open>AcquireSlot\<close>.\<close>

definition fill_slot :: "job \<Rightarrow> nat \<Rightarrow> Pipe \<Rightarrow> Pipe" where
  "fill_slot j s p =
     (let n = pipeline_block_size (jb_total j) (jb_size j) (pp_i p) in
      p\<lparr> pp_engine := set_slot s (\<lambda>sl. sl\<lparr> ps_BlockIndex := pp_i p, ps_BlockData := replicate (unat n) 0,
           ps_RawSize := n, ps_SendFailed := False \<rparr>) (pp_engine p), pp_main := Filled s \<rparr>)"

text \<open>The block is given up: the slot is free again, without its data.\<close>

definition dropped :: "PipelineSlot \<Rightarrow> PipelineSlot" where
  "dropped sl = sl\<lparr> ps_InUse := False, ps_BlockData := [] \<rparr>"

definition store_hash :: "u64 \<Rightarrow> byte list option \<Rightarrow> BlockStateManager \<Rightarrow> BlockStateManager" where
  "store_hash i h m = (case h of None \<Rightarrow> m | Some hash \<Rightarrow> fst (SetBlockHash i hash m))"

definition prepare_slot :: "job \<Rightarrow> nat \<Rightarrow> Pipe \<Rightarrow> Pipe" where
  "prepare_slot j s p =
     (case prepare_block j (pp_i p) of
        PrepFailed h \<Rightarrow>
          p\<lparr> pp_engine := set_slot s (\<lambda>sl. dropped (sl\<lparr> ps_Hash := (case h of None \<Rightarrow> ps_Hash sl | Some hash \<Rightarrow> hash) \<rparr>)) (pp_engine p),
             pp_state := store_hash (pp_i p) h (pp_state p),
             pp_failedStat := pp_failedStat p + 1, pp_skipped := pp_skipped p + 1, pp_i := pp_i p + 1, pp_main := AtTop \<rparr>
      | PrepReady data hash z \<Rightarrow>
          p\<lparr> pp_engine := set_slot s (\<lambda>sl. sl\<lparr> ps_BlockData := data, ps_Hash := hash, ps_Compressed := z \<rparr>) (pp_engine p),
             pp_state := store_hash (pp_i p) (Some hash) (pp_state p), pp_compressed := pp_compressed p + length z,
             pp_main := ReadyToSend s \<rparr>)"

text \<open>A send that fails means a lost connection and ends the loop.\<close>

definition send_slot :: "bool \<Rightarrow> nat \<Rightarrow> Pipe \<Rightarrow> Pipe" where
  "send_slot ok s p =
     (if ok then p\<lparr> pp_wire := pp_wire p @ [pp_i p], pp_main := JustSent s \<rparr>
      else p\<lparr> pp_engine := (set_slot s dropped (pp_engine p))\<lparr> be_error := True \<rparr>, pp_main := Waiting \<rparr>)"

text \<open>Counting the block; every hundredth block saves the state file.\<close>

definition count_sent :: "job \<Rightarrow> nat \<Rightarrow> Pipe \<Rightarrow> Pipe" where
  "count_sent j s p =
     (let n = pp_sent p + 1;
          e = set_slot s (\<lambda>sl. sl\<lparr> ps_BlockData := [] \<rparr>) ((pp_engine p)\<lparr> be_inFlight := be_inFlight (pp_engine p) + 1 \<rparr>);
          p1 = p\<lparr> pp_sent := n, pp_engine := e, pp_i := pp_i p + 1, pp_main := AtTop \<rparr>
      in if n mod 100 = 0
         then (case Save (fst (jb_save j n)) (snd (jb_save j n)) (jb_heap j) (pp_state p) (pp_files p) of
                 (m, fs, ok) \<Rightarrow> p1\<lparr> pp_state := m, pp_files := fs \<rparr>)
         else p1)"

text \<open>The callback up to \<open>ReleaseSlot\<close>: the block's state and the counters.\<close>

definition record_ack :: "u64 \<Rightarrow> u32 \<Rightarrow> Engine \<Rightarrow> BlockStateManager \<Rightarrow> Engine \<times> BlockStateManager" where
  "record_ack blockIndex status e m =
     (if status = 0 then (e\<lparr> be_acked := be_acked e + 1 \<rparr>, fst (SetBlockAck blockIndex AckAcknowledged m))
      else (e\<lparr> be_failed := be_failed e + 1 \<rparr>, fst (SetBlockAck blockIndex AckFailed m)))"

text \<open>The initial state of a transfer.\<close>

definition pipe_start :: "int \<Rightarrow> BlockStateManager \<Rightarrow> file_system \<Rightarrow> Pipe" where
  "pipe_start windowSize m fs =
     \<lparr> pp_engine = ResetPipelineWindow (Engine_new\<lparr> be_windowSize := windowSize \<rparr>), pp_state = m, pp_files = fs,
       pp_i = 0, pp_sent = 0, pp_compressed = 0, pp_skipped = 0, pp_failedStat = 0, pp_main = AtTop, pp_ack = AckIdle, pp_wire = [] \<rparr>"

text \<open>
  The interleavings of the two threads. The connection is seen through the blocks that were sent
  and are not yet answered, in order; the server answers the oldest one, with any status. A
  step of the transferring thread or of the acknowledgement thread is one critical section or
  one atomic update; time-outs can happen whenever the code waits in vain.
\<close>

inductive pipe_step :: "job \<Rightarrow> Pipe \<Rightarrow> Pipe \<Rightarrow> bool" for j where
  loop_error: "pp_main p = AtTop \<Longrightarrow> be_error (pp_engine p) \<Longrightarrow> pipe_step j p (p\<lparr> pp_main := Waiting \<rparr>)"
| loop_end: "pp_main p = AtTop \<Longrightarrow> \<not> pp_i p < jb_total j \<Longrightarrow> pipe_step j p (p\<lparr> pp_main := Waiting \<rparr>)"
| acquire: "pp_main p = AtTop \<Longrightarrow> \<not> be_error (pp_engine p) \<Longrightarrow> pp_i p < jb_total j \<Longrightarrow> AcquireSlot (pp_engine p) = (e, Some s) \<Longrightarrow>
    pipe_step j p (p\<lparr> pp_engine := e, pp_main := HaveSlot s \<rparr>)"
| acquire_timeout: "pp_main p = AtTop \<Longrightarrow> pp_i p < jb_total j \<Longrightarrow> AcquireSlot (pp_engine p) = (e, None) \<Longrightarrow>
    pipe_step j p (p\<lparr> pp_main := Waiting \<rparr>)"
| fill: "pp_main p = HaveSlot s \<Longrightarrow> pipe_step j p (fill_slot j s p)"
| prepare: "pp_main p = Filled s \<Longrightarrow> pipe_step j p (prepare_slot j s p)"
| send: "pp_main p = ReadyToSend s \<Longrightarrow> pipe_step j p (send_slot ok s p)"
| count: "pp_main p = JustSent s \<Longrightarrow> pipe_step j p (count_sent j s p)"
| wait_end: "pp_main p = Waiting \<Longrightarrow> be_inFlight (pp_engine p) \<le> 0 \<or> be_error (pp_engine p) \<Longrightarrow> pipe_step j p (p\<lparr> pp_main := Stopping \<rparr>)"
| wait_timeout: "pp_main p = Waiting \<Longrightarrow> \<not> acks_settled (pp_engine p) \<Longrightarrow> pipe_step j p (p\<lparr> pp_main := Stopping \<rparr>)"
| join: "pp_main p = Stopping \<Longrightarrow> pp_ack p \<in> {AckIdle, AckStopped} \<Longrightarrow>
    pipe_step j p (p\<lparr> pp_failedStat := pp_failedStat p + be_failed (pp_engine p), pp_ack := AckStopped, pp_main := Finished \<rparr>)"
| ack_receive: "pp_ack p = AckIdle \<Longrightarrow> pp_wire p = b # w \<Longrightarrow> record_ack b status (pp_engine p) (pp_state p) = (e, m) \<Longrightarrow>
    pipe_step j p (p\<lparr> pp_wire := w, pp_engine := e, pp_state := m, pp_ack := AckRecorded b \<rparr>)"
| ack_release: "pp_ack p = AckRecorded b \<Longrightarrow> ReleaseSlot b (pp_engine p) = (e, r) \<Longrightarrow>
    pipe_step j p (p\<lparr> pp_engine := e, pp_ack := AckReleased r \<rparr>)"
| ack_count: "pp_ack p = AckReleased r \<Longrightarrow>
    pipe_step j p (p\<lparr> pp_engine := (pp_engine p)\<lparr> be_inFlight := be_inFlight (pp_engine p) - (if r then 1 else 0) \<rparr>, pp_ack := AckIdle \<rparr>)"
| ack_error: "pp_ack p = AckIdle \<Longrightarrow>
    pipe_step j p (p\<lparr> pp_engine := (pp_engine p)\<lparr> be_error := True \<rparr>, pp_ack := AckStopped \<rparr>)"

section \<open>The dry run\<close>

text \<open>
  The loop of \<open>PipelineTransferBlocks\<close> with \<open>DryRun\<close>: nothing is sent, and a block that could be
  read and hashed counts as sent and acknowledged. No acknowledgement thread runs.
\<close>

record Dry =
  dr_state :: BlockStateManager
  dr_files :: file_system
  dr_acked :: nat
  dr_sent :: nat
  dr_failedStat :: nat

definition dry_hash :: "job \<Rightarrow> u64 \<Rightarrow> byte list option" where
  "dry_hash j i =
     (case ReadAt (jb_source j) (i * BLOCK_SIZE) (pipeline_block_size (jb_total j) (jb_size j) i) of
        None \<Rightarrow> None
      | Some data \<Rightarrow> ComputeBlockHash (jb_bcrypt j) (jb_hasher j) data)"

definition dry_block :: "job \<Rightarrow> nat \<Rightarrow> Dry \<Rightarrow> Dry" where
  "dry_block j k d =
     (case dry_hash j (of_nat k) of
        None \<Rightarrow> d\<lparr> dr_failedStat := dr_failedStat d + 1 \<rparr>
      | Some hash \<Rightarrow>
          let m1 = fst (SetBlockHash (of_nat k) hash (dr_state d));
              m2 = fst (SetBlockAck (of_nat k) AckAcknowledged m1);
              n = dr_sent d + 1;
              d1 = d\<lparr> dr_state := m2, dr_acked := dr_acked d + 1, dr_sent := n \<rparr>
          in if n mod 100 = 0
             then (case Save (fst (jb_save j n)) (snd (jb_save j n)) (jb_heap j) m2 (dr_files d) of
                     (m, fs, ok) \<Rightarrow> d1\<lparr> dr_state := m, dr_files := fs \<rparr>)
             else d1)"

definition dry_run :: "job \<Rightarrow> BlockStateManager \<Rightarrow> file_system \<Rightarrow> Dry" where
  "dry_run j m fs = fold (dry_block j) [0..<unat (jb_total j)]
     \<lparr> dr_state = m, dr_files = fs, dr_acked = 0, dr_sent = 0, dr_failedStat = 0 \<rparr>"

section \<open>Slots and outstanding blocks\<close>

text \<open>
  The slot that belongs to a block number, whether in use or not; the slots in use; and the
  relation between the window, the slot the transferring thread holds and the blocks that are
  sent but not released: the slots in use are exactly the held one and those of the
  outstanding blocks.
\<close>

definition slot_of :: "PipelineSlot list \<Rightarrow> u64 \<Rightarrow> nat option" where
  "slot_of w b = find_index (\<lambda>sl. ps_BlockIndex sl = b) w"

definition busy :: "PipelineSlot list \<Rightarrow> nat set" where
  "busy w = {s. s < length w \<and> ps_InUse (w ! s)}"

definition win_ok :: "PipelineSlot list \<Rightarrow> nat option \<Rightarrow> u64 list \<Rightarrow> bool" where
  "win_ok w h out \<longleftrightarrow> distinct out \<and> busy w = set_option h \<union> {s. \<exists>b \<in> set out. slot_of w b = Some s}
     \<and> (\<forall>b \<in> set out. \<exists>s. slot_of w b = Some s \<and> h \<noteq> Some s)"

named_theorems window_simps

lemma win_okD:
  assumes "win_ok w h out"
  shows "distinct out" "busy w = set_option h \<union> {s. \<exists>b \<in> set out. slot_of w b = Some s}"
    "b \<in> set out \<Longrightarrow> \<exists>s. slot_of w b = Some s \<and> h \<noteq> Some s \<and> s \<in> busy w"
  using assms by (fastforce simp: win_ok_def)+

lemma slot_of_Some: "slot_of w b = Some s \<Longrightarrow> s < length w \<and> ps_BlockIndex (w ! s) = b"
  unfolding slot_of_def by (auto dest: find_index_Some)

lemma slot_of_inj: "slot_of w b = Some s \<Longrightarrow> slot_of w c = Some s \<Longrightarrow> b = c"
  by (auto dest!: slot_of_Some)

lemma slot_of_update_same [window_simps]:
  "ps_BlockIndex sl = ps_BlockIndex (w ! s) \<Longrightarrow> slot_of (w[s := sl]) b = slot_of w b"
  unfolding slot_of_def
  by (cases "s < length w") (simp_all add: find_index_map [of ps_BlockIndex] map_update_same list_update_beyond)

lemma busy_update [window_simps]:
  "s < length w \<Longrightarrow> busy (w[s := sl]) = (if ps_InUse sl then insert s (busy w) else busy w - {s})"
  by (auto simp: busy_def nth_list_update)

lemma busy_update_same [window_simps]: "ps_InUse sl = ps_InUse (w ! s) \<Longrightarrow> busy (w[s := sl]) = busy w"
  by (cases "s < length w") (auto simp: busy_def nth_list_update list_update_beyond)

lemma win_ok_data [window_simps]:
  "ps_InUse sl = ps_InUse (w ! s) \<Longrightarrow> ps_BlockIndex sl = ps_BlockIndex (w ! s) \<Longrightarrow> win_ok (w[s := sl]) h out = win_ok w h out"
  by (simp add: win_ok_def window_simps)

lemma win_ok_fresh: "win_ok (replicate n PipelineSlot_new) None []"
  by (auto simp: win_ok_def busy_def PipelineSlot_new_def)

lemma win_ok_acquire:
  assumes "win_ok w None out" "s < length w" "s \<notin> busy w" "ps_InUse sl" "ps_BlockIndex sl = ps_BlockIndex (w ! s)"
  shows "win_ok (w[s := sl]) (Some s) out"
  using assms by (fastforce simp: win_ok_def window_simps)

lemma slot_of_update_new:
  assumes "s < length w" "ps_BlockIndex sl = i" "\<And>t. t < s \<Longrightarrow> ps_BlockIndex (w ! t) \<noteq> i"
  shows "slot_of (w[s := sl]) i = Some s"
  using assms unfolding slot_of_def by (intro find_index_eqI) auto

lemma slot_of_update_other:
  assumes t: "slot_of w b = Some t" and "t \<noteq> s" and sl: "ps_BlockIndex sl \<noteq> b"
  shows "slot_of (w[s := sl]) b = Some t"
proof -
  have "ps_BlockIndex (w[s := sl] ! u) \<noteq> b" if "u < t" for u
    using find_index_least [OF t [unfolded slot_of_def] that] sl slot_of_Some [OF t] that by (cases "u = s") auto
  then show ?thesis using slot_of_Some [OF t] assms(2) unfolding slot_of_def by (intro find_index_eqI) auto
qed

lemma win_ok_fill:
  assumes ok: "win_ok w (Some s) out" and "s < length w" and "ps_InUse sl" and "ps_BlockIndex sl \<notin> set out"
  shows "win_ok (w[s := sl]) (Some s) out"
proof -
  have eq: "\<exists>t. slot_of w b = Some t \<and> slot_of (w[s := sl]) b = Some t \<and> t \<noteq> s" if "b \<in> set out" for b
    using win_okD(3) [OF ok that] slot_of_update_other [of w b _ s sl] assms(4) that by fastforce
  have "s \<in> busy w" using win_okD(2) [OF ok] by simp
  then show ?thesis using win_okD(1,2) [OF ok] eq assms(2,3)
    by (auto simp: win_ok_def window_simps) (metis option.inject)+
qed

lemma win_ok_drop:
  assumes ok: "win_ok w (Some s) out" and "s < length w" and "\<not> ps_InUse sl" and "ps_BlockIndex sl = ps_BlockIndex (w ! s)"
  shows "win_ok (w[s := sl]) None out"
  using win_okD [OF ok] assms(2-) by (fastforce simp: win_ok_def window_simps)

lemma win_ok_send:
  assumes ok: "win_ok w (Some s) out" and "slot_of w i = Some s" and "i \<notin> set out"
  shows "win_ok w None (out @ [i])"
  using win_okD [OF ok] assms(2-) by (fastforce simp: win_ok_def)

lemma win_ok_release:
  assumes ok: "win_ok w h (b # out)" and s: "slot_of w b = Some s" and "\<not> ps_InUse sl" and "ps_BlockIndex sl = ps_BlockIndex (w ! s)"
  shows "win_ok (w[s := sl]) h out"
proof -
  have "s < length w" "h \<noteq> Some s" using slot_of_Some [OF s] win_okD(3) [OF ok, of b] s by auto
  moreover have "slot_of w c \<noteq> Some s" if "c \<in> set out" for c using slot_of_inj [OF s] win_okD(1) [OF ok] that by auto
  ultimately show ?thesis using win_okD [OF ok] assms(2-) by (fastforce simp: win_ok_def window_simps)
qed

text \<open>\<open>ReleaseSlot\<close> finds the slot of an outstanding block.\<close>

lemma release_finds:
  assumes "win_ok w h out" and "b \<in> set out"
  shows "find_index (\<lambda>sl. ps_InUse sl \<and> ps_BlockIndex sl = b) w = slot_of w b"
proof -
  obtain s where s: "slot_of w b = Some s" "s \<in> busy w" using win_okD(3) [OF assms] by auto
  then have "find_index (\<lambda>sl. ps_InUse sl \<and> ps_BlockIndex sl = b) w = Some s"
    using slot_of_Some [OF s(1)] find_index_least [of "\<lambda>sl. ps_BlockIndex sl = b" w s]
    by (intro find_index_eqI) (auto simp: slot_of_def busy_def)
  then show ?thesis by (simp add: s)
qed

lemma win_ok_bound:
  assumes ok: "win_ok w h out"
  shows "length out + card (set_option h) = card (busy w)" and "card (busy w) \<le> length w"
proof -
  define S where "S = {s. \<exists>b \<in> set out. slot_of w b = Some s}"
  have the: "slot_of w b = Some (the (slot_of w b))" if "b \<in> set out" for b using win_okD(3) [OF ok that] by auto
  have S: "S = (\<lambda>b. the (slot_of w b)) ` set out"
  proof (intro set_eqI iffI)
    fix s assume "s \<in> S"
    then show "s \<in> (\<lambda>b. the (slot_of w b)) ` set out" by (force simp: S_def)
  next
    fix s assume "s \<in> (\<lambda>b. the (slot_of w b)) ` set out"
    then show "s \<in> S" using the by (auto simp: S_def)
  qed
  have "inj_on (\<lambda>b. the (slot_of w b)) (set out)"
    using the slot_of_inj [of w] by (auto intro!: inj_onI) (metis the)
  then have "card S = length out" using win_okD(1) [OF ok] by (simp add: S card_image distinct_card)
  moreover have "set_option h \<inter> S = {}" using win_okD(3) [OF ok] by (fastforce simp: S_def)
  moreover have "finite S" by (simp add: S)
  ultimately show "length out + card (set_option h) = card (busy w)"
    using win_okD(2) [OF ok] by (simp add: S_def card_Un_disjoint)
  show "card (busy w) \<le> length w" using card_mono [of "{..<length w}" "busy w"] by (auto simp: busy_def)
qed

text \<open>A full window has an outstanding block.\<close>

lemma win_ok_full:
  assumes ok: "win_ok w None out" and "w \<noteq> []" and "find_index (\<lambda>sl. \<not> ps_InUse sl) w = None"
  shows "out \<noteq> []"
proof -
  have "0 \<in> busy w" using assms(2,3) by (simp add: busy_def find_index_None)
  then show ?thesis using win_okD(2) [OF ok] by auto
qed

section \<open>Invariants\<close>

text \<open>The blocks sent and not yet released, the slot the transferring thread holds, and how far it is with its block.\<close>

definition outstanding :: "Pipe \<Rightarrow> u64 list" where
  "outstanding p = (case pp_ack p of AckRecorded b \<Rightarrow> [b] | _ \<Rightarrow> []) @ pp_wire p"

fun held :: "main_pc \<Rightarrow> nat option" where
  "held (HaveSlot s) = Some s"
| "held (Filled s) = Some s"
| "held (ReadyToSend s) = Some s"
| "held _ = None"

fun just_sent :: "main_pc \<Rightarrow> nat" where
  "just_sent (JustSent s) = 1"
| "just_sent _ = 0"

fun placed :: "main_pc \<Rightarrow> nat" where
  "placed AtTop = 0"
| "placed (HaveSlot s) = 0"
| "placed _ = 1"

fun in_loop :: "main_pc \<Rightarrow> nat" where
  "in_loop (HaveSlot s) = 1"
| "in_loop (Filled s) = 1"
| "in_loop (ReadyToSend s) = 1"
| "in_loop (JustSent s) = 1"
| "in_loop _ = 0"

fun slot_right :: "main_pc \<Rightarrow> u64 \<Rightarrow> PipelineSlot list \<Rightarrow> bool" where
  "slot_right (HaveSlot s) i w \<longleftrightarrow> i = 0 \<longrightarrow> s = 0"
| "slot_right (Filled s) i w \<longleftrightarrow> slot_of w i = Some s"
| "slot_right (ReadyToSend s) i w \<longleftrightarrow> slot_of w i = Some s"
| "slot_right _ i w \<longleftrightarrow> True"

definition inv_window :: "job \<Rightarrow> Pipe \<Rightarrow> bool" where
  "inv_window j p \<longleftrightarrow>
     win_ok (be_window (pp_engine p)) (held (pp_main p)) (outstanding p)
     \<and> unat (pp_i p) + in_loop (pp_main p) \<le> unat (jb_total j)
     \<and> (\<forall>b \<in> set (outstanding p). unat b < unat (pp_i p) + just_sent (pp_main p))
     \<and> (\<forall>b \<in> set (map ps_BlockIndex (be_window (pp_engine p))). b = 0 \<or> unat b < unat (pp_i p) + placed (pp_main p))
     \<and> slot_right (pp_main p) (pp_i p) (be_window (pp_engine p))"

lemma in_loop_next [simp]:
  "unat (i :: u64) + 1 \<le> unat (n :: u64) \<Longrightarrow> unat (i + 1) = unat i + 1"
  using unat_u64_bound [of n] by (simp add: unat_word_ariths)

lemma slot_of_update_data:
  "ps_BlockIndex (f (w ! s)) = ps_BlockIndex (w ! s) \<Longrightarrow> map ps_BlockIndex (w[s := f (w ! s)]) = map ps_BlockIndex w"
  by (cases "s < length w") (simp_all add: map_update_same list_update_beyond)

lemma slot_of_indices: "map ps_BlockIndex w = map ps_BlockIndex w' \<Longrightarrow> slot_of w = slot_of w'"
  by (simp add: slot_of_def fun_eq_iff find_index_map [of ps_BlockIndex])

lemma inv_window_acquire:
  assumes inv: "inv_window j p" and top: "pp_main p = AtTop" and i: "pp_i p < jb_total j"
    and acq: "AcquireSlot (pp_engine p) = (e, Some s)"
  shows "inv_window j (p\<lparr> pp_engine := e, pp_main := HaveSlot s \<rparr>)"
proof -
  define w where "w = be_window (pp_engine p)"
  have f: "find_index (\<lambda>sl. \<not> ps_InUse sl) w = Some s"
    and w': "be_window e = w[s := (w ! s)\<lparr> ps_InUse := True \<rparr>]"
    using acq by (auto simp: AcquireSlot_def set_slot_def w_def split: if_splits option.splits)
  have s: "s < length w" "s \<notin> busy w" using find_index_Some [OF f] by (auto simp: busy_def)
  have ok: "win_ok w None (outstanding p)" using inv top by (simp add: inv_window_def w_def)
  have "s = 0" if "pp_i p = 0"
  proof (rule ccontr)
    assume "s \<noteq> 0"
    then have "0 \<in> busy w" using find_index_least [OF f, of 0] s by (auto simp: busy_def)
    moreover have "outstanding p = []" using inv top that by (cases "outstanding p") (auto simp: inv_window_def)
    ultimately show False using win_okD(2) [OF ok] by simp
  qed
  moreover have "win_ok (be_window e) (Some s) (outstanding p)" unfolding w' using ok s by (intro win_ok_acquire) auto
  ultimately show ?thesis using inv top i
    by (auto simp: inv_window_def outstanding_def w' slot_of_update_data w_def word_less_nat_alt)
qed

lemma inv_window_fill:
  assumes inv: "inv_window j p" and pc: "pp_main p = HaveSlot s"
  shows "inv_window j (fill_slot j s p)"
proof -
  define w where "w = be_window (pp_engine p)"
  define sl where "sl = (w ! s)\<lparr> ps_BlockIndex := pp_i p,
     ps_BlockData := replicate (unat (pipeline_block_size (jb_total j) (jb_size j) (pp_i p))) 0,
     ps_RawSize := pipeline_block_size (jb_total j) (jb_size j) (pp_i p), ps_SendFailed := False \<rparr>"
  have w': "be_window (pp_engine (fill_slot j s p)) = w[s := sl]" by (simp add: fill_slot_def set_slot_def w_def sl_def Let_def)
  have ok: "win_ok w (Some s) (outstanding p)" using inv pc by (simp add: inv_window_def w_def)
  have s: "s < length w" "ps_InUse (w ! s)" using win_okD(2) [OF ok] by (auto simp: busy_def)
  have old: "ps_BlockIndex (w ! t) = 0 \<or> unat (ps_BlockIndex (w ! t)) < unat (pp_i p)" if "t < length w" for t
    using inv pc that by (auto simp: inv_window_def w_def)
  have "ps_BlockIndex (w ! t) \<noteq> pp_i p" if "t < s" for t
    using old [of t] that s inv pc by (auto simp: inv_window_def)
  then have "slot_of (w[s := sl]) (pp_i p) = Some s" using s by (intro slot_of_update_new) (auto simp: sl_def)
  moreover have "win_ok (w[s := sl]) (Some s) (outstanding p)"
    using ok s inv pc by (intro win_ok_fill) (auto simp: sl_def inv_window_def)
  moreover have "b = 0 \<or> unat b < unat (pp_i p) + 1" if "b \<in> set (map ps_BlockIndex (w[s := sl]))" for b
  proof -
    have "b \<in> insert (pp_i p) (set (map ps_BlockIndex w))"
      using that set_update_subset_insert [of "map ps_BlockIndex w" s "pp_i p"] by (auto simp: map_update sl_def)
    then show ?thesis using old by (auto simp: in_set_conv_nth) (metis less_SucI)
  qed
  ultimately show ?thesis using inv pc
    by (simp add: inv_window_def w' outstanding_def) (auto simp: fill_slot_def Let_def)
qed

text \<open>Giving up the held block, whether the loop goes on or not.\<close>

lemma inv_window_drop:
  assumes inv: "inv_window j p" and pc: "pp_main p \<in> {Filled s, ReadyToSend s}"
    and w': "be_window (pp_engine q) = (be_window (pp_engine p))[s := sl]"
    and sl: "\<not> ps_InUse sl" "ps_BlockIndex sl = ps_BlockIndex (be_window (pp_engine p) ! s)"
    and q: "outstanding q = outstanding p" "pp_i q = pp_i p + 1 \<and> pp_main q = AtTop \<or> pp_i q = pp_i p \<and> pp_main q = Waiting"
  shows "inv_window j q"
proof -
  define w where "w = be_window (pp_engine p)"
  have ok: "win_ok w (Some s) (outstanding p)" using inv pc by (auto simp: inv_window_def w_def)
  have s: "s < length w" using win_okD(2) [OF ok] by (auto simp: busy_def)
  have "win_ok (w[s := sl]) None (outstanding p)" using ok s sl by (intro win_ok_drop) (auto simp: w_def)
  moreover have "map ps_BlockIndex (w[s := sl]) = map ps_BlockIndex w" using s sl by (intro map_update_same) (auto simp: w_def)
  moreover have "unat (pp_i p) + 1 \<le> unat (jb_total j)" using inv pc by (auto simp: inv_window_def)
  ultimately show ?thesis using inv pc q by (auto simp: inv_window_def w' w_def)
qed

text \<open>Changing only the contents of a slot.\<close>

lemma inv_window_data:
  assumes inv: "inv_window j p" and w': "be_window (pp_engine q) = (be_window (pp_engine p))[s := sl]"
    and sl: "ps_InUse sl = ps_InUse (be_window (pp_engine p) ! s)" "ps_BlockIndex sl = ps_BlockIndex (be_window (pp_engine p) ! s)"
    and q: "outstanding q = outstanding p" "pp_i q = pp_i p" "pp_main q = pp_main p \<or> pp_main p = Filled s \<and> pp_main q = ReadyToSend s"
  shows "inv_window j q"
proof -
  have "map ps_BlockIndex (be_window (pp_engine q)) = map ps_BlockIndex (be_window (pp_engine p))"
    unfolding w' using sl by (cases "s < length (be_window (pp_engine p))") (simp_all add: map_update_same list_update_beyond)
  moreover from slot_of_indices [OF this] have "slot_right (pp_main q) (pp_i p) (be_window (pp_engine q))"
    using inv q by (cases "pp_main p") (auto simp: inv_window_def)
  ultimately show ?thesis using inv q sl by (auto simp: inv_window_def w' window_simps)
qed

lemma inv_window_send:
  assumes inv: "inv_window j p" and pc: "pp_main p = ReadyToSend s"
  shows "inv_window j (p\<lparr> pp_wire := pp_wire p @ [pp_i p], pp_main := JustSent s \<rparr>)"
proof -
  define q where "q = p\<lparr> pp_wire := pp_wire p @ [pp_i p], pp_main := JustSent s \<rparr>"
  have out: "outstanding q = outstanding p @ [pp_i p]" by (simp add: q_def outstanding_def)
  have "pp_i p \<notin> set (outstanding p)" using inv pc by (auto simp: inv_window_def)
  then have "win_ok (be_window (pp_engine p)) None (outstanding q)"
    unfolding out using inv pc by (intro win_ok_send) (auto simp: inv_window_def)
  then have "inv_window j q" using inv pc unfolding inv_window_def by (auto simp: out) (auto simp: q_def)
  then show ?thesis by (simp add: q_def)
qed

lemma inv_window_release:
  assumes inv: "inv_window j p" and pc: "pp_ack p = AckRecorded b" and rel: "ReleaseSlot b (pp_engine p) = (e, r)"
  shows "inv_window j (p\<lparr> pp_engine := e, pp_ack := AckReleased r \<rparr>) \<and> r"
proof -
  define w where "w = be_window (pp_engine p)"
  have ok: "win_ok w (held (pp_main p)) (b # pp_wire p)" using inv pc by (simp add: inv_window_def outstanding_def w_def)
  obtain s where s: "slot_of w b = Some s" using win_okD(3) [OF ok, of b] by auto
  define sl where "sl = (w ! s)\<lparr> ps_InUse := False, ps_BlockData := [], ps_Compressed := [] \<rparr>"
  have f: "find_index (\<lambda>sl. ps_InUse sl \<and> ps_BlockIndex sl = b) w = Some s" using release_finds [OF ok, of b] s by simp
  have w': "be_window e = w[s := sl]" and r using rel f by (auto simp: ReleaseSlot_def set_slot_def sl_def w_def)
  have "win_ok (w[s := sl]) (held (pp_main p)) (pp_wire p)" using ok s by (rule win_ok_release) (auto simp: sl_def)
  moreover have ix: "map ps_BlockIndex (w[s := sl]) = map ps_BlockIndex w"
    using slot_of_Some [OF s] by (intro map_update_same) (auto simp: sl_def)
  moreover from slot_of_indices [OF ix] have "slot_right (pp_main p) (pp_i p) (w[s := sl]) = slot_right (pp_main p) (pp_i p) w"
    by (cases "pp_main p") auto
  ultimately show ?thesis using inv pc \<open>r\<close> by (simp add: inv_window_def outstanding_def w' w_def)
qed

lemma Save_blocks: "Save c v hp m fs = (m', fs', ok) \<Longrightarrow> m_blocks m' = m_blocks m"
  by (auto simp: Save_def Let_def split: if_splits)

lemma count_sent_fields:
  "be_window (pp_engine (count_sent j s p)) = (be_window (pp_engine p))[s := (be_window (pp_engine p) ! s)\<lparr> ps_BlockData := [] \<rparr>]"
  "be_inFlight (pp_engine (count_sent j s p)) = be_inFlight (pp_engine p) + 1"
  "be_acked (pp_engine (count_sent j s p)) = be_acked (pp_engine p)" "be_failed (pp_engine (count_sent j s p)) = be_failed (pp_engine p)"
  "be_error (pp_engine (count_sent j s p)) = be_error (pp_engine p)" "pp_wire (count_sent j s p) = pp_wire p"
  "pp_ack (count_sent j s p) = pp_ack p" "pp_main (count_sent j s p) = AtTop" "pp_i (count_sent j s p) = pp_i p + 1"
  "pp_sent (count_sent j s p) = pp_sent p + 1" "pp_skipped (count_sent j s p) = pp_skipped p"
  "pp_failedStat (count_sent j s p) = pp_failedStat p"
  "m_blocks (pp_state (count_sent j s p)) = m_blocks (pp_state p)"
  by (auto simp: count_sent_def Let_def set_slot_def split: prod.splits dest: Save_blocks)

lemma inv_window_count:
  assumes inv: "inv_window j p" and pc: "pp_main p = JustSent s"
  shows "inv_window j (count_sent j s p)"
proof -
  have out: "outstanding (count_sent j s p) = outstanding p" by (simp add: outstanding_def count_sent_fields)
  have "unat (pp_i p) + 1 \<le> unat (jb_total j)" using inv pc by (simp add: inv_window_def)
  then show ?thesis using inv pc
    by (simp add: inv_window_def out count_sent_fields window_simps slot_of_update_data)
qed

section \<open>Steps preserve the window\<close>

lemma length_filter_update:
  "i < length xs \<Longrightarrow> length (filter P (xs[i := y])) + of_bool (P (xs ! i)) = length (filter P xs) + of_bool (P y)"
proof (induction xs arbitrary: i)
  case (Cons x xs)
  then show ?case by (cases i) auto
qed simp

lemma inv_window_cong:
  assumes "inv_window j p" and "be_window (pp_engine q) = be_window (pp_engine p)" "outstanding q = outstanding p"
    "pp_i q = pp_i p" "pp_main q = pp_main p \<or> pp_main p \<in> {AtTop, Waiting, Stopping} \<and> pp_main q \<in> {Waiting, Stopping, Finished}"
  shows "inv_window j q"
  using assms by (auto simp: inv_window_def)

lemma record_ack_window: "record_ack b st e m = (e', m') \<Longrightarrow> be_window e' = be_window e \<and> be_inFlight e' = be_inFlight e"
  by (auto simp: record_ack_def split: if_splits)

lemma inv_window_prepare:
  assumes "inv_window j p" and "pp_main p = Filled s"
  shows "inv_window j (prepare_slot j s p)"
proof (cases "prepare_block j (pp_i p)")
  case (PrepFailed h)
  let ?sl = "be_window (pp_engine p) ! s"
  show ?thesis
    by (rule inv_window_drop [OF assms(1), where s = s and sl = "dropped (?sl\<lparr> ps_Hash := (case h of None \<Rightarrow> ps_Hash ?sl | Some hash \<Rightarrow> hash) \<rparr>)"])
      (simp_all add: assms(2) PrepFailed prepare_slot_def dropped_def set_slot_def outstanding_def)
next
  case (PrepReady data hash z)
  show ?thesis
    by (rule inv_window_data [OF assms(1), where s = s and sl = "(be_window (pp_engine p) ! s)\<lparr> ps_BlockData := data, ps_Hash := hash, ps_Compressed := z \<rparr>"])
      (simp_all add: assms(2) PrepReady prepare_slot_def set_slot_def outstanding_def)
qed

lemma inv_window_send_slot:
  assumes "inv_window j p" and "pp_main p = ReadyToSend s"
  shows "inv_window j (send_slot ok s p)"
proof (cases ok)
  case True
  then show ?thesis using inv_window_send [OF assms] by (simp add: send_slot_def)
next
  case False
  then show ?thesis
    by (intro inv_window_drop [OF assms(1), where s = s and sl = "dropped (be_window (pp_engine p) ! s)"])
      (simp_all add: assms(2) send_slot_def dropped_def set_slot_def outstanding_def)
qed

lemma inv_window_step:
  assumes "pipe_step j p q" and "inv_window j p"
  shows "inv_window j q"
  using assms
proof (induction rule: pipe_step.induct)
  case (ack_receive p b w status e m)
  then have out: "outstanding (p\<lparr> pp_wire := w, pp_engine := e, pp_state := m, pp_ack := AckRecorded b \<rparr>) = outstanding p"
    by (simp add: outstanding_def)
  show ?case by (rule inv_window_cong [OF ack_receive.prems]) (use out record_ack_window [OF ack_receive(3)] in simp_all)
next
  case (ack_release p b e r)
  then show ?case using inv_window_release by blast
next
  case (acquire p e s)
  then show ?case using inv_window_acquire by blast
next
  case (fill p s)
  then show ?case using inv_window_fill by blast
next
  case (prepare p s)
  then show ?case using inv_window_prepare by blast
next
  case (send p s ok)
  then show ?case using inv_window_send_slot by blast
next
  case (count p s)
  then show ?case using inv_window_count by blast
qed (auto elim!: inv_window_cong simp: outstanding_def)

section \<open>Counters\<close>

definition inv_count :: "Pipe \<Rightarrow> bool" where
  "inv_count p \<longleftrightarrow>
     be_inFlight (pp_engine p) + int (just_sent (pp_main p)) = int (length (outstanding p)) + of_bool (pp_ack p = AckReleased True)
     \<and> pp_ack p \<noteq> AckReleased False
     \<and> pp_sent p + just_sent (pp_main p) = be_acked (pp_engine p) + be_failed (pp_engine p) + length (pp_wire p)
     \<and> unat (pp_i p) = pp_sent p + pp_skipped p
     \<and> pp_failedStat p = pp_skipped p + (if pp_main p = Finished then be_failed (pp_engine p) else 0)
     \<and> (pp_ack p = AckStopped \<longrightarrow> be_error (pp_engine p) \<or> pp_main p = Finished)
     \<and> (pp_main p = Finished \<longrightarrow> pp_ack p = AckStopped)"

lemma AcquireSlot_counts: "AcquireSlot e = (e', r) \<Longrightarrow> be_inFlight e' = be_inFlight e \<and> be_acked e' = be_acked e \<and> be_failed e' = be_failed e \<and> be_error e' = be_error e"
  by (auto simp: AcquireSlot_def set_slot_def split: if_splits option.splits)

lemma ReleaseSlot_counts: "ReleaseSlot b e = (e', r) \<Longrightarrow> be_inFlight e' = be_inFlight e \<and> be_acked e' = be_acked e \<and> be_failed e' = be_failed e \<and> be_error e' = be_error e"
  by (auto simp: ReleaseSlot_def set_slot_def split: option.splits)

lemma in_loop_step: "inv_window j p \<Longrightarrow> in_loop (pp_main p) = 1 \<Longrightarrow> unat (pp_i p + 1) = unat (pp_i p) + 1"
  using in_loop_next [of "pp_i p" "jb_total j"] by (simp add: inv_window_def)

lemma inv_count_step:
  assumes "pipe_step j p q" and "inv_count p" and "inv_window j p"
  shows "inv_count q"
  using assms
proof (induction rule: pipe_step.induct)
  case (acquire p e s)
  then show ?case using AcquireSlot_counts [OF acquire(4)] by (auto simp: inv_count_def outstanding_def)
next
  case (fill p s)
  then show ?case by (auto simp: inv_count_def outstanding_def fill_slot_def set_slot_def Let_def)
next
  case (prepare p s)
  then show ?case using in_loop_step [OF prepare(3)]
    by (cases "prepare_block j (pp_i p)") (auto simp: inv_count_def outstanding_def prepare_slot_def set_slot_def)
next
  case (send p s ok)
  then show ?case by (auto simp: inv_count_def outstanding_def send_slot_def set_slot_def)
next
  case (count p s)
  then show ?case using in_loop_step [OF count(3)]
    by (auto simp: inv_count_def outstanding_def count_sent_fields)
next
  case (ack_receive p b w status e m)
  then show ?case by (auto simp: inv_count_def outstanding_def record_ack_def split: if_splits)
next
  case (ack_release p b e r)
  then have r using inv_window_release by blast
  then show ?case using ack_release ReleaseSlot_counts [OF ack_release(2)] by (auto simp: inv_count_def outstanding_def)
next
  case (ack_count p r)
  then show ?case by (cases r) (auto simp: inv_count_def outstanding_def)
qed (auto simp: inv_count_def outstanding_def)

section \<open>The block table\<close>

definition inv_state :: "job \<Rightarrow> Pipe \<Rightarrow> bool" where
  "inv_state j p \<longleftrightarrow>
     length (m_blocks (pp_state p)) = unat (jb_total j)
     \<and> length (GetBlocksByAck AckAcknowledged (pp_state p)) = be_acked (pp_engine p)
     \<and> length (GetBlocksByAck AckFailed (pp_state p)) = be_failed (pp_engine p)
     \<and> (\<forall>k < unat (jb_total j). k \<in> unat ` set (pp_wire p) \<or> unat (pp_i p) + just_sent (pp_main p) \<le> k \<longrightarrow>
           bs_Ack (m_blocks (pp_state p) ! k) = AckPending)"

text \<open>All that matters of a table here: the states of its blocks.\<close>

definition ack_states :: "BlockStateManager \<Rightarrow> BlockAck list" where
  "ack_states m = map bs_Ack (m_blocks m)"

lemma GetBlocksByAck_states: "length (GetBlocksByAck st m) = length (filter (\<lambda>a. a = st) (ack_states m))"
  by (simp add: GetBlocksByAck_def ack_states_def filter_map comp_def)

lemma inv_state_alt:
  "inv_state j p \<longleftrightarrow>
     length (ack_states (pp_state p)) = unat (jb_total j)
     \<and> length (filter (\<lambda>a. a = AckAcknowledged) (ack_states (pp_state p))) = be_acked (pp_engine p)
     \<and> length (filter (\<lambda>a. a = AckFailed) (ack_states (pp_state p))) = be_failed (pp_engine p)
     \<and> (\<forall>k < unat (jb_total j). k \<in> unat ` set (pp_wire p) \<or> unat (pp_i p) + just_sent (pp_main p) \<le> k \<longrightarrow>
           ack_states (pp_state p) ! k = AckPending)"
  unfolding inv_state_def GetBlocksByAck_states by (auto simp: ack_states_def)

lemma ack_states_SetBlockHash: "ack_states (fst (SetBlockHash i h m)) = ack_states m"
  by (auto simp: ack_states_def SetBlockHash_def Let_def intro: map_update_same)

lemma ack_states_store_hash: "ack_states (store_hash i h m) = ack_states m"
  by (simp add: store_hash_def ack_states_SetBlockHash split: option.split)

lemma ack_states_SetBlockAck: "ack_states (fst (SetBlockAck i st m)) = (ack_states m)[unat i := st]"
  by (auto simp: ack_states_def SetBlockAck_def ack_block_def Let_def map_update list_update_beyond)

lemma inv_state_receive:
  assumes inv: "inv_state j p" and win: "inv_window j p" and wire: "pp_wire p = b # w"
    and rec: "record_ack b status (pp_engine p) (pp_state p) = (e, m)"
  shows "inv_state j (p\<lparr> pp_wire := w, pp_engine := e, pp_state := m, pp_ack := AckRecorded b \<rparr>)"
proof -
  define as where "as = ack_states (pp_state p)"
  define st where "st = (if status = 0 then AckAcknowledged else AckFailed)"
  have as': "ack_states m = as[unat b := st]" and e: "be_acked e = be_acked (pp_engine p) + of_bool (st = AckAcknowledged)"
    "be_failed e = be_failed (pp_engine p) + of_bool (st = AckFailed)"
    using rec by (auto simp: record_ack_def as_def st_def ack_states_SetBlockAck split: if_splits)
  have bs: "unat b < length as" "unat b < unat (pp_i p) + just_sent (pp_main p)" "b \<notin> set w" and tot: "length as = unat (jb_total j)"
  proof -
    show "length as = unat (jb_total j)" using inv by (simp add: inv_state_alt as_def)
    show i: "unat b < unat (pp_i p) + just_sent (pp_main p)" using win wire by (simp add: inv_window_def outstanding_def)
    have "unat (pp_i p) + just_sent (pp_main p) \<le> unat (jb_total j)" using win by (cases "pp_main p") (auto simp: inv_window_def)
    then show "unat b < length as" using i inv by (simp add: inv_state_alt as_def)
    show "b \<notin> set w" using win wire by (auto simp: inv_window_def outstanding_def win_ok_def)
  qed
  have pend: "as ! unat b = AckPending" using inv wire bs(1) tot by (simp add: inv_state_alt as_def)
  have "length (filter (\<lambda>a. a = x) (as[unat b := st])) = length (filter (\<lambda>a. a = x) as) + of_bool (st = x)" if "x \<noteq> AckPending" for x
    using length_filter_update [OF bs(1), of "\<lambda>a. a = x" st] pend that by auto
  moreover have "as[unat b := st] ! k = AckPending"
    if "k < unat (jb_total j)" "k \<in> unat ` set w \<or> unat (pp_i p) + just_sent (pp_main p) \<le> k" for k
  proof -
    have "k \<noteq> unat b" using that(2) bs(2,3) by (metis imageE leD word_unat_eq_iff)
    moreover have "as ! k = AckPending" using inv that wire by (auto simp: inv_state_alt as_def)
    ultimately show ?thesis by simp
  qed
  ultimately show ?thesis using inv by (simp add: inv_state_alt as' e as_def)
qed

lemma inv_state_cong:
  assumes "inv_state j p" and "ack_states (pp_state q) = ack_states (pp_state p)" "be_acked (pp_engine q) = be_acked (pp_engine p)"
    "be_failed (pp_engine q) = be_failed (pp_engine p)" "set (pp_wire q) \<subseteq> set (pp_wire p) \<union> {b. b = pp_i p \<and> just_sent (pp_main p) = 0}"
    "unat (pp_i p) + just_sent (pp_main p) \<le> unat (pp_i q) + just_sent (pp_main q)"
  shows "inv_state j q"
  using assms unfolding inv_state_alt by fastforce

lemma inv_state_step:
  assumes "pipe_step j p q" and "inv_state j p" and "inv_window j p"
  shows "inv_state j q"
  using assms
proof (induction rule: pipe_step.induct)
  case (ack_receive p b w status e m)
  then show ?case using inv_state_receive by blast
next
  case (acquire p e s)
  then show ?case using AcquireSlot_counts [OF acquire(4)] by (auto elim!: inv_state_cong)
next
  case (fill p s)
  then show ?case by (auto elim!: inv_state_cong simp: fill_slot_def set_slot_def Let_def)
next
  case (prepare p s)
  then show ?case using in_loop_step [OF prepare(3)]
    by (cases "prepare_block j (pp_i p)") (auto elim!: inv_state_cong simp: prepare_slot_def set_slot_def ack_states_store_hash)
next
  case (send p s ok)
  then show ?case by (auto elim!: inv_state_cong simp: send_slot_def set_slot_def)
next
  case (count p s)
  have "ack_states (pp_state (count_sent j s p)) = ack_states (pp_state p)" by (simp add: ack_states_def count_sent_fields)
  then show ?case using in_loop_step [OF count(3)] count
    by (auto elim!: inv_state_cong simp: count_sent_fields)
next
  case (ack_release p b e r)
  then show ?case using ReleaseSlot_counts [OF ack_release(2)] by (auto elim!: inv_state_cong)
qed (auto elim!: inv_state_cong)

section \<open>Properties\<close>

definition inv_pipe :: "job \<Rightarrow> nat \<Rightarrow> Pipe \<Rightarrow> bool" where
  "inv_pipe j n p \<longleftrightarrow> inv_window j p \<and> inv_count p \<and> inv_state j p \<and> length (be_window (pp_engine p)) = n"

lemma window_length_step: "pipe_step j p q \<Longrightarrow> length (be_window (pp_engine q)) = length (be_window (pp_engine p))"
  by (induction rule: pipe_step.induct)
    (auto simp: AcquireSlot_def ReleaseSlot_def set_slot_def fill_slot_def prepare_slot_def send_slot_def count_sent_fields
       record_ack_def Let_def split: if_splits option.splits prepared.splits)

lemma InitFull_pending:
  assumes "InitFullBlocksEmpty vid n m0 = (m, True)"
  shows "ack_states m = replicate (unat n) AckPending"
proof -
  have "m_blocks m = map (fresh_block vid (replicate 32 0)) [0..<unat n]"
    using assms by (auto simp: InitFullBlocksEmpty_def Let_def split: option.splits)
  then show ?thesis by (simp add: ack_states_def comp_def fresh_block_def map_replicate_const)
qed

lemma inv_pipe_start:
  assumes "InitFullBlocksEmpty vid (jb_total j) m0 = (m, True)"
  shows "inv_pipe j (nat n) (pipe_start n m fs)"
  using win_ok_fresh [of "nat n"]
  by (auto simp: inv_pipe_def inv_window_def inv_count_def inv_state_alt InitFull_pending [OF assms] pipe_start_def outstanding_def
     ResetPipelineWindow_def Engine_new_def PipelineSlot_new_def)

text \<open>An upper bound on the steps a transfer can still make.\<close>

fun main_left :: "main_pc \<Rightarrow> nat" where
  "main_left AtTop = 9"
| "main_left (HaveSlot s) = 8"
| "main_left (Filled s) = 7"
| "main_left (ReadyToSend s) = 6"
| "main_left (JustSent s) = 2"
| "main_left Waiting = 2"
| "main_left Stopping = 1"
| "main_left Finished = 0"

fun ack_left :: "ack_pc \<Rightarrow> nat" where
  "ack_left AckIdle = 1"
| "ack_left (AckRecorded b) = 3"
| "ack_left (AckReleased r) = 2"
| "ack_left AckStopped = 0"

definition steps_left :: "job \<Rightarrow> Pipe \<Rightarrow> nat" where
  "steps_left j p = 10 * (unat (jb_total j) - unat (pp_i p)) + 3 * length (pp_wire p) + main_left (pp_main p) + ack_left (pp_ack p)"

lemma in_loop_less: "inv_window j p \<Longrightarrow> in_loop (pp_main p) = 1 \<Longrightarrow> unat (pp_i p) < unat (jb_total j)"
  by (simp add: inv_window_def)

lemma steps_left_step:
  assumes "pipe_step j p q" and "inv_window j p"
  shows "steps_left j q < steps_left j p"
  using assms
proof (induction rule: pipe_step.induct)
  case (prepare p s)
  then show ?case using in_loop_step [OF prepare(2)] in_loop_less [OF prepare(2)]
    by (cases "prepare_block j (pp_i p)") (auto simp: steps_left_def prepare_slot_def)
next
  case (count p s)
  then show ?case using in_loop_step [OF count(2)] in_loop_less [OF count(2)] by (auto simp: steps_left_def count_sent_fields)
next
  case (join p)
  then show ?case by (auto simp: steps_left_def)
qed (auto simp: steps_left_def fill_slot_def send_slot_def Let_def)

text \<open>The start of a transfer: a window of \<open>n\<close> slots and a table with all blocks pending.\<close>

definition fresh_pipe :: "job \<Rightarrow> nat \<Rightarrow> Pipe \<Rightarrow> bool" where
  "fresh_pipe j n p \<longleftrightarrow> (\<exists>vid w m0 m fs. InitFullBlocksEmpty vid (jb_total j) m0 = (m, True) \<and> p = pipe_start w m fs \<and> n = nat w)"

lemma fresh_pipeI: "InitFullBlocksEmpty vid (jb_total j) m0 = (m, True) \<Longrightarrow> fresh_pipe j (nat n) (pipe_start n m fs)"
  unfolding fresh_pipe_def by blast

interpretation pipe: ending_machine "pipe_step j" "fresh_pipe j n" "inv_pipe j n" "steps_left j" for j n
proof unfold_locales
  fix p q
  show "fresh_pipe j n p \<Longrightarrow> inv_pipe j n p" by (auto simp: fresh_pipe_def inv_pipe_start)
  show "pipe_step j p q \<Longrightarrow> inv_pipe j n p \<Longrightarrow> inv_pipe j n q"
    using inv_window_step inv_count_step inv_state_step window_length_step unfolding inv_pipe_def by metis
  show "pipe_step j p q \<Longrightarrow> inv_pipe j n p \<Longrightarrow> steps_left j q < steps_left j p"
    using steps_left_step by (simp add: inv_pipe_def)
qed

lemma inv_pipe_run:
  assumes "InitFullBlocksEmpty vid (jb_total j) m0 = (m, True)" and "(pipe_step j)\<^sup>*\<^sup>* (pipe_start n m fs) p"
  shows "inv_pipe j (nat n) p"
  by (rule pipe.inv_reachable [OF fresh_pipeI [OF assms(1)] assms(2)])

text \<open>
  C11. In every interleaving of the two threads, no more blocks are unanswered than the window
  has slots and none of them twice, every block sent is acknowledged, refused or still on the wire, the block
  table shows exactly the answers received, and a block on the wire is still pending there.
\<close>

theorem pipeline_accounting:
  assumes "InitFullBlocksEmpty vid (jb_total j) m0 = (m, True)" and "(pipe_step j)\<^sup>*\<^sup>* (pipe_start n m fs) p"
  shows "length (outstanding p) \<le> nat n \<and> distinct (outstanding p)
    \<and> pp_sent p + just_sent (pp_main p) = be_acked (pp_engine p) + be_failed (pp_engine p) + length (pp_wire p)
    \<and> length (GetBlocksByAck AckAcknowledged (pp_state p)) = be_acked (pp_engine p)
    \<and> length (GetBlocksByAck AckFailed (pp_state p)) = be_failed (pp_engine p)
    \<and> (\<forall>b \<in> set (pp_wire p). bs_Ack (GetBlockState b (pp_state p)) = AckPending)"
proof -
  have inv: "inv_pipe j (nat n) p" using inv_pipe_run [OF assms] .
  then have ok: "win_ok (be_window (pp_engine p)) (held (pp_main p)) (outstanding p)" by (simp add: inv_pipe_def inv_window_def)
  have "bs_Ack (GetBlockState b (pp_state p)) = AckPending" if "b \<in> set (pp_wire p)" for b
  proof -
    have "unat b < unat (pp_i p) + just_sent (pp_main p)" using inv that by (auto simp: inv_pipe_def inv_window_def outstanding_def)
    moreover have "unat (pp_i p) + just_sent (pp_main p) \<le> unat (jb_total j)"
      using inv by (cases "pp_main p") (auto simp: inv_pipe_def inv_window_def)
    ultimately have "unat b < unat (jb_total j)" by simp
    moreover from this have "bs_Ack (m_blocks (pp_state p) ! unat b) = AckPending"
      using inv that by (auto simp: inv_pipe_def inv_state_def)
    ultimately show ?thesis using inv by (simp add: GetBlockState_def inv_pipe_def inv_state_def)
  qed
  then show ?thesis using inv win_ok_bound [OF ok] win_okD(1) [OF ok]
    by (simp add: inv_pipe_def inv_count_def inv_state_def)
qed

text \<open>
  When a transfer has finished, the counters add up: blocks sent are those answered plus
  those given up at a time-out, whose slots are the only ones still in use; every block the loop passed was sent
  or skipped, and the failures reported are the skipped blocks and the refused ones.
\<close>

lemma pipeline_complete:
  assumes "InitFullBlocksEmpty vid (jb_total j) m0 = (m, True)" and "(pipe_step j)\<^sup>*\<^sup>* (pipe_start n m fs) p"
    and "pp_main p = Finished"
  shows "(be_inFlight (pp_engine p) = 0 \<longleftrightarrow> pp_sent p = be_acked (pp_engine p) + be_failed (pp_engine p))
    \<and> int (pp_sent p) = int (be_acked (pp_engine p) + be_failed (pp_engine p)) + be_inFlight (pp_engine p)
    \<and> unat (pp_i p) = pp_sent p + pp_skipped p
    \<and> pp_failedStat p = pp_skipped p + be_failed (pp_engine p)
    \<and> int (card (busy (be_window (pp_engine p)))) = be_inFlight (pp_engine p)"
proof -
  have inv: "inv_pipe j (nat n) p" using inv_pipe_run [OF assms(1,2)] .
  have "pp_ack p = AckStopped" using inv assms(3) by (simp add: inv_pipe_def inv_count_def)
  moreover from this have "outstanding p = pp_wire p" by (simp add: outstanding_def)
  ultimately show ?thesis using inv assms(3) win_ok_bound(1) [of "be_window (pp_engine p)" None "outstanding p"]
    by (auto simp: inv_pipe_def inv_count_def inv_window_def)
qed

text \<open>A waiting transfer is waited for: something unanswered holds the slot.\<close>

lemma waiting_progress:
  assumes inv: "inv_pipe j n p" and "0 < n" and "\<not> be_error (pp_engine p)"
    and wait: "pp_main p = AtTop \<and> snd (AcquireSlot (pp_engine p)) = None \<or> pp_main p = Waiting \<and> 0 < be_inFlight (pp_engine p)"
  shows "case pp_ack p of AckIdle \<Rightarrow> pp_wire p \<noteq> [] | AckRecorded b \<Rightarrow> snd (ReleaseSlot b (pp_engine p))
    | AckReleased r \<Rightarrow> r | AckStopped \<Rightarrow> False"
proof -
  have ok: "win_ok (be_window (pp_engine p)) None (outstanding p)" using inv wait by (auto simp: inv_pipe_def inv_window_def)
  have w: "be_window (pp_engine p) \<noteq> []" using inv assms(2) by (auto simp: inv_pipe_def)
  have busy: "outstanding p \<noteq> [] \<or> pp_ack p = AckReleased True"
    using wait
  proof
    assume "pp_main p = AtTop \<and> snd (AcquireSlot (pp_engine p)) = None"
    then have "find_index (\<lambda>sl. \<not> ps_InUse sl) (be_window (pp_engine p)) = None"
      using assms(3) by (auto simp: AcquireSlot_def split: option.splits)
    then show ?thesis using win_ok_full [OF ok w] by simp
  next
    assume "pp_main p = Waiting \<and> 0 < be_inFlight (pp_engine p)"
    then show ?thesis using inv by (cases "outstanding p") (auto simp: inv_pipe_def inv_count_def of_bool_def split: if_splits)
  qed
  have rel: "snd (ReleaseSlot b (pp_engine p))" if "pp_ack p = AckRecorded b" for b
    using inv_window_release [of j p b "fst (ReleaseSlot b (pp_engine p))" "snd (ReleaseSlot b (pp_engine p))"] inv that
    by (simp add: inv_pipe_def)
  show ?thesis
  proof (cases "pp_ack p")
    case AckIdle
    then show ?thesis using busy by (simp add: outstanding_def)
  next
    case (AckRecorded b)
    then show ?thesis using rel by simp
  next
    case (AckReleased r)
    then show ?thesis using inv by (cases r) (auto simp: inv_pipe_def inv_count_def)
  next
    case AckStopped
    then show ?thesis using inv assms(3) wait by (auto simp: inv_pipe_def inv_count_def)
  qed
qed

text \<open>
  No slot is lost: whenever the transferring thread has to wait, for a slot or for the
  last acknowledgements, and the connection is intact, an acknowledgement is being processed that will succeed in
  releasing its slot, or a block sent is still to be answered by the server.
\<close>

lemma pipeline_waits_for_server:
  assumes "InitFullBlocksEmpty vid (jb_total j) m0 = (m, True)" and "(pipe_step j)\<^sup>*\<^sup>* (pipe_start n m fs) p"
    and "0 < n" and "\<not> be_error (pp_engine p)"
    and "pp_main p = AtTop \<and> snd (AcquireSlot (pp_engine p)) = None \<or> pp_main p = Waiting \<and> 0 < be_inFlight (pp_engine p)"
  shows "case pp_ack p of AckIdle \<Rightarrow> pp_wire p \<noteq> [] | AckRecorded b \<Rightarrow> snd (ReleaseSlot b (pp_engine p))
    | AckReleased r \<Rightarrow> r | AckStopped \<Rightarrow> False"
  by (rule waiting_progress [OF inv_pipe_run [OF assms(1,2)]]) (use assms(3-5) in simp_all)

text \<open>
  C19. A transfer ends: no interleaving has more than ten steps per block and ten more.
\<close>

theorem pipeline_terminates:
  assumes "InitFullBlocksEmpty vid (jb_total j) m0 = (m, True)" and "(pipe_step j ^^ k) (pipe_start n m fs) p"
  shows "k \<le> 10 * unat (jb_total j) + 10"
  using pipe.run_length [OF fresh_pipeI [OF assms(1)] assms(2)] by (simp add: steps_left_def pipe_start_def)

text \<open>A transfer of one block of three bytes through a window of one slot.\<close>

definition demo_job :: job where
  "demo_job = \<lparr> jb_total = 1, jb_size = 3, jb_source = (\<lambda>off n. Some [1, 2, 3]), jb_bcrypt = (\<lambda>d. Some (replicate 32 7)),
     jb_hasher = demo_hasher, jb_win = demo_win, jb_compressor = \<lparr> dc_hCompressor = True, dc_initialized = True \<rparr>,
     jb_save = (\<lambda>n. (True, True)), jb_heap = [0, 0, 0, 0] \<rparr>"

definition demo_table :: BlockStateManager where
  "demo_table = fst (InitFullBlocksEmpty 0 1 demo_manager)"

definition demo_acquired :: Pipe where
  "demo_acquired = (let p = pipe_start 1 demo_table Map.empty
     in p\<lparr> pp_engine := fst (AcquireSlot (pp_engine p)), pp_main := HaveSlot 0 \<rparr>)"

definition demo_sent :: Pipe where
  "demo_sent = count_sent demo_job 0 (send_slot True 0 (prepare_slot demo_job 0 (fill_slot demo_job 0 demo_acquired)))"

definition demo_acked :: Pipe where
  "demo_acked = (let p = demo_sent; em = record_ack 0 0 (pp_engine p) (pp_state p)
     in p\<lparr> pp_wire := [], pp_engine := fst em, pp_state := snd em, pp_ack := AckRecorded 0 \<rparr>)"

definition demo_released :: Pipe where
  "demo_released = (let e = fst (ReleaseSlot 0 (pp_engine demo_acked))
     in demo_acked\<lparr> pp_engine := e\<lparr> be_inFlight := be_inFlight e - 1 \<rparr>, pp_ack := AckIdle \<rparr>)"

definition demo_finished :: Pipe where
  "demo_finished = demo_released\<lparr> pp_failedStat := 0, pp_ack := AckStopped, pp_main := Finished \<rparr>"

lemma demo_init: "InitFullBlocksEmpty 0 (jb_total demo_job) demo_manager = (demo_table, True)"
proof -
  have "snd (InitFullBlocksEmpty 0 1 demo_manager)"
    by (simp add: InitFullBlocksEmpty_def demo_manager_def CreateVersion_def Let_def BlockStateManager_new_def)
  then show ?thesis by (simp add: demo_table_def demo_job_def) (metis prod.collapse)
qed

lemma pipeline_demo_size: "pipeline_block_size 1 3 0 = 3"
  by code_simp

lemma demo_prepared: "\<exists>z. prepare_block demo_job 0 = PrepReady [1, 2, 3] (replicate 32 7) z"
proof -
  note pipeline_demo_size
  moreover have "Compress demo_win \<lparr> dc_hCompressor = True, dc_initialized = True \<rparr> [1, 2, 3] \<noteq> None"
    by (simp add: Compress_def compress_call_def demo_win_def Let_def GetMaxCompressedSize_def)
  ultimately show ?thesis
    using demo_hasher_ready by (auto simp: prepare_block_def demo_job_def ReadAt_def ComputeBlockHash_def ready_def)
qed

lemma demo_acquired_fields:
  "pp_main demo_acquired = HaveSlot 0" "pp_i demo_acquired = 0" "pp_wire demo_acquired = []" "pp_ack demo_acquired = AckIdle"
  "be_error (pp_engine demo_acquired) = False" "be_inFlight (pp_engine demo_acquired) = 0"
  "be_failed (pp_engine demo_acquired) = 0" "pp_sent demo_acquired = 0" "pp_failedStat demo_acquired = 0"
  "be_window (pp_engine demo_acquired) = [PipelineSlot_new\<lparr> ps_InUse := True \<rparr>]"
  by (simp_all add: demo_acquired_def pipe_start_def ResetPipelineWindow_def Engine_new_def AcquireSlot_def set_slot_def PipelineSlot_new_def)

definition demo_ready :: Pipe where
  "demo_ready = prepare_slot demo_job 0 (fill_slot demo_job 0 demo_acquired)"

lemma demo_ready_fields:
  "pp_main demo_ready = ReadyToSend 0" "pp_i demo_ready = 0" "pp_wire demo_ready = []" "pp_ack demo_ready = AckIdle"
  "be_error (pp_engine demo_ready) = False" "be_inFlight (pp_engine demo_ready) = 0"
  "be_failed (pp_engine demo_ready) = 0" "pp_sent demo_ready = 0" "pp_failedStat demo_ready = 0"
  "\<exists>sl. be_window (pp_engine demo_ready) = [sl] \<and> ps_InUse sl \<and> ps_BlockIndex sl = 0"
  using demo_prepared
  by (auto simp: demo_ready_def prepare_slot_def fill_slot_def set_slot_def Let_def demo_acquired_fields)

lemma demo_sent_fields:
  "pp_main demo_sent = AtTop" "pp_i demo_sent = 1" "pp_wire demo_sent = [0]" "pp_ack demo_sent = AckIdle"
  "be_error (pp_engine demo_sent) = False" "be_inFlight (pp_engine demo_sent) = 1"
  "be_failed (pp_engine demo_sent) = 0" "pp_sent demo_sent = 1" "pp_failedStat demo_sent = 0"
  "\<exists>sl. be_window (pp_engine demo_sent) = [sl] \<and> ps_InUse sl \<and> ps_BlockIndex sl = 0"
  using demo_ready_fields
  by (auto simp: demo_sent_def count_sent_fields send_slot_def simp flip: demo_ready_def)

lemma demo_released_fields:
  "pp_main demo_released = AtTop" "pp_i demo_released = 1" "pp_wire demo_released = []" "pp_ack demo_released = AckIdle"
  "be_inFlight (pp_engine demo_released) = 0" "be_failed (pp_engine demo_released) = 0" "pp_sent demo_released = 1"
  "pp_failedStat demo_released = 0" "pp_ack demo_acked = AckRecorded 0" "snd (ReleaseSlot 0 (pp_engine demo_acked))"
  using demo_sent_fields
  by (auto simp: demo_released_def demo_acked_def record_ack_def ReleaseSlot_def set_slot_def Let_def)

lemmas demo_first = converse_rtranclp_into_rtranclp [where r = "pipe_step demo_job"]

lemma demo_run_sent: "(pipe_step demo_job)\<^sup>*\<^sup>* (pipe_start 1 demo_table Map.empty) demo_sent"
proof -
  have a: "AcquireSlot (pp_engine (pipe_start 1 demo_table Map.empty)) = (fst (AcquireSlot (pp_engine (pipe_start 1 demo_table Map.empty))), Some 0)"
    by (simp add: AcquireSlot_def pipe_start_def ResetPipelineWindow_def Engine_new_def PipelineSlot_new_def)
  have s1: "pipe_step demo_job (pipe_start 1 demo_table Map.empty) demo_acquired"
    unfolding demo_acquired_def Let_def using a
    by (intro pipe_step.acquire) (simp_all add: pipe_start_def demo_job_def ResetPipelineWindow_def Engine_new_def)
  have s2: "pipe_step demo_job demo_acquired (fill_slot demo_job 0 demo_acquired)"
    by (rule pipe_step.fill) (simp add: demo_acquired_fields)
  have s3: "pipe_step demo_job (fill_slot demo_job 0 demo_acquired) demo_ready"
    unfolding demo_ready_def by (rule pipe_step.prepare) (simp add: fill_slot_def Let_def)
  have s4: "pipe_step demo_job demo_ready (send_slot True 0 demo_ready)"
    by (rule pipe_step.send) (simp add: demo_ready_fields)
  have s5: "pipe_step demo_job (send_slot True 0 demo_ready) demo_sent"
    unfolding demo_sent_def demo_ready_def by (rule pipe_step.count) (simp add: send_slot_def)
  show ?thesis
    by (intro demo_first [OF s1] demo_first [OF s2] demo_first [OF s3]
        demo_first [OF s4] demo_first [OF s5] rtranclp.rtrancl_refl)
qed

lemma demo_run_finished: "(pipe_step demo_job)\<^sup>*\<^sup>* (pipe_start 1 demo_table Map.empty) demo_finished"
proof -
  let ?r = "demo_acked\<lparr> pp_engine := fst (ReleaseSlot 0 (pp_engine demo_acked)), pp_ack := AckReleased True \<rparr>"
  have s1: "pipe_step demo_job demo_sent demo_acked"
    unfolding demo_acked_def Let_def by (rule pipe_step.ack_receive [where b = 0 and status = 0]) (simp_all add: demo_sent_fields)
  have s2: "pipe_step demo_job demo_acked ?r"
    by (rule pipe_step.ack_release [where b = 0]) (auto simp: demo_released_fields prod_eq_iff)
  have s3: "pipe_step demo_job ?r demo_released"
    using pipe_step.ack_count [of ?r True demo_job] by (simp add: demo_released_def Let_def)
  have s4: "pipe_step demo_job demo_released (demo_released\<lparr> pp_main := Waiting \<rparr>)"
    by (rule pipe_step.loop_end) (simp_all add: demo_released_fields demo_job_def)
  have s5: "pipe_step demo_job (demo_released\<lparr> pp_main := Waiting \<rparr>) (demo_released\<lparr> pp_main := Stopping \<rparr>)"
    using pipe_step.wait_end [of "demo_released\<lparr> pp_main := Waiting \<rparr>" demo_job] by (simp add: demo_released_fields)
  have s6: "pipe_step demo_job (demo_released\<lparr> pp_main := Stopping \<rparr>) demo_finished"
    using pipe_step.join [of "demo_released\<lparr> pp_main := Stopping \<rparr>" demo_job]
    by (simp add: demo_finished_def demo_released_fields)
  show ?thesis
    by (rule rtranclp_trans [OF demo_run_sent])
      (intro demo_first [OF s1] demo_first [OF s2] demo_first [OF s3]
        demo_first [OF s4] demo_first [OF s5] demo_first [OF s6] rtranclp.rtrancl_refl)
qed

theorem pipeline_accounting_witness: "outstanding demo_sent = [0] \<and> length (outstanding demo_sent) \<le> nat 1"
proof -
  have "outstanding demo_sent = [0]" by (simp add: outstanding_def demo_sent_fields)
  then show ?thesis using pipeline_accounting [OF demo_init demo_run_sent] by simp
qed

theorem pipeline_complete_witness: "pp_sent demo_finished = 1 \<and> unat (pp_i demo_finished) = pp_sent demo_finished + pp_skipped demo_finished"
proof -
  have "pp_main demo_finished = Finished" "pp_sent demo_finished = 1" by (simp_all add: demo_finished_def demo_released_fields)
  then show ?thesis using pipeline_complete [OF demo_init demo_run_finished] by simp
qed

theorem pipeline_waits_for_server_witness: "pp_ack demo_sent = AckIdle \<and> pp_wire demo_sent \<noteq> []"
proof -
  have "\<not> be_error (pp_engine demo_sent)" "pp_main demo_sent = AtTop" "snd (AcquireSlot (pp_engine demo_sent)) = None"
    "pp_ack demo_sent = AckIdle" using demo_sent_fields by (auto simp: AcquireSlot_def)
  then show ?thesis using pipeline_waits_for_server [OF demo_init demo_run_sent] by simp
qed

theorem pipeline_terminates_witness: "\<exists>k. (pipe_step demo_job ^^ k) (pipe_start 1 demo_table Map.empty) demo_finished \<and> k \<le> 20"
proof -
  obtain k where k: "(pipe_step demo_job ^^ k) (pipe_start 1 demo_table Map.empty) demo_finished"
    using demo_run_finished by (auto dest: rtranclp_imp_relpowp)
  then show ?thesis using pipeline_terminates [OF demo_init k] by (auto simp: demo_job_def)
qed

lemma dry_block_states:
  assumes "unat (of_nat k :: u64) = k"
  shows "ack_states (dr_state (dry_block j k d)) =
      (if dry_hash j (of_nat k) = None then ack_states (dr_state d) else (ack_states (dr_state d))[k := AckAcknowledged])
    \<and> dr_sent (dry_block j k d) = dr_sent d + of_bool (dry_hash j (of_nat k) \<noteq> None)
    \<and> dr_acked (dry_block j k d) = dr_acked d + of_bool (dry_hash j (of_nat k) \<noteq> None)
    \<and> dr_failedStat (dry_block j k d) = dr_failedStat d + of_bool (dry_hash j (of_nat k) = None)"
proof (cases "dry_hash j (of_nat k)")
  case (Some h)
  have "ack_states m' = ack_states m" if "Save c v hp m fs = (m', fs', ok)" for c v hp m fs m' fs' ok
    using Save_blocks [OF that] by (simp add: ack_states_def)
  then show ?thesis using Some assms
    by (auto simp: dry_block_def Let_def ack_states_SetBlockAck ack_states_SetBlockHash split: prod.splits)
qed (simp add: dry_block_def)

text \<open>
  A dry run leaves exactly the blocks that could be read and hashed acknowledged in the
  state table, although nothing was sent; the others stay pending and count as failed.
\<close>

lemma dry_run_effect:
  assumes "InitFullBlocksEmpty vid (jb_total j) m0 = (m, True)"
  shows "ack_states (dr_state (dry_run j m fs)) =
      map (\<lambda>k. if dry_hash j (of_nat k) = None then AckPending else AckAcknowledged) [0..<unat (jb_total j)]
    \<and> dr_sent (dry_run j m fs) + dr_failedStat (dry_run j m fs) = unat (jb_total j)
    \<and> dr_acked (dry_run j m fs) = dr_sent (dry_run j m fs)"
proof -
  define N where "N = unat (jb_total j)"
  define f where "f k = (if dry_hash j (of_nat k) = None then AckPending else AckAcknowledged)" for k
  define d0 where "d0 = \<lparr> dr_state = m, dr_files = fs, dr_acked = 0, dr_sent = 0, dr_failedStat = 0 \<rparr>"
  have st: "ack_states m = replicate N AckPending"
    using InitFull_pending [OF assms] by (simp add: N_def)
  have "ack_states (dr_state (fold (dry_block j) [0..<k] d0)) = map f [0..<k] @ replicate (N - k) AckPending
    \<and> dr_sent (fold (dry_block j) [0..<k] d0) + dr_failedStat (fold (dry_block j) [0..<k] d0) = k
    \<and> dr_acked (fold (dry_block j) [0..<k] d0) = dr_sent (fold (dry_block j) [0..<k] d0)" if "k \<le> N" for k
    using that
  proof (induction k)
    case 0
    then show ?case by (simp add: d0_def st)
  next
    case (Suc k)
    have k: "unat (of_nat k :: u64) = k" using Suc.prems unat_u64_bound [of "jb_total j"] by (simp add: N_def unat_of_nat)
    have split: "replicate (N - k) AckPending = AckPending # replicate (N - Suc k) AckPending"
      using Suc.prems by (simp flip: replicate_Suc add: Suc_diff_Suc)
    show ?case using Suc dry_block_states [OF k, of j "fold (dry_block j) [0..<k] d0"]
      by (auto simp: f_def split list_update_append)
  qed
  from this [of N] show ?thesis by (simp add: dry_run_def d0_def N_def f_def)
qed

theorem dry_run_effect_witness:
  "ack_states (dr_state (dry_run demo_job demo_table Map.empty)) = [AckAcknowledged]"
proof -
  have "dry_hash demo_job 0 = Some (replicate 32 7)"
    using demo_hasher_ready pipeline_demo_size by (simp add: dry_hash_def demo_job_def ReadAt_def ComputeBlockHash_def ready_def)
  then show ?thesis using dry_run_effect [OF demo_init, of Map.empty] by (simp add: demo_job_def)
qed

end
