(* ===== verification/Backup_System.thy ===== *)
theory Backup_System
  imports End_To_End Pipeline_Window
begin

text \<open>
  The pipelined full backup and the server together. \<open>Pipeline_Window\<close> sees the connection as a list of
  unanswered blocks with arbitrary answers; here the messages are explicit: what the
  transferring thread sends waits in a queue until the server processes it with \<open>Process\<close>, and
  the acknowledgement waits in a second queue for the client's receiving thread. That messages and
  acknowledgements travel whole and in order is what \<open>Server_Correct\<close> and \<open>Network_Client\<close> show of the byte streams.
  Shown are that the composed system refines the pipeline, that every block the client's table calls
  acknowledged is in the server's file, and that an undisturbed transfer ends with the file
  equal to the disk.
\<close>

section \<open>The composed system\<close>

record session =
  ss_job :: job
  ss_platform :: Platform
  ss_disks :: DiskMap
  ss_dev :: u32
  ss_version :: u32

record System =
  sy_pipe :: Pipe
  sy_files :: files
  sy_requests :: "(BlockHeader \<times> byte list) list"
  sy_replies :: "AckBody list"

text \<open>The arguments of \<open>SendBlockNoWait\<close>: the block number, its size and what the slot holds.\<close>

definition sent_request :: "session \<Rightarrow> nat \<Rightarrow> Pipe \<Rightarrow> BlockHeader \<times> byte list" where
  "sent_request S k p =
     (let j = ss_job S; sl = be_window (pp_engine p) ! k; z = ps_Compressed sl
      in (client_block (pp_i p) (pipeline_block_size (jb_total j) (jb_size j) (pp_i p)) z (ps_Hash sl) (ss_version S), z))"

text \<open>
  The steps: one of the client that neither sends nor receives, a send, the server at the oldest
  message (its parser refuses payloads of more than 2 MiB), and the receipt of the oldest answer.
\<close>

inductive sys_step :: "session \<Rightarrow> System \<Rightarrow> System \<Rightarrow> bool" for S where
  sys_local: "pipe_step (ss_job S) (sy_pipe s) q \<Longrightarrow> pp_wire q = pp_wire (sy_pipe s) \<Longrightarrow> sys_step S s (s\<lparr> sy_pipe := q \<rparr>)"
| sys_send: "pp_main (sy_pipe s) = ReadyToSend k \<Longrightarrow>
    sys_step S s (s\<lparr> sy_pipe := send_slot True k (sy_pipe s), sy_requests := sy_requests s @ [sent_request S k (sy_pipe s)] \<rparr>)"
| sys_serve: "sy_requests s = (bh, z) # rs \<Longrightarrow> length z \<le> 2 * BLOCK_SIZE \<Longrightarrow>
    Process (ss_platform S) (ss_disks S) (sy_files s) (ss_dev S) bh z = (fs, ack, st) \<Longrightarrow>
    sys_step S s (s\<lparr> sy_files := fs, sy_requests := rs, sy_replies := sy_replies s @ [ack] \<rparr>)"
| sys_receive: "pp_ack (sy_pipe s) = AckIdle \<Longrightarrow> sy_replies s = a # as \<Longrightarrow>
    record_ack (ak_BlockIndex a) (ak_Status a) (pp_engine (sy_pipe s)) (pp_state (sy_pipe s)) = (e, m) \<Longrightarrow>
    sys_step S s (s\<lparr> sy_pipe := (sy_pipe s)\<lparr> pp_wire := tl (pp_wire (sy_pipe s)), pp_engine := e, pp_state := m,
      pp_ack := AckRecorded (ak_BlockIndex a) \<rparr>, sy_replies := as \<rparr>)"

definition system_start :: "int \<Rightarrow> BlockStateManager \<Rightarrow> file_system \<Rightarrow> files \<Rightarrow> System" where
  "system_start w m cfs sfs = \<lparr> sy_pipe = pipe_start w m cfs, sy_files = sfs, sy_requests = [], sy_replies = [] \<rparr>"

section \<open>The system refines the pipeline\<close>

text \<open>The pipeline's list of unanswered blocks is the contents of the two queues.\<close>

definition queues_ok :: "System \<Rightarrow> bool" where
  "queues_ok s \<longleftrightarrow> pp_wire (sy_pipe s) = map ak_BlockIndex (sy_replies s) @ map (bh_BlockIndex \<circ> fst) (sy_requests s)"

lemma sys_step_pipe:
  assumes "sys_step S s t" and "queues_ok s"
  shows "pipe_step (ss_job S) (sy_pipe s) (sy_pipe t) \<or> sy_pipe t = sy_pipe s"
  using assms(1)
proof cases
  case (sys_local q)
  then show ?thesis by simp
next
  case (sys_send k)
  then show ?thesis by (simp add: pipe_step.send)
next
  case (sys_serve bh z rs fs ack st)
  then show ?thesis by simp
next
  case (sys_receive a as e m)
  then have w: "pp_wire (sy_pipe s) = ak_BlockIndex a # tl (pp_wire (sy_pipe s))" using assms(2) by (simp add: queues_ok_def)
  show ?thesis using pipe_step.ack_receive [OF sys_receive(2) w sys_receive(4)] sys_receive(1) by simp
qed

lemma queues_ok_step:
  assumes "sys_step S s t" and "queues_ok s"
  shows "queues_ok t"
  using assms(1)
proof cases
  case (sys_serve bh z rs fs ack st)
  then show ?thesis using assms(2) Process_ack [OF sys_serve(4)] by (simp add: queues_ok_def)
qed (use assms(2) in \<open>auto simp: queues_ok_def send_slot_def sent_request_def client_block_def Let_def\<close>)

interpretation system_pipe: forward_simulation "sys_step S" "pipe_step (ss_job S)" "\<lambda>p. True" "\<lambda>s p. queues_ok s \<and> p = sy_pipe s" for S
proof unfold_locales
  show "\<exists>q. (pipe_step (ss_job S))\<^sup>*\<^sup>* p q \<and> queues_ok t \<and> q = sy_pipe t" if "sys_step S s t" "queues_ok s \<and> p = sy_pipe s" for s t p
    using sys_step_pipe [OF that(1)] queues_ok_step [OF that(1)] that(2) by (metis r_into_rtranclp rtranclp.rtrancl_refl)
qed

lemma system_run_pipe:
  assumes "(sys_step S)\<^sup>*\<^sup>* s t" and "queues_ok s"
  shows "queues_ok t \<and> (pipe_step (ss_job S))\<^sup>*\<^sup>* (sy_pipe s) (sy_pipe t)"
  using system_pipe.run_simulated [OF assms(1)] assms(2) by auto

section \<open>What a slot ready to send holds\<close>

definition slot_ready :: "job \<Rightarrow> Pipe \<Rightarrow> bool" where
  "slot_ready j p \<longleftrightarrow> (\<forall>k. pp_main p = ReadyToSend k \<longrightarrow> k < length (be_window (pp_engine p))
     \<and> (\<exists>data. prepare_block j (pp_i p) =
          PrepReady data (ps_Hash (be_window (pp_engine p) ! k)) (ps_Compressed (be_window (pp_engine p) ! k))))"

lemma slot_ready_release:
  assumes "slot_ready j p" and "inv_window j p" and pc: "pp_ack p = AckRecorded b" and rel: "ReleaseSlot b (pp_engine p) = (e, r)"
  shows "slot_ready j (p\<lparr> pp_engine := e, pp_ack := AckReleased r \<rparr>)"
proof -
  define w where "w = be_window (pp_engine p)"
  have ok: "win_ok w (held (pp_main p)) (b # pp_wire p)" using assms(2) pc by (simp add: inv_window_def outstanding_def w_def)
  obtain s where s: "slot_of w b = Some s" "held (pp_main p) \<noteq> Some s" using win_okD(3) [OF ok, of b] by auto
  have "find_index (\<lambda>sl. ps_InUse sl \<and> ps_BlockIndex sl = b) w = Some s" using release_finds [OF ok, of b] s by simp
  then have "be_window e = w[s := (w ! s)\<lparr> ps_InUse := False, ps_BlockData := [], ps_Compressed := [] \<rparr>]"
    using rel by (auto simp: ReleaseSlot_def set_slot_def w_def)
  then show ?thesis using assms(1) s(2) by (auto simp: slot_ready_def w_def)
qed

lemma slot_ready_step:
  assumes "pipe_step j p q" and "inv_window j p" and "slot_ready j p"
  shows "slot_ready j q"
  using assms
proof (induction rule: pipe_step.induct)
  case (prepare p s)
  then have "s < length (be_window (pp_engine p))"
    using win_okD(2) [of "be_window (pp_engine p)" "Some s" "outstanding p"] by (auto simp: inv_window_def busy_def)
  then show ?case
    by (cases "prepare_block j (pp_i p)") (simp_all add: slot_ready_def prepare_slot_def set_slot_def)
next
  case (ack_release p b e r)
  then show ?case by (intro slot_ready_release)
next
  case (ack_receive p b w status e m)
  then show ?case using record_ack_window [OF ack_receive(3)] by (auto simp: slot_ready_def)
next
  case (count p s)
  then show ?case by (simp add: slot_ready_def count_sent_fields)
qed (auto simp: slot_ready_def fill_slot_def send_slot_def Let_def)


section \<open>The server at one message\<close>

text \<open>What the libraries on both sides owe: zlib decodes what the client's compressor makes, \<open>pwrite\<close> is POSIX's; and
  the disk has no more blocks than a file offset can address.\<close>

definition session_ok :: "session \<Rightarrow> bool" where
  "session_ok S \<longleftrightarrow> pwrite_ok (ss_platform S) \<and> unat (jb_total (ss_job S)) \<le> 2 ^ 43
     \<and> (\<exists>inflate. deflate_api inflate (jb_win (ss_job S)) \<and> zlib_ok inflate (ss_platform S))"

definition good_request :: "session \<Rightarrow> BlockHeader \<times> byte list \<Rightarrow> bool" where
  "good_request S r \<longleftrightarrow> (\<exists>i data hash. prepare_block (ss_job S) i = PrepReady data hash (snd r) \<and> unat i < unat (jb_total (ss_job S))
     \<and> fst r = client_block i (pipeline_block_size (jb_total (ss_job S)) (jb_size (ss_job S)) i) (snd r) hash (ss_version S))"

definition block_bytes :: "session \<Rightarrow> u64 \<Rightarrow> byte list" where
  "block_bytes S i = (case prepare_block (ss_job S) i of PrepFailed h \<Rightarrow> [] | PrepReady data hash z \<Rightarrow> data)"

definition stored :: "session \<Rightarrow> files \<Rightarrow> u64 \<Rightarrow> bool" where
  "stored S fs i \<longleftrightarrow> (\<exists>data hash z. prepare_block (ss_job S) i = PrepReady data hash z)
     \<and> holds (ss_disks S) (ss_dev S) (block_bytes S) fs i"

lemma pipeline_block_size_range: "0 < unat (pipeline_block_size n sz i) \<and> unat (pipeline_block_size n sz i) \<le> BLOCK_SIZE"
proof -
  have "unat (ucast r :: u32) = unat r" if "r < (BLOCK_SIZE :: u64)" for r :: u64
    using that by (simp add: unsigned_ucast_eq take_bit_word_eq_self word_less_nat_alt take_bit_nat_eq_self)
  then show ?thesis by (auto simp: pipeline_block_size_def Let_def word_less_nat_alt)
qed

lemma prepared_block:
  assumes "prepare_block j i = PrepReady data hash z"
  shows "Compress (jb_win j) (jb_compressor j) data = Some z"
    "length data = unat (pipeline_block_size (jb_total j) (jb_size j) i)" "data \<noteq> []" "length data \<le> BLOCK_SIZE"
proof -
  show "Compress (jb_win j) (jb_compressor j) data = Some z" and
    len: "length data = unat (pipeline_block_size (jb_total j) (jb_size j) i)"
    using assms by (auto simp: prepare_block_def ReadAt_def split: option.splits if_splits)
  show "data \<noteq> []" "length data \<le> BLOCK_SIZE"
    using pipeline_block_size_range [of "jb_total j" "jb_size j" i] len by auto
qed

lemma block_bytes_small: "length (block_bytes S i) \<le> BLOCK_SIZE"
  by (cases "prepare_block (ss_job S) i") (simp_all add: block_bytes_def prepared_block(4))

text \<open>The server at a message of this client: what is stored stays stored, and a block acknowledged is stored.\<close>

lemma serve_stored:
  assumes ok: "session_ok S" and sized: "dm_sized (ss_disks S) fs" and req: "good_request S (bh, z)" and small: "length z \<le> 2 * BLOCK_SIZE"
    and run: "Process (ss_platform S) (ss_disks S) fs (ss_dev S) bh z = (fs', ack, st)"
  shows "stored S fs b \<Longrightarrow> stored S fs' b" and "st = OK \<Longrightarrow> stored S fs' (bh_BlockIndex bh)"
proof -
  obtain data hash where prep: "prepare_block (ss_job S) (bh_BlockIndex bh) = PrepReady data hash z"
    and i: "unat (bh_BlockIndex bh) < unat (jb_total (ss_job S))" and c: "unat (bh_CompressedSize bh) = length z"
    using req small by (auto simp: good_request_def client_block_def unat_of_nat)
  note p = prepared_block [OF prep]
  obtain inflate where inf: "deflate_api inflate (jb_win (ss_job S))" "zlib_ok inflate (ss_platform S)"
    using ok by (auto simp: session_ok_def)
  have raw: "uncompress2 (ss_platform S) raw_capacity (take (unat (bh_CompressedSize bh)) z) = Some (block_bytes S (bh_BlockIndex bh))"
    using uncompress_compressed [OF p(1) inf p(3,4)] c prep by (simp add: block_bytes_def)
  have "unat (bh_BlockIndex bh) < 2 ^ 43" "pwrite_ok (ss_platform S)" using i ok by (auto simp: session_ok_def)
  note holds = Process_holds [where D = "block_bytes S", OF block_bytes_small this(2) sized this(1) raw run]
  show "stored S fs b \<Longrightarrow> stored S fs' b" and "st = OK \<Longrightarrow> stored S fs' (bh_BlockIndex bh)"
    using holds prep by (auto simp: stored_def)
qed

section \<open>The invariant of the system\<close>

definition sys_inv :: "session \<Rightarrow> nat \<Rightarrow> System \<Rightarrow> bool" where
  "sys_inv S n s \<longleftrightarrow> session_ok S \<and> inv_pipe (ss_job S) n (sy_pipe s) \<and> queues_ok s \<and> dm_sized (ss_disks S) (sy_files s)
     \<and> slot_ready (ss_job S) (sy_pipe s) \<and> (\<forall>r \<in> set (sy_requests s). good_request S r)
     \<and> (\<forall>a \<in> set (sy_replies s). ak_Status a = 0 \<longrightarrow> stored S (sy_files s) (ak_BlockIndex a))
     \<and> (\<forall>k < unat (jb_total (ss_job S)). ack_states (pp_state (sy_pipe s)) ! k = AckAcknowledged \<longrightarrow> stored S (sy_files s) (of_nat k))"

definition fresh_system :: "session \<Rightarrow> nat \<Rightarrow> System \<Rightarrow> bool" where
  "fresh_system S n s \<longleftrightarrow> session_ok S \<and> (\<exists>vid w m0 m cfs sfs. InitFullBlocksEmpty vid (jb_total (ss_job S)) m0 = (m, True)
     \<and> dm_sized (ss_disks S) sfs \<and> s = system_start w m cfs sfs \<and> n = nat w)"

lemma pipe_step_states:
  assumes "pipe_step j p q" and "pp_wire q = pp_wire p"
  shows "ack_states (pp_state q) = ack_states (pp_state p)"
  using assms
proof (induction rule: pipe_step.induct)
  case (prepare p s)
  then show ?case by (cases "prepare_block j (pp_i p)") (simp_all add: prepare_slot_def ack_states_store_hash)
next
  case (count p s)
  then show ?case by (simp add: ack_states_def count_sent_fields)
qed (simp_all add: fill_slot_def send_slot_def Let_def)

lemma sys_inv_start: "fresh_system S n s \<Longrightarrow> sys_inv S n s"
  by (auto simp: fresh_system_def sys_inv_def system_start_def queues_ok_def slot_ready_def inv_pipe_start InitFull_pending)
    (simp_all add: pipe_start_def InitFull_pending)

lemma sys_inv_pipe_step:
  assumes "sys_step S s t" and "sys_inv S n s"
  shows "inv_pipe (ss_job S) n (sy_pipe t) \<and> queues_ok t \<and> slot_ready (ss_job S) (sy_pipe t)"
  using sys_step_pipe [OF assms(1)] queues_ok_step [OF assms(1)] assms(2)
    pipe.inv_step [of "ss_job S" "sy_pipe s" "sy_pipe t" n] slot_ready_step [of "ss_job S" "sy_pipe s" "sy_pipe t"]
  by (auto simp: sys_inv_def inv_pipe_def)

lemma sent_request_good:
  assumes "sys_inv S n s" and "pp_main (sy_pipe s) = ReadyToSend k"
  shows "good_request S (sent_request S k (sy_pipe s))"
proof -
  have "unat (pp_i (sy_pipe s)) < unat (jb_total (ss_job S))"
    using assms in_loop_less [of "ss_job S" "sy_pipe s"] by (simp add: sys_inv_def inv_pipe_def)
  then show ?thesis using assms by (auto simp: sys_inv_def slot_ready_def good_request_def sent_request_def Let_def)
qed

text \<open>The state of a block changes with the acknowledgement only, and then to what the server said.\<close>

lemma record_ack_states:
  assumes "record_ack b st e m = (e', m')"
  shows "ack_states m' = (ack_states m)[unat b := if st = 0 then AckAcknowledged else AckFailed]"
  using assms by (auto simp: record_ack_def ack_states_SetBlockAck split: if_splits)

lemma sys_inv_step:
  assumes step: "sys_step S s t" and inv: "sys_inv S n s"
  shows "sys_inv S n t"
proof -
  note parts = sys_inv_pipe_step [OF step inv]
  from step show ?thesis
  proof cases
    case (sys_local q)
    then show ?thesis using inv parts pipe_step_states [OF sys_local(2,3)] by (simp add: sys_inv_def)
  next
    case (sys_send k)
    then show ?thesis using inv parts sent_request_good [OF inv sys_send(2)] by (auto simp: sys_inv_def send_slot_def)
  next
    case (sys_serve bh z rs fs ack st)
    have good: "good_request S (bh, z)" and sized: "dm_sized (ss_disks S) (sy_files s)" and ok: "session_ok S"
      using inv sys_serve(2) by (auto simp: sys_inv_def)
    note st = serve_stored [OF ok sized good sys_serve(3,4)]
    have "pwrite_ok (ss_platform S)" using ok by (simp add: session_ok_def)
    note sized' = Process_dm_sized [OF sys_serve(4) this sized]
    have "stored S fs (ak_BlockIndex ack)" if "ak_Status ack = 0"
      using st(2) that Process_ack [OF sys_serve(4)] ack_code_OK by auto
    then show ?thesis using inv parts sys_serve st(1) sized' by (auto simp: sys_inv_def)
  next
    case (sys_receive a as e m)
    have "stored S (sy_files s) (of_nat k)"
      if "k < unat (jb_total (ss_job S))" "(ack_states (pp_state (sy_pipe s)))[unat (ak_BlockIndex a) := if ak_Status a = 0 then AckAcknowledged else AckFailed] ! k = AckAcknowledged" for k
      using that inv sys_receive(3) by (cases "k = unat (ak_BlockIndex a)") (auto simp: sys_inv_def inv_pipe_def inv_state_alt split: if_splits)
    then show ?thesis using inv parts sys_receive record_ack_states [OF sys_receive(4)] by (simp add: sys_inv_def)
  qed
qed

text \<open>Every step of the client uses up one of its own, and the server empties its queue.\<close>

definition system_left :: "session \<Rightarrow> System \<Rightarrow> nat" where
  "system_left S s = 2 * steps_left (ss_job S) (sy_pipe s) + length (sy_requests s)"

lemma system_left_step:
  assumes "sys_step S s t" and "sys_inv S n s"
  shows "system_left S t < system_left S s"
proof -
  have less: "pipe_step (ss_job S) (sy_pipe s) q \<Longrightarrow> steps_left (ss_job S) q < steps_left (ss_job S) (sy_pipe s)" for q
    using steps_left_step assms(2) by (simp add: sys_inv_def inv_pipe_def)
  from assms(1) show ?thesis
  proof cases
    case (sys_send k)
    then show ?thesis using less [OF pipe_step.send [OF sys_send(2), of _ True]] by (simp add: system_left_def)
  next
    case (sys_receive a as e m)
    have "pp_wire (sy_pipe s) = ak_BlockIndex a # tl (pp_wire (sy_pipe s))"
      using assms(2) sys_receive(3) by (simp add: sys_inv_def queues_ok_def)
    from less [OF pipe_step.ack_receive [OF sys_receive(2) this sys_receive(4)]] show ?thesis
      using sys_receive(1) by (simp add: system_left_def)
  qed (use less in \<open>auto simp: system_left_def\<close>)
qed

interpretation sysm: ending_machine "sys_step S" "fresh_system S n" "sys_inv S n" "system_left S" for S n
  by unfold_locales (auto intro: sys_inv_start sys_inv_step system_left_step)

section \<open>The image of a disk\<close>

text \<open>A job that reads the disk with the contents \<open>D\<close>, without read errors.\<close>

definition reads_disk :: "job \<Rightarrow> byte list \<Rightarrow> bool" where
  "reads_disk j D \<longleftrightarrow> jb_source j = disk_reader D \<and> unat (jb_size j) = length D \<and> unat (jb_total j) = blocks_of (length D)"

lemma pipeline_block_size_disk:
  assumes "unat sz = n" and "unat tot = blocks_of n" and "k < blocks_of n"
  shows "unat (pipeline_block_size tot sz (of_nat k)) = min BLOCK_SIZE (n - k * BLOCK_SIZE)"
proof -
  have off: "k * BLOCK_SIZE < n" using assms(3) by (simp add: blocks_of_less)
  have n: "n < 2 ^ 64" using unat_u64_bound [of sz] assms(1) by simp
  have k: "unat (of_nat k :: u64) = k" using off n by (simp add: unat_of_nat)
  have rem: "unat (sz - of_nat k * BLOCK_SIZE) = n - k * BLOCK_SIZE"
    using off n k assms(1) by (subst unat_sub) (simp_all add: word_le_nat_alt unat_word_ariths)
  have last: "of_nat k = tot - 1 \<longleftrightarrow> k = blocks_of n - 1"
  proof -
    have "unat (tot - 1) = blocks_of n - 1" using assms(2,3) by (subst unat_sub) (simp_all add: word_le_nat_alt)
    then show ?thesis using k by (metis word_unat_eq_iff)
  qed
  have big: "BLOCK_SIZE \<le> n - k * BLOCK_SIZE" if "k \<noteq> blocks_of n - 1"
  proof -
    have "Suc k < blocks_of n" using that assms(3) by linarith
    then show ?thesis by (simp add: blocks_of_less)
  qed
  show ?thesis
  proof (cases "n - k * BLOCK_SIZE < BLOCK_SIZE")
    case True
    then have "k = blocks_of n - 1" using big by linarith
    then show ?thesis unfolding pipeline_block_size_def Let_def last using rem off True
      by (simp add: word_less_nat_alt unsigned_ucast_eq take_bit_nat_eq_self)
  next
    case False
    then show ?thesis unfolding pipeline_block_size_def Let_def last using rem by (simp add: word_less_nat_alt min_def)
  qed
qed

lemma ReadAt_reads_disk:
  assumes "reads_disk j D" and "k < blocks_of (length D)"
  shows "ReadAt (jb_source j) (of_nat k * BLOCK_SIZE) (pipeline_block_size (jb_total j) (jb_size j) (of_nat k)) =
    Some (block_data D 0 (length D) k)"
proof -
  have off: "k * BLOCK_SIZE < length D" using assms(2) by (simp add: blocks_of_less)
  have "length D < 2 ^ 64" using unat_u64_bound [of "jb_size j"] assms(1) by (simp add: reads_disk_def)
  then have "unat (of_nat k * BLOCK_SIZE :: u64) = k * BLOCK_SIZE" using off by (simp add: unat_word_ariths unat_of_nat)
  moreover have "unat (pipeline_block_size (jb_total j) (jb_size j) (of_nat k)) = min BLOCK_SIZE (length D - k * BLOCK_SIZE)"
    using assms by (intro pipeline_block_size_disk) (simp_all add: reads_disk_def)
  ultimately show ?thesis using assms(1) off ReadAt_disk [of "of_nat k * BLOCK_SIZE" "pipeline_block_size (jb_total j) (jb_size j) (of_nat k)" D]
    by (simp add: reads_disk_def block_data_def)
qed

lemma image_of_blocks:
  assumes "\<And>k. k < blocks_of (length D) \<Longrightarrow>
      segment (k * BLOCK_SIZE) (length (block_data D 0 (length D) k)) f = block_data D 0 (length D) k"
  shows "take (length D) f = D"
proof (cases "D = []")
  case False
  have seg: "f ! i = D ! i \<and> i < length f" if i: "i < length D" for i
  proof -
    define k where "k = i div BLOCK_SIZE"
    have ik: "k * BLOCK_SIZE \<le> i" "i - k * BLOCK_SIZE < BLOCK_SIZE" by (simp_all add: k_def div_times_less_eq_dividend minus_div_mult_eq_mod)
    have k: "k < blocks_of (length D)" using ik i by (simp add: blocks_of_less)
    have e: "take (min BLOCK_SIZE (length D - k * BLOCK_SIZE)) (drop (k * BLOCK_SIZE) f) = take (min BLOCK_SIZE (length D - k * BLOCK_SIZE)) (drop (k * BLOCK_SIZE) D)"
      using assms [OF k] by (auto simp: block_data_def segment_def min_def split: if_splits)
    have "i - k * BLOCK_SIZE < min BLOCK_SIZE (length D - k * BLOCK_SIZE)" using ik i by simp
    then show ?thesis using arg_cong [OF e, of "\<lambda>x. x ! (i - k * BLOCK_SIZE)"] arg_cong [OF e, of length] ik i by auto
  qed
  then have "length D \<le> length f" using False by (metis Suc_pred length_greater_0_conv less_eq_Suc_le lessI)
  then show ?thesis using seg by (intro nth_equalityI) auto
qed simp

lemma stored_block:
  assumes "sys_inv S n s" and "unat b < unat (jb_total (ss_job S))" and "ack_states (pp_state (sy_pipe s)) ! unat b = AckAcknowledged"
  shows "\<exists>bf data. Get (ss_disks S) (ss_dev S) = Some bf
    \<and> ReadAt (jb_source (ss_job S)) (b * BLOCK_SIZE) (pipeline_block_size (jb_total (ss_job S)) (jb_size (ss_job S)) b) = Some data
    \<and> segment (unat b * BLOCK_SIZE) (length data) (sy_files s (bf_fd bf)) = data"
proof -
  have "stored S (sy_files s) (of_nat (unat b))" using assms by (simp only: sys_inv_def)
  then show ?thesis by (auto simp: stored_def holds_def block_bytes_def prepare_block_def split: option.splits)
qed

lemma all_acknowledged:
  assumes "inv_pipe j n p" and "be_acked (pp_engine p) = unat (jb_total j)" and "k < unat (jb_total j)"
  shows "ack_states (pp_state p) ! k = AckAcknowledged"
proof -
  have "length (filter (\<lambda>a. a = AckAcknowledged) (ack_states (pp_state p))) = length (ack_states (pp_state p))"
    using assms by (simp add: inv_pipe_def inv_state_alt)
  then have "\<forall>a \<in> set (ack_states (pp_state p)). a = AckAcknowledged"
    using length_filter_less [of _ "ack_states (pp_state p)" "\<lambda>a. a = AckAcknowledged"] by (metis less_irrefl)
  then show ?thesis using assms by (simp add: inv_pipe_def inv_state_alt)
qed

lemma acknowledged_image:
  assumes inv: "sys_inv S n s" and acked: "be_acked (pp_engine (sy_pipe s)) = unat (jb_total (ss_job S))"
    and disk: "reads_disk (ss_job S) D" and bf: "Get (ss_disks S) (ss_dev S) = Some bf"
  shows "take (length D) (sy_files s (bf_fd bf)) = D"
proof (rule image_of_blocks)
  fix k assume k: "k < blocks_of (length D)"
  have "unat (of_nat k :: u64) = k"
    using k disk unat_u64_bound [of "jb_total (ss_job S)"] by (simp add: reads_disk_def unat_of_nat)
  moreover have "ack_states (pp_state (sy_pipe s)) ! k = AckAcknowledged"
    using inv acked k disk by (intro all_acknowledged [of "ss_job S" n]) (simp_all add: sys_inv_def reads_disk_def)
  ultimately show "segment (k * BLOCK_SIZE) (length (block_data D 0 (length D) k)) (sy_files s (bf_fd bf)) = block_data D 0 (length D) k"
    using stored_block [OF inv, of "of_nat k"] ReadAt_reads_disk [OF disk k] k disk bf by (simp add: reads_disk_def)
qed

section \<open>Undisturbed transfers\<close>

text \<open>A step without a lost connection and without a time-out.\<close>

definition calm :: "session \<Rightarrow> System \<Rightarrow> System \<Rightarrow> bool" where
  "calm S s t \<longleftrightarrow> sys_step S s t \<and> \<not> be_error (pp_engine (sy_pipe t))
     \<and> (pp_main (sy_pipe s) = AtTop \<and> pp_main (sy_pipe t) = Waiting \<longrightarrow> \<not> pp_i (sy_pipe s) < jb_total (ss_job S))
     \<and> (pp_main (sy_pipe s) = Waiting \<and> pp_main (sy_pipe t) = Stopping \<longrightarrow> be_inFlight (pp_engine (sy_pipe s)) = 0)"

text \<open>A sound environment: the disk can be read, both sides compute the same SHA-256, the compressor
  works and does not more than double a block, the device is registered with a file that is large enough, and \<open>pwrite\<close> writes all.\<close>

definition healthy :: "session \<Rightarrow> byte list \<Rightarrow> bool" where
  "healthy S D \<longleftrightarrow> reads_disk (ss_job S) D \<and> ready (jb_hasher (ss_job S))
     \<and> (\<forall>d. d \<noteq> [] \<longrightarrow> length d \<le> BLOCK_SIZE \<longrightarrow>
          jb_bcrypt (ss_job S) d = Some (SHA256 (ss_platform S) d) \<and> length (SHA256 (ss_platform S) d) = 32
          \<and> (\<exists>z. Compress (jb_win (ss_job S)) (jb_compressor (ss_job S)) d = Some z \<and> length z \<le> 2 * BLOCK_SIZE))
     \<and> (\<exists>bf. Get (ss_disks S) (ss_dev S) = Some bf \<and> length D \<le> unat (bf_size_bytes bf)
          \<and> (\<forall>d off. 0 \<le> off \<longrightarrow> sys_pwrite (ss_platform S) (bf_fd bf) d off = int (length d)))"

lemma healthy_prepare:
  assumes h: "healthy S D" and i: "unat i < unat (jb_total (ss_job S))"
  shows "\<exists>z. prepare_block (ss_job S) i = PrepReady (block_data D 0 (length D) (unat i))
      (SHA256 (ss_platform S) (block_data D 0 (length D) (unat i))) z \<and> length z \<le> 2 * BLOCK_SIZE"
proof -
  define d where "d = block_data D 0 (length D) (unat i)"
  have r: "reads_disk (ss_job S) D" and k: "unat i < blocks_of (length D)" using h i by (auto simp: healthy_def reads_disk_def)
  have "unat i * BLOCK_SIZE < length D" using k by (simp add: blocks_of_less)
  then have d: "d \<noteq> []" "length d \<le> BLOCK_SIZE" by (simp_all add: d_def block_data_def segment_def)
  have "ReadAt (jb_source (ss_job S)) (i * BLOCK_SIZE) (pipeline_block_size (jb_total (ss_job S)) (jb_size (ss_job S)) i) = Some d"
    using ReadAt_reads_disk [OF r k] by (simp add: d_def)
  then show ?thesis using h d unfolding d_def [symmetric]
    by (fastforce simp: prepare_block_def ComputeBlockHash_def healthy_def ready_def)
qed

lemma healthy_serve:
  assumes h: "healthy S D" and ok: "session_ok S" and sized: "dm_sized (ss_disks S) fs" and req: "good_request S (bh, z)"
  shows "length z \<le> 2 * BLOCK_SIZE \<and> (\<exists>fs' ack. Process (ss_platform S) (ss_disks S) fs (ss_dev S) bh z = (fs', ack, OK))"
proof -
  define i where "i = bh_BlockIndex bh"
  define d where "d = block_data D 0 (length D) (unat i)"
  obtain data hash where prep: "prepare_block (ss_job S) i = PrepReady data hash z" and i: "unat i < unat (jb_total (ss_job S))"
    and bh: "bh = client_block i (pipeline_block_size (jb_total (ss_job S)) (jb_size (ss_job S)) i) z hash (ss_version S)"
  proof -
    obtain i' data hash where r: "prepare_block (ss_job S) i' = PrepReady data hash z" "unat i' < unat (jb_total (ss_job S))"
      "bh = client_block i' (pipeline_block_size (jb_total (ss_job S)) (jb_size (ss_job S)) i') z hash (ss_version S)"
      using req unfolding good_request_def fst_conv snd_conv by blast
    then have "i' = i" by (simp add: client_block_def i_def)
    then show thesis using that r by blast
  qed
  have p: "data = d" "hash = SHA256 (ss_platform S) d" and z: "length z \<le> 2 * BLOCK_SIZE"
    using healthy_prepare [OF h i] prep by (auto simp: d_def)
  note blk = prepared_block [OF prep, unfolded p]
  obtain bf where bf: "Get (ss_disks S) (ss_dev S) = Some bf" "length D \<le> unat (bf_size_bytes bf)"
    and w: "\<And>d off. 0 \<le> off \<Longrightarrow> sys_pwrite (ss_platform S) (bf_fd bf) d off = int (length d)" and "length hash = 32"
    using h blk(3,4) by (auto simp: healthy_def p)
  obtain inflate where inf: "deflate_api inflate (jb_win (ss_job S))" "zlib_ok inflate (ss_platform S)" and "pwrite_ok (ss_platform S)"
    using ok by (auto simp: session_ok_def)
  have "unat i < blocks_of (length D)" using i h by (simp add: healthy_def reads_disk_def)
  then have "unat i * BLOCK_SIZE + length d \<le> length D" by (simp add: blocks_of_less d_def block_data_def segment_def)
  also have "length D \<le> length (fs (bf_fd bf))" using bf sized by (simp add: dm_sized_def)
  finally have room: "unat i * BLOCK_SIZE + length d \<le> length (fs (bf_fd bf))" .
  have "ingest (ss_platform S) (ss_disks S) fs (ss_dev S) (unat i) (length d) (SHA256 (ss_platform S) d) z =
    (fs(bf_fd bf := overwrite (fs (bf_fd bf)) (unat i * BLOCK_SIZE) d), OK)"
    using ingest_compressed [where fs = fs and idx = "unat i", OF blk(1) inf blk(3,4) bf(1) room] w by simp
  from Process_ingest [of bh "ss_platform S" "ss_disks S" fs "ss_dev S" z] this show ?thesis
    using bh blk(2) z i ok sized \<open>length hash = 32\<close> p by (simp add: client_block_def session_ok_def unat_of_nat)
qed

text \<open>What holds throughout an undisturbed transfer: nothing has failed, the loop was left at its end only, and
  nothing was unanswered when the waiting ended.\<close>

definition quiet :: "job \<Rightarrow> Pipe \<Rightarrow> bool" where
  "quiet j p \<longleftrightarrow> \<not> be_error (pp_engine p) \<and> be_failed (pp_engine p) = 0 \<and> pp_skipped p = 0
     \<and> (pp_main p \<in> {Waiting, Stopping, Finished} \<longrightarrow> pp_i p = jb_total j)
     \<and> (pp_main p \<in> {Stopping, Finished} \<longrightarrow> outstanding p = [] \<and> pp_ack p \<in> {AckIdle, AckStopped})"

lemma settled_acks:
  assumes "inv_count p" and "just_sent (pp_main p) = 0" and "be_inFlight (pp_engine p) \<le> 0"
  shows "outstanding p = [] \<and> pp_ack p \<in> {AckIdle, AckStopped}"
proof -
  have "int (length (outstanding p)) + of_bool (pp_ack p = AckReleased True) \<le> 0" "pp_ack p \<noteq> AckReleased False"
    using assms by (auto simp: inv_count_def)
  then show ?thesis by (cases "pp_ack p") (auto simp: outstanding_def)
qed

lemma quiet_step:
  assumes "pipe_step j p q" and "inv_pipe j n p" and "quiet j p" and "\<not> be_error (pp_engine q)"
    and "pp_main p = AtTop \<and> pp_main q = Waiting \<longrightarrow> \<not> pp_i p < jb_total j"
    and "pp_main p = Waiting \<and> pp_main q = Stopping \<longrightarrow> be_inFlight (pp_engine p) = 0"
    and "unat (pp_i p) < unat (jb_total j) \<longrightarrow> (\<forall>h. prepare_block j (pp_i p) \<noteq> PrepFailed h)"
    and "pp_wire q = pp_wire p \<or> be_failed (pp_engine q) = 0"
  shows "quiet j q"
  using assms
proof (induction rule: pipe_step.induct)
  case (loop_end p)
  then have "pp_i p = jb_total j" by (simp add: inv_pipe_def inv_window_def word_less_nat_alt word_unat_eq_iff)
  then show ?case using loop_end by (simp add: quiet_def)
next
  case (acquire p e s)
  then show ?case using AcquireSlot_counts [OF acquire(4)] by (auto simp: quiet_def)
next
  case (prepare p s)
  then have "unat (pp_i p) < unat (jb_total j)" using in_loop_less [of j p] by (simp add: inv_pipe_def)
  then show ?case using prepare
    by (cases "prepare_block j (pp_i p)") (auto simp: quiet_def prepare_slot_def set_slot_def)
next
  case (count p s)
  then show ?case by (simp add: quiet_def count_sent_fields)
next
  case (wait_end p)
  then show ?case using settled_acks [of p] by (auto simp: quiet_def inv_pipe_def outstanding_def)
next
  case (wait_timeout p)
  then show ?case by (simp add: acks_settled_def)
next
  case (ack_receive p b w status e m)
  then show ?case by (auto simp: quiet_def outstanding_def record_ack_def split: if_splits)
next
  case (ack_release p b e r)
  then show ?case using ReleaseSlot_counts [OF ack_release(2)] by (auto simp: quiet_def outstanding_def)
qed (auto simp: quiet_def fill_slot_def set_slot_def send_slot_def outstanding_def Let_def)

definition calm_inv :: "session \<Rightarrow> nat \<Rightarrow> byte list \<Rightarrow> System \<Rightarrow> bool" where
  "calm_inv S n D s \<longleftrightarrow> sys_inv S n s \<and> healthy S D \<and> quiet (ss_job S) (sy_pipe s) \<and> (\<forall>a \<in> set (sy_replies s). ak_Status a = 0)"

lemma calm_quiet:
  assumes "calm S s t" and "calm_inv S n D s"
  shows "quiet (ss_job S) (sy_pipe t)"
proof -
  have inv: "sys_inv S n s" "inv_pipe (ss_job S) n (sy_pipe s)" "queues_ok s" and q: "quiet (ss_job S) (sy_pipe s)"
    using assms(2) by (auto simp: calm_inv_def sys_inv_def)
  have prep: "unat (pp_i (sy_pipe s)) < unat (jb_total (ss_job S)) \<longrightarrow> (\<forall>h. prepare_block (ss_job S) (pp_i (sy_pipe s)) \<noteq> PrepFailed h)"
    using healthy_prepare [of S D "pp_i (sy_pipe s)"] assms(2) by (auto simp: calm_inv_def)
  have "sys_step S s t" using assms(1) by (simp add: calm_def)
  then have "pp_wire (sy_pipe t) = pp_wire (sy_pipe s) \<or> be_failed (pp_engine (sy_pipe t)) = 0"
    using q assms(2) by cases (auto simp: quiet_def send_slot_def record_ack_def calm_inv_def split: if_splits)
  then show ?thesis
    using sys_step_pipe [OF \<open>sys_step S s t\<close> inv(3)] quiet_step [OF _ inv(2) q _ _ _ prep, of "sy_pipe t"] assms(1) q
    by (auto simp: calm_def)
qed

lemma calm_inv_step:
  assumes "calm S s t" and "calm_inv S n D s"
  shows "calm_inv S n D t"
proof -
  have step: "sys_step S s t" and inv: "sys_inv S n s" and h: "healthy S D" using assms by (auto simp: calm_def calm_inv_def)
  have "\<forall>a \<in> set (sy_replies t). ak_Status a = 0"
    using step
  proof cases
    case (sys_serve bh z rs fs ack st)
    have "st = OK" using healthy_serve [OF h, of "sy_files s" bh z] sys_serve inv by (auto simp: sys_inv_def)
    then show ?thesis using assms(2) sys_serve Process_ack [OF sys_serve(4)] by (auto simp: calm_inv_def)
  qed (use assms(2) in \<open>auto simp: calm_inv_def\<close>)
  then show ?thesis using sys_inv_step [OF step inv] calm_quiet [OF assms] h by (simp add: calm_inv_def)
qed

text \<open>The acknowledgement side goes on while something is unanswered.\<close>

lemma calm_ack_progress:
  assumes inv: "calm_inv S n D s" and pc: "pp_ack (sy_pipe s) = AckIdle \<and> pp_wire (sy_pipe s) \<noteq> []
      \<or> (\<exists>b. pp_ack (sy_pipe s) = AckRecorded b) \<or> (\<exists>r. pp_ack (sy_pipe s) = AckReleased r)"
  shows "\<exists>t. calm S s t"
proof -
  have q: "\<not> be_error (pp_engine (sy_pipe s))" and si: "sys_inv S n s" using inv by (auto simp: calm_inv_def quiet_def)
  have keep: "\<exists>t. calm S s t" if "sys_step S s t" "\<not> be_error (pp_engine (sy_pipe t))" "pp_main (sy_pipe t) = pp_main (sy_pipe s)" for t
    using that by (auto simp: calm_def)
  from pc show ?thesis
  proof (elim disjE exE conjE)
    assume idle: "pp_ack (sy_pipe s) = AckIdle" and wire: "pp_wire (sy_pipe s) \<noteq> []"
    show ?thesis
    proof (cases "sy_replies s")
      case (Cons a as)
      obtain e m where r: "record_ack (ak_BlockIndex a) (ak_Status a) (pp_engine (sy_pipe s)) (pp_state (sy_pipe s)) = (e, m)" by (metis surj_pair)
      from keep [OF sys_receive [OF idle Cons r]] show ?thesis using q r by (auto simp: record_ack_def split: if_splits)
    next
      case Nil
      then obtain bh z rs where req: "sy_requests s = (bh, z) # rs"
        using si wire by (cases "sy_requests s") (auto simp: sys_inv_def queues_ok_def)
      then obtain fs ack where "length z \<le> 2 * BLOCK_SIZE" "Process (ss_platform S) (ss_disks S) (sy_files s) (ss_dev S) bh z = (fs, ack, OK)"
        using healthy_serve [of S D "sy_files s" bh z] inv by (auto simp: calm_inv_def sys_inv_def)
      from keep [OF sys_serve [OF req this]] show ?thesis using q by simp
    qed
  next
    fix b assume a: "pp_ack (sy_pipe s) = AckRecorded b"
    obtain e r where r: "ReleaseSlot b (pp_engine (sy_pipe s)) = (e, r)" by (metis surj_pair)
    from keep [OF sys_local [OF pipe_step.ack_release [OF a r]]] show ?thesis using q ReleaseSlot_counts [OF r] by simp
  next
    fix r assume "pp_ack (sy_pipe s) = AckReleased r"
    from keep [OF sys_local [OF pipe_step.ack_count [OF this]]] show ?thesis using q by simp
  qed
qed

text \<open>An undisturbed transfer can go on until it has finished.\<close>

lemma calm_progress:
  assumes inv: "calm_inv S n D s" and "0 < n" and "pp_main (sy_pipe s) \<noteq> Finished"
  shows "\<exists>t. calm S s t"
proof -
  let ?p = "sy_pipe s"
  have q: "\<not> be_error (pp_engine ?p)" and pi: "inv_pipe (ss_job S) n ?p" and qu: "quiet (ss_job S) ?p"
    using inv by (auto simp: calm_inv_def quiet_def sys_inv_def)
  have wait: "\<exists>t. calm S s t"
    if "pp_main ?p = AtTop \<and> snd (AcquireSlot (pp_engine ?p)) = None \<or> pp_main ?p = Waiting \<and> 0 < be_inFlight (pp_engine ?p)"
    using calm_ack_progress [OF inv] waiting_progress [OF pi assms(2) q that] by (cases "pp_ack ?p") auto
  have go: "\<exists>t. calm S s t" if "pipe_step (ss_job S) ?p p" "pp_wire p = pp_wire ?p" "\<not> be_error (pp_engine p)"
     "pp_main p \<notin> {Waiting, Stopping}" for p
    using sys_local [OF that(1,2)] that(3,4) by (auto simp: calm_def intro!: exI [of _ "s\<lparr>sy_pipe := p\<rparr>"])
  show ?thesis
  proof (cases "pp_main ?p")
    case AtTop
    show ?thesis
    proof (cases "pp_i ?p < jb_total (ss_job S)")
      case False
      from sys_local [OF pipe_step.loop_end [OF AtTop False]] show ?thesis using q AtTop False
        by (auto simp: calm_def intro!: exI [of _ "s\<lparr>sy_pipe := ?p\<lparr>pp_main := Waiting\<rparr>\<rparr>"])
    next
      case True
      obtain e r where a: "AcquireSlot (pp_engine ?p) = (e, r)" by (metis surj_pair)
      show ?thesis
      proof (cases r)
        case (Some k)
        from go [OF pipe_step.acquire [OF AtTop q True a [unfolded Some]]] show ?thesis using q AcquireSlot_counts [OF a] by simp
      qed (use wait AtTop a in simp)
    qed
  next
    case (HaveSlot k)
    from go [OF pipe_step.fill [OF HaveSlot]] show ?thesis using q by (simp add: fill_slot_def set_slot_def Let_def)
  next
    case (Filled k)
    from go [OF pipe_step.prepare [OF Filled]] show ?thesis using q
      by (cases "prepare_block (ss_job S) (pp_i ?p)") (simp_all add: prepare_slot_def set_slot_def)
  next
    case (ReadyToSend k)
    from sys_send [OF ReadyToSend, of S] show ?thesis using q ReadyToSend
      by (fastforce simp: calm_def send_slot_def)
  next
    case (JustSent k)
    from go [OF pipe_step.count [OF JustSent]] show ?thesis using q by (simp add: count_sent_fields)
  next
    case Waiting
    have "0 \<le> be_inFlight (pp_engine ?p)" using pi Waiting by (auto simp: inv_pipe_def inv_count_def)
    then consider "0 < be_inFlight (pp_engine ?p)" | "be_inFlight (pp_engine ?p) = 0" by linarith
    then show ?thesis
    proof cases
      case 2
      then have le: "be_inFlight (pp_engine ?p) \<le> 0 \<or> be_error (pp_engine ?p)" by simp
      from sys_local [OF pipe_step.wait_end [OF Waiting le]] show ?thesis using q Waiting 2
        by (auto simp: calm_def intro!: exI [of _ "s\<lparr>sy_pipe := ?p\<lparr>pp_main := Stopping\<rparr>\<rparr>"])
    qed (use wait Waiting in simp)
  next
    case Stopping
    then have "pp_ack ?p \<in> {AckIdle, AckStopped}" using qu by (simp add: quiet_def)
    from go [OF pipe_step.join [OF Stopping this]] show ?thesis using q by simp
  qed (use assms(3) in simp)
qed

lemma calm_inv_start:
  assumes "healthy S D" and "fresh_system S n s"
  shows "calm_inv S n D s"
proof -
  have "quiet (ss_job S) (sy_pipe s) \<and> sy_replies s = []" using assms(2)
    by (auto simp: fresh_system_def system_start_def quiet_def pipe_start_def ResetPipelineWindow_def Engine_new_def)
  then show ?thesis using assms sys_inv_start by (simp add: calm_inv_def)
qed

interpretation calmm: ending_machine "calm S" "\<lambda>s. healthy S D \<and> fresh_system S n s" "calm_inv S n D" "system_left S" for S n D
proof unfold_locales
  show "healthy S D \<and> fresh_system S n s \<Longrightarrow> calm_inv S n D s" for s using calm_inv_start by blast
  show "calm S s t \<Longrightarrow> calm_inv S n D s \<Longrightarrow> calm_inv S n D t" for s t using calm_inv_step by blast
  show "calm S s t \<Longrightarrow> calm_inv S n D s \<Longrightarrow> system_left S t < system_left S s" for s t
    using system_left_step [of S s t n] by (simp add: calm_def calm_inv_def)
qed

lemma calm_finished:
  assumes inv: "calm_inv S n D s" and "pp_main (sy_pipe s) = Finished"
  shows "be_acked (pp_engine (sy_pipe s)) = unat (jb_total (ss_job S))"
  using assms by (auto simp: calm_inv_def sys_inv_def inv_pipe_def inv_count_def quiet_def outstanding_def)

section \<open>Properties\<close>

lemma fresh_systemI:
  assumes "session_ok S" and "InitFullBlocksEmpty vid (jb_total (ss_job S)) m0 = (m, True)" and "dm_sized (ss_disks S) sfs"
  shows "fresh_system S (nat w) (system_start w m cfs sfs)"
  using assms unfolding fresh_system_def by blast

lemma healthy_finishes:
  assumes "session_ok S" and "InitFullBlocksEmpty vid (jb_total (ss_job S)) m0 = (m, True)" and "dm_sized (ss_disks S) sfs"
    and "healthy S D" and "0 < w"
  shows "\<exists>k s. (calm S ^^ k) (system_start w m cfs sfs) s \<and> (sys_step S)\<^sup>*\<^sup>* (system_start w m cfs sfs) s
    \<and> pp_main (sy_pipe s) = Finished \<and> be_acked (pp_engine (sy_pipe s)) = unat (jb_total (ss_job S))"
proof -
  have inv: "calm_inv S (nat w) D (system_start w m cfs sfs)" using calm_inv_start [OF assms(4) fresh_systemI [OF assms(1-3)]] .
  obtain s where s: "(calm S)\<^sup>*\<^sup>* (system_start w m cfs sfs) s" "pp_main (sy_pipe s) = Finished"
    using calmm.reaches [OF inv, of "\<lambda>s. pp_main (sy_pipe s) = Finished"] calm_progress assms(5) by fastforce
  have "(sys_step S)\<^sup>*\<^sup>* (system_start w m cfs sfs) s"
    using s(1) by (rule mono_rtranclp [rule_format, rotated]) (simp add: calm_def)
  moreover obtain k where "(calm S ^^ k) (system_start w m cfs sfs) s" using s(1) by (meson rtranclp_imp_relpowp)
  ultimately show ?thesis using s calm_finished [OF calmm.inv_run [OF inv s(1)]] by blast
qed

lemmas system_inv = sysm.inv_reachable [OF fresh_systemI]

lemma acknowledged_in_file:
  assumes inv: "sys_inv S n s" and "bs_Ack (GetBlockState b (pp_state (sy_pipe s))) = AckAcknowledged"
  shows "\<exists>bf data. Get (ss_disks S) (ss_dev S) = Some bf
    \<and> ReadAt (jb_source (ss_job S)) (b * BLOCK_SIZE) (pipeline_block_size (jb_total (ss_job S)) (jb_size (ss_job S)) b) = Some data
    \<and> segment (unat b * BLOCK_SIZE) (length data) (sy_files s (bf_fd bf)) = data"
proof -
  have "unat b < length (m_blocks (pp_state (sy_pipe s)))"
    using assms(2) by (auto simp: GetBlockState_def BlockState_zero_def split: if_splits)
  then have "unat b < unat (jb_total (ss_job S))" "ack_states (pp_state (sy_pipe s)) ! unat b = AckAcknowledged"
    using inv assms(2) by (simp_all add: sys_inv_def inv_pipe_def inv_state_def GetBlockState_def ack_states_def)
  with inv show ?thesis by (rule stored_block)
qed

text \<open>
  C8. What the client's table calls acknowledged is on the server: in every state that client and server can reach, with any
  interleaving of their threads, refused writes, time-outs and lost connections, a block marked acknowledged
  is in the device's file at its place, with the bytes that reading the disk delivers.
\<close>

theorem acknowledged_on_server:
  assumes "session_ok S" and "InitFullBlocksEmpty vid (jb_total (ss_job S)) m0 = (m, True)" and "dm_sized (ss_disks S) sfs"
    and "(sys_step S)\<^sup>*\<^sup>* (system_start w m cfs sfs) s"
    and "bs_Ack (GetBlockState b (pp_state (sy_pipe s))) = AckAcknowledged"
  shows "\<exists>bf data. Get (ss_disks S) (ss_dev S) = Some bf
    \<and> ReadAt (jb_source (ss_job S)) (b * BLOCK_SIZE) (pipeline_block_size (jb_total (ss_job S)) (jb_size (ss_job S)) b) = Some data
    \<and> segment (unat b * BLOCK_SIZE) (length data) (sy_files s (bf_fd bf)) = data"
  using acknowledged_in_file [OF system_inv [OF assms(1-4)] assms(5)] .

text \<open>
  C12. The pipeline with its abstract connection is refined by the pipeline with the server: every run of the composed system is a run
  of \<open>pipe_step\<close> from the corresponding start, and the unanswered blocks of that run are the messages and
  acknowledgements under way, in order.
\<close>

theorem system_refines_pipeline:
  assumes "(sys_step S)\<^sup>*\<^sup>* (system_start w m cfs sfs) s"
  shows "(pipe_step (ss_job S))\<^sup>*\<^sup>* (pipe_start w m cfs) (sy_pipe s)
    \<and> pp_wire (sy_pipe s) = map ak_BlockIndex (sy_replies s) @ map (bh_BlockIndex \<circ> fst) (sy_requests s)"
  using system_run_pipe [OF assms] by (simp add: queues_ok_def system_start_def pipe_start_def)

text \<open>
  C2. A transfer that is not disturbed succeeds: with a sound environment and as long as the connection holds and no
  time-out strikes, the system can always make a step until the transfer has finished, it
  finishes within 20 steps per block and 20 more, and then every block is acknowledged and the device's
  file begins with the disk.
\<close>

theorem undisturbed_backup:
  assumes "session_ok S" and "InitFullBlocksEmpty vid (jb_total (ss_job S)) m0 = (m, True)" and "dm_sized (ss_disks S) sfs"
    and "healthy S D" and "0 < w" and "(calm S ^^ k) (system_start w m cfs sfs) s"
  shows "k \<le> 20 * unat (jb_total (ss_job S)) + 20
    \<and> (pp_main (sy_pipe s) \<noteq> Finished \<longrightarrow> (\<exists>t. calm S s t))
    \<and> (pp_main (sy_pipe s) = Finished \<longrightarrow> be_acked (pp_engine (sy_pipe s)) = unat (jb_total (ss_job S))
        \<and> (\<exists>bf. Get (ss_disks S) (ss_dev S) = Some bf \<and> take (length D) (sy_files s (bf_fd bf)) = D))"
proof -
  have start: "healthy S D \<and> fresh_system S (nat w) (system_start w m cfs sfs)" using fresh_systemI [OF assms(1-3)] assms(4) by blast
  have inv: "calm_inv S (nat w) D s" using calmm.inv_reachable [OF start] assms(6) by (meson relpowp_imp_rtranclp)
  obtain bf where "Get (ss_disks S) (ss_dev S) = Some bf" using assms(4) by (auto simp: healthy_def)
  moreover have "take (length D) (sy_files s (bf_fd bf)) = D" if "pp_main (sy_pipe s) = Finished" "Get (ss_disks S) (ss_dev S) = Some bf" for bf
    using acknowledged_image [of S "nat w" s D bf] calm_finished [OF inv] inv that assms(4) by (simp add: calm_inv_def healthy_def)
  moreover have "k \<le> 20 * unat (jb_total (ss_job S)) + 20"
    using calmm.run_length [OF start assms(6)] by (simp add: system_left_def system_start_def steps_left_def pipe_start_def)
  ultimately show ?thesis using calm_progress [OF inv] calm_finished [OF inv] assms(5) by auto
qed

section \<open>A transfer of three bytes\<close>

definition demo_link :: session where
  "demo_link = \<lparr> ss_job = demo_job\<lparr> jb_source := disk_reader [1, 2, 3] \<rparr>, ss_platform = demo_zlib, ss_disks = demo_disk,
     ss_dev = 0, ss_version = 1 \<rparr>"

abbreviation demo_begin :: System where
  "demo_begin \<equiv> system_start 1 demo_table Map.empty demo_files"

text \<open>A session over the demonstration server and codec.\<close>

definition demo_side :: "session \<Rightarrow> bool" where
  "demo_side S \<longleftrightarrow> ss_platform S = demo_zlib \<and> ss_disks S = demo_disk \<and> ss_dev S = 0 \<and> jb_win (ss_job S) = demo_win
     \<and> dc_initialized (jb_compressor (ss_job S)) \<and> ready (jb_hasher (ss_job S)) \<and> jb_bcrypt (ss_job S) = (\<lambda>d. Some (replicate 32 7))
     \<and> reads_disk (ss_job S) [1, 2, 3]"

lemma blocks_of_demo: "blocks_of (Suc (Suc (Suc 0))) = 1"
  by (simp add: blocks_of_def)

lemma demo_side_ok: "demo_side S \<Longrightarrow> session_ok S"
proof -
  have "pwrite_ok demo_zlib" "zlib_ok inflate_stored demo_zlib"
    by (auto simp: pwrite_ok_def zlib_ok_def demo_zlib_def demo_platform_def)
  then show "demo_side S \<Longrightarrow> session_ok S" using demo_win_api blocks_of_demo by (auto simp: session_ok_def demo_side_def reads_disk_def)
qed

lemma demo_side_healthy: "demo_side S \<Longrightarrow> healthy S [1, 2, 3]"
proof -
  assume side: "demo_side S"
  have "\<exists>z. Compress demo_win c d = Some z \<and> length z \<le> 2 * BLOCK_SIZE" if "d \<noteq> []" "length d \<le> BLOCK_SIZE" "dc_initialized c" for c d
    using that by (simp add: Compress_def compress_call_def demo_win_def Let_def GetMaxCompressedSize_def WrapDeflateAsZlib_def
        length_stored_blocks be_bytes32_def)
  then show ?thesis using side
    by (simp add: healthy_def demo_side_def demo_zlib_def demo_platform_def demo_disk_def Get_def)
qed

lemma demo_link_side: "demo_side demo_link"
  using demo_hasher_ready by (simp add: demo_side_def demo_link_def demo_job_def reads_disk_def blocks_of_def)

lemmas demo_session_ok = demo_side_ok [OF demo_link_side]

lemmas demo_healthy = demo_side_healthy [OF demo_link_side]

lemma demo_link_init: "InitFullBlocksEmpty 0 (jb_total (ss_job demo_link)) demo_manager = (demo_table, True)"
  using demo_init by (simp add: demo_link_def)

lemma demo_link_sized: "dm_sized (ss_disks demo_link) demo_files"
  using demo_dm_sized by (simp add: demo_link_def)

lemmas demo_link_ok = demo_session_ok demo_link_init demo_link_sized

lemma demo_link_fields: "Get (ss_disks demo_link) (ss_dev demo_link) = Some \<lparr> bf_fd = 3, bf_size_bytes = 6, bf_path = ''/img'' \<rparr>"
  "unat (jb_total (ss_job demo_link)) = 1" "reads_disk (ss_job demo_link) [1, 2, 3]"
  using demo_lookup(1) demo_healthy by (simp_all add: demo_link_def demo_job_def healthy_def)

lemmas demo_finishes = healthy_finishes [OF demo_link_ok demo_healthy zero_less_one, of Map.empty]

theorem undisturbed_backup_witness:
  "\<exists>s. (sys_step demo_link)\<^sup>*\<^sup>* demo_begin s \<and> pp_main (sy_pipe s) = Finished \<and> take 3 (sy_files s 3) = [1, 2, 3]"
proof -
  obtain k s where s: "(calm demo_link ^^ k) demo_begin s" "(sys_step demo_link)\<^sup>*\<^sup>* demo_begin s" "pp_main (sy_pipe s) = Finished"
    using demo_finishes by blast
  have "take 3 (sy_files s 3) = [1, 2, 3]"
    using undisturbed_backup [OF demo_link_ok demo_healthy _ s(1)] s(3) demo_link_fields(1) by (simp add: numeral_3_eq_3)
  then show ?thesis using s(2,3) by blast
qed

lemma demo_all_acked:
  "\<exists>s. (sys_step demo_link)\<^sup>*\<^sup>* demo_begin s \<and> be_acked (pp_engine (sy_pipe s)) = 1
     \<and> bs_Ack (GetBlockState 0 (pp_state (sy_pipe s))) = AckAcknowledged"
proof -
  obtain s where s: "(sys_step demo_link)\<^sup>*\<^sup>* demo_begin s" "be_acked (pp_engine (sy_pipe s)) = 1"
    using demo_finishes demo_link_fields(2) by auto
  have p: "inv_pipe (ss_job demo_link) (nat 1) (sy_pipe s)" using system_inv [OF demo_link_ok s(1)] by (simp add: sys_inv_def)
  have "ack_states (pp_state (sy_pipe s)) ! 0 = AckAcknowledged" using all_acknowledged [OF p] s(2) demo_link_fields(2) by simp
  moreover have "0 < length (m_blocks (pp_state (sy_pipe s)))" using p demo_link_fields(2) by (simp add: inv_pipe_def inv_state_def)
  ultimately have "bs_Ack (GetBlockState 0 (pp_state (sy_pipe s))) = AckAcknowledged" by (simp add: ack_states_def GetBlockState_def)
  then show ?thesis using s by blast
qed

theorem acknowledged_on_server_witness:
  "\<exists>s. (sys_step demo_link)\<^sup>*\<^sup>* demo_begin s \<and> segment 0 3 (sy_files s 3) = [1, 2, 3]"
proof -
  obtain s where s: "(sys_step demo_link)\<^sup>*\<^sup>* demo_begin s" "bs_Ack (GetBlockState 0 (pp_state (sy_pipe s))) = AckAcknowledged"
    using demo_all_acked by blast
  have "ReadAt (jb_source (ss_job demo_link)) 0 (pipeline_block_size (jb_total (ss_job demo_link)) (jb_size (ss_job demo_link)) 0) = Some [1, 2, 3]"
    using pipeline_demo_size by (simp add: demo_link_def demo_job_def ReadAt_def disk_reader_def segment_def)
  then have "segment 0 3 (sy_files s 3) = [1, 2, 3]"
    using acknowledged_on_server [OF demo_link_ok s] demo_link_fields(1) by (simp add: numeral_3_eq_3)
  then show ?thesis using s(1) by blast
qed

theorem system_refines_pipeline_witness:
  "\<exists>s :: System. be_acked (pp_engine (sy_pipe s)) = 1 \<and> (pipe_step (ss_job demo_link))\<^sup>*\<^sup>* (pipe_start 1 demo_table Map.empty) (sy_pipe s)"
proof -
  obtain s where "(sys_step demo_link)\<^sup>*\<^sup>* demo_begin s" "be_acked (pp_engine (sy_pipe s)) = 1"
    using demo_all_acked by blast
  then show ?thesis using system_refines_pipeline by blast
qed

end
