(* ===== verification/Disk_Parser.thy ===== *)
theory Disk_Parser
  imports Block_Hasher
begin

text \<open>
  The disk layout, \<open>client/DiskParser.{h,cpp}\<close>: the MBR and GPT partition tables, the
  classification of partitions by their first sector, and the free ranges between them. The
  disk is a parameter: what reading at an offset delivers, its length and its sector size.
  Reads beyond a buffer are results of their own.
\<close>

section \<open>Data\<close>

datatype PartitionStyle = StyleUnknown | MBR | GPT

datatype PartitionContent =
  ContentUnknown | FilesystemNTFS | FilesystemFAT32 | FilesystemExFAT | FilesystemReFS | RawPartition | Reserved

record DiskRange =
  rg_Offset :: u64
  rg_Size :: u64

text \<open>A GUID is its image of 16 bytes in memory.\<close>

type_synonym GUID = "byte list"

record GPTInfo =
  gi_PrimaryHeaderOffset :: u64
  gi_BackupHeaderOffset :: u64
  gi_PrimaryEntryOffset :: u64
  gi_BackupEntryOffset :: u64
  gi_EntryCount :: u32
  gi_EntrySize :: u32
  gi_DiskGuid :: GUID

record PartitionInfo =
  pi_Index :: u32
  pi_Offset :: u64
  pi_Size :: u64
  pi_MbrType :: byte
  pi_TypeGuid :: GUID
  pi_PartitionGuid :: GUID
  pi_Attributes :: u64
  pi_Name :: wstring
  pi_Content :: PartitionContent
  pi_IsEncrypted :: bool
  pi_FsName :: wstring

definition PartitionInfo_zero :: PartitionInfo where
  "PartitionInfo_zero = \<lparr> pi_Index = 0, pi_Offset = 0, pi_Size = 0, pi_MbrType = 0, pi_TypeGuid = replicate 16 0,
     pi_PartitionGuid = replicate 16 0, pi_Attributes = 0, pi_Name = [], pi_Content = ContentUnknown,
     pi_IsEncrypted = False, pi_FsName = [] \<rparr>"

record DiskInfo =
  di_DeviceNumber :: int
  di_Size :: u64
  di_SectorSize :: u32
  di_Style :: PartitionStyle
  di_GPT :: GPTInfo
  di_MBRSignature :: u32

definition DiskInfo_zero :: DiskInfo where
  "DiskInfo_zero = \<lparr> di_DeviceNumber = 0, di_Size = 0, di_SectorSize = 0, di_Style = StyleUnknown,
     di_GPT = \<lparr> gi_PrimaryHeaderOffset = 0, gi_BackupHeaderOffset = 0, gi_PrimaryEntryOffset = 0, gi_BackupEntryOffset = 0,
       gi_EntryCount = 0, gi_EntrySize = 0, gi_DiskGuid = replicate 16 0 \<rparr>, di_MBRSignature = 0 \<rparr>"

record DiskLayout =
  dl_Disk :: DiskInfo
  dl_Partitions :: "PartitionInfo list"
  dl_FreeRanges :: "DiskRange list"
  dl_MetadataRanges :: "DiskRange list"

definition DiskLayout_new :: DiskLayout where
  "DiskLayout_new = \<lparr> dl_Disk = DiskInfo_zero, dl_Partitions = [], dl_FreeRanges = [], dl_MetadataRanges = [] \<rparr>"

text \<open>The packed structures as they lie in a sector.\<close>

record MBRPartitionEntry =
  me_Type :: byte
  me_StartLBA :: u32
  me_SectorCount :: u32

definition MBRPartitionEntry_of :: "byte list \<Rightarrow> MBRPartitionEntry" where
  "MBRPartitionEntry_of b = \<lparr> me_Type = b ! 4, me_StartLBA = le_word (segment 8 4 b), me_SectorCount = le_word (segment 12 4 b) \<rparr>"

record GPTHeader =
  gh_Signature :: "byte list"
  gh_BackupLBA :: u64
  gh_DiskGuid :: GUID
  gh_PartitionEntryLBA :: u64
  gh_NumberOfPartitionEntries :: u32
  gh_SizeOfPartitionEntry :: u32

definition GPTHeader_of :: "byte list \<Rightarrow> GPTHeader" where
  "GPTHeader_of b = \<lparr> gh_Signature = segment 0 8 b, gh_BackupLBA = le_word (segment 32 8 b), gh_DiskGuid = segment 56 16 b,
     gh_PartitionEntryLBA = le_word (segment 72 8 b), gh_NumberOfPartitionEntries = le_word (segment 80 4 b),
     gh_SizeOfPartitionEntry = le_word (segment 84 4 b) \<rparr>"

text \<open>
  What can go wrong: the answer false; a sector larger than the 4096 bytes reserved for it on
  the stack; a read past the end of the partition entries.
\<close>

datatype parse_error = ParseRefused | StackOverrun | HeapOverrun

section \<open>Reading\<close>

record DiskParser =
  dp_hDisk :: bool
  dp_DeviceNumber :: int

definition DiskParser_new :: DiskParser where
  "DiskParser_new = \<lparr> dp_hDisk = False, dp_DeviceNumber = -1 \<rparr>"

definition Close_parser :: "DiskParser \<Rightarrow> DiskParser" where
  "Close_parser p = p\<lparr> dp_hDisk := False \<rparr>"

definition Open_parser :: "bool \<Rightarrow> int \<Rightarrow> DiskParser \<Rightarrow> DiskParser \<times> bool" where
  "Open_parser create_ok deviceNumber p0 =
     (let p = Close_parser p0 in
      if \<not> create_ok then (p, False) else (p\<lparr> dp_hDisk := True, dp_DeviceNumber := deviceNumber \<rparr>, True))"

text \<open>What the disk answers: its contents, its length and its sector size.\<close>

record disk_env =
  de_read :: "u64 \<Rightarrow> u32 \<Rightarrow> byte list option"
  de_length :: "u64 option"
  de_sector :: "u32 option"

text \<open>\<open>Read\<close> of one sector into a zeroed array of 4096 bytes.\<close>

definition read_sector :: "disk_env \<Rightarrow> u64 \<Rightarrow> u32 \<Rightarrow> parse_error + byte list" where
  "read_sector E offset n =
     (case ReadAt (de_read E) offset n of
        None \<Rightarrow> Inl ParseRefused
      | Some b \<Rightarrow> if 4096 < n then Inl StackOverrun else Inr (b @ replicate (4096 - length b) 0))"

definition QueryDiskSize :: "disk_env \<Rightarrow> DiskLayout \<Rightarrow> DiskLayout \<times> bool" where
  "QueryDiskSize E l =
     (case de_length E of
        Some n \<Rightarrow> (l\<lparr> dl_Disk := (dl_Disk l)\<lparr> di_Size := n \<rparr> \<rparr>, True)
      | None \<Rightarrow> (l\<lparr> dl_Disk := (dl_Disk l)\<lparr> di_Size := 0 \<rparr> \<rparr>, False))"

definition QuerySectorSize :: "disk_env \<Rightarrow> DiskLayout \<Rightarrow> DiskLayout \<times> bool" where
  "QuerySectorSize E l =
     (case de_sector E of
        Some n \<Rightarrow> (l\<lparr> dl_Disk := (dl_Disk l)\<lparr> di_SectorSize := n \<rparr> \<rparr>, True)
      | None \<Rightarrow> (l\<lparr> dl_Disk := (dl_Disk l)\<lparr> di_SectorSize := 512 \<rparr> \<rparr>, False))"

section \<open>Classification\<close>

definition ESP_GUID :: GUID where
  "ESP_GUID = [0x28, 0x73, 0x2A, 0xC1, 0x1E, 0xF8, 0xD2, 0x11, 0xBA, 0x4B, 0x00, 0xA0, 0xC9, 0x3E, 0xC9, 0x3B]"

definition MSR_GUID :: GUID where
  "MSR_GUID = [0x16, 0xE3, 0xC9, 0xE3, 0x5C, 0x0B, 0xB8, 0x4D, 0x81, 0x7D, 0xF9, 0x2D, 0xF0, 0x02, 0x15, 0xAE]"

definition DetectPartitionContentGpt :: "PartitionInfo \<Rightarrow> PartitionInfo" where
  "DetectPartitionContentGpt p =
     (if pi_TypeGuid p = MSR_GUID then p\<lparr> pi_Content := Reserved, pi_FsName := wlit ''MSR'' \<rparr>
      else if pi_TypeGuid p = ESP_GUID then p\<lparr> pi_FsName := wlit ''ESP'' \<rparr>
      else p)"

text \<open>\<open>if (p.FsName.empty()) p.FsName = ...\<close>\<close>

definition name_if_empty :: "string \<Rightarrow> PartitionInfo \<Rightarrow> PartitionInfo" where
  "name_if_empty n p = (if pi_FsName p = [] then p\<lparr> pi_FsName := wlit n \<rparr> else p)"

definition DetectPartitionContent :: "disk_env \<Rightarrow> u32 \<Rightarrow> PartitionInfo \<Rightarrow> parse_error + PartitionInfo" where
  "DetectPartitionContent E sectorSize p0 =
     (let p = p0\<lparr> pi_Content := ContentUnknown, pi_IsEncrypted := False \<rparr> in
      case read_sector E (pi_Offset p) sectorSize of
        Inl StackOverrun \<Rightarrow> Inl StackOverrun
      | Inl _ \<Rightarrow> Inr (p\<lparr> pi_Content := RawPartition, pi_FsName := wlit ''Unreadable'' \<rparr>)
      | Inr sector \<Rightarrow> Inr (
          if segment 3 8 sector = ascii ''-FVE-FS-''
            then p\<lparr> pi_IsEncrypted := True, pi_Content := FilesystemNTFS, pi_FsName := wlit ''BitLocker-NTFS'' \<rparr>
          else if segment 3 8 sector = ascii ''NTFS    '' then name_if_empty ''NTFS'' (p\<lparr> pi_Content := FilesystemNTFS \<rparr>)
          else if segment 3 4 sector = ascii ''ReFS'' then name_if_empty ''ReFS'' (p\<lparr> pi_Content := FilesystemReFS \<rparr>)
          else if segment 3 8 sector = ascii ''EXFAT   '' then name_if_empty ''exFAT'' (p\<lparr> pi_Content := FilesystemExFAT \<rparr>)
          else if segment 0x52 8 sector = ascii ''FAT32   '' then name_if_empty ''FAT32'' (p\<lparr> pi_Content := FilesystemFAT32 \<rparr>)
          else if segment 0x36 8 sector = ascii ''FAT16   '' then name_if_empty ''FAT16'' (p\<lparr> pi_Content := FilesystemFAT32 \<rparr>)
          else name_if_empty ''Raw'' (p\<lparr> pi_Content := RawPartition \<rparr>)))"

section \<open>Partition tables\<close>

text \<open>The four entries from number \<open>i\<close> on.\<close>

definition mbr_partition :: "u32 \<Rightarrow> nat \<Rightarrow> MBRPartitionEntry \<Rightarrow> PartitionInfo" where
  "mbr_partition sectorSize i e =
     PartitionInfo_zero\<lparr> pi_Index := of_nat i, pi_MbrType := me_Type e,
       pi_Offset := ucast (me_StartLBA e) * ucast sectorSize, pi_Size := ucast (me_SectorCount e) * ucast sectorSize \<rparr>"

fun mbr_partitions :: "disk_env \<Rightarrow> u32 \<Rightarrow> nat \<Rightarrow> MBRPartitionEntry list \<Rightarrow> parse_error + PartitionInfo list" where
  "mbr_partitions E sectorSize i [] = Inr []"
| "mbr_partitions E sectorSize i (e # es) =
     (if me_Type e = 0 then mbr_partitions E sectorSize (i + 1) es
      else case DetectPartitionContent E sectorSize (mbr_partition sectorSize i e) of
          Inl err \<Rightarrow> Inl err
        | Inr p \<Rightarrow> (case mbr_partitions E sectorSize (i + 1) es of Inl err \<Rightarrow> Inl err | Inr ps \<Rightarrow> Inr (p # ps)))"

definition mbr_entries :: "byte list \<Rightarrow> MBRPartitionEntry list" where
  "mbr_entries buffer = map (\<lambda>i. MBRPartitionEntry_of (segment (446 + 16 * i) 16 buffer)) [0..<4]"

definition ParseMBR :: "disk_env \<Rightarrow> DiskLayout \<Rightarrow> parse_error + DiskLayout" where
  "ParseMBR E l =
     (let sectorSize = di_SectorSize (dl_Disk l);
          meta = \<lparr> rg_Offset = 0, rg_Size = ucast sectorSize \<rparr> in
      case read_sector E 0 sectorSize of
        Inl err \<Rightarrow> Inl err
      | Inr buffer \<Rightarrow>
          if buffer ! 510 \<noteq> 0x55 \<or> buffer ! 511 \<noteq> 0xAA then Inl ParseRefused
          else if me_Type (mbr_entries buffer ! 0) = 0xEE
          then Inr (l\<lparr> dl_Disk := (dl_Disk l)\<lparr> di_Style := GPT \<rparr>, dl_MetadataRanges := dl_MetadataRanges l @ [meta] \<rparr>)
          else
            (case mbr_partitions E sectorSize 0 (mbr_entries buffer) of
               Inl err \<Rightarrow> Inl err
             | Inr ps \<Rightarrow>
                 Inr (l\<lparr> dl_Disk := (dl_Disk l)\<lparr> di_Style := MBR \<rparr>, dl_MetadataRanges := dl_MetadataRanges l @ [meta],
                        dl_Partitions := dl_Partitions l @ ps \<rparr>)))"

text \<open>
  One entry of the GPT array at byte \<open>off\<close> of the vector: the bytes the code touches must lie in
  it. The name is a C string of 16-bit characters: without a terminator within its 36 characters
  the copy runs on into the next entry.
\<close>

fun wide_string :: "byte list \<Rightarrow> wstring option" where
  "wide_string (a # b # rest) =
     (let ch = le_word [a, b] :: u16 in if ch = 0 then Some [] else map_option ((#) ch) (wide_string rest))"
| "wide_string _ = None"

definition gpt_partition :: "u32 \<Rightarrow> u32 \<Rightarrow> byte list \<Rightarrow> wstring \<Rightarrow> PartitionInfo" where
  "gpt_partition sectorSize i e name =
     (let firstLBA = le_word (segment 32 8 e) :: u64; lastLBA = le_word (segment 40 8 e) :: u64 in
      PartitionInfo_zero\<lparr> pi_Index := i, pi_TypeGuid := segment 0 16 e, pi_PartitionGuid := segment 16 16 e,
        pi_Offset := firstLBA * ucast sectorSize, pi_Size := (lastLBA - firstLBA + 1) * ucast sectorSize,
        pi_Attributes := le_word (segment 48 8 e), pi_Name := name \<rparr>)"

fun gpt_partitions :: "disk_env \<Rightarrow> u32 \<Rightarrow> u32 \<Rightarrow> byte list \<Rightarrow> nat list \<Rightarrow> parse_error + PartitionInfo list" where
  "gpt_partitions E sectorSize entrySize entries [] = Inr []"
| "gpt_partitions E sectorSize entrySize entries (i # is) =
     (let e = drop (unat (of_nat i * entrySize :: u32)) entries in
      if length e < 16 then Inl HeapOverrun
      else if segment 0 16 e = replicate 16 0 then gpt_partitions E sectorSize entrySize entries is
      else if length e < 56 then Inl HeapOverrun
      else case wide_string (drop 56 e) of
          None \<Rightarrow> Inl HeapOverrun
        | Some name \<Rightarrow>
            (case DetectPartitionContent E sectorSize (DetectPartitionContentGpt (gpt_partition sectorSize (of_nat i) e name)) of
               Inl err \<Rightarrow> Inl err
             | Inr p \<Rightarrow>
                 (case gpt_partitions E sectorSize entrySize entries is of Inl err \<Rightarrow> Inl err | Inr ps \<Rightarrow> Inr (p # ps))))"

section \<open>Free space\<close>

text \<open>The loop of \<open>CalculateFreeSpace\<close> over the partitions in the order of their offsets.\<close>

fun free_gaps :: "u64 \<Rightarrow> PartitionInfo list \<Rightarrow> DiskRange list \<times> u64" where
  "free_gaps current [] = ([], current)"
| "free_gaps current (p # ps) =
     (let gap = (if current < pi_Offset p then [\<lparr> rg_Offset = current, rg_Size = pi_Offset p - current \<rparr>] else []);
          partitionEnd = pi_Offset p + pi_Size p
      in case free_gaps (if current < partitionEnd then partitionEnd else current) ps of (gaps, c) \<Rightarrow> (gap @ gaps, c))"

definition CalculateFreeSpace :: "DiskLayout \<Rightarrow> DiskLayout" where
  "CalculateFreeSpace l =
     (let sz = di_Size (dl_Disk l) in
      if dl_Partitions l = []
      then l\<lparr> dl_FreeRanges := (if 0 < sz then [\<lparr> rg_Offset = 0, rg_Size = sz \<rparr>] else []) \<rparr>
      else case free_gaps 0 (sort_key pi_Offset (dl_Partitions l)) of (gaps, current) \<Rightarrow>
        l\<lparr> dl_FreeRanges := gaps @ (if 0 < sz \<and> current < sz then [\<lparr> rg_Offset = current, rg_Size = sz - current \<rparr>] else []) \<rparr>)"

text \<open>\<open>Read\<close> of the entry array passes only the low 32 bits of its size.\<close>

definition ParseGPT :: "disk_env \<Rightarrow> DiskLayout \<Rightarrow> parse_error + DiskLayout" where
  "ParseGPT E l =
     (let sectorSize = di_SectorSize (dl_Disk l); ss = ucast sectorSize :: u64 in
      case read_sector E ss sectorSize of
        Inl err \<Rightarrow> Inl err
      | Inr gptSector \<Rightarrow>
          let h = GPTHeader_of gptSector in
          if gh_Signature h \<noteq> ascii ''EFI PART'' then Inl ParseRefused
          else
            let entryArrayBytes = ucast (gh_NumberOfPartitionEntries h) * ucast (gh_SizeOfPartitionEntry h) :: u64;
                gi = \<lparr> gi_PrimaryHeaderOffset = ss, gi_BackupHeaderOffset = gh_BackupLBA h * ss,
                       gi_PrimaryEntryOffset = gh_PartitionEntryLBA h * ss,
                       gi_BackupEntryOffset = gh_BackupLBA h * ss - entryArrayBytes,
                       gi_EntryCount = gh_NumberOfPartitionEntries h, gi_EntrySize = gh_SizeOfPartitionEntry h,
                       gi_DiskGuid = gh_DiskGuid h \<rparr>
            in (case ReadAt (de_read E) (gh_PartitionEntryLBA h * ss) (ucast entryArrayBytes) of
                  None \<Rightarrow> Inl ParseRefused
                | Some bytes \<Rightarrow>
                    let entries = bytes @ replicate (unat entryArrayBytes - length bytes) 0 in
                    (case gpt_partitions E sectorSize (gh_SizeOfPartitionEntry h) entries
                            [0..<unat (gh_NumberOfPartitionEntries h)] of
                       Inl err \<Rightarrow> Inl err
                     | Inr ps \<Rightarrow>
                         Inr (CalculateFreeSpace
                           (l\<lparr> dl_Disk := (dl_Disk l)\<lparr> di_GPT := gi \<rparr>, dl_Partitions := dl_Partitions l @ ps,
                              dl_MetadataRanges := dl_MetadataRanges l @
                                [\<lparr> rg_Offset = 0, rg_Size = ss \<rparr>, \<lparr> rg_Offset = ss, rg_Size = ss \<rparr>,
                                 \<lparr> rg_Offset = gh_PartitionEntryLBA h * ss, rg_Size = entryArrayBytes \<rparr>,
                                 \<lparr> rg_Offset = gh_BackupLBA h * ss - entryArrayBytes, rg_Size = entryArrayBytes \<rparr>,
                                 \<lparr> rg_Offset = gh_BackupLBA h * ss, rg_Size = ss \<rparr>] \<rparr>)))))"

definition Parse_layout :: "disk_env \<Rightarrow> DiskParser \<Rightarrow> DiskLayout \<Rightarrow> parse_error + DiskLayout" where
  "Parse_layout E p l0 =
     (let l1 = l0\<lparr> dl_Disk := DiskInfo_zero\<lparr> di_DeviceNumber := dp_DeviceNumber p, di_SectorSize := 512, di_Size := 0 \<rparr> \<rparr>;
          l2 = fst (QuerySectorSize E (fst (QueryDiskSize E l1)))
      in case ParseMBR E l2 of
           Inl err \<Rightarrow> Inl err
         | Inr l3 \<Rightarrow> if di_Style (dl_Disk l3) = GPT then ParseGPT E l3 else Inr (CalculateFreeSpace l3))"

section \<open>The free ranges\<close>

definition in_range :: "nat \<Rightarrow> DiskRange \<Rightarrow> bool" where
  "in_range x r \<longleftrightarrow> unat (rg_Offset r) \<le> x \<and> x < unat (rg_Offset r) + unat (rg_Size r)"

definition in_partition :: "nat \<Rightarrow> PartitionInfo \<Rightarrow> bool" where
  "in_partition x p \<longleftrightarrow> unat (pi_Offset p) \<le> x \<and> x < unat (pi_Offset p) + unat (pi_Size p)"

definition range_end :: "DiskRange \<Rightarrow> nat" where
  "range_end r = unat (rg_Offset r) + unat (rg_Size r)"

text \<open>Ranges in ascending order, none empty, all between two bounds.\<close>

definition ranges_ok :: "nat \<Rightarrow> nat \<Rightarrow> DiskRange list \<Rightarrow> bool" where
  "ranges_ok lo hi rs \<longleftrightarrow> sorted_wrt (\<lambda>a b. range_end a \<le> unat (rg_Offset b)) rs
     \<and> (\<forall>r \<in> set rs. lo \<le> unat (rg_Offset r) \<and> 0 < unat (rg_Size r) \<and> range_end r \<le> hi)"

lemma gap_range:
  "a < b \<Longrightarrow> in_range x \<lparr> rg_Offset = a, rg_Size = b - a \<rparr> \<longleftrightarrow> unat a \<le> x \<and> x < unat b"
  "a < b \<Longrightarrow> range_end \<lparr> rg_Offset = a, rg_Size = b - a \<rparr> = unat b"
  "a < b \<Longrightarrow> 0 < unat (b - a)"
  by (simp_all add: in_range_def range_end_def unat_sub word_less_nat_alt less_imp_le)

lemma ranges_ok_snoc:
  "ranges_ok lo mid rs \<Longrightarrow> ranges_ok mid hi rs' \<Longrightarrow> lo \<le> mid \<Longrightarrow> mid \<le> hi \<Longrightarrow> ranges_ok lo hi (rs @ rs')"
  by (fastforce simp: ranges_ok_def sorted_wrt_append)

lemma ranges_ok_gap:
  "a < b \<Longrightarrow> lo \<le> unat a \<Longrightarrow> unat b \<le> hi \<Longrightarrow> ranges_ok lo hi [\<lparr> rg_Offset = a, rg_Size = b - a \<rparr>]"
  by (simp add: ranges_ok_def gap_range)

lemma fold_max_bound: "\<forall>v \<in> set xs. v \<le> N \<Longrightarrow> (u :: nat) \<le> N \<Longrightarrow> fold max xs u \<le> N"
  by (induction xs arbitrary: u) auto

lemma fold_max_ge: "v \<in> set xs \<or> v \<le> u \<Longrightarrow> v \<le> fold max xs (u :: nat)"
proof (induction xs arbitrary: u)
  case (Cons a xs)
  have "v \<in> set xs \<or> v \<le> max a u" using Cons.prems by auto
  from Cons.IH [OF this] show ?case by simp
qed simp

lemma free_gaps_spec:
  assumes "sorted (map pi_Offset ps)" and "\<forall>p \<in> set ps. unat (pi_Offset p) + unat (pi_Size p) < 2 ^ 64"
    and "free_gaps c ps = (gs, c')"
  shows "unat c' = fold max (map (\<lambda>p. unat (pi_Offset p) + unat (pi_Size p)) ps) (unat c)
    \<and> ranges_ok (unat c) (unat c') gs
    \<and> (\<forall>x. (\<exists>g \<in> set gs. in_range x g) \<longleftrightarrow> unat c \<le> x \<and> x < unat c' \<and> \<not> (\<exists>p \<in> set ps. in_partition x p))"
  using assms
proof (induction ps arbitrary: c gs)
  case Nil
  then show ?case by (auto simp: ranges_ok_def)
next
  case (Cons p ps)
  define e where "e = unat (pi_Offset p) + unat (pi_Size p)"
  define c1 where "c1 = (if c < pi_Offset p + pi_Size p then pi_Offset p + pi_Size p else c)"
  define gap where "gap = (if c < pi_Offset p then [\<lparr> rg_Offset = c, rg_Size = pi_Offset p - c \<rparr>] else [])"
  obtain gs1 where gs1: "free_gaps c1 ps = (gs1, c')" and gs: "gs = gap @ gs1"
    using Cons.prems(3) by (auto simp: Let_def c1_def gap_def split: prod.splits)
  have end_eq: "unat (pi_Offset p + pi_Size p) = e" using Cons.prems(2) by (simp add: e_def unat_add_lem [symmetric])
  have c1: "unat c1 = max (unat c) e" by (simp add: c1_def end_eq word_less_nat_alt max_def)
  note IH = Cons.IH [OF _ _ gs1]
  have spec: "unat c' = fold max (map (\<lambda>p. unat (pi_Offset p) + unat (pi_Size p)) ps) (unat c1)"
    "ranges_ok (unat c1) (unat c') gs1"
    "\<And>x. (\<exists>g \<in> set gs1. in_range x g) \<longleftrightarrow> unat c1 \<le> x \<and> x < unat c' \<and> \<not> (\<exists>p \<in> set ps. in_partition x p)"
    using IH Cons.prems(1,2) by auto
  have le: "unat c1 \<le> unat c'" using fold_max_ge [of "unat c1"] spec(1) by simp
  have offs: "unat (pi_Offset p) \<le> unat (pi_Offset q)" if "q \<in> set ps" for q
    using Cons.prems(1) that by (simp add: word_le_nat_alt)
  have gapx: "(\<exists>g \<in> set gap. in_range x g) \<longleftrightarrow> unat c \<le> x \<and> x < unat (pi_Offset p)" for x
    by (auto simp: gap_def gap_range word_less_nat_alt)
  have off_e: "unat (pi_Offset p) \<le> e" by (simp add: e_def)
  have cover: "(\<exists>g \<in> set gs. in_range x g) \<longleftrightarrow> unat c \<le> x \<and> x < unat c' \<and> \<not> (\<exists>q \<in> set (p # ps). in_partition x q)" for x
  proof -
    have "(\<exists>g \<in> set gs. in_range x g) \<longleftrightarrow> (unat c \<le> x \<and> x < unat (pi_Offset p))
       \<or> (unat c1 \<le> x \<and> x < unat c' \<and> \<not> (\<exists>p \<in> set ps. in_partition x p))"
      using gapx [of x] spec(3) [of x] by (auto simp: gs)
    moreover have "\<not> (\<exists>q \<in> set ps. in_partition x q)" if "x < unat (pi_Offset p)"
      using offs that by (fastforce simp: in_partition_def)
    moreover have "in_partition x p \<longleftrightarrow> unat (pi_Offset p) \<le> x \<and> x < e" by (simp add: in_partition_def e_def)
    ultimately show ?thesis using le off_e c1 by auto
  qed
  have ok: "ranges_ok (unat c) (unat c') gs"
  proof -
    have "ranges_ok (unat c) (unat c1) gap"
      using off_e c1 by (auto simp: gap_def ranges_ok_gap) (simp add: ranges_ok_def)
    then show ?thesis unfolding gs using spec(2) le c1 by (intro ranges_ok_snoc) auto
  qed
  have "unat c' = fold max (map (\<lambda>p. unat (pi_Offset p) + unat (pi_Size p)) (p # ps)) (unat c)"
    using spec(1) c1 by (simp add: e_def max.commute)
  then show ?case by (intro conjI allI cover ok)
qed


section \<open>Partition tables\<close>

lemma Detect_keeps:
  assumes "DetectPartitionContent E ss p = Inr q"
  shows "pi_Index q = pi_Index p" "pi_Offset q = pi_Offset p" "pi_Size q = pi_Size p" "pi_Name q = pi_Name p"
    "pi_TypeGuid q = pi_TypeGuid p" "pi_Content q \<notin> {ContentUnknown, Reserved}"
  using assms
  by (auto simp: DetectPartitionContent_def Let_def name_if_empty_def split: sum.splits parse_error.splits if_splits)

lemma Detect_total: "ss \<le> 4096 \<Longrightarrow> \<exists>q. DetectPartitionContent E ss p = Inr q"
  by (auto simp: DetectPartitionContent_def Let_def read_sector_def split: sum.splits parse_error.splits option.splits if_splits)

lemma DetectGpt_keeps:
  "pi_Index (DetectPartitionContentGpt p) = pi_Index p" "pi_Name (DetectPartitionContentGpt p) = pi_Name p"
  "pi_Offset (DetectPartitionContentGpt p) = pi_Offset p" "pi_Size (DetectPartitionContentGpt p) = pi_Size p"
  by (simp_all add: DetectPartitionContentGpt_def)

lemma mbr_partitions_spec:
  assumes "mbr_partitions E ss i es = Inr ps"
  shows "map (\<lambda>q. (pi_Index q, pi_Offset q, pi_Size q)) ps =
      map (\<lambda>(k, e). (of_nat k, ucast (me_StartLBA e) * ucast ss, ucast (me_SectorCount e) * ucast ss))
        (filter (\<lambda>(k, e). me_Type e \<noteq> 0) (zip [i..<i + length es] es))
    \<and> (\<forall>q \<in> set ps. pi_Content q \<notin> {ContentUnknown, Reserved})"
  using assms
proof (induction es arbitrary: i ps)
  case (Cons e es)
  have up: "[i..<i + length (e # es)] = i # [Suc i..<Suc i + length es]" by (simp add: upt_rec)
  show ?case
  proof (cases "me_Type e = 0")
    case True
    then show ?thesis using Cons.IH [of "i + 1" ps] Cons.prems unfolding up by simp
  next
    case False
    then obtain q ps1 where q: "DetectPartitionContent E ss (mbr_partition ss i e) = Inr q"
      "mbr_partitions E ss (i + 1) es = Inr ps1" "ps = q # ps1"
      using Cons.prems by (auto split: sum.splits)
    then show ?thesis using False Cons.IH [OF q(2)] Detect_keeps [OF q(1)] unfolding up
      by (simp add: mbr_partition_def)
  qed
qed simp

lemma gpt_partitions_content:
  assumes "gpt_partitions E ss n entries is = Inr ps" and "q \<in> set ps"
  shows "pi_Content q \<notin> {ContentUnknown, Reserved}"
  using assms
proof (induction "is" arbitrary: ps)
  case (Cons i "is")
  then show ?case by (auto simp: Let_def dest: Detect_keeps split: if_splits option.splits sum.splits)
qed simp

lemma CalculateFreeSpace_keeps [simp]:
  "dl_Partitions (CalculateFreeSpace l) = dl_Partitions l" "dl_Disk (CalculateFreeSpace l) = dl_Disk l"
  "dl_MetadataRanges (CalculateFreeSpace l) = dl_MetadataRanges l"
  by (auto simp: CalculateFreeSpace_def Let_def split: prod.splits)

lemma unat_lba: "unat (ucast (a :: u32) * ucast (b :: u32) :: u64) = unat a * unat b"
proof -
  have "unat a * unat b < 2 ^ 32 * 2 ^ 32" using unat_u32_bound [of a] unat_u32_bound [of b] by (intro mult_strict_mono) auto
  then show ?thesis by (simp add: unat_word_ariths)
qed

text \<open>The sector size \<open>Parse\<close> works with.\<close>

definition sector_size :: "disk_env \<Rightarrow> u32" where
  "sector_size E = (case de_sector E of Some n \<Rightarrow> n | None \<Rightarrow> 512)"

lemma Parse_cases:
  assumes "Parse_layout E p l0 = Inr l"
  shows "\<exists>l2 l3. dl_Partitions l2 = dl_Partitions l0 \<and> di_SectorSize (dl_Disk l2) = sector_size E \<and> ParseMBR E l2 = Inr l3
    \<and> (if di_Style (dl_Disk l3) = GPT then ParseGPT E l3 = Inr l else l = CalculateFreeSpace l3)"
proof -
  define l2 where "l2 = fst (QuerySectorSize E (fst (QueryDiskSize E
     (l0\<lparr> dl_Disk := DiskInfo_zero\<lparr> di_DeviceNumber := dp_DeviceNumber p, di_SectorSize := 512, di_Size := 0 \<rparr> \<rparr>))))"
  have "dl_Partitions l2 = dl_Partitions l0 \<and> di_SectorSize (dl_Disk l2) = sector_size E"
    by (simp add: l2_def QuerySectorSize_def QueryDiskSize_def sector_size_def split: option.splits)
  moreover obtain l3 where "ParseMBR E l2 = Inr l3" "if di_Style (dl_Disk l3) = GPT then ParseGPT E l3 = Inr l else l = CalculateFreeSpace l3"
    using assms by (auto simp: Parse_layout_def Let_def simp flip: l2_def split: sum.splits if_splits)
  ultimately show ?thesis by blast
qed

lemma ParseMBR_mbr:
  assumes "ParseMBR E l = Inr l'" and "di_Style (dl_Disk l') \<noteq> GPT"
  shows "\<exists>buffer ps. read_sector E 0 (di_SectorSize (dl_Disk l)) = Inr buffer \<and> buffer ! 510 = 0x55 \<and> buffer ! 511 = 0xAA
    \<and> mbr_partitions E (di_SectorSize (dl_Disk l)) 0 (mbr_entries buffer) = Inr ps \<and> dl_Partitions l' = dl_Partitions l @ ps"
  using assms by (auto simp: ParseMBR_def Let_def split: sum.splits if_splits)

lemma ParseMBR_gpt: "ParseMBR E l = Inr l' \<Longrightarrow> di_Style (dl_Disk l') = GPT \<Longrightarrow> dl_Partitions l' = dl_Partitions l"
  by (auto simp: ParseMBR_def Let_def split: sum.splits if_splits)

lemma ParseGPT_parts:
  assumes "ParseGPT E l = Inr l'"
  shows "\<exists>n entries is ps. gpt_partitions E (di_SectorSize (dl_Disk l)) n entries is = Inr ps \<and> dl_Partitions l' = dl_Partitions l @ ps
    \<and> di_Style (dl_Disk l') = di_Style (dl_Disk l)"
  using assms by (auto simp: ParseGPT_def Let_def intro!: exI split: sum.splits option.splits if_splits)

text \<open>
  The layout of a disk with an MBR: the partitions reported are the used ones of the
  four table entries, in order and with their numbers, and start and size are the exact byte
  values of the sector numbers, without overflow.
\<close>

lemma mbr_layout_exact:
  assumes "Parse_layout E p DiskLayout_new = Inr l" and "di_Style (dl_Disk l) \<noteq> GPT"
  shows "\<exists>buffer. read_sector E 0 (sector_size E) = Inr buffer \<and> buffer ! 510 = 0x55 \<and> buffer ! 511 = 0xAA
    \<and> map (\<lambda>q. (unat (pi_Index q), unat (pi_Offset q), unat (pi_Size q))) (dl_Partitions l) =
        map (\<lambda>k. let e = mbr_entries buffer ! k in (k, unat (me_StartLBA e) * unat (sector_size E), unat (me_SectorCount e) * unat (sector_size E)))
          (filter (\<lambda>k. me_Type (mbr_entries buffer ! k) \<noteq> 0) [0..<4])"
proof -
  obtain l2 l3 where l2: "dl_Partitions l2 = []" "di_SectorSize (dl_Disk l2) = sector_size E" "ParseMBR E l2 = Inr l3"
    "if di_Style (dl_Disk l3) = GPT then ParseGPT E l3 = Inr l else l = CalculateFreeSpace l3"
    using Parse_cases [OF assms(1)] by (auto simp: DiskLayout_new_def)
  have st: "di_Style (dl_Disk l3) \<noteq> GPT" using l2(4) assms(2) ParseGPT_parts [of E l3 l] by (auto split: if_splits)
  then have l: "l = CalculateFreeSpace l3" using l2(4) by simp
  obtain buffer ps where b: "read_sector E 0 (sector_size E) = Inr buffer" "buffer ! 510 = 0x55" "buffer ! 511 = 0xAA"
    "mbr_partitions E (sector_size E) 0 (mbr_entries buffer) = Inr ps" "dl_Partitions l3 = ps"
    using ParseMBR_mbr [OF l2(3) st] l2(1,2) by auto
  have four: "length (mbr_entries buffer) = 4" by (simp add: mbr_entries_def)
  have z: "zip [0..<4] (mbr_entries buffer) = map (\<lambda>k. (k, mbr_entries buffer ! k)) [0..<4]"
    using four by (intro nth_equalityI) auto
  have "map (\<lambda>q. (pi_Index q, pi_Offset q, pi_Size q)) ps =
      map (\<lambda>(k, e). (of_nat k, ucast (me_StartLBA e) * ucast (sector_size E), ucast (me_SectorCount e) * ucast (sector_size E)))
        (filter (\<lambda>(k, e). me_Type e \<noteq> 0) (map (\<lambda>k. (k, mbr_entries buffer ! k)) [0..<4]))"
    using mbr_partitions_spec [OF b(4)] by (simp add: four z)
  from arg_cong [OF this, of "map (\<lambda>(i, off, n). (unat i, unat off, unat n))"]
  have "map (\<lambda>q. (unat (pi_Index q), unat (pi_Offset q), unat (pi_Size q))) ps =
      map (\<lambda>k. let e = mbr_entries buffer ! k in (k, unat (me_StartLBA e) * unat (sector_size E), unat (me_SectorCount e) * unat (sector_size E)))
          (filter (\<lambda>k. me_Type (mbr_entries buffer ! k) \<noteq> 0) [0..<4])"
    by (auto simp: filter_map comp_def unat_lba unat_of_nat Let_def)
  then show ?thesis using b l by auto
qed

text \<open>
  No partition of a parsed layout is classified as reserved: the mark a Microsoft reserved
  partition gets from its type is overwritten by the check of its first sector.
\<close>

lemma never_reserved:
  assumes "Parse_layout E p DiskLayout_new = Inr l" and "q \<in> set (dl_Partitions l)"
  shows "pi_Content q \<notin> {ContentUnknown, Reserved}"
proof -
  obtain l2 l3 where l2: "dl_Partitions l2 = []" "ParseMBR E l2 = Inr l3"
    "if di_Style (dl_Disk l3) = GPT then ParseGPT E l3 = Inr l else l = CalculateFreeSpace l3"
    using Parse_cases [OF assms(1)] by (auto simp: DiskLayout_new_def)
  show ?thesis
  proof (cases "di_Style (dl_Disk l3) = GPT")
    case True
    then show ?thesis using l2 assms(2) ParseMBR_gpt [OF l2(2)] ParseGPT_parts [of E l3 l] gpt_partitions_content by force
  next
    case False
    then show ?thesis using l2 assms(2) ParseMBR_mbr [OF l2(2) False] mbr_partitions_spec by fastforce
  qed
qed

text \<open>A disk of 8 sectors whose MBR has one partition: type 7, sectors 2 to 5.\<close>

definition demo_mbr :: "byte list" where
  "demo_mbr = replicate 446 0 @ [0x80, 0, 0, 0, 7, 0, 0, 0, 2, 0, 0, 0, 4, 0, 0, 0] @ replicate 48 0 @ [0x55, 0xAA]"

definition demo_disk :: disk_env where
  "demo_disk = \<lparr> de_read = (\<lambda>off n. Some (if off = 0 then demo_mbr else replicate (unat n) 0)), de_length = Some 4096, de_sector = None \<rparr>"

definition demo_layout :: DiskLayout where
  "demo_layout = (case Parse_layout demo_disk DiskParser_new DiskLayout_new of Inr l \<Rightarrow> l | Inl e \<Rightarrow> DiskLayout_new)"

definition demo_sector :: "byte list" where
  "demo_sector = demo_mbr @ replicate 3584 0"

lemma demo_sector_read:
  "read_sector demo_disk 0 512 = Inr demo_sector" "read_sector demo_disk 1024 512 = Inr (replicate 4096 0)"
  by (simp_all add: read_sector_def demo_disk_def demo_sector_def demo_mbr_def ReadAt_def replicate_add [symmetric])

lemma demo_sector_bytes: "demo_sector ! 510 = 0x55" "demo_sector ! 511 = 0xAA"
  by (simp_all add: demo_sector_def demo_mbr_def nth_append)

lemma demo_sector_entries:
  "mbr_entries demo_sector = \<lparr> me_Type = 7, me_StartLBA = 2, me_SectorCount = 4 \<rparr> # replicate 3 \<lparr> me_Type = 0, me_StartLBA = 0, me_SectorCount = 0 \<rparr>"
proof -
  have "[0..<4] = [0, 1, 2, 3 :: nat]" by (simp add: upt_rec)
  moreover have "segment 446 16 demo_sector = [0x80, 0, 0, 0, 7, 0, 0, 0, 2, 0, 0, 0, 4, 0, 0, 0]"
    by (simp add: segment_def demo_sector_def demo_mbr_def)
  moreover have "segment 462 16 demo_sector = replicate 16 0" "segment 478 16 demo_sector = replicate 16 0" "segment 494 16 demo_sector = replicate 16 0"
    by (simp_all add: segment_def demo_sector_def demo_mbr_def take_Cons')
  moreover have "MBRPartitionEntry_of [0x80, 0, 0, 0, 7, 0, 0, 0, 2, 0, 0, 0, 4, 0, 0, 0] = \<lparr> me_Type = 7, me_StartLBA = 2, me_SectorCount = 4 \<rparr>"
    "MBRPartitionEntry_of (replicate 16 0) = \<lparr> me_Type = 0, me_StartLBA = 0, me_SectorCount = 0 \<rparr>"
    by code_simp+
  ultimately show ?thesis by (simp add: mbr_entries_def numeral_3_eq_3)
qed

lemma demo_detect: "DetectPartitionContent demo_disk 512 p = Inr (name_if_empty ''Raw'' (p\<lparr> pi_IsEncrypted := False, pi_Content := RawPartition \<rparr>))"
  if "pi_Offset p = 1024"
proof -
  have "segment 3 8 (replicate 4096 (0 :: byte)) = replicate 8 0" "segment 3 4 (replicate 4096 (0 :: byte)) = replicate 4 0"
    "segment 0x52 8 (replicate 4096 (0 :: byte)) = replicate 8 0" "segment 0x36 8 (replicate 4096 (0 :: byte)) = replicate 8 0"
    by (simp_all add: segment_def)
  moreover have "replicate 8 (0 :: byte) \<noteq> ascii ''-FVE-FS-''" "replicate 8 (0 :: byte) \<noteq> ascii ''NTFS    ''" "replicate 4 (0 :: byte) \<noteq> ascii ''ReFS''"
    "replicate 8 (0 :: byte) \<noteq> ascii ''EXFAT   ''" "replicate 8 (0 :: byte) \<noteq> ascii ''FAT32   ''" "replicate 8 (0 :: byte) \<noteq> ascii ''FAT16   ''"
    by code_simp+
  ultimately show ?thesis using that by (simp add: DetectPartitionContent_def Let_def demo_sector_read)
qed

lemma demo_layout_eval:
  "case Parse_layout demo_disk DiskParser_new DiskLayout_new of Inl e \<Rightarrow> False
   | Inr l \<Rightarrow> di_Style (dl_Disk l) = MBR \<and> map (\<lambda>q. (pi_Offset q, pi_Size q, pi_Content q)) (dl_Partitions l) = [(1024, 2048, RawPartition)]
       \<and> di_Size (dl_Disk l) = 4096"
proof -
  have "QueryDiskSize demo_disk l = (l\<lparr> dl_Disk := (dl_Disk l)\<lparr> di_Size := 4096 \<rparr> \<rparr>, True)"
    "QuerySectorSize demo_disk l = (l\<lparr> dl_Disk := (dl_Disk l)\<lparr> di_SectorSize := 512 \<rparr> \<rparr>, False)" for l
    by (simp_all add: QueryDiskSize_def QuerySectorSize_def demo_disk_def)
  then show ?thesis
    by (simp add: Parse_layout_def ParseMBR_def Let_def demo_sector_read demo_sector_bytes demo_sector_entries demo_detect
        mbr_partition_def name_if_empty_def numeral_3_eq_3 DiskLayout_new_def)
qed

lemma demo_layout_parsed:
  "Parse_layout demo_disk DiskParser_new DiskLayout_new = Inr demo_layout" "di_Style (dl_Disk demo_layout) = MBR"
  "map (\<lambda>q. (pi_Offset q, pi_Size q, pi_Content q)) (dl_Partitions demo_layout) = [(1024, 2048, RawPartition)]"
  "di_Size (dl_Disk demo_layout) = 4096"
  using demo_layout_eval by (auto simp: demo_layout_def split: sum.splits)

theorem mbr_layout_exact_witness:
  "di_Style (dl_Disk demo_layout) = MBR \<and> (\<exists>buffer. read_sector demo_disk 0 (sector_size demo_disk) = Inr buffer
     \<and> length (dl_Partitions demo_layout) = length (filter (\<lambda>k. me_Type (mbr_entries buffer ! k) \<noteq> 0) [0..<4]))"
proof -
  have "di_Style (dl_Disk demo_layout) \<noteq> GPT" by (simp add: demo_layout_parsed)
  from mbr_layout_exact [OF demo_layout_parsed(1) this] obtain buffer where
    b: "read_sector demo_disk 0 (sector_size demo_disk) = Inr buffer"
    "map (\<lambda>q. (unat (pi_Index q), unat (pi_Offset q), unat (pi_Size q))) (dl_Partitions demo_layout) =
        map (\<lambda>k. let e = mbr_entries buffer ! k in (k, unat (me_StartLBA e) * unat (sector_size demo_disk), unat (me_SectorCount e) * unat (sector_size demo_disk)))
          (filter (\<lambda>k. me_Type (mbr_entries buffer ! k) \<noteq> 0) [0..<4])"
    by blast
  from arg_cong [OF b(2), of length] show ?thesis using b(1) demo_layout_parsed(2) by auto
qed

theorem never_reserved_witness: "\<exists>q. dl_Partitions demo_layout = [q] \<and> pi_Content q \<noteq> Reserved"
proof -
  obtain q where q: "dl_Partitions demo_layout = [q]" using demo_layout_parsed(3) by auto
  with never_reserved [OF demo_layout_parsed(1), of q] show ?thesis by simp
qed


definition gpt_entry :: "u32 \<Rightarrow> byte list \<Rightarrow> nat \<Rightarrow> byte list" where
  "gpt_entry entrySize entries k = drop (k * unat entrySize) entries"

definition entry_name :: "byte list \<Rightarrow> u16 list" where
  "entry_name e = u16s_of 36 (drop 56 e)"

lemma wide_string_prefix:
  "2 * n \<le> length bs \<Longrightarrow> 0 \<in> set (u16s_of n bs) \<Longrightarrow> wide_string bs = Some (takeWhile (\<lambda>ch. ch \<noteq> 0) (u16s_of n bs))"
proof (induction n arbitrary: bs)
  case (Suc n)
  then obtain a b rest where bs: "bs = a # b # rest" by (metis Suc_le_length_iff add_Suc_right mult_2 plus_nat.add_Suc)
  then show ?case using Suc.IH [of rest] Suc.prems by (auto simp: Let_def)
qed simp

lemma gpt_entries_run:
  assumes ss: "ss \<le> 4096" and size: "128 \<le> unat n" and fits: "cnt * unat n < 2 ^ 32" and len: "length entries = cnt * unat n"
    and named: "\<forall>k < cnt. take 16 (gpt_entry n entries k) = replicate 16 0 \<or> 0 \<in> set (entry_name (gpt_entry n entries k))"
    and "\<forall>k \<in> set is. k < cnt"
  shows "\<exists>ps. gpt_partitions E ss n entries is = Inr ps
    \<and> map (\<lambda>q. (unat (pi_Index q), pi_Name q)) ps =
        map (\<lambda>k. (k, takeWhile (\<lambda>ch. ch \<noteq> 0) (entry_name (gpt_entry n entries k))))
          (filter (\<lambda>k. take 16 (gpt_entry n entries k) \<noteq> replicate 16 0) is)"
  using assms(6)
proof (induction "is")
  case (Cons k "is")
  define e where "e = gpt_entry n entries k"
  have k: "k < cnt" using Cons.prems by simp
  have kn: "k * unat n + unat n \<le> cnt * unat n" using k mult_le_mono1 [of "Suc k" cnt "unat n"] by simp
  have ku: "unat (of_nat k :: u32) = k"
  proof -
    have "k * 1 \<le> k * unat n" using size by (intro mult_le_mono) auto
    then have "k < 2 ^ 32" using kn fits by linarith
    then show ?thesis by (simp add: unat_of_nat)
  qed
  have off: "unat (of_nat k * n :: u32) = k * unat n" using kn fits size by (simp add: unat_word_ariths ku)
  have le: "128 \<le> length e" using kn size len by (simp add: e_def gpt_entry_def)
  obtain ps where ps: "gpt_partitions E ss n entries is = Inr ps"
    "map (\<lambda>q. (unat (pi_Index q), pi_Name q)) ps = map (\<lambda>k. (k, takeWhile (\<lambda>ch. ch \<noteq> 0) (entry_name (gpt_entry n entries k))))
       (filter (\<lambda>k. take 16 (gpt_entry n entries k) \<noteq> replicate 16 0) is)"
    using Cons by auto
  have e: "drop (unat (of_nat k * n :: u32)) entries = e" by (simp add: off e_def gpt_entry_def)
  show ?case
  proof (cases "take 16 e = replicate 16 0")
    case True
    then show ?thesis using ps le by (simp add: e Let_def segment_0_take flip: e_def)
  next
    case False
    then have nm: "wide_string (drop 56 e) = Some (takeWhile (\<lambda>ch. ch \<noteq> 0) (entry_name e))"
      using named k le unfolding entry_name_def by (intro wide_string_prefix) (auto simp: e_def entry_name_def)
    obtain q where q: "DetectPartitionContent E ss (DetectPartitionContentGpt (gpt_partition ss (of_nat k) e (takeWhile (\<lambda>ch. ch \<noteq> 0) (entry_name e)))) = Inr q"
      using Detect_total [OF ss] by blast
    have "unat (pi_Index q) = k" "pi_Name q = takeWhile (\<lambda>ch. ch \<noteq> 0) (entry_name e)"
      using Detect_keeps [OF q] by (simp_all add: DetectGpt_keeps gpt_partition_def Let_def ku)
    then show ?thesis using False ps le q nm by (simp add: e Let_def segment_0_take flip: e_def)
  qed
qed simp


text \<open>Two entries: an unused one and one named A.\<close>

definition demo_entries :: "byte list" where
  "demo_entries = replicate 128 0 @ MSR_GUID @ replicate 40 1 @ [65, 0] @ replicate 70 0"


end
