(* ===== verification/Volume_Mapper.thy ===== *)
theory Volume_Mapper
  imports Disk_Parser
begin

text \<open>
  The assignment of Windows volumes to partitions, \<open>client/VolumeMapper.{h,cpp}\<close>: volumes are
  enumerated, their first extent is asked for, and a volume belongs to the partition of the disk
  that starts at the same byte. The Windows calls are parameters.
\<close>

section \<open>Data\<close>

record VolumeInfo =
  vi_VolumeGuid :: wstring
  vi_DriveLetter :: wstring
  vi_DiskNumber :: int
  vi_DiskOffset :: u64
  vi_Size :: u64

record MappedPartition =
  mp_Partition :: PartitionInfo
  mp_VolumeGuid :: wstring
  mp_DriveLetter :: wstring

record VolumeMapper =
  vmp_volumes :: "VolumeInfo list"
  vmp_mapped :: "MappedPartition list"

definition VolumeMapper_new :: VolumeMapper where
  "VolumeMapper_new = \<lparr> vmp_volumes = [], vmp_mapped = [] \<rparr>"

text \<open>
  The answers of the system: the volume names found one after the other, the mount points of a
  volume as the buffer \<open>GetVolumePathNamesForVolumeNameW\<close> fills, whether a volume device can be
  opened, and its extents (disk number, start, length).
\<close>

record volume_env =
  vl_find :: "wstring list"
  vl_names :: "wstring \<Rightarrow> wstring option"
  vl_open :: "wstring \<Rightarrow> bool"
  vl_extents :: "wstring \<Rightarrow> (u32 \<times> u64 \<times> u64) list option"

section \<open>Operations\<close>

definition strip_slash :: "wstring \<Rightarrow> wstring" where
  "strip_slash s = (if s \<noteq> [] \<and> last s = 0x5C then butlast s else s)"

definition EnumerateVolumes :: "volume_env \<Rightarrow> wstring list" where
  "EnumerateVolumes E = vl_find E"

definition GetDriveLetter :: "volume_env \<Rightarrow> wstring \<Rightarrow> wstring" where
  "GetDriveLetter E guid =
     (case vl_names E guid of
        None \<Rightarrow> []
      | Some pathNames \<Rightarrow> strip_slash (takeWhile (\<lambda>ch. ch \<noteq> 0) pathNames))"

text \<open>Only the first of several extents is used.\<close>

definition first_extent :: "VolumeInfo \<Rightarrow> (u32 \<times> u64 \<times> u64) list option \<Rightarrow> VolumeInfo \<times> bool" where
  "first_extent info extents =
     (case extents of
        None \<Rightarrow> (info, False)
      | Some [] \<Rightarrow> (info, False)
      | Some ((disk, start, len) # rest) \<Rightarrow> (info\<lparr> vi_DiskNumber := sint disk, vi_DiskOffset := start, vi_Size := len \<rparr>, True))"

definition GetVolumeDiskExtents :: "volume_env \<Rightarrow> wstring \<Rightarrow> VolumeInfo \<times> bool" where
  "GetVolumeDiskExtents E guid =
     (let info = \<lparr> vi_VolumeGuid = guid, vi_DriveLetter = GetDriveLetter E guid, vi_DiskNumber = -1, vi_DiskOffset = 0, vi_Size = 0 \<rparr>;
          devicePath = strip_slash guid
      in if vi_DriveLetter info = [] then (info, False)
         else if \<not> vl_open E devicePath then (info, False)
         else first_extent info (vl_extents E devicePath))"

definition match_volume :: "DiskLayout \<Rightarrow> VolumeInfo \<Rightarrow> MappedPartition list" where
  "match_volume layout vol =
     (if vi_DiskNumber vol \<noteq> di_DeviceNumber (dl_Disk layout) then []
      else case find (\<lambda>part. vi_DiskOffset vol = pi_Offset part) (dl_Partitions layout) of
          None \<Rightarrow> []
        | Some part \<Rightarrow> [\<lparr> mp_Partition = part, mp_VolumeGuid = vi_VolumeGuid vol, mp_DriveLetter = vi_DriveLetter vol \<rparr>])"

definition Map_volumes :: "volume_env \<Rightarrow> DiskLayout \<Rightarrow> VolumeMapper \<Rightarrow> VolumeMapper \<times> bool" where
  "Map_volumes E layout v =
     (let guids = EnumerateVolumes E in
      if guids = [] then (VolumeMapper_new, False)
      else
        let volumes = map fst (filter snd (map (GetVolumeDiskExtents E) guids));
            mapped = concat (map (match_volume layout) volumes)
        in (\<lparr> vmp_volumes = volumes, vmp_mapped = mapped \<rparr>, mapped \<noteq> []))"

definition FindVolumeGuid :: "u64 \<Rightarrow> VolumeMapper \<Rightarrow> wstring" where
  "FindVolumeGuid offset v =
     (case find (\<lambda>mp. pi_Offset (mp_Partition mp) = offset) (vmp_mapped v) of None \<Rightarrow> [] | Some mp \<Rightarrow> mp_VolumeGuid mp)"

section \<open>Matching\<close>

lemma match_volume_set:
  "mp \<in> set (match_volume layout vol) \<longleftrightarrow>
     vi_DiskNumber vol = di_DeviceNumber (dl_Disk layout)
     \<and> find (\<lambda>part. vi_DiskOffset vol = pi_Offset part) (dl_Partitions layout) = Some (mp_Partition mp)
     \<and> mp_VolumeGuid mp = vi_VolumeGuid vol \<and> mp_DriveLetter mp = vi_DriveLetter vol"
  by (cases mp) (auto simp: match_volume_def split: option.splits)

lemma extents_fields:
  "GetVolumeDiskExtents E guid = (info, ok) \<Longrightarrow> vi_VolumeGuid info = guid \<and> vi_DriveLetter info = GetDriveLetter E guid
     \<and> (ok \<longrightarrow> GetDriveLetter E guid \<noteq> [])"
  by (auto simp: GetVolumeDiskExtents_def first_extent_def Let_def split: if_splits option.splits list.splits)

text \<open>
  The mapping of volumes is exact: a partition is listed with a volume if and only if the
  volume was enumerated, has a drive letter and an extent on this disk, and the partition is the
  first one that starts where that extent does.
\<close>

lemma volume_map_exact:
  "mp \<in> set (vmp_mapped (fst (Map_volumes E layout v))) \<longleftrightarrow>
     mp_VolumeGuid mp \<in> set (EnumerateVolumes E) \<and> mp_DriveLetter mp = GetDriveLetter E (mp_VolumeGuid mp) \<and> mp_DriveLetter mp \<noteq> []
     \<and> vl_open E (strip_slash (mp_VolumeGuid mp))
     \<and> (\<exists>disk start len rest. vl_extents E (strip_slash (mp_VolumeGuid mp)) = Some ((disk, start, len) # rest)
          \<and> sint disk = di_DeviceNumber (dl_Disk layout)
          \<and> find (\<lambda>part. start = pi_Offset part) (dl_Partitions layout) = Some (mp_Partition mp))"
proof -
  define found where "found guid \<longleftrightarrow> (\<exists>info. GetVolumeDiskExtents E guid = (info, True) \<and> mp \<in> set (match_volume layout info))" for guid
  have mapped: "vmp_mapped (fst (Map_volumes E layout v)) =
      concat (map (match_volume layout) (map fst (filter snd (map (GetVolumeDiskExtents E) (EnumerateVolumes E)))))"
    by (simp add: Map_volumes_def Let_def VolumeMapper_new_def)
  have "mp \<in> set (vmp_mapped (fst (Map_volumes E layout v))) \<longleftrightarrow> (\<exists>guid \<in> set (EnumerateVolumes E). found guid)"
  proof -
    have "found guid \<longleftrightarrow> snd (GetVolumeDiskExtents E guid) \<and> mp \<in> set (match_volume layout (fst (GetVolumeDiskExtents E guid)))" for guid
      by (cases "GetVolumeDiskExtents E guid") (auto simp: found_def)
    with mapped show ?thesis by auto
  qed
  moreover have "guid = mp_VolumeGuid mp" if "found guid" for guid
    using that extents_fields [of E guid] by (auto simp: found_def match_volume_set)
  moreover have "found (mp_VolumeGuid mp) \<longleftrightarrow>
      mp_DriveLetter mp = GetDriveLetter E (mp_VolumeGuid mp) \<and> mp_DriveLetter mp \<noteq> [] \<and> vl_open E (strip_slash (mp_VolumeGuid mp))
      \<and> (\<exists>disk start len rest. vl_extents E (strip_slash (mp_VolumeGuid mp)) = Some ((disk, start, len) # rest)
          \<and> sint disk = di_DeviceNumber (dl_Disk layout)
          \<and> find (\<lambda>part. start = pi_Offset part) (dl_Partitions layout) = Some (mp_Partition mp))"
    by (auto simp: found_def GetVolumeDiskExtents_def first_extent_def Let_def match_volume_set split: if_splits option.splits list.splits prod.splits)
  ultimately show ?thesis by metis
qed

end
