(* ===== verification/Vss_Manager.thy ===== *)
theory Vss_Manager
  imports Cbt_Prelude "HOL-Library.List_Lexorder"
begin

text \<open>
  The client of the Windows snapshot service, \<open>client/VssManager.{h,cpp}\<close>: its life cycle
  (initialise, start a set, add volumes, make the snapshots, ask for their devices, clean up),
  the polling of asynchronous operations and the removal of old snapshots. The service is a
  parameter; texts for the last error are not modelled.
\<close>

section \<open>State and service\<close>

type_synonym VSS_ID = "byte list"

definition GUID_NULL :: VSS_ID where
  "GUID_NULL = replicate 16 0"

record SnapshotVolumeInfo =
  sv_OriginalVolumeGuid :: wstring
  sv_SnapshotDevicePath :: wstring
  sv_SnapshotId :: VSS_ID
  sv_SnapshotSetId :: VSS_ID

record VssManager =
  vm_initialized :: bool
  vm_snapshotCreated :: bool
  vm_pVss :: bool
  vm_snapshotSetId :: VSS_ID
  vm_providerName :: wstring
  vm_snapshotMap :: "(wstring \<times> SnapshotVolumeInfo) list"
  vm_volumeToSnapshotId :: "(wstring \<times> VSS_ID) list"

definition VssManager_new :: VssManager where
  "VssManager_new = \<lparr> vm_initialized = False, vm_snapshotCreated = False, vm_pVss = False, vm_snapshotSetId = GUID_NULL,
     vm_providerName = [], vm_snapshotMap = [], vm_volumeToSnapshotId = [] \<rparr>"

text \<open>An \<open>HRESULT\<close> is a failure when its top bit is set.\<close>

type_synonym HRESULT = u32

definition FAILED :: "HRESULT \<Rightarrow> bool" where
  "FAILED hr \<longleftrightarrow> sint hr < 0"

definition VSS_S_ASYNC_FINISHED :: HRESULT where "VSS_S_ASYNC_FINISHED = 0x0004230A"
definition VSS_S_ASYNC_CANCELLED :: HRESULT where "VSS_S_ASYNC_CANCELLED = 0x0004230B"

text \<open>
  The answers of the service: the results of the single calls, the identifiers it hands out, the
  sequence of \<open>QueryStatus\<close> results (query, result) of the snapshot operation (\<open>None\<close> without an
  \<open>IVssAsync\<close> object), and the device of a snapshot (\<open>None\<close> for a failed call, an absent string is empty).
\<close>

record vss_env =
  ve_create :: HRESULT
  ve_initialize :: HRESULT
  ve_setState :: HRESULT
  ve_start :: "HRESULT \<times> VSS_ID"
  ve_add :: "wstring \<Rightarrow> HRESULT \<times> VSS_ID"
  ve_do :: HRESULT
  ve_doAsync :: "(nat \<Rightarrow> HRESULT \<times> HRESULT) option"
  ve_props :: "VSS_ID \<Rightarrow> wstring option"

section \<open>Asynchronous operations\<close>

text \<open>
  The loop of \<open>WaitForAsyncOperation\<close>: \<open>elapsed\<close> advances by the poll interval of 1000 ms until it
  reaches the time-out; poll number \<open>elapsed div 1000\<close> decides. The time-outs in use are far from
  the range where \<open>DWORD\<close> would wrap.
\<close>

function wait_loop :: "(nat \<Rightarrow> HRESULT \<times> HRESULT) \<Rightarrow> nat \<Rightarrow> nat \<Rightarrow> bool" where
  "wait_loop polls timeoutMs elapsed =
     (if elapsed < timeoutMs then
        (case polls (elapsed div 1000) of (hrQuery, hrResult) \<Rightarrow>
           if FAILED hrQuery then False
           else if hrQuery = VSS_S_ASYNC_FINISHED \<or> hrResult = VSS_S_ASYNC_FINISHED then \<not> FAILED hrResult
           else if hrQuery = VSS_S_ASYNC_CANCELLED \<or> hrResult = VSS_S_ASYNC_CANCELLED then False
           else wait_loop polls timeoutMs (elapsed + 1000))
      else False)"
  by pat_completeness auto
termination by (relation "measure (\<lambda>(polls, timeoutMs, elapsed). timeoutMs - elapsed)") auto

declare wait_loop.simps [simp del]

definition WaitForAsyncOperation :: "(nat \<Rightarrow> HRESULT \<times> HRESULT) option \<Rightarrow> nat \<Rightarrow> bool" where
  "WaitForAsyncOperation pAsync timeoutMs =
     (case pAsync of None \<Rightarrow> False | Some polls \<Rightarrow> wait_loop polls timeoutMs 0)"

section \<open>Operations\<close>

text \<open>The writers' metadata are only logged, whatever the results of the calls.\<close>

definition Initialize_vss :: "vss_env \<Rightarrow> VssManager \<Rightarrow> VssManager \<times> bool" where
  "Initialize_vss E v =
     (if vm_initialized v then (v, True)
      else if FAILED (ve_create E) then (v, False)
      else if FAILED (ve_initialize E) then (v\<lparr> vm_pVss := False \<rparr>, False)
      else if FAILED (ve_setState E) then (v\<lparr> vm_pVss := False \<rparr>, False)
      else (v\<lparr> vm_pVss := True, vm_initialized := True \<rparr>, True))"

definition StartSnapshotSet :: "vss_env \<Rightarrow> VssManager \<Rightarrow> VssManager \<times> bool" where
  "StartSnapshotSet E v =
     (if \<not> vm_initialized v \<or> \<not> vm_pVss v then (v, False)
      else case ve_start E of (hr, snapshotSetId) \<Rightarrow>
        if FAILED hr then (v, False) else (v\<lparr> vm_snapshotSetId := snapshotSetId \<rparr>, True))"

definition with_slash :: "wstring \<Rightarrow> wstring" where
  "with_slash s = (if s \<noteq> [] \<and> last s \<noteq> 0x5C then s @ [0x5C] else s)"

text \<open>The third result is what the caller receives as \<open>snapshotSetId\<close>.\<close>

definition AddVolumeToSnapshotSet :: "vss_env \<Rightarrow> wstring \<Rightarrow> VssManager \<Rightarrow> VssManager \<times> bool \<times> VSS_ID option" where
  "AddVolumeToSnapshotSet E volumeGuid v =
     (if \<not> vm_initialized v \<or> \<not> vm_pVss v then (v, False, None)
      else case ve_add E (with_slash volumeGuid) of (hr, snapshotId) \<Rightarrow>
        if FAILED hr then (v, False, None)
        else
          let v1 = v\<lparr> vm_volumeToSnapshotId := omap_put volumeGuid snapshotId (vm_volumeToSnapshotId v) \<rparr>;
              v2 = (if vm_snapshotMap v1 = [] then v1\<lparr> vm_snapshotSetId := snapshotId \<rparr> else v1)
          in (v2, True, Some snapshotId))"

definition SetBackupState :: "VssManager \<Rightarrow> bool" where
  "SetBackupState v \<longleftrightarrow> vm_initialized v \<and> vm_pVss v"

definition AddSnapshotInfo :: "VSS_ID \<Rightarrow> VSS_ID \<Rightarrow> wstring \<Rightarrow> wstring \<Rightarrow> VssManager \<Rightarrow> VssManager" where
  "AddSnapshotInfo snapshotId snapshotSetId originalVolume snapshotDevice v =
     v\<lparr> vm_snapshotMap := omap_put originalVolume
          \<lparr> sv_OriginalVolumeGuid = originalVolume, sv_SnapshotDevicePath = snapshotDevice, sv_SnapshotId = snapshotId,
            sv_SnapshotSetId = snapshotSetId \<rparr> (vm_snapshotMap v) \<rparr>"

definition provider_text :: wstring where
  "provider_text = wlit ''Microsoft Software Shadow Copy provider''"

definition add_properties :: "vss_env \<Rightarrow> wstring \<times> VSS_ID \<Rightarrow> VssManager \<Rightarrow> VssManager" where
  "add_properties E = (\<lambda>(volumeGuid, snapshotId) v.
     case ve_props E snapshotId of
       None \<Rightarrow> v
     | Some snapshotDevice \<Rightarrow>
         AddSnapshotInfo snapshotId (vm_snapshotSetId v) volumeGuid snapshotDevice
           (if vm_providerName v = [] then v\<lparr> vm_providerName := provider_text \<rparr> else v))"

definition GetSnapshotProperties :: "vss_env \<Rightarrow> VssManager \<Rightarrow> VssManager \<times> bool" where
  "GetSnapshotProperties E v =
     (if \<not> vm_pVss v then (v, False)
      else let v1 = fold (add_properties E) (vm_volumeToSnapshotId v) v in (v1, vm_snapshotMap v1 \<noteq> []))"

text \<open>The preparation (\<open>PrepareForBackup\<close>) may fail without consequences; the default time-out is ten minutes.\<close>

definition DoSnapshotSet :: "vss_env \<Rightarrow> VssManager \<Rightarrow> VssManager \<times> bool" where
  "DoSnapshotSet E v =
     (if \<not> vm_initialized v \<or> \<not> vm_pVss v then (v, False)
      else if vm_volumeToSnapshotId v = [] then (v, False)
      else if FAILED (ve_do E) then (v, False)
      else if \<not> WaitForAsyncOperation (ve_doAsync E) 600000 then (v, False)
      else case GetSnapshotProperties E v of (v1, ok) \<Rightarrow>
        if \<not> ok then (v1, False) else (v1\<lparr> vm_snapshotCreated := True \<rparr>, True))"

text \<open>\<open>None\<close> is the answer false, with the path emptied.\<close>

definition GetSnapshotDevicePath :: "wstring \<Rightarrow> VssManager \<Rightarrow> wstring option" where
  "GetSnapshotDevicePath volumeGuid v = map_option sv_SnapshotDevicePath (map_of (vm_snapshotMap v) volumeGuid)"

definition QuerySnapshotProperties :: "vss_env \<Rightarrow> wstring \<Rightarrow> VssManager \<Rightarrow> bool" where
  "QuerySnapshotProperties E volumeGuid v \<longleftrightarrow>
     vm_pVss v \<and> (case map_of (vm_volumeToSnapshotId v) volumeGuid of None \<Rightarrow> False | Some i \<Rightarrow> ve_props E i \<noteq> None)"

text \<open>\<open>Cleanup\<close>, with the snapshot sets it asks the service to delete.\<close>

definition Cleanup :: "VssManager \<Rightarrow> VssManager \<times> VSS_ID list" where
  "Cleanup v =
     (v\<lparr> vm_snapshotCreated := False, vm_pVss := False, vm_initialized := False, vm_snapshotMap := [], vm_volumeToSnapshotId := [],
         vm_providerName := [] \<rparr>,
      if vm_pVss v \<and> vm_snapshotCreated v then [vm_snapshotSetId v] else [])"

definition destroy_vss :: "VssManager \<Rightarrow> VSS_ID list" where
  "destroy_vss v = (if vm_initialized v then snd (Cleanup v) else [])"

definition IsVssAvailable :: "vss_env \<Rightarrow> bool" where
  "IsVssAvailable E \<longleftrightarrow> \<not> FAILED (ve_create E)"

text \<open>
  \<open>DeleteOrphanedSnapshots\<close>: \<open>objs\<close> are the objects the query delivers, \<open>None\<close> if it fails; an object is
  the set of a snapshot, or nothing of interest. \<open>del\<close> is the number of snapshots deleting a set removes,
  or the failure. Returned are the answer and the sets that were to be deleted.
\<close>

fun delete_sets :: "(VSS_ID \<Rightarrow> HRESULT \<times> int) \<Rightarrow> VSS_ID option list \<Rightarrow> int \<Rightarrow> int \<times> VSS_ID list" where
  "delete_sets del [] n = (n, [])"
| "delete_sets del (None # objs) n = delete_sets del objs n"
| "delete_sets del (Some s # objs) n =
     (case del s of (hr, deleted) \<Rightarrow>
        case delete_sets del objs (if \<not> FAILED hr \<and> 0 < deleted then n + deleted else n) of (k, ss) \<Rightarrow> (k, s # ss))"

definition DeleteOrphanedSnapshots ::
  "vss_env \<Rightarrow> VSS_ID option list option \<Rightarrow> (VSS_ID \<Rightarrow> HRESULT \<times> int) \<Rightarrow> int \<times> VSS_ID list" where
  "DeleteOrphanedSnapshots E objs del =
     (if FAILED (ve_create E) then (-1, [])
      else if FAILED (ve_initialize E) then (-1, [])
      else case objs of None \<Rightarrow> (0, []) | Some os \<Rightarrow> delete_sets del os 0)"

section \<open>The polling loop\<close>

definition decisive :: "HRESULT \<times> HRESULT \<Rightarrow> bool" where
  "decisive p \<longleftrightarrow> FAILED (fst p) \<or> fst p \<in> {VSS_S_ASYNC_FINISHED, VSS_S_ASYNC_CANCELLED} \<or> snd p \<in> {VSS_S_ASYNC_FINISHED, VSS_S_ASYNC_CANCELLED}"

definition success_poll :: "HRESULT \<times> HRESULT \<Rightarrow> bool" where
  "success_poll p \<longleftrightarrow> \<not> FAILED (fst p) \<and> \<not> FAILED (snd p) \<and> (fst p = VSS_S_ASYNC_FINISHED \<or> snd p = VSS_S_ASYNC_FINISHED)"

lemma wait_loop_from:
  "wait_loop polls timeoutMs (1000 * k) \<longleftrightarrow>
     (\<exists>n \<ge> k. 1000 * n < timeoutMs \<and> success_poll (polls n) \<and> (\<forall>i. k \<le> i \<and> i < n \<longrightarrow> \<not> decisive (polls i)))"
proof (induction "timeoutMs - 1000 * k" arbitrary: k rule: less_induct)
  case less
  obtain q r where p: "polls k = (q, r)" by fastforce
  show ?case
  proof (cases "1000 * k < timeoutMs")
    case False
    then show ?thesis by (subst wait_loop.simps) auto
  next
    case True
    show ?thesis
    proof (cases "decisive (polls k)")
      case True
      have "wait_loop polls timeoutMs (1000 * k) \<longleftrightarrow> success_poll (polls k)"
        using True \<open>1000 * k < timeoutMs\<close> p
        by (subst wait_loop.simps) (auto simp: decisive_def success_poll_def VSS_S_ASYNC_FINISHED_def VSS_S_ASYNC_CANCELLED_def)
      also have "\<dots> \<longleftrightarrow> (\<exists>n \<ge> k. 1000 * n < timeoutMs \<and> success_poll (polls n) \<and> (\<forall>i. k \<le> i \<and> i < n \<longrightarrow> \<not> decisive (polls i)))"
        using True \<open>1000 * k < timeoutMs\<close> by (auto intro: exI [of _ k]) (metis le_eq_less_or_eq order_refl)
      finally show ?thesis .
    next
      case nd: False
      have "wait_loop polls timeoutMs (1000 * k) = wait_loop polls timeoutMs (1000 * Suc k)"
        using nd True p by (subst wait_loop.simps) (auto simp: decisive_def algebra_simps)
      also have "\<dots> \<longleftrightarrow> (\<exists>n \<ge> Suc k. 1000 * n < timeoutMs \<and> success_poll (polls n) \<and> (\<forall>i. Suc k \<le> i \<and> i < n \<longrightarrow> \<not> decisive (polls i)))"
        using True by (intro less) simp
      also have "\<dots> \<longleftrightarrow> (\<exists>n \<ge> k. 1000 * n < timeoutMs \<and> success_poll (polls n) \<and> (\<forall>i. k \<le> i \<and> i < n \<longrightarrow> \<not> decisive (polls i)))"
      proof -
        have "\<not> success_poll (polls k)" using nd by (auto simp: decisive_def success_poll_def)
        then show ?thesis using nd by (metis Suc_leD Suc_leI le_eq_less_or_eq)
      qed
      finally show ?thesis .
    qed
  qed
qed

lemma wait_exact:
  "WaitForAsyncOperation (Some polls) timeoutMs \<longleftrightarrow>
     (\<exists>n. 1000 * n < timeoutMs \<and> success_poll (polls n) \<and> (\<forall>i < n. \<not> decisive (polls i)))"
  using wait_loop_from [of polls timeoutMs 0] by (simp add: WaitForAsyncOperation_def)

section \<open>The life cycle\<close>

definition add_volume :: "vss_env \<Rightarrow> wstring \<Rightarrow> VssManager \<Rightarrow> VssManager" where
  "add_volume E g v = fst (AddVolumeToSnapshotSet E g v)"

text \<open>What holds while volumes are added.\<close>

definition adding :: "VssManager \<Rightarrow> bool" where
  "adding v \<longleftrightarrow> vm_initialized v \<and> vm_pVss v \<and> \<not> vm_snapshotCreated v \<and> vm_snapshotMap v = [] \<and> omap_wf (vm_volumeToSnapshotId v)"

lemma adding_add: "adding v \<Longrightarrow> adding (add_volume E g v)"
  by (auto simp: adding_def add_volume_def AddVolumeToSnapshotSet_def Let_def omap_put_wf split: prod.splits)

lemma adding_fold: "adding v \<Longrightarrow> adding (fold (add_volume E) gs v)"
  by (induction gs arbitrary: v) (auto simp: adding_add)

lemma adding_start:
  assumes "Initialize_vss E VssManager_new = (v1, True)" and "StartSnapshotSet E v1 = (v2, True)"
  shows "adding v2" "vm_volumeToSnapshotId v2 = []" "vm_snapshotSetId v2 = snd (ve_start E)"
  using assms by (auto simp: Initialize_vss_def StartSnapshotSet_def VssManager_new_def adding_def omap_wf_def split: if_splits prod.splits)

lemma set_id_added:
  assumes "adding v" and "vm_volumeToSnapshotId (fold (add_volume E) gs v) \<noteq> vm_volumeToSnapshotId v
    \<or> vm_snapshotSetId v \<in> (\<lambda>g. snd (ve_add E (with_slash g))) ` S"
  shows "vm_snapshotSetId (fold (add_volume E) gs v) \<in> (\<lambda>g. snd (ve_add E (with_slash g))) ` (S \<union> set gs)"
  using assms
proof (induction gs arbitrary: v S)
  case (Cons g gs)
  obtain hr i where a: "ve_add E (with_slash g) = (hr, i)" by fastforce
  show ?case
  proof (cases "FAILED hr")
    case True
    then have "add_volume E g v = v" using Cons.prems(1) a by (simp add: add_volume_def AddVolumeToSnapshotSet_def adding_def)
    then show ?thesis using Cons.IH [OF Cons.prems(1), of S] Cons.prems(2) by auto
  next
    case False
    then have "vm_snapshotSetId (add_volume E g v) = snd (ve_add E (with_slash g))"
      using Cons.prems(1) a by (simp add: add_volume_def AddVolumeToSnapshotSet_def adding_def Let_def)
    then show ?thesis using Cons.IH [OF adding_add [OF Cons.prems(1)], of E g "insert g S"] by auto
  qed
qed auto

lemma add_properties_fields:
  "vm_snapshotSetId (add_properties E p v) = vm_snapshotSetId v" "vm_pVss (add_properties E p v) = vm_pVss v"
  "vm_initialized (add_properties E p v) = vm_initialized v"
  by (auto simp: add_properties_def AddSnapshotInfo_def split: option.splits prod.splits)

lemma fold_properties_fields:
  "vm_snapshotSetId (fold (add_properties E) ps v) = vm_snapshotSetId v" "vm_pVss (fold (add_properties E) ps v) = vm_pVss v"
  by (induction ps arbitrary: v) (simp_all add: add_properties_fields)

lemma fold_properties_lookup:
  assumes "distinct (map fst ps)" and "omap_wf (vm_snapshotMap v)"
  shows "map_option sv_SnapshotDevicePath (map_of (vm_snapshotMap (fold (add_properties E) ps v)) g) =
    (case map_of ps g of Some i \<Rightarrow> (case ve_props E i of Some d \<Rightarrow> Some d | None \<Rightarrow> map_option sv_SnapshotDevicePath (map_of (vm_snapshotMap v) g))
     | None \<Rightarrow> map_option sv_SnapshotDevicePath (map_of (vm_snapshotMap v) g))"
  using assms
proof (induction ps arbitrary: v)
  case (Cons p ps)
  obtain k i where p: "p = (k, i)" by fastforce
  define v1 where "v1 = add_properties E p v"
  have wf: "omap_wf (vm_snapshotMap v1)" using Cons.prems(2)
    by (auto simp: v1_def p add_properties_def AddSnapshotInfo_def omap_put_wf split: option.splits)
  have look: "map_option sv_SnapshotDevicePath (map_of (vm_snapshotMap v1) g) =
      (if g = k \<and> ve_props E i \<noteq> None then ve_props E i else map_option sv_SnapshotDevicePath (map_of (vm_snapshotMap v) g))"
    using Cons.prems(2) by (auto simp: v1_def p add_properties_def AddSnapshotInfo_def map_of_omap_put split: option.splits)
  have none: "map_of ps k = None" using Cons.prems(1) p by (simp add: map_of_eq_None_iff)
  show ?case using Cons.IH [OF _ wf] Cons.prems(1) look none p by (auto simp: v1_def split: option.splits)
qed simp

lemma DoSnapshotSet_True:
  assumes "DoSnapshotSet E v = (v', True)"
  shows "v' = (fold (add_properties E) (vm_volumeToSnapshotId v) v)\<lparr> vm_snapshotCreated := True \<rparr>" "vm_pVss v" "vm_volumeToSnapshotId v \<noteq> []"
  using assms by (auto simp: DoSnapshotSet_def GetSnapshotProperties_def Let_def split: if_splits)

section \<open>Properties\<close>


text \<open>
  The clean-up does not remove the snapshots it made: where snapshots and sets have different
  identifiers, the set that was started is not the one the service is asked to delete, because
  adding a volume overwrites the identifier of the set with that of a snapshot.
\<close>

lemma cleanup_misses_set:
  assumes "Initialize_vss E VssManager_new = (v1, True)" and "StartSnapshotSet E v1 = (v2, True)"
    and "DoSnapshotSet E (fold (add_volume E) gs v2) = (v4, True)" and "\<forall>path. snd (ve_add E path) \<noteq> snd (ve_start E)"
  shows "snd (ve_start E) \<notin> set (snd (Cleanup v4)) \<and> (\<exists>g \<in> set gs. snd (Cleanup v4) = [snd (ve_add E (with_slash g))])"
proof -
  note st = adding_start [OF assms(1,2)]
  note d = DoSnapshotSet_True [OF assms(3)]
  have "vm_snapshotSetId (fold (add_volume E) gs v2) \<in> (\<lambda>g. snd (ve_add E (with_slash g))) ` ({} \<union> set gs)"
    using d(3) st(2) by (intro set_id_added [OF st(1)]) simp
  then obtain g where g: "g \<in> set gs" "vm_snapshotSetId (fold (add_volume E) gs v2) = snd (ve_add E (with_slash g))" by auto
  have "snd (Cleanup v4) = [snd (ve_add E (with_slash g))]"
    using d(2) g(2) by (simp add: Cleanup_def d(1) fold_properties_fields)
  then show ?thesis using g(1) assms(4) by auto
qed

text \<open>A service with one snapshot device.\<close>

definition demo_vss :: vss_env where
  "demo_vss = \<lparr> ve_create = 0, ve_initialize = 0, ve_setState = 0, ve_start = (0, [1]), ve_add = (\<lambda>p. (0, [2])), ve_do = 0,
     ve_doAsync = Some (\<lambda>n. (VSS_S_ASYNC_FINISHED, 0)), ve_props = (\<lambda>i. Some [67]) \<rparr>"

definition demo_added :: VssManager where
  "demo_added = fold (add_volume demo_vss) [[65]] (fst (StartSnapshotSet demo_vss (fst (Initialize_vss demo_vss VssManager_new))))"

lemma demo_vss_run:
  "Initialize_vss demo_vss VssManager_new = (fst (Initialize_vss demo_vss VssManager_new), True)"
  "StartSnapshotSet demo_vss (fst (Initialize_vss demo_vss VssManager_new)) = (fst (StartSnapshotSet demo_vss (fst (Initialize_vss demo_vss VssManager_new))), True)"
  "DoSnapshotSet demo_vss demo_added = (fst (DoSnapshotSet demo_vss demo_added), True)" "map_of (vm_volumeToSnapshotId demo_added) [65] = Some [2]"
proof -
  have w: "WaitForAsyncOperation (Some (\<lambda>n. (VSS_S_ASYNC_FINISHED, 0))) 600000"
    unfolding wait_exact by (intro exI [of _ 0]) (simp add: success_poll_def FAILED_def VSS_S_ASYNC_FINISHED_def)
  have f: "\<not> FAILED 0" by (simp add: FAILED_def)
  show "Initialize_vss demo_vss VssManager_new = (fst (Initialize_vss demo_vss VssManager_new), True)"
    "StartSnapshotSet demo_vss (fst (Initialize_vss demo_vss VssManager_new)) = (fst (StartSnapshotSet demo_vss (fst (Initialize_vss demo_vss VssManager_new))), True)"
    "DoSnapshotSet demo_vss demo_added = (fst (DoSnapshotSet demo_vss demo_added), True)" "map_of (vm_volumeToSnapshotId demo_added) [65] = Some [2]"
    using f w by (simp_all add: demo_added_def demo_vss_def Initialize_vss_def StartSnapshotSet_def VssManager_new_def add_volume_def
        AddVolumeToSnapshotSet_def DoSnapshotSet_def GetSnapshotProperties_def add_properties_def AddSnapshotInfo_def Let_def)
qed


theorem cleanup_misses_set_witness: "[1] \<notin> set (snd (Cleanup (fst (DoSnapshotSet demo_vss demo_added))))"
proof -
  have "\<forall>path. snd (ve_add demo_vss path) \<noteq> snd (ve_start demo_vss)" by (simp add: demo_vss_def)
  from cleanup_misses_set [OF demo_vss_run(1,2) demo_vss_run(3) [unfolded demo_added_def] this] show ?thesis
    by (simp add: demo_added_def) (simp add: demo_vss_def)
qed

end
