(* ===== verification/Cbt_Driver.thy ===== *)
theory Cbt_Driver
  imports Cbt_Prelude
begin

text \<open>
  The kernel driver, \<open>go2cbt/*.{h,c}\<close>: the change bitmap of a disk, the tables of hooked drivers
  and tracked disks, the hook on the write path, and the control interface that reads and
  clears a bitmap. The kernel's own services (pool, object manager, bitmap routines, the other
  drivers) are parameters.
\<close>

section \<open>The bitmap\<close>

text \<open>
  \<open>RTL_BITMAP\<close> and its routines belong to the Windows kernel: a parameter. A buffer is its memory
  image; \<open>rtl_set n buf start count\<close> and \<open>rtl_clear n buf\<close> are the buffer after \<open>RtlSetBits\<close> and
  \<open>RtlClearAllBits\<close> on a bitmap of \<open>n\<close> bits.
\<close>

record RtlApi =
  rtl_set :: "u32 \<Rightarrow> byte list \<Rightarrow> u32 \<Rightarrow> u32 \<Rightarrow> byte list"
  rtl_clear :: "u32 \<Rightarrow> byte list \<Rightarrow> byte list"

datatype NTSTATUS =
    STATUS_SUCCESS | STATUS_INVALID_PARAMETER | STATUS_INSUFFICIENT_RESOURCES | STATUS_NOT_FOUND
  | STATUS_INVALID_DEVICE_STATE | STATUS_BUFFER_OVERFLOW | STATUS_INVALID_DEVICE_REQUEST | STATUS_IO_TIMEOUT
  | STATUS_OTHER u32

text \<open>\<open>NT_SUCCESS\<close>: the codes with a clear sign bit; \<open>STATUS_OTHER\<close> holds any code without a name here.\<close>

fun NT_SUCCESS :: "NTSTATUS \<Rightarrow> bool" where
  "NT_SUCCESS STATUS_SUCCESS = True"
| "NT_SUCCESS (STATUS_OTHER w) = (w < 0x80000000)"
| "NT_SUCCESS _ = False"

record DISK_CBT_STATE =
  cs_SizeOfBitMap :: u32
  cs_Buffer :: "byte list option"
  cs_TotalBits :: u64
  cs_TotalBytes :: u64

definition DISK_CBT_STATE_zero :: DISK_CBT_STATE where
  "DISK_CBT_STATE_zero = \<lparr> cs_SizeOfBitMap = 0, cs_Buffer = None, cs_TotalBits = 0, cs_TotalBytes = 0 \<rparr>"

text \<open>\<open>alloc n\<close>: whether \<open>ExAllocatePool2\<close> finds \<open>n\<close> bytes.\<close>

definition InitCbtState :: "(nat \<Rightarrow> bool) \<Rightarrow> u64 \<Rightarrow> DISK_CBT_STATE \<Rightarrow> DISK_CBT_STATE \<times> NTSTATUS" where
  "InitCbtState alloc diskSizeBytes st =
     (if diskSizeBytes = 0 then (st, STATUS_INVALID_PARAMETER)
      else
        let totalBits = (diskSizeBytes + BLOCK_SIZE - 1) div BLOCK_SIZE;
            totalBytes = (ucast (((totalBits + 31) div 32) * 4) :: u32)
        in if \<not> alloc (unat totalBytes) then (DISK_CBT_STATE_zero, STATUS_INSUFFICIENT_RESOURCES)
           else (\<lparr> cs_SizeOfBitMap = ucast totalBits, cs_Buffer = Some (replicate (unat totalBytes) 0),
                   cs_TotalBits = totalBits, cs_TotalBytes = ucast totalBytes \<rparr>, STATUS_SUCCESS))"

definition CleanupCbtState :: "DISK_CBT_STATE \<Rightarrow> DISK_CBT_STATE" where
  "CleanupCbtState st = DISK_CBT_STATE_zero"

text \<open>
  \<open>MarkBlockChanged\<close>: 64-bit arithmetic as written. The spin lock makes the one call of
  \<open>RtlSetBits\<close> atomic; here every operation is.
\<close>

definition MarkBlockChanged :: "RtlApi \<Rightarrow> u64 \<Rightarrow> u32 \<Rightarrow> DISK_CBT_STATE \<Rightarrow> DISK_CBT_STATE" where
  "MarkBlockChanged A offset len st =
     (case cs_Buffer st of
        None \<Rightarrow> st
      | Some buf \<Rightarrow>
          if cs_TotalBits st = 0 then st
          else if cs_TotalBits st * BLOCK_SIZE \<le> offset then st
          else
            let startBlock = offset div BLOCK_SIZE;
                endBlock0 = (offset + ucast len - 1) div BLOCK_SIZE;
                endBlock = (if cs_TotalBits st \<le> endBlock0 then cs_TotalBits st - 1 else endBlock0)
            in if endBlock < startBlock then st
               else st\<lparr> cs_Buffer := Some (rtl_set A (cs_SizeOfBitMap st) buf (ucast startBlock) (ucast (endBlock - startBlock + 1))) \<rparr>)"

section \<open>Hooks and disks\<close>

text \<open>
  Driver and device objects are numbers. A dispatch routine is the driver's own hook or a
  foreign routine; \<open>dv_major\<close> is the \<open>MajorFunction\<close> table of every driver object. A pointer to
  a hook entry is its index in \<open>g_HookList\<close>.
\<close>

datatype dispatch = HwReadWrite_fn | Foreign nat

record HOOK_ENTRY =
  he_DriverObject :: nat
  he_OriginalWrite :: dispatch
  he_HookInstalled :: bool
  he_RefCount :: u32
  he_HookInstallTime :: u64

record DISK_MAP_ENTRY =
  dme_DeviceObject :: nat
  dme_HookEntry :: nat
  dme_DiskNumber :: u32
  dme_PartitionNumber :: u32
  dme_PartitionStartingOffset :: u64
  dme_PartitionLength :: u64
  dme_IsPartition0 :: bool
  dme_CbtState :: DISK_CBT_STATE

record Driver =
  dv_ControlDevice :: bool
  dv_Symlink :: bool
  dv_HookList :: "HOOK_ENTRY list"
  dv_DiskMap :: "DISK_MAP_ENTRY list"
  dv_major :: "nat \<Rightarrow> nat \<Rightarrow> dispatch"

abbreviation IRP_MJ_WRITE :: nat where "IRP_MJ_WRITE \<equiv> 4"

definition MAX_HOOKED_DRIVERS :: nat where "MAX_HOOKED_DRIVERS = 8"
definition MAX_DISK_MAP_ENTRIES :: nat where "MAX_DISK_MAP_ENTRIES = 64"
definition MAX_DISKS :: nat where "MAX_DISKS = 32"

definition set_major :: "nat \<Rightarrow> nat \<Rightarrow> dispatch \<Rightarrow> Driver \<Rightarrow> Driver" where
  "set_major drv mj f d = d\<lparr> dv_major := (dv_major d)(drv := (dv_major d drv)(mj := f)) \<rparr>"

definition FindOrCreateHookEntry :: "u64 \<Rightarrow> nat \<Rightarrow> Driver \<Rightarrow> Driver \<times> nat option" where
  "FindOrCreateHookEntry now drv d =
     (case find_index (\<lambda>e. he_DriverObject e = drv) (dv_HookList d) of
        Some i \<Rightarrow>
          (let e = dv_HookList d ! i
           in (d\<lparr> dv_HookList := (dv_HookList d)[i := e\<lparr> he_RefCount := he_RefCount e + 1 \<rparr>] \<rparr>, Some i))
      | None \<Rightarrow>
          if MAX_HOOKED_DRIVERS \<le> length (dv_HookList d) then (d, None)
          else
            let originalWrite = dv_major d drv IRP_MJ_WRITE;
                d1 = set_major drv IRP_MJ_WRITE HwReadWrite_fn d;
                installed = (dv_major d1 drv IRP_MJ_WRITE = HwReadWrite_fn);
                newEntry = \<lparr> he_DriverObject = drv, he_OriginalWrite = originalWrite, he_HookInstalled = installed,
                             he_RefCount = 1, he_HookInstallTime = (if installed then now else 0) \<rparr>
            in (d1\<lparr> dv_HookList := dv_HookList d1 @ [newEntry] \<rparr>, Some (length (dv_HookList d1))))"

text \<open>
  What the rest of the kernel answers: the device object of a disk and its driver, the
  environment of a partition query, the pool and the clock.
\<close>

record partition_reply =
  pr_passive :: bool
  pr_irp :: bool
  pr_timeout :: bool
  pr_status :: NTSTATUS
  pr_offset :: u64
  pr_length :: u64

record Kernel =
  k_device :: "nat \<Rightarrow> nat option"
  k_driver :: "nat \<Rightarrow> nat"
  k_partition :: "nat \<Rightarrow> partition_reply"
  k_alloc :: "nat \<Rightarrow> bool"
  k_time :: u64

text \<open>The status, the starting offset and the length.\<close>

definition QueryPartitionInfoEx :: "partition_reply \<Rightarrow> NTSTATUS \<times> u64 \<times> u64" where
  "QueryPartitionInfoEx r =
     (if \<not> pr_passive r then (STATUS_INVALID_DEVICE_STATE, 0, 0)
      else if \<not> pr_irp r then (STATUS_INSUFFICIENT_RESOURCES, 0, 0)
      else if pr_timeout r then (STATUS_IO_TIMEOUT, 0, 0)
      else if NT_SUCCESS (pr_status r) then (pr_status r, pr_offset r, pr_length r)
      else (pr_status r, 0, 0))"

text \<open>One disk of the scan; \<open>MAX_PARTITIONS\<close> is 1, so only partition 0 is visited.\<close>

definition scan_disk :: "Kernel \<Rightarrow> nat \<Rightarrow> Driver \<Rightarrow> Driver" where
  "scan_disk K diskNum d =
     (case k_device K diskNum of
        None \<Rightarrow> d
      | Some devObj \<Rightarrow>
          (case FindOrCreateHookEntry (k_time K) (k_driver K devObj) d of
             (d1, None) \<Rightarrow> d1
           | (d1, Some hookEntry) \<Rightarrow>
               if MAX_DISK_MAP_ENTRIES \<le> length (dv_DiskMap d1) then d1
               else
                 (case QueryPartitionInfoEx (k_partition K devObj) of (status, off, len) \<Rightarrow>
                    let start = (if NT_SUCCESS status then off else 0);
                        plen = (if NT_SUCCESS status then len else 0);
                        cbt = fst (InitCbtState (k_alloc K) plen DISK_CBT_STATE_zero)
                    in d1\<lparr> dv_DiskMap := dv_DiskMap d1 @
                         [\<lparr> dme_DeviceObject = devObj, dme_HookEntry = hookEntry, dme_DiskNumber = of_nat diskNum,
                            dme_PartitionNumber = 0, dme_PartitionStartingOffset = start, dme_PartitionLength = plen,
                            dme_IsPartition0 = True, dme_CbtState = cbt \<rparr>] \<rparr>)))"

definition BuildDiskAndHookTables :: "Kernel \<Rightarrow> Driver \<Rightarrow> Driver \<times> NTSTATUS" where
  "BuildDiskAndHookTables K d = (fold (scan_disk K) [0..<MAX_DISKS] d, STATUS_SUCCESS)"

text \<open>The results of \<open>IoCreateDevice\<close> and \<open>IoCreateSymbolicLink\<close> are arguments.\<close>

definition DriverEntry :: "Kernel \<Rightarrow> NTSTATUS \<Rightarrow> NTSTATUS \<Rightarrow> Driver \<Rightarrow> Driver \<times> NTSTATUS" where
  "DriverEntry K create symlink d =
     (if \<not> NT_SUCCESS create then (d, create)
      else if \<not> NT_SUCCESS symlink then (d, symlink)
      else (fst (BuildDiskAndHookTables K (d\<lparr> dv_ControlDevice := True, dv_Symlink := True \<rparr>)), STATUS_SUCCESS))"

definition restore_hook :: "HOOK_ENTRY \<Rightarrow> Driver \<Rightarrow> Driver" where
  "restore_hook e d =
     (if \<not> he_HookInstalled e then d
      else if dv_major d (he_DriverObject e) IRP_MJ_WRITE = HwReadWrite_fn
        then set_major (he_DriverObject e) IRP_MJ_WRITE (he_OriginalWrite e) d
      else d)"

definition CbtUnload :: "Driver \<Rightarrow> Driver" where
  "CbtUnload d =
     (fold restore_hook (dv_HookList d) d)\<lparr> dv_Symlink := False, dv_ControlDevice := False, dv_HookList := [], dv_DiskMap := [] \<rparr>"

section \<open>The write path\<close>

text \<open>
  \<open>HwReadWrite\<close> on an IRP: the new state and the routine the IRP is passed to. Passing it to
  \<open>HwReadWrite\<close> itself is the endless recursion the comment in the code warns of.
\<close>

record IRP =
  irp_MajorFunction :: nat
  irp_ByteOffset :: u64
  irp_Length :: u32

definition HwReadWrite :: "RtlApi \<Rightarrow> Kernel \<Rightarrow> nat \<Rightarrow> IRP \<Rightarrow> Driver \<Rightarrow> Driver \<times> dispatch" where
  "HwReadWrite A K dev irp d =
     (let drvObj = k_driver K dev in
      if irp_MajorFunction irp \<noteq> IRP_MJ_WRITE then (d, dv_major d drvObj (irp_MajorFunction irp))
      else case find_index (\<lambda>e. dme_DeviceObject e = dev) (dv_DiskMap d) of
          None \<Rightarrow>
            (case find_index (\<lambda>e. he_DriverObject e = drvObj) (dv_HookList d) of
               Some i \<Rightarrow>
                 if he_HookInstalled (dv_HookList d ! i) then (d, he_OriginalWrite (dv_HookList d ! i))
                 else (d, dv_major d drvObj IRP_MJ_WRITE)
             | None \<Rightarrow> (d, dv_major d drvObj IRP_MJ_WRITE))
        | Some i \<Rightarrow>
            let diskEntry = dv_DiskMap d ! i;
                originalWrite = he_OriginalWrite (dv_HookList d ! dme_HookEntry diskEntry);
                diskAbsoluteOffset = irp_ByteOffset irp + dme_PartitionStartingOffset diskEntry;
                cbt = MarkBlockChanged A diskAbsoluteOffset (irp_Length irp) (dme_CbtState diskEntry)
            in (d\<lparr> dv_DiskMap := (dv_DiskMap d)[i := diskEntry\<lparr> dme_CbtState := cbt \<rparr>] \<rparr>, originalWrite))"

section \<open>The control interface\<close>

definition FindDiskMapEntryByNumber :: "u32 \<Rightarrow> Driver \<Rightarrow> nat option" where
  "FindDiskMapEntryByNumber deviceNumber d = find_index (\<lambda>e. dme_DiskNumber e = deviceNumber) (dv_DiskMap d)"

text \<open>A request: its code, the input buffer and the length of the output buffer. The answer: the
  bytes at the start of the output buffer, the status and the information field.\<close>

record ioctl_request =
  io_code :: u32
  io_input :: "byte list"
  io_outLen :: u32

record ioctl_reply =
  ir_status :: NTSTATUS
  ir_data :: "byte list"
  ir_bytesReturned :: u32

abbreviation fail_reply :: "NTSTATUS \<Rightarrow> ioctl_reply" where
  "fail_reply st \<equiv> \<lparr> ir_status = st, ir_data = [], ir_bytesReturned = 0 \<rparr>"

definition IOCTL_QUERY_CBT_DATA :: u32 where "IOCTL_QUERY_CBT_DATA = 0x222008"
definition IOCTL_RESET_CBT_DATA :: u32 where "IOCTL_RESET_CBT_DATA = 0x22200C"

definition query_header :: "u64 \<Rightarrow> u32 \<Rightarrow> byte list" where
  "query_header totalBits totalBytes = le_bytes 8 totalBits @ le_bytes 8 (ucast totalBytes :: u64)"

definition HandleIoctlQuery :: "ioctl_request \<Rightarrow> Driver \<Rightarrow> ioctl_reply" where
  "HandleIoctlQuery rq d =
     (if length (io_input rq) < 4 then fail_reply STATUS_INVALID_PARAMETER
      else case FindDiskMapEntryByNumber (le_word (take 4 (io_input rq))) d of
          None \<Rightarrow> fail_reply STATUS_NOT_FOUND
        | Some i \<Rightarrow>
            let st = dme_CbtState (dv_DiskMap d ! i) in
            (case cs_Buffer st of
               None \<Rightarrow> fail_reply STATUS_INVALID_DEVICE_STATE
             | Some buf \<Rightarrow>
                 if cs_TotalBits st = 0 then fail_reply STATUS_INVALID_DEVICE_STATE
                 else
                   let totalBytes = (ucast (cs_TotalBytes st) :: u32);
                       requiredSize = 16 + totalBytes;
                       hdr = query_header (cs_TotalBits st) totalBytes
                   in if io_outLen rq < requiredSize
                      then (if 16 \<le> io_outLen rq
                            then \<lparr> ir_status = STATUS_BUFFER_OVERFLOW, ir_data = hdr, ir_bytesReturned = 16 \<rparr>
                            else \<lparr> ir_status = STATUS_BUFFER_OVERFLOW, ir_data = [], ir_bytesReturned = requiredSize \<rparr>)
                      else \<lparr> ir_status = STATUS_SUCCESS, ir_data = hdr @ take (unat totalBytes) buf, ir_bytesReturned = requiredSize \<rparr>))"

definition HandleIoctlReset :: "RtlApi \<Rightarrow> ioctl_request \<Rightarrow> Driver \<Rightarrow> Driver \<times> ioctl_reply" where
  "HandleIoctlReset A rq d =
     (if length (io_input rq) < 4 then (d, fail_reply STATUS_INVALID_PARAMETER)
      else case FindDiskMapEntryByNumber (le_word (take 4 (io_input rq))) d of
          None \<Rightarrow> (d, fail_reply STATUS_NOT_FOUND)
        | Some i \<Rightarrow>
            let e = dv_DiskMap d ! i; st = dme_CbtState e in
            (case cs_Buffer st of
               None \<Rightarrow> (d, fail_reply STATUS_INVALID_DEVICE_STATE)
             | Some buf \<Rightarrow>
                 if cs_TotalBits st = 0 then (d, fail_reply STATUS_INVALID_DEVICE_STATE)
                 else (d\<lparr> dv_DiskMap := (dv_DiskMap d)[i := e\<lparr> dme_CbtState :=
                             st\<lparr> cs_Buffer := Some (rtl_clear A (cs_SizeOfBitMap st) buf) \<rparr> \<rparr>] \<rparr>,
                       \<lparr> ir_status = STATUS_SUCCESS, ir_data = [], ir_bytesReturned = 0 \<rparr>)))"

definition CbtDispatchDeviceControl :: "RtlApi \<Rightarrow> ioctl_request \<Rightarrow> Driver \<Rightarrow> Driver \<times> ioctl_reply" where
  "CbtDispatchDeviceControl A rq d =
     (if io_code rq = IOCTL_QUERY_CBT_DATA then (d, HandleIoctlQuery rq d)
      else if io_code rq = IOCTL_RESET_CBT_DATA then HandleIoctlReset A rq d
      else (d, fail_reply STATUS_INVALID_DEVICE_REQUEST))"

section \<open>What the bitmap routines promise\<close>

text \<open>Bit \<open>i\<close> of a bitmap: the documented layout, least significant bit of a byte first.\<close>

definition rtl_bit :: "byte list \<Rightarrow> nat \<Rightarrow> bool" where
  "rtl_bit buf i = bit (buf ! (i div 8)) (i mod 8)"

definition rtl_ok :: "RtlApi \<Rightarrow> bool" where
  "rtl_ok A \<longleftrightarrow>
     (\<forall>n buf s c. unat n \<le> 8 * length buf \<longrightarrow> unat s + unat c \<le> unat n \<longrightarrow>
        length (rtl_set A n buf s c) = length buf
        \<and> (\<forall>i < 8 * length buf. rtl_bit (rtl_set A n buf s c) i = (rtl_bit buf i \<or> unat s \<le> i \<and> i < unat s + unat c)))
     \<and> (\<forall>n buf. unat n \<le> 8 * length buf \<longrightarrow>
        length (rtl_clear A n buf) = length buf \<and> (\<forall>i < unat n. \<not> rtl_bit (rtl_clear A n buf) i))"

text \<open>The blocks a bitmap reports, and the blocks a byte range touches.\<close>

definition changed_blocks :: "DISK_CBT_STATE \<Rightarrow> nat set" where
  "changed_blocks st =
     (case cs_Buffer st of None \<Rightarrow> {} | Some buf \<Rightarrow> {i. i < unat (cs_TotalBits st) \<and> rtl_bit buf i})"

definition touched :: "nat \<Rightarrow> nat \<Rightarrow> nat set" where
  "touched off n = {p div BLOCK_SIZE | p. off \<le> p \<and> p < off + n}"

definition cbt_wf :: "DISK_CBT_STATE \<Rightarrow> bool" where
  "cbt_wf st \<longleftrightarrow>
     (case cs_Buffer st of
        None \<Rightarrow> True
      | Some buf \<Rightarrow> 0 < unat (cs_TotalBits st) \<and> unat (cs_TotalBits st) < 2 ^ 32
          \<and> unat (cs_SizeOfBitMap st) = unat (cs_TotalBits st)
          \<and> length buf = unat (cs_TotalBytes st) \<and> unat (cs_TotalBytes st) \<le> 2 ^ 29
          \<and> unat (cs_TotalBits st) \<le> 8 * length buf)"

lemma touched_interval: "0 < n \<Longrightarrow> touched off n = {off div BLOCK_SIZE..(off + n - 1) div BLOCK_SIZE}"
proof (intro equalityI subsetI)
  fix b assume "b \<in> touched off n"
  then obtain p where "b = p div BLOCK_SIZE" "off \<le> p" "p \<le> off + n - 1" by (auto simp: touched_def)
  then show "b \<in> {off div BLOCK_SIZE..(off + n - 1) div BLOCK_SIZE}" by (auto intro: div_le_mono)
next
  fix b assume n: "0 < n" and b: "b \<in> {off div BLOCK_SIZE..(off + n - 1) div BLOCK_SIZE}"
  define p where "p = max off (b * BLOCK_SIZE)"
  have "b * BLOCK_SIZE \<le> off + n - 1" using b by (metis atLeastAtMost_iff less_eq_div_iff_mult_less_eq zero_less_numeral)
  moreover have "p div BLOCK_SIZE = b"
  proof (cases "off \<le> b * BLOCK_SIZE")
    case False
    then have "b \<le> off div BLOCK_SIZE" by (simp add: less_eq_div_iff_mult_less_eq)
    then show ?thesis using b False by (simp add: p_def)
  qed (simp add: p_def)
  ultimately show "b \<in> touched off n" using n by (auto simp: touched_def p_def intro!: exI [of _ p])
qed

lemma InitCbtState_wf:
  assumes "unat dsz \<le> 2 ^ 51"
  shows "cbt_wf (fst (InitCbtState alloc dsz DISK_CBT_STATE_zero))"
    and "changed_blocks (fst (InitCbtState alloc dsz DISK_CBT_STATE_zero)) = {}"
    and "snd (InitCbtState alloc dsz st) = STATUS_SUCCESS \<Longrightarrow>
      unat (cs_TotalBits (fst (InitCbtState alloc dsz st))) = (unat dsz + (BLOCK_SIZE - 1)) div BLOCK_SIZE"
proof -
  define tb where "tb = (dsz + BLOCK_SIZE - 1) div BLOCK_SIZE"
  have s: "unat (dsz + BLOCK_SIZE - 1) = unat dsz + (BLOCK_SIZE - 1)"
  proof -
    have "dsz + BLOCK_SIZE - 1 = dsz + (BLOCK_SIZE - 1)" by simp
    then show ?thesis using assms by (simp add: unat_word_ariths)
  qed
  then have tb: "unat tb = (unat dsz + (BLOCK_SIZE - 1)) div BLOCK_SIZE" by (simp add: tb_def unat_div)
  then have le: "unat tb \<le> 2 ^ 31"
    using assms div_le_mono [of "unat dsz + (BLOCK_SIZE - 1)" "2 ^ 51 + (BLOCK_SIZE - 1)" BLOCK_SIZE] by simp
  define nb where "nb = (ucast ((tb + 31) div 32 * 4) :: u32)"
  have I: "InitCbtState alloc dsz x = (if dsz = 0 then (x, STATUS_INVALID_PARAMETER)
     else if \<not> alloc (unat nb) then (DISK_CBT_STATE_zero, STATUS_INSUFFICIENT_RESOURCES)
     else (\<lparr> cs_SizeOfBitMap = ucast tb, cs_Buffer = Some (replicate (unat nb) 0), cs_TotalBits = tb, cs_TotalBytes = ucast nb \<rparr>,
       STATUS_SUCCESS))" for x
    by (simp only: InitCbtState_def Let_def tb_def nb_def)
  show "snd (InitCbtState alloc dsz st) = STATUS_SUCCESS \<Longrightarrow>
      unat (cs_TotalBits (fst (InitCbtState alloc dsz st))) = (unat dsz + (BLOCK_SIZE - 1)) div BLOCK_SIZE"
    using tb by (simp add: I split: if_splits)
  have d: "(unat tb + 31) div 32 \<le> 2 ^ 27" using le div_le_mono [of "unat tb + 31" "2 ^ 32" 32] by simp
  have "unat nb = (unat tb + 31) div 32 * 4"
  proof -
    have a: "unat (tb + 31) = unat tb + 31" using le by (simp add: unat_word_ariths)
    have "unat ((tb + 31) div 32 * 4) = (unat tb + 31) div 32 * 4"
      using a d by (simp add: unat_word_ariths unat_div)
    then show ?thesis using d by (simp add: nb_def unsigned_ucast_eq take_bit_eq_mod)
  qed
  then have b: "unat tb \<le> 8 * unat nb" "unat nb \<le> 2 ^ 29"
    using d by simp_all
  have "unat (ucast tb :: u32) = unat tb" using le by (simp add: unsigned_ucast_eq take_bit_eq_mod)
  moreover have "dsz \<noteq> 0 \<Longrightarrow> 0 < unat tb" using tb by (simp add: div_greater_zero_iff Suc_le_eq unat_gt_0)
  ultimately show "cbt_wf (fst (InitCbtState alloc dsz DISK_CBT_STATE_zero))"
    using b le by (auto simp: I cbt_wf_def DISK_CBT_STATE_zero_def)
  show "changed_blocks (fst (InitCbtState alloc dsz DISK_CBT_STATE_zero)) = {}"
    using b(1) by (auto simp: I changed_blocks_def DISK_CBT_STATE_zero_def rtl_bit_def)
qed


section \<open>Marking blocks\<close>

lemma unat_pred: "(x :: u64) \<noteq> 0 \<Longrightarrow> unat (x - 1) = unat x - 1"
  by (simp add: unat_sub word_le_nat_alt Suc_le_eq unat_gt_0)

lemma MarkBlockChanged_fields [simp]:
  "cs_TotalBits (MarkBlockChanged A off len st) = cs_TotalBits st"
  "cs_TotalBytes (MarkBlockChanged A off len st) = cs_TotalBytes st"
  "cs_SizeOfBitMap (MarkBlockChanged A off len st) = cs_SizeOfBitMap st"
  by (auto simp: MarkBlockChanged_def Let_def split: option.split)

text \<open>The call of \<open>RtlSetBits\<close>, for the block interval the code has computed.\<close>

lemma rtl_set_blocks:
  assumes "rtl_ok A" and "cbt_wf st" and "cs_Buffer st = Some buf"
    and "s \<le> (e :: u64)" and "e < cs_TotalBits st"
    and "buf' = rtl_set A (cs_SizeOfBitMap st) buf (ucast s) (ucast (e - s + 1))"
  shows "length buf' = length buf"
    and "changed_blocks (st\<lparr> cs_Buffer := Some buf' \<rparr>) = changed_blocks st \<union> {unat s..unat e}"
proof -
  have w: "unat (cs_TotalBits st) < 2 ^ 32" "unat (cs_SizeOfBitMap st) = unat (cs_TotalBits st)"
    "unat (cs_TotalBits st) \<le> 8 * length buf" using assms(2,3) by (simp_all add: cbt_wf_def)
  have se: "unat s \<le> unat e" "unat e < unat (cs_TotalBits st)" using assms(4,5) by (simp_all add: word_le_nat_alt word_less_nat_alt)
  have c: "unat (e - s + 1) = unat e - unat s + 1"
    using se w(1) unat_sub_if' [of e s] by (simp add: unat_word_ariths unat_sub word_le_nat_alt)
  have u: "unat (ucast s :: u32) = unat s" "unat (ucast (e - s + 1) :: u32) = unat e - unat s + 1"
    using se w(1) c by (simp_all add: unsigned_ucast_eq take_bit_eq_mod)
  have "unat (ucast s :: u32) + unat (ucast (e - s + 1) :: u32) \<le> unat (cs_SizeOfBitMap st)" using u se w(2) by simp
  then have r: "length buf' = length buf"
    "\<forall>i < 8 * length buf. rtl_bit buf' i = (rtl_bit buf i \<or> unat s \<le> i \<and> i < unat s + (unat e - unat s + 1))"
    using assms(1,6) w u unfolding rtl_ok_def by (metis (no_types, lifting))+
  then show "length buf' = length buf" by simp
  show "changed_blocks (st\<lparr> cs_Buffer := Some buf' \<rparr>) = changed_blocks st \<union> {unat s..unat e}"
    using r(2) se w(3) assms(3) by (auto simp: changed_blocks_def)
qed

lemma total_bytes_nat: "cbt_wf st \<Longrightarrow> cs_Buffer st \<noteq> None \<Longrightarrow> unat (cs_TotalBits st * BLOCK_SIZE) = unat (cs_TotalBits st) * BLOCK_SIZE"
  by (auto simp: cbt_wf_def unat_word_ariths)

text \<open>The interval of blocks the code computes, and the update it makes with it.\<close>

definition mark_end :: "u64 \<Rightarrow> u32 \<Rightarrow> DISK_CBT_STATE \<Rightarrow> u64" where
  "mark_end off len st =
     (let e = (off + ucast len - 1) div BLOCK_SIZE in if cs_TotalBits st \<le> e then cs_TotalBits st - 1 else e)"

lemma MarkBlockChanged_cases:
  assumes "rtl_ok A" and "cbt_wf st" and "cs_Buffer st = Some buf"
  shows "if cs_TotalBits st * BLOCK_SIZE \<le> off \<or> mark_end off len st < off div BLOCK_SIZE
     then MarkBlockChanged A off len st = st
     else \<exists>buf'. MarkBlockChanged A off len st = st\<lparr> cs_Buffer := Some buf' \<rparr> \<and> length buf' = length buf
       \<and> changed_blocks (st\<lparr> cs_Buffer := Some buf' \<rparr>) = changed_blocks st \<union> {unat (off div BLOCK_SIZE)..unat (mark_end off len st)}"
proof -
  have n0: "cs_TotalBits st \<noteq> 0" using assms(2,3) by (auto simp: cbt_wf_def)
  then have lt: "mark_end off len st < cs_TotalBits st"
    by (auto simp: mark_end_def Let_def not_le word_less_nat_alt unat_pred unat_gt_0)
  show ?thesis
    using rtl_set_blocks [OF assms _ lt refl, of "off div BLOCK_SIZE"] n0 assms(3)
    by (auto simp: MarkBlockChanged_def mark_end_def Let_def not_less)
qed

lemma MarkBlockChanged_skip:
  assumes "rtl_ok A" and "cbt_wf st" and "cs_Buffer st = Some buf" and "cs_TotalBits st * BLOCK_SIZE \<le> off"
  shows "MarkBlockChanged A off len st = st"
  using assms(3,4) by (simp add: MarkBlockChanged_def)

lemma MarkBlockChanged_set:
  assumes "rtl_ok A" and "cbt_wf st" and "cs_Buffer st = Some buf"
    and "\<not> cs_TotalBits st * BLOCK_SIZE \<le> off" and "\<not> mark_end off len st < off div BLOCK_SIZE"
  shows "changed_blocks (MarkBlockChanged A off len st)
    = changed_blocks st \<union> {unat (off div BLOCK_SIZE)..unat (mark_end off len st)}"
proof -
  have c: "\<not> (cs_TotalBits st * BLOCK_SIZE \<le> off \<or> mark_end off len st < off div BLOCK_SIZE)" using assms(4,5) by blast
  show ?thesis using MarkBlockChanged_cases [OF assms(1-3), of off len, unfolded if_not_P [OF c]] by metis
qed

lemma MarkBlockChanged_wf:
  assumes "rtl_ok A" and "cbt_wf st"
  shows "cbt_wf (MarkBlockChanged A off len st)"
proof (cases "cs_Buffer st")
  case (Some buf)
  with MarkBlockChanged_cases [OF assms Some, of off len] assms(2) show ?thesis
    by (auto simp: cbt_wf_def split: if_splits)
qed (use assms in \<open>simp add: MarkBlockChanged_def\<close>)

lemma MarkBlockChanged_marks:
  assumes "rtl_ok A" and "cbt_wf st" and "cs_Buffer st \<noteq> None"
    and "0 < len" and "unat off + unat len < 2 ^ 64"
  shows "changed_blocks (MarkBlockChanged A off len st)
    = changed_blocks st \<union> {b \<in> touched (unat off) (unat len). b < unat (cs_TotalBits st)}"
proof -
  obtain buf where buf: "cs_Buffer st = Some buf" using assms(3) by auto
  define T where "T = unat (cs_TotalBits st)"
  have T: "0 < T" "T < 2 ^ 32" using assms(2) buf by (simp_all add: cbt_wf_def T_def)
  have len: "0 < unat len" using assms(4) by (simp add: word_less_nat_alt)
  have t: "touched (unat off) (unat len) = {unat off div BLOCK_SIZE..(unat off + unat len - 1) div BLOCK_SIZE}"
    by (rule touched_interval [OF len])
  have beyond: "cs_TotalBits st * BLOCK_SIZE \<le> off \<longleftrightarrow> T \<le> unat off div BLOCK_SIZE"
    using total_bytes_nat [OF assms(2,3)] by (simp add: word_le_nat_alt T_def less_eq_div_iff_mult_less_eq)
  have s: "unat (off div BLOCK_SIZE) = unat off div BLOCK_SIZE" by (simp add: unat_div)
  have "unat (off + ucast len) = unat off + unat len" using assms(5) by (simp add: unat_word_ariths)
  moreover from this len have "off + ucast len \<noteq> 0" by (metis add_is_0 less_not_refl unat_0)
  ultimately have "unat ((off + ucast len - 1) div BLOCK_SIZE) = (unat off + unat len - 1) div BLOCK_SIZE"
    by (simp add: unat_div unat_pred)
  then have e: "unat (mark_end off len st) = min ((unat off + unat len - 1) div BLOCK_SIZE) (T - 1)"
    using T(1) by (auto simp: mark_end_def Let_def word_le_nat_alt T_def unat_pred unat_gt_0)
  have le: "unat off div BLOCK_SIZE \<le> (unat off + unat len - 1) div BLOCK_SIZE" using len by (intro div_le_mono) simp
  show ?thesis
  proof (cases "T \<le> unat off div BLOCK_SIZE")
    case True
    then show ?thesis using MarkBlockChanged_skip [OF assms(1,2) buf, of off len] beyond t by (simp add: T_def) fastforce
  next
    case False
    then have "\<not> mark_end off len st < off div BLOCK_SIZE" using e s le T(1) by (simp add: word_less_nat_alt) linarith
    then have "changed_blocks (MarkBlockChanged A off len st)
        = changed_blocks st \<union> {unat off div BLOCK_SIZE..min ((unat off + unat len - 1) div BLOCK_SIZE) (T - 1)}"
      using MarkBlockChanged_set [OF assms(1,2) buf, of off len] beyond False e s by metis
    then show ?thesis using t T(1) by (auto simp: T_def)
  qed
qed

lemma MarkBlockChanged_zero:
  assumes "rtl_ok A" and "cbt_wf st" and "cs_Buffer st \<noteq> None"
  shows "changed_blocks (MarkBlockChanged A 0 0 st) = {0..<unat (cs_TotalBits st)}"
proof -
  obtain buf where buf: "cs_Buffer st = Some buf" using assms(3) by auto
  have T: "0 < unat (cs_TotalBits st)" "unat (cs_TotalBits st) < 2 ^ 32" using assms(2) buf by (simp_all add: cbt_wf_def)
  have "mark_end 0 0 st = cs_TotalBits st - 1" using T by (simp add: mark_end_def word_le_nat_alt)
  then have "unat (mark_end 0 0 st) = unat (cs_TotalBits st) - 1" using T(1) by (simp add: unat_pred unat_gt_0)
  moreover have "\<not> cs_TotalBits st * BLOCK_SIZE \<le> 0" using total_bytes_nat [OF assms(2,3)] T(1) by (simp add: word_le_nat_alt)
  moreover have "\<not> mark_end 0 0 st < 0 div BLOCK_SIZE" "unat (0 div BLOCK_SIZE :: u64) = 0" by simp_all
  ultimately have "changed_blocks (MarkBlockChanged A 0 0 st) = changed_blocks st \<union> {0..unat (cs_TotalBits st) - 1}"
    using MarkBlockChanged_set [OF assms(1,2) buf, of 0 0] by metis
  moreover have "changed_blocks st \<subseteq> {0..<unat (cs_TotalBits st)}" by (auto simp: changed_blocks_def split: option.splits)
  ultimately show ?thesis using T(1) by auto
qed

section \<open>The tables\<close>

text \<open>
  The invariant of the hook table, relative to the dispatch tables \<open>orig\<close> before the driver was
  loaded: entries belong to different drivers, every entry remembers the driver's own write
  routine, and exactly the listed drivers are diverted.
\<close>

definition divert :: "(nat \<Rightarrow> nat \<Rightarrow> dispatch) \<Rightarrow> nat set \<Rightarrow> nat \<Rightarrow> nat \<Rightarrow> dispatch" where
  "divert orig D = (\<lambda>drv mj. if mj = IRP_MJ_WRITE \<and> drv \<in> D then HwReadWrite_fn else orig drv mj)"

lemma divert_insert: "(divert orig D)(drv := (divert orig D drv)(IRP_MJ_WRITE := HwReadWrite_fn)) = divert orig (insert drv D)"
  by (intro ext) (simp add: divert_def)

lemma divert_outside: "drv \<notin> D \<Longrightarrow> divert orig D drv mj = orig drv mj"
  by (simp add: divert_def)

definition hooks_wf :: "(nat \<Rightarrow> nat \<Rightarrow> dispatch) \<Rightarrow> Driver \<Rightarrow> bool" where
  "hooks_wf orig d \<longleftrightarrow>
     distinct (map he_DriverObject (dv_HookList d)) \<and> length (dv_HookList d) \<le> MAX_HOOKED_DRIVERS
     \<and> (\<forall>e \<in> set (dv_HookList d). he_HookInstalled e \<and> he_OriginalWrite e = orig (he_DriverObject e) IRP_MJ_WRITE)
     \<and> dv_major d = divert orig (he_DriverObject ` set (dv_HookList d))"

definition disks_wf :: "Kernel \<Rightarrow> Driver \<Rightarrow> bool" where
  "disks_wf K d \<longleftrightarrow>
     (\<forall>e \<in> set (dv_DiskMap d). dme_HookEntry e < length (dv_HookList d)
        \<and> he_DriverObject (dv_HookList d ! dme_HookEntry e) = k_driver K (dme_DeviceObject e)
        \<and> cbt_wf (dme_CbtState e))"

text \<open>What the code relies on: no dispatch table holds the hook before loading, and disks stay
  below 2 PiB.\<close>

definition kernel_ok :: "(nat \<Rightarrow> nat \<Rightarrow> dispatch) \<Rightarrow> Kernel \<Rightarrow> bool" where
  "kernel_ok orig K \<longleftrightarrow> (\<forall>drv mj. orig drv mj \<noteq> HwReadWrite_fn)
     \<and> (\<forall>dev. unat (pr_length (k_partition K dev)) \<le> 2 ^ 51)"

lemma FindOrCreateHookEntry_wf:
  assumes "hooks_wf orig d" and "FindOrCreateHookEntry now drv d = (d', r)"
  shows "hooks_wf orig d'" and "dv_DiskMap d' = dv_DiskMap d"
    and "r = Some i \<Longrightarrow> i < length (dv_HookList d') \<and> he_DriverObject (dv_HookList d' ! i) = drv"
    and "\<exists>ys. map he_DriverObject (dv_HookList d') = map he_DriverObject (dv_HookList d) @ ys"
proof -
  show "hooks_wf orig d'" "dv_DiskMap d' = dv_DiskMap d"
    and "r = Some i \<Longrightarrow> i < length (dv_HookList d') \<and> he_DriverObject (dv_HookList d' ! i) = drv"
    and "\<exists>ys. map he_DriverObject (dv_HookList d') = map he_DriverObject (dv_HookList d) @ ys"
  proof (atomize (full), cases "find_index (\<lambda>e. he_DriverObject e = drv) (dv_HookList d)")
    case (Some j)
    define e where "e = dv_HookList d ! j"
    have j: "j < length (dv_HookList d)" "he_DriverObject e = drv" using find_index_Some [OF Some] by (simp_all add: e_def)
    have d': "d' = d\<lparr> dv_HookList := (dv_HookList d)[j := e\<lparr> he_RefCount := he_RefCount e + 1 \<rparr>] \<rparr>" "r = Some j"
      using assms(2) Some by (simp_all add: FindOrCreateHookEntry_def e_def Let_def)
    have m: "map he_DriverObject (dv_HookList d') = map he_DriverObject (dv_HookList d)"
      unfolding d' using j by (simp add: map_update_same e_def)
    have s: "set (dv_HookList d') \<subseteq> insert (e\<lparr> he_RefCount := he_RefCount e + 1 \<rparr>) (set (dv_HookList d))"
      unfolding d' by (simp add: set_update_subset_insert)
    have "e \<in> set (dv_HookList d)" using j(1) by (simp add: e_def)
    moreover have "he_DriverObject ` set (dv_HookList d') = he_DriverObject ` set (dv_HookList d)"
      using m by (metis list.set_map)
    moreover have "length (dv_HookList d') = length (dv_HookList d)" "dv_major d' = dv_major d" by (simp_all add: d')
    ultimately have "hooks_wf orig d'" using assms(1) m s unfolding hooks_wf_def by auto
    then show "(hooks_wf orig d' \<and> dv_DiskMap d' = dv_DiskMap d) \<and>
      (r = Some i \<longrightarrow> i < length (dv_HookList d') \<and> he_DriverObject (dv_HookList d' ! i) = drv) \<and>
      (\<exists>ys. map he_DriverObject (dv_HookList d') = map he_DriverObject (dv_HookList d) @ ys)"
      using m j d' by auto
  next
    case None
    then have nin: "drv \<notin> he_DriverObject ` set (dv_HookList d)" by (auto simp: find_index_None)
    define e where "e = \<lparr> he_DriverObject = drv, he_OriginalWrite = orig drv IRP_MJ_WRITE, he_HookInstalled = True,
      he_RefCount = 1, he_HookInstallTime = now \<rparr>"
    have o: "dv_major d drv IRP_MJ_WRITE = orig drv IRP_MJ_WRITE"
      using assms(1) nin by (simp add: hooks_wf_def divert_outside)
    consider "MAX_HOOKED_DRIVERS \<le> length (dv_HookList d)" "d' = d" "r = None"
      | "length (dv_HookList d) < MAX_HOOKED_DRIVERS" "r = Some (length (dv_HookList d))"
        "d' = (set_major drv IRP_MJ_WRITE HwReadWrite_fn d)\<lparr> dv_HookList := dv_HookList d @ [e] \<rparr>"
      using assms(2) None o by (auto simp: FindOrCreateHookEntry_def set_major_def Let_def e_def split: if_splits)
    then show "(hooks_wf orig d' \<and> dv_DiskMap d' = dv_DiskMap d) \<and>
      (r = Some i \<longrightarrow> i < length (dv_HookList d') \<and> he_DriverObject (dv_HookList d' ! i) = drv) \<and>
      (\<exists>ys. map he_DriverObject (dv_HookList d') = map he_DriverObject (dv_HookList d) @ ys)"
    proof cases
      case 2
      then have "hooks_wf orig d'"
        using assms(1) nin by (auto simp: hooks_wf_def set_major_def divert_insert e_def)
      with 2 show ?thesis by (auto simp: set_major_def e_def)
    qed (use assms(1) in simp)
  qed
qed

lemma QueryPartitionInfoEx_length: "QueryPartitionInfoEx r = (st, off, len) \<Longrightarrow> len = 0 \<or> len = pr_length r"
  by (auto simp: QueryPartitionInfoEx_def split: if_splits)

lemma disks_wf_grow:
  assumes "disks_wf K d" and "dv_DiskMap d' = dv_DiskMap d"
    and "map he_DriverObject (dv_HookList d') = map he_DriverObject (dv_HookList d) @ ys"
  shows "disks_wf K d'"
proof -
  have "i < length (dv_HookList d') \<and> he_DriverObject (dv_HookList d' ! i) = he_DriverObject (dv_HookList d ! i)"
    if "i < length (dv_HookList d)" for i
  proof -
    have "length (dv_HookList d') = length (dv_HookList d) + length ys" using arg_cong [OF assms(3), of length] by simp
    moreover from this have "map he_DriverObject (dv_HookList d') ! i = map he_DriverObject (dv_HookList d) ! i"
      using that unfolding assms(3) by (simp add: nth_append)
    ultimately show ?thesis using that by simp
  qed
  then show ?thesis using assms(1,2) unfolding disks_wf_def by metis
qed

lemma scan_disk_wf:
  assumes "kernel_ok orig K" and "hooks_wf orig d" and "disks_wf K d"
  shows "hooks_wf orig (scan_disk K n d) \<and> disks_wf K (scan_disk K n d)"
proof (cases "k_device K n")
  case (Some dev)
  obtain d1 r where f: "FindOrCreateHookEntry (k_time K) (k_driver K dev) d = (d1, r)" by (metis surj_pair)
  note F = FindOrCreateHookEntry_wf [OF assms(2) f]
  obtain ys where "map he_DriverObject (dv_HookList d1) = map he_DriverObject (dv_HookList d) @ ys" using F(4) by blast
  then have d1: "disks_wf K d1" using disks_wf_grow [OF assms(3) F(2)] by simp
  show ?thesis
  proof (cases r)
    case r: (Some h)
    obtain st off len where q: "QueryPartitionInfoEx (k_partition K dev) = (st, off, len)" by (metis prod_cases3)
    define plen where "plen = (if NT_SUCCESS st then len else 0)"
    have "unat plen \<le> 2 ^ 51"
      using QueryPartitionInfoEx_length [OF q] assms(1) by (auto simp: plen_def kernel_ok_def)
    then have "cbt_wf (fst (InitCbtState (k_alloc K) plen DISK_CBT_STATE_zero))" by (rule InitCbtState_wf)
    then show ?thesis
      using F(1) F(3) [OF r] d1 Some r f q unfolding plen_def
      by (auto simp: scan_disk_def Let_def hooks_wf_def disks_wf_def)
  qed (use F(1) d1 Some f in \<open>simp add: scan_disk_def\<close>)
qed (use assms in \<open>simp add: scan_disk_def\<close>)

lemma fold_scan_wf:
  assumes "kernel_ok orig K" and "hooks_wf orig d" and "disks_wf K d"
  shows "hooks_wf orig (fold (scan_disk K) ns d) \<and> disks_wf K (fold (scan_disk K) ns d)"
  using assms(2,3)
proof (induction ns arbitrary: d)
  case (Cons n ns)
  with scan_disk_wf [OF assms(1) Cons.prems, of n] show ?case by simp
qed simp

section \<open>The driver at work\<close>

text \<open>A hooked write and a control request, in any order.\<close>

inductive driver_step :: "RtlApi \<Rightarrow> Kernel \<Rightarrow> Driver \<Rightarrow> Driver \<Rightarrow> bool" for A K where
  step_irp: "driver_step A K d (fst (HwReadWrite A K dev irp d))"
| step_ioctl: "driver_step A K d (fst (CbtDispatchDeviceControl A rq d))"

inductive_cases driver_stepE: "driver_step A K d d'"

text \<open>Every operation replaces at most the bitmap state of one entry of the disk table.\<close>

definition set_cbt :: "nat \<Rightarrow> DISK_CBT_STATE \<Rightarrow> Driver \<Rightarrow> Driver" where
  "set_cbt i st d = d\<lparr> dv_DiskMap := (dv_DiskMap d)[i := (dv_DiskMap d ! i)\<lparr> dme_CbtState := st \<rparr>] \<rparr>"

lemma HwReadWrite_state:
  "fst (HwReadWrite A K dev irp d) =
     (if irp_MajorFunction irp \<noteq> IRP_MJ_WRITE then d
      else case find_index (\<lambda>e. dme_DeviceObject e = dev) (dv_DiskMap d) of
          None \<Rightarrow> d
        | Some i \<Rightarrow> set_cbt i (MarkBlockChanged A (irp_ByteOffset irp + dme_PartitionStartingOffset (dv_DiskMap d ! i))
            (irp_Length irp) (dme_CbtState (dv_DiskMap d ! i))) d)"
  by (auto simp: HwReadWrite_def Let_def set_cbt_def split: option.split)

lemma set_cbt_hooks [simp]: "dv_HookList (set_cbt i st d) = dv_HookList d" "dv_major (set_cbt i st d) = dv_major d"
  by (simp_all add: set_cbt_def)

lemma disks_wf_set_cbt:
  assumes "disks_wf K d" and "i < length (dv_DiskMap d)" and "cbt_wf st"
  shows "disks_wf K (set_cbt i st d)"
proof -
  have "set (dv_DiskMap (set_cbt i st d)) \<subseteq> insert ((dv_DiskMap d ! i)\<lparr> dme_CbtState := st \<rparr>) (set (dv_DiskMap d))"
    by (simp add: set_cbt_def set_update_subset_insert)
  moreover have "dv_DiskMap d ! i \<in> set (dv_DiskMap d)" using assms(2) by simp
  ultimately show ?thesis using assms unfolding disks_wf_def by auto
qed

lemma set_cbt_wf:
  assumes "hooks_wf orig d" and "disks_wf K d" and "i < length (dv_DiskMap d)" and "cbt_wf st"
  shows "hooks_wf orig (set_cbt i st d) \<and> disks_wf K (set_cbt i st d)"
  using assms(1) disks_wf_set_cbt [OF assms(2-4)] by (simp add: hooks_wf_def)

lemma HandleIoctlReset_state:
  assumes "HandleIoctlReset A rq d = (d', r)"
  shows "d' = d \<or> (\<exists>i buf. FindDiskMapEntryByNumber (le_word (take 4 (io_input rq))) d = Some i
    \<and> cs_Buffer (dme_CbtState (dv_DiskMap d ! i)) = Some buf
    \<and> d' = set_cbt i ((dme_CbtState (dv_DiskMap d ! i))\<lparr> cs_Buffer :=
       Some (rtl_clear A (cs_SizeOfBitMap (dme_CbtState (dv_DiskMap d ! i))) buf) \<rparr>) d)"
  using assms by (auto simp: HandleIoctlReset_def set_cbt_def Let_def split: if_splits option.splits)

lemma rtl_clear_wf:
  assumes "rtl_ok A" and "cbt_wf st" and "cs_Buffer st = Some buf"
  shows "cbt_wf (st\<lparr> cs_Buffer := Some (rtl_clear A (cs_SizeOfBitMap st) buf) \<rparr>)"
    and "changed_blocks (st\<lparr> cs_Buffer := Some (rtl_clear A (cs_SizeOfBitMap st) buf) \<rparr>) = {}"
proof -
  have "unat (cs_SizeOfBitMap st) \<le> 8 * length buf" "unat (cs_SizeOfBitMap st) = unat (cs_TotalBits st)"
    using assms(2,3) by (simp_all add: cbt_wf_def)
  then have "length (rtl_clear A (cs_SizeOfBitMap st) buf) = length buf"
    "\<forall>i < unat (cs_TotalBits st). \<not> rtl_bit (rtl_clear A (cs_SizeOfBitMap st) buf) i"
    using assms(1) unfolding rtl_ok_def by metis+
  with assms(2,3) show "cbt_wf (st\<lparr> cs_Buffer := Some (rtl_clear A (cs_SizeOfBitMap st) buf) \<rparr>)"
    and "changed_blocks (st\<lparr> cs_Buffer := Some (rtl_clear A (cs_SizeOfBitMap st) buf) \<rparr>) = {}"
    by (auto simp: cbt_wf_def changed_blocks_def)
qed

lemma disks_wf_cbt: "disks_wf K d \<Longrightarrow> i < length (dv_DiskMap d) \<Longrightarrow> cbt_wf (dme_CbtState (dv_DiskMap d ! i))"
  by (simp add: disks_wf_def)

lemma driver_step_wf:
  assumes "rtl_ok A" and "driver_step A K d d'" and "hooks_wf orig d" and "disks_wf K d"
  shows "hooks_wf orig d' \<and> disks_wf K d'"
  using assms(2)
proof cases
  case (step_irp dev irp)
  show ?thesis
  proof (cases "find_index (\<lambda>e. dme_DeviceObject e = dev) (dv_DiskMap d)")
    case (Some i)
    have i: "i < length (dv_DiskMap d)" using find_index_Some [OF Some] by simp
    note wf = set_cbt_wf [OF assms(3,4) i MarkBlockChanged_wf [OF assms(1) disks_wf_cbt [OF assms(4) i]]]
    show ?thesis using wf assms(3,4) Some by (simp add: step_irp HwReadWrite_state)
  qed (use assms(3,4) in \<open>simp add: step_irp HwReadWrite_state\<close>)
next
  case (step_ioctl rq)
  obtain d1 r where reset: "HandleIoctlReset A rq d = (d1, r)" by (metis surj_pair)
  have "hooks_wf orig d1 \<and> disks_wf K d1"
    using HandleIoctlReset_state [OF reset]
  proof (elim disjE exE conjE)
    fix i buf
    assume 2: "FindDiskMapEntryByNumber (le_word (take 4 (io_input rq))) d = Some i"
      "cs_Buffer (dme_CbtState (dv_DiskMap d ! i)) = Some buf"
      "d1 = set_cbt i ((dme_CbtState (dv_DiskMap d ! i))\<lparr> cs_Buffer :=
         Some (rtl_clear A (cs_SizeOfBitMap (dme_CbtState (dv_DiskMap d ! i))) buf) \<rparr>) d"
    have i: "i < length (dv_DiskMap d)" using find_index_Some 2(1) by (auto simp: FindDiskMapEntryByNumber_def)
    show ?thesis unfolding 2(3)
      by (rule set_cbt_wf [OF assms(3,4) i rtl_clear_wf(1) [OF assms(1) disks_wf_cbt [OF assms(4) i] 2(2)]])
  qed (use assms(3,4) in simp)
  then show ?thesis using assms(3,4) reset by (simp add: step_ioctl CbtDispatchDeviceControl_def)
qed

text \<open>The state before the driver is loaded.\<close>

definition unloaded :: "(nat \<Rightarrow> nat \<Rightarrow> dispatch) \<Rightarrow> Driver \<Rightarrow> bool" where
  "unloaded orig d \<longleftrightarrow> dv_HookList d = [] \<and> dv_DiskMap d = [] \<and> dv_major d = orig"

lemma DriverEntry_wf:
  assumes "kernel_ok orig K" and "unloaded orig d0" and "DriverEntry K STATUS_SUCCESS STATUS_SUCCESS d0 = (d, st)"
  shows "hooks_wf orig d \<and> disks_wf K d"
proof -
  have "hooks_wf orig (d0\<lparr> dv_ControlDevice := True, dv_Symlink := True \<rparr>)" "disks_wf K (d0\<lparr> dv_ControlDevice := True, dv_Symlink := True \<rparr>)"
    using assms(2) by (auto simp: unloaded_def hooks_wf_def disks_wf_def divert_def)
  from fold_scan_wf [OF assms(1) this] assms(3) show ?thesis
    by (auto simp: DriverEntry_def BuildDiskAndHookTables_def)
qed

text \<open>The driver as a state machine that starts when loading succeeded.\<close>

definition loaded :: "RtlApi \<Rightarrow> (nat \<Rightarrow> nat \<Rightarrow> dispatch) \<Rightarrow> Kernel \<Rightarrow> Driver \<Rightarrow> bool" where
  "loaded A orig K d \<longleftrightarrow> rtl_ok A \<and> kernel_ok orig K
     \<and> (\<exists>d0 st. unloaded orig d0 \<and> DriverEntry K STATUS_SUCCESS STATUS_SUCCESS d0 = (d, st))"

definition driver_wf :: "RtlApi \<Rightarrow> (nat \<Rightarrow> nat \<Rightarrow> dispatch) \<Rightarrow> Kernel \<Rightarrow> Driver \<Rightarrow> bool" where
  "driver_wf A orig K d \<longleftrightarrow> rtl_ok A \<and> hooks_wf orig d \<and> disks_wf K d"

interpretation drv: state_machine "driver_step A K" "loaded A orig K" "driver_wf A orig K" for A orig K
  by unfold_locales (use DriverEntry_wf driver_step_wf in \<open>unfold loaded_def driver_wf_def, blast+\<close>)

lemma reachable_wf:
  assumes "rtl_ok A" and "kernel_ok orig K" and "unloaded orig d0"
    and "DriverEntry K STATUS_SUCCESS STATUS_SUCCESS d0 = (d, st)" and "(driver_step A K)\<^sup>*\<^sup>* d d'"
  shows "hooks_wf orig d' \<and> disks_wf K d'"
proof -
  have "loaded A orig K d" using assms(1-4) by (auto simp: loaded_def)
  from drv.inv_reachable [OF this assms(5)] show ?thesis by (simp add: driver_wf_def)
qed

section \<open>Forwarding\<close>

lemma HwReadWrite_target:
  assumes "hooks_wf orig d" and "disks_wf K d" and "k_driver K dev \<in> he_DriverObject ` set (dv_HookList d)"
  shows "snd (HwReadWrite A K dev irp d) = orig (k_driver K dev) (irp_MajorFunction irp)"
proof (cases "irp_MajorFunction irp = IRP_MJ_WRITE")
  case True
  have orig: "he_OriginalWrite (dv_HookList d ! j) = orig (he_DriverObject (dv_HookList d ! j)) IRP_MJ_WRITE"
    "he_HookInstalled (dv_HookList d ! j)" if "j < length (dv_HookList d)" for j
    using assms(1) that by (auto simp: hooks_wf_def)
  show ?thesis
  proof (cases "find_index (\<lambda>e. dme_DeviceObject e = dev) (dv_DiskMap d)")
    case (Some i)
    have "i < length (dv_DiskMap d)" "dme_DeviceObject (dv_DiskMap d ! i) = dev" using find_index_Some [OF Some] by simp_all
    then have "dme_HookEntry (dv_DiskMap d ! i) < length (dv_HookList d)"
      "he_DriverObject (dv_HookList d ! dme_HookEntry (dv_DiskMap d ! i)) = k_driver K dev"
      using assms(2) unfolding disks_wf_def by (metis nth_mem)+
    with orig Some True show ?thesis by (simp add: HwReadWrite_def Let_def)
  next
    case None
    obtain j where j: "find_index (\<lambda>e. he_DriverObject e = k_driver K dev) (dv_HookList d) = Some j"
      using assms(3) by (cases "find_index (\<lambda>e. he_DriverObject e = k_driver K dev) (dv_HookList d)") (auto simp: find_index_None)
    with find_index_Some [OF j] orig None True show ?thesis by (simp add: HwReadWrite_def)
  qed
qed (use assms(1) in \<open>simp add: HwReadWrite_def hooks_wf_def divert_def\<close>)

lemma restore_hooks:
  assumes "dv_major d = divert orig (he_DriverObject ` set es)"
    and "\<forall>e \<in> set es. he_HookInstalled e \<and> he_OriginalWrite e = orig (he_DriverObject e) IRP_MJ_WRITE"
    and "distinct (map he_DriverObject es)"
  shows "dv_major (fold restore_hook es d) = orig"
  using assms
proof (induction es arbitrary: d)
  case Nil
  then show ?case by (simp add: divert_def)
next
  case (Cons e es)
  have "he_DriverObject e \<notin> he_DriverObject ` set es" using Cons.prems(3) by simp
  then have "dv_major (restore_hook e d) = divert orig (he_DriverObject ` set es)"
    using Cons.prems(1,2) by (intro ext) (auto simp: restore_hook_def set_major_def divert_def)
  with Cons show ?case by simp
qed


section \<open>Tracking\<close>

lemma nth_set_cbt: "i < length (dv_DiskMap d) \<Longrightarrow> dv_DiskMap (set_cbt j st d) ! i =
    (if i = j then (dv_DiskMap d ! i)\<lparr> dme_CbtState := st \<rparr> else dv_DiskMap d ! i)"
  by (simp add: set_cbt_def)

lemma devices_set_cbt: "map dme_DeviceObject (dv_DiskMap (set_cbt i st d)) = map dme_DeviceObject (dv_DiskMap d)"
  by (cases "i < length (dv_DiskMap d)") (simp_all add: set_cbt_def map_update_same list_update_beyond)

lemma find_device_set_cbt:
  "find_index (\<lambda>e. dme_DeviceObject e = dev) (dv_DiskMap (set_cbt i st d)) = find_index (\<lambda>e. dme_DeviceObject e = dev) (dv_DiskMap d)"
  unfolding find_index_map [of dme_DeviceObject] devices_set_cbt ..

text \<open>The blocks of a tracked device that a write touches; \<open>start\<close> is the partition's offset.\<close>

definition write_touches :: "nat \<Rightarrow> u64 \<Rightarrow> nat \<times> IRP \<Rightarrow> nat set" where
  "write_touches dev start = (\<lambda>(dev', irp). if dev' = dev \<and> irp_MajorFunction irp = IRP_MJ_WRITE
     then touched (unat (irp_ByteOffset irp + start)) (unat (irp_Length irp)) else {})"

definition write_fits :: "nat \<Rightarrow> u64 \<Rightarrow> nat \<times> IRP \<Rightarrow> bool" where
  "write_fits dev start = (\<lambda>(dev', irp). dev' = dev \<longrightarrow>
     0 < irp_Length irp \<and> unat (irp_ByteOffset irp + start) + unat (irp_Length irp) < 2 ^ 64)"

lemma write_effect:
  assumes "rtl_ok A" and "find_index (\<lambda>e. dme_DeviceObject e = dev) (dv_DiskMap d) = Some i"
    and "e = dv_DiskMap d ! i" and "cbt_wf (dme_CbtState e)" and "cs_Buffer (dme_CbtState e) \<noteq> None"
    and "write_fits dev (dme_PartitionStartingOffset e) (dev', irp)"
    and "d' = fst (HwReadWrite A K dev' irp d)"
  shows "find_index (\<lambda>e. dme_DeviceObject e = dev) (dv_DiskMap d') = Some i"
    and "\<exists>st. dv_DiskMap d' ! i = e\<lparr> dme_CbtState := st \<rparr> \<and> cbt_wf st \<and> cs_Buffer st \<noteq> None
       \<and> cs_TotalBits st = cs_TotalBits (dme_CbtState e)
       \<and> changed_blocks st = changed_blocks (dme_CbtState e) \<union>
          {b \<in> write_touches dev (dme_PartitionStartingOffset e) (dev', irp). b < unat (cs_TotalBits (dme_CbtState e))}"
proof -
  show "find_index (\<lambda>e. dme_DeviceObject e = dev) (dv_DiskMap d') = Some i"
    using assms(2,7) by (auto simp: HwReadWrite_state find_device_set_cbt split: option.split)
  have i: "i < length (dv_DiskMap d)" "dme_DeviceObject e = dev" using find_index_Some [OF assms(2)] assms(3) by simp_all
  let ?st = "MarkBlockChanged A (irp_ByteOffset irp + dme_PartitionStartingOffset e) (irp_Length irp) (dme_CbtState e)"
  show "\<exists>st. dv_DiskMap d' ! i = e\<lparr> dme_CbtState := st \<rparr> \<and> cbt_wf st \<and> cs_Buffer st \<noteq> None
       \<and> cs_TotalBits st = cs_TotalBits (dme_CbtState e)
       \<and> changed_blocks st = changed_blocks (dme_CbtState e) \<union>
          {b \<in> write_touches dev (dme_PartitionStartingOffset e) (dev', irp). b < unat (cs_TotalBits (dme_CbtState e))}"
  proof (cases "dev' = dev \<and> irp_MajorFunction irp = IRP_MJ_WRITE")
    case True
    then have "dv_DiskMap d' ! i = e\<lparr> dme_CbtState := ?st \<rparr>"
      using assms(2,3,7) i by (simp add: HwReadWrite_state nth_set_cbt)
    moreover have "cs_Buffer ?st \<noteq> None"
      using assms(5) by (auto simp: MarkBlockChanged_def Let_def)
    moreover have "changed_blocks ?st = changed_blocks (dme_CbtState e) \<union>
        {b \<in> touched (unat (irp_ByteOffset irp + dme_PartitionStartingOffset e)) (unat (irp_Length irp)). b < unat (cs_TotalBits (dme_CbtState e))}"
      using assms(6) True by (intro MarkBlockChanged_marks [OF assms(1,4,5)]) (simp_all add: write_fits_def)
    moreover have "cbt_wf ?st" by (rule MarkBlockChanged_wf [OF assms(1,4)])
    ultimately show ?thesis using True by (intro exI [of _ ?st]) (simp add: write_touches_def)
  next
    case False
    have "dv_DiskMap d' ! i = e"
    proof (cases "find_index (\<lambda>e. dme_DeviceObject e = dev') (dv_DiskMap d)")
      case (Some j)
      have "dme_DeviceObject (dv_DiskMap d ! j) = dev'" using find_index_Some [OF Some] by simp
      then have "irp_MajorFunction irp = IRP_MJ_WRITE \<Longrightarrow> i \<noteq> j" using False i(2) assms(3) by auto
      then show ?thesis using Some assms(3,7) i(1) by (simp add: HwReadWrite_state nth_set_cbt)
    qed (use assms(3,7) in \<open>simp add: HwReadWrite_state\<close>)
    then show ?thesis
      using False assms(4,5) by (intro exI [of _ "dme_CbtState e"]) (auto simp: write_touches_def)
  qed
qed

text \<open>A sequence of hooked requests.\<close>

abbreviation hooked_requests :: "RtlApi \<Rightarrow> Kernel \<Rightarrow> (nat \<times> IRP) list \<Rightarrow> Driver \<Rightarrow> Driver" where
  "hooked_requests A K ws d \<equiv> fold (\<lambda>(dev', irp) d. fst (HwReadWrite A K dev' irp d)) ws d"

lemma writes_effect:
  assumes "rtl_ok A"
  shows "find_index (\<lambda>e. dme_DeviceObject e = dev) (dv_DiskMap d) = Some i \<Longrightarrow> e = dv_DiskMap d ! i \<Longrightarrow>
    cbt_wf (dme_CbtState e) \<Longrightarrow> cs_Buffer (dme_CbtState e) \<noteq> None \<Longrightarrow>
    \<forall>w \<in> set ws. write_fits dev (dme_PartitionStartingOffset e) w \<Longrightarrow>
    \<exists>st. dv_DiskMap (hooked_requests A K ws d) ! i = e\<lparr> dme_CbtState := st \<rparr> \<and> cs_Buffer st \<noteq> None
      \<and> cs_TotalBits st = cs_TotalBits (dme_CbtState e)
      \<and> changed_blocks st = changed_blocks (dme_CbtState e) \<union>
         {b. b < unat (cs_TotalBits (dme_CbtState e)) \<and> (\<exists>w \<in> set ws. b \<in> write_touches dev (dme_PartitionStartingOffset e) w)}"
proof (induction ws arbitrary: d e)
  case Nil
  then show ?case by (intro exI [of _ "dme_CbtState e"]) auto
next
  case (Cons w ws)
  obtain dev' irp where w: "w = (dev', irp)" by (cases w)
  define d1 where "d1 = fst (HwReadWrite A K dev' irp d)"
  have fits: "write_fits dev (dme_PartitionStartingOffset e) (dev', irp)" using Cons.prems(5) w by simp
  note eff = write_effect [OF assms Cons.prems(1-4) fits d1_def]
  obtain st where st: "dv_DiskMap d1 ! i = e\<lparr> dme_CbtState := st \<rparr>" "cbt_wf st" "cs_Buffer st \<noteq> None"
    "cs_TotalBits st = cs_TotalBits (dme_CbtState e)"
    "changed_blocks st = changed_blocks (dme_CbtState e) \<union>
       {b \<in> write_touches dev (dme_PartitionStartingOffset e) (dev', irp). b < unat (cs_TotalBits (dme_CbtState e))}"
    using eff(2) by blast
  from Cons.IH [OF eff(1) refl] st Cons.prems(5) obtain st' where
    st': "dv_DiskMap (hooked_requests A K ws d1) ! i = e\<lparr> dme_CbtState := st' \<rparr>" "cs_Buffer st' \<noteq> None" "cs_TotalBits st' = cs_TotalBits st"
    "changed_blocks st' = changed_blocks st \<union> {b. b < unat (cs_TotalBits st) \<and> (\<exists>w \<in> set ws. b \<in> write_touches dev (dme_PartitionStartingOffset e) w)}"
    by auto
  then show ?case using st(4,5) w by (intro exI [of _ st']) (auto simp: d1_def)
qed

lemma numbers_set_cbt: "FindDiskMapEntryByNumber n (set_cbt i st d) = FindDiskMapEntryByNumber n d"
proof -
  have "map dme_DiskNumber (dv_DiskMap (set_cbt i st d)) = map dme_DiskNumber (dv_DiskMap d)"
    by (cases "i < length (dv_DiskMap d)") (simp_all add: set_cbt_def map_update_same list_update_beyond)
  then show ?thesis by (simp only: FindDiskMapEntryByNumber_def find_index_map [of dme_DiskNumber])
qed

lemma requests_keep_disks:
  assumes "rtl_ok A" and "disks_wf K d"
  shows "disks_wf K (hooked_requests A K ws d) \<and> FindDiskMapEntryByNumber n (hooked_requests A K ws d) = FindDiskMapEntryByNumber n d"
  using assms(2)
proof (induction ws arbitrary: d)
  case (Cons w ws)
  obtain dev' irp where w: "w = (dev', irp)" by (cases w)
  define d1 where "d1 = fst (HwReadWrite A K dev' irp d)"
  have "disks_wf K d1 \<and> FindDiskMapEntryByNumber n d1 = FindDiskMapEntryByNumber n d"
  proof (cases "find_index (\<lambda>e. dme_DeviceObject e = dev') (dv_DiskMap d)")
    case (Some j)
    then have j: "j < length (dv_DiskMap d)" using find_index_Some by blast
    show ?thesis using Some Cons.prems disks_wf_set_cbt [OF Cons.prems j MarkBlockChanged_wf [OF assms(1) disks_wf_cbt [OF Cons.prems j]]]
      by (simp add: d1_def HwReadWrite_state numbers_set_cbt)
  qed (use Cons.prems in \<open>simp add: d1_def HwReadWrite_state\<close>)
  then show ?case using Cons.IH [of d1] w by (simp add: d1_def)
qed simp

section \<open>A concrete kernel\<close>

text \<open>Bitmap routines by the documented layout, one disk of three blocks behind one driver.\<close>

definition mask_byte :: "(nat \<Rightarrow> bool) \<Rightarrow> byte \<Rightarrow> byte" where
  "mask_byte P w = fold (\<lambda>j w. if P j then set_bit j w else w) [0..<8] w"

lemma bit_mask_byte: "j < 8 \<Longrightarrow> bit (mask_byte P w) j = (bit w j \<or> P j)"
proof -
  assume j: "j < 8"
  have f: "bit (fold (\<lambda>j w. if P j then set_bit j w else w) js w) j = (bit w j \<or> j \<in> set js \<and> P j)" for js and w :: byte
  proof (induction js arbitrary: w)
    case (Cons k js)
    have "bit (if P k then set_bit k w else w) j = (bit w j \<or> j = k \<and> P k)" using j by (auto simp: bit_set_bit_iff)
    then show ?case using Cons by auto
  qed simp
  have "j \<in> set [0..<8]" using j by simp
  with f [of "[0..<8]" w] show ?thesis unfolding mask_byte_def by blast
qed

definition demo_rtl :: RtlApi where
  "demo_rtl = \<lparr> rtl_set = (\<lambda>n buf s c. map (\<lambda>k. mask_byte (\<lambda>j. unat s \<le> 8 * k + j \<and> 8 * k + j < unat s + unat c) (buf ! k)) [0..<length buf]),
     rtl_clear = (\<lambda>n buf. replicate (length buf) 0) \<rparr>"

lemma demo_rtl_ok: "rtl_ok demo_rtl"
proof -
  have "rtl_bit (rtl_set demo_rtl n buf s c) i = (rtl_bit buf i \<or> unat s \<le> i \<and> i < unat s + unat c)" if "i < 8 * length buf" for n buf s c i
  proof -
    have "i div 8 < length buf" using that by (simp add: less_mult_imp_div_less mult.commute)
    then show ?thesis by (simp add: demo_rtl_def rtl_bit_def bit_mask_byte)
  qed
  moreover have "\<not> rtl_bit (rtl_clear demo_rtl n buf) i" if "i < 8 * length buf" for n buf i
  proof -
    have "i div 8 < length buf" using that by (simp add: less_mult_imp_div_less mult.commute)
    then show ?thesis by (simp add: demo_rtl_def rtl_bit_def)
  qed
  moreover have "length (rtl_set demo_rtl n buf s c) = length buf" "length (rtl_clear demo_rtl n buf) = length buf" for n buf s c
    by (simp_all add: demo_rtl_def)
  ultimately show ?thesis unfolding rtl_ok_def by (metis (no_types, lifting) order_less_le_trans)
qed

definition demo_kernel :: Kernel where
  "demo_kernel = \<lparr> k_device = (\<lambda>n. if n = 0 then Some 10 else None), k_driver = (\<lambda>dev. 1),
     k_partition = (\<lambda>dev. \<lparr> pr_passive = True, pr_irp = True, pr_timeout = False, pr_status = STATUS_SUCCESS,
       pr_offset = 0, pr_length = 0x300000 \<rparr>),
     k_alloc = (\<lambda>n. True), k_time = 5 \<rparr>"

definition demo_orig :: "nat \<Rightarrow> nat \<Rightarrow> dispatch" where
  "demo_orig drv mj = Foreign (100 * drv + mj)"

definition demo_unloaded :: Driver where
  "demo_unloaded = \<lparr> dv_ControlDevice = False, dv_Symlink = False, dv_HookList = [], dv_DiskMap = [], dv_major = demo_orig \<rparr>"

definition demo_driver :: Driver where
  "demo_driver = \<lparr> dv_ControlDevice = True, dv_Symlink = True,
     dv_HookList = [\<lparr> he_DriverObject = 1, he_OriginalWrite = demo_orig 1 IRP_MJ_WRITE, he_HookInstalled = True,
       he_RefCount = 1, he_HookInstallTime = 5 \<rparr>],
     dv_DiskMap = [\<lparr> dme_DeviceObject = 10, dme_HookEntry = 0, dme_DiskNumber = 0, dme_PartitionNumber = 0,
       dme_PartitionStartingOffset = 0, dme_PartitionLength = 0x300000, dme_IsPartition0 = True,
       dme_CbtState = \<lparr> cs_SizeOfBitMap = 3, cs_Buffer = Some (replicate 4 0), cs_TotalBits = 3, cs_TotalBytes = 4 \<rparr> \<rparr>],
     dv_major = divert demo_orig {1} \<rparr>"

lemma demo_kernel_ok: "kernel_ok demo_orig demo_kernel"
  by (simp add: kernel_ok_def demo_orig_def demo_kernel_def)

lemma demo_unloaded_ok: "unloaded demo_orig demo_unloaded"
  by (simp add: unloaded_def demo_unloaded_def)

lemma scan_absent: "\<forall>n \<in> set ns. k_device K n = None \<Longrightarrow> fold (scan_disk K) ns d = d"
  by (induction ns arbitrary: d) (simp_all add: scan_disk_def)

lemma demo_loaded: "DriverEntry demo_kernel STATUS_SUCCESS STATUS_SUCCESS demo_unloaded = (demo_driver, STATUS_SUCCESS)"
proof -
  have ns: "[0..<MAX_DISKS] = 0 # [1..<32]" by (simp add: MAX_DISKS_def upt_conv_Cons del: upt_rec_numeral)
  have dv: "demo_orig(1 := (demo_orig 1)(IRP_MJ_WRITE := HwReadWrite_fn)) = divert demo_orig {1}"
    by (intro ext) (simp add: divert_def)
  have s: "scan_disk demo_kernel 0 (demo_unloaded\<lparr> dv_ControlDevice := True, dv_Symlink := True \<rparr>) = demo_driver"
    unfolding dv [symmetric] demo_driver_def
    by (simp add: scan_disk_def demo_kernel_def demo_unloaded_def FindOrCreateHookEntry_def
        MAX_HOOKED_DRIVERS_def MAX_DISK_MAP_ENTRIES_def set_major_def QueryPartitionInfoEx_def InitCbtState_def Let_def divert_def)
  have "fold (scan_disk demo_kernel) [1..<32] demo_driver = demo_driver"
    by (rule scan_absent) (simp add: demo_kernel_def)
  then show ?thesis by (simp add: DriverEntry_def BuildDiskAndHookTables_def ns s del: upt_rec_numeral)
qed

lemma demo_driver_wf: "hooks_wf demo_orig demo_driver" "disks_wf demo_kernel demo_driver"
  using DriverEntry_wf [OF demo_kernel_ok demo_unloaded_ok demo_loaded] by simp_all


section \<open>Properties\<close>



text \<open>
  The hook is transparent: in every reachable state each request to a device of a hooked
  driver, whether or not the device is tracked, is passed to the routine that driver had before
  loading, never back to the hook.
\<close>

lemma requests_forwarded:
  assumes "rtl_ok A" and "kernel_ok orig K" and "unloaded orig d0"
    and "DriverEntry K STATUS_SUCCESS STATUS_SUCCESS d0 = (d, st)" and "(driver_step A K)\<^sup>*\<^sup>* d d'"
    and "k_driver K dev \<in> he_DriverObject ` set (dv_HookList d')"
  shows "snd (HwReadWrite A K dev irp d') = orig (k_driver K dev) (irp_MajorFunction irp)
     \<and> snd (HwReadWrite A K dev irp d') \<noteq> HwReadWrite_fn"
  using HwReadWrite_target [of orig d' K dev A irp] reachable_wf [OF assms(1-5)] assms(2,6) by (simp add: kernel_ok_def)

theorem requests_forwarded_witness:
  "snd (HwReadWrite demo_rtl demo_kernel 77 \<lparr> irp_MajorFunction = 4, irp_ByteOffset = 0, irp_Length = 512 \<rparr> demo_driver) = Foreign 104"
  using requests_forwarded [OF demo_rtl_ok demo_kernel_ok demo_unloaded_ok demo_loaded rtranclp.rtrancl_refl, of 77
      "\<lparr> irp_MajorFunction = 4, irp_ByteOffset = 0, irp_Length = 512 \<rparr>"]
  by (simp add: demo_driver_def demo_kernel_def demo_orig_def)



text \<open>
  A write of length zero at offset zero marks the whole disk: the end of the range is
  computed as \<open>offset + length - 1\<close> modulo 2^64, and the test that is commented as refusing
  empty ranges does not see it.
\<close>

lemma empty_write_marks_all:
  assumes "rtl_ok A" and "cbt_wf st" and "cs_Buffer st \<noteq> None"
  shows "changed_blocks (MarkBlockChanged A 0 0 st) = {0..<unat (cs_TotalBits st)}"
  by (rule MarkBlockChanged_zero [OF assms])

theorem empty_write_marks_all_witness:
  "changed_blocks (MarkBlockChanged demo_rtl 0 0 (dme_CbtState (dv_DiskMap demo_driver ! 0))) = {0..<3}"
  using empty_write_marks_all [OF demo_rtl_ok disks_wf_cbt [OF demo_driver_wf(2), of 0]] by (simp add: demo_driver_def)



end
