(* ===== verification/Cbt_Client.thy ===== *)
theory Cbt_Client
  imports Cbt_Driver
begin

text \<open>
  The client's side of the driver interface, \<open>client/CbtClient.{h,cpp}\<close>: connecting (with the
  start of the service), the two-step query, the decoding of the bitmap and the reset.
  \<open>DeviceIoControl\<close> and the service manager are parameters.
\<close>

section \<open>State and environment\<close>

record CbtClient =
  cc_hDevice :: bool
  cc_connected :: bool

definition CbtClient_new :: CbtClient where
  "CbtClient_new = \<lparr> cc_hDevice = False, cc_connected = False \<rparr>"

text \<open>The service manager's answers; a failed call is \<open>None\<close>, except that \<open>se_start\<close> is the error code
  of \<open>StartServiceW\<close> if it fails. \<open>se_polls\<close> are the states seen while waiting.\<close>

record service_env =
  se_scm :: bool
  se_service :: bool
  se_status :: "u32 option"
  se_start :: "u32 option"
  se_polls :: "u32 option list"

definition SERVICE_RUNNING :: u32 where "SERVICE_RUNNING = 4"

definition StartDriverService :: "service_env \<Rightarrow> bool" where
  "StartDriverService e =
     (if \<not> se_scm e then False
      else if \<not> se_service e then False
      else if se_status e = Some SERVICE_RUNNING then True
      else if se_start e \<noteq> None \<and> se_start e \<noteq> Some 1056 then False
      else Some SERVICE_RUNNING \<in> set (take 10 (se_polls e)))"

text \<open>\<open>open1\<close> and \<open>open2\<close> are the error codes of the two calls of \<open>CreateFileW\<close>, \<open>None\<close> for success; 2 is
  \<open>ERROR_FILE_NOT_FOUND\<close>.\<close>

definition Connect_driver :: "u32 option \<Rightarrow> service_env \<Rightarrow> u32 option \<Rightarrow> CbtClient \<Rightarrow> CbtClient \<times> bool" where
  "Connect_driver open1 e open2 c =
     (if cc_connected c then (c, True)
      else
        let opened = (case open1 of None \<Rightarrow> True | Some err \<Rightarrow> err = 2 \<and> StartDriverService e \<and> open2 = None)
        in if opened then (\<lparr> cc_hDevice = True, cc_connected = True \<rparr>, True)
           else (c\<lparr> cc_hDevice := False \<rparr>, False))"

definition Disconnect_driver :: "CbtClient \<Rightarrow> CbtClient" where
  "Disconnect_driver c = \<lparr> cc_hDevice = False, cc_connected = False \<rparr>"

text \<open>\<open>DeviceIoControl\<close>: success, the error code otherwise, and the bytes copied to the output buffer.\<close>

record ioctl_result =
  dr_ok :: bool
  dr_err :: u32
  dr_data :: "byte list"

type_synonym 's transport = "ioctl_request \<Rightarrow> 's \<Rightarrow> 's \<times> ioctl_result"

section \<open>Operations\<close>

text \<open>
  The outcome of \<open>Query\<close>: false, with the value left in \<open>totalBits\<close>; the bitmap and the number of
  bits; or a read past the end of the reply, when the 32-bit buffer size was too small for the
  announced bitmap.
\<close>

datatype query_outcome = QueryFailed u64 | QueryOk "byte list" u64 | QueryOutOfBounds

text \<open>What a zeroed buffer of \<open>n\<close> bytes holds after \<open>d\<close> was copied to it.\<close>

definition filled :: "nat \<Rightarrow> byte list \<Rightarrow> byte list" where
  "filled n d = take n d @ replicate (n - length d) 0"

definition query_request :: "u32 \<Rightarrow> u32 \<Rightarrow> ioctl_request" where
  "query_request devNo outLen = \<lparr> io_code = IOCTL_QUERY_CBT_DATA, io_input = le_bytes 4 devNo, io_outLen = outLen \<rparr>"

definition Query :: "'s transport \<Rightarrow> CbtClient \<Rightarrow> u32 \<Rightarrow> u64 \<Rightarrow> 's \<Rightarrow> 's \<times> query_outcome" where
  "Query D c devNo totalBits0 s =
     (if \<not> cc_connected c \<or> \<not> cc_hDevice c then (s, QueryFailed totalBits0)
      else case D (query_request devNo 16) s of (s1, r1) \<Rightarrow>
        if \<not> dr_ok r1 \<and> dr_err r1 \<noteq> 234 then (s1, QueryFailed 0)
        else
          let meta = filled 16 (dr_data r1);
              totalBits = (le_word (take 8 meta) :: u64);
              totalBytes = (le_word (drop 8 meta) :: u64)
          in if totalBytes = 0 \<or> totalBits = 0 then (s1, QueryFailed 0)
             else
               let requiredSize = (ucast (16 + totalBytes) :: u32) in
               (case D (query_request devNo requiredSize) s1 of (s2, r2) \<Rightarrow>
                  if \<not> dr_ok r2 then (s2, QueryFailed totalBits)
                  else if unat requiredSize < 16 + unat totalBytes then (s2, QueryOutOfBounds)
                  else (s2, QueryOk (segment 16 (unat totalBytes) (filled (unat requiredSize) (dr_data r2))) totalBits)))"

text \<open>The loop of \<open>ParseChangedBlocks\<close>, from index \<open>i\<close>.\<close>

function parse_bits :: "byte list \<Rightarrow> nat \<Rightarrow> nat \<Rightarrow> nat list" where
  "parse_bits bitmap totalBits i =
     (if i < totalBits then
        if length bitmap \<le> i div 8 then []
        else if drop_bit (7 - i mod 8) (bitmap ! (i div 8)) AND 1 = 1 then i # parse_bits bitmap totalBits (i + 1)
        else parse_bits bitmap totalBits (i + 1)
      else [])"
  by pat_completeness auto
termination by (relation "measure (\<lambda>(bitmap, totalBits, i). totalBits - i)") auto

declare parse_bits.simps [simp del]

definition ParseChangedBlocks :: "byte list \<Rightarrow> u64 \<Rightarrow> u64 list" where
  "ParseChangedBlocks bitmap totalBits = map of_nat (parse_bits bitmap (unat totalBits) 0)"

definition Reset_bitmap :: "'s transport \<Rightarrow> CbtClient \<Rightarrow> u32 \<Rightarrow> 's \<Rightarrow> 's \<times> bool" where
  "Reset_bitmap D c devNo s =
     (if \<not> cc_connected c \<or> \<not> cc_hDevice c then (s, False)
      else case D \<lparr> io_code = IOCTL_RESET_CBT_DATA, io_input = le_bytes 4 devNo, io_outLen = 0 \<rparr> s of (s1, r) \<Rightarrow> (s1, dr_ok r))"

section \<open>The two-step query\<close>

text \<open>
  The documented behaviour of \<open>DeviceIoControl\<close> for buffered requests: the driver's dispatch
  routine runs once; for success and for the warning \<open>STATUS_BUFFER_OVERFLOW\<close> (error 234,
  \<open>ERROR_MORE_DATA\<close>) the reply is copied to the caller, as far as the caller's buffer goes.
\<close>

definition io_ok :: "RtlApi \<Rightarrow> Driver transport \<Rightarrow> bool" where
  "io_ok A D \<longleftrightarrow> (\<forall>rq d. case CbtDispatchDeviceControl A rq d of (d', r) \<Rightarrow>
     fst (D rq d) = d'
     \<and> dr_ok (snd (D rq d)) = (ir_status r = STATUS_SUCCESS)
     \<and> (ir_status r = STATUS_BUFFER_OVERFLOW \<longrightarrow> dr_err (snd (D rq d)) = 234)
     \<and> (ir_status r = STATUS_SUCCESS \<or> ir_status r = STATUS_BUFFER_OVERFLOW \<longrightarrow>
          dr_data (snd (D rq d)) = take (min (unat (io_outLen rq)) (unat (ir_bytesReturned r))) (ir_data r)))"

lemma query_header_decode:
  "le_word (take 8 (query_header b n)) = b" "le_word (drop 8 (query_header b n)) = (ucast n :: u64)"
  "length (query_header b n) = 16"
  by (simp_all add: query_header_def)

text \<open>What the driver answers to the two requests.\<close>

lemma query_replies:
  assumes "io_ok A D" and "disks_wf K d" and "FindDiskMapEntryByNumber devNo d = Some i"
    and "st = dme_CbtState (dv_DiskMap d ! i)" and "cs_Buffer st = Some buf" and "n = (ucast (cs_TotalBytes st) :: u32)"
  shows "\<exists>r. D (query_request devNo 16) d = (d, r) \<and> \<not> dr_ok r \<and> dr_err r = 234 \<and> dr_data r = query_header (cs_TotalBits st) n"
    and "\<exists>r. D (query_request devNo (16 + n)) d = (d, r) \<and> dr_ok r \<and> dr_data r = query_header (cs_TotalBits st) n @ buf"
    and "length buf = unat n" "0 < unat n" "unat n \<le> 2 ^ 29" "0 < unat (cs_TotalBits st)"
proof -
  have i: "i < length (dv_DiskMap d)" using find_index_Some assms(3) by (auto simp: FindDiskMapEntryByNumber_def)
  have wf: "cbt_wf st" using disks_wf_cbt [OF assms(2) i] assms(4) by simp
  then have b: "length buf = unat (cs_TotalBytes st)" "unat (cs_TotalBytes st) \<le> 2 ^ 29" "0 < unat (cs_TotalBits st)"
    "unat (cs_TotalBits st) \<le> 8 * length buf" using assms(5) by (simp_all add: cbt_wf_def)
  have n: "unat n = unat (cs_TotalBytes st)" using b(2) assms(6) by (simp add: unsigned_ucast_eq take_bit_eq_mod)
  show "length buf = unat n" "0 < unat n" "unat n \<le> 2 ^ 29" "0 < unat (cs_TotalBits st)" using b n by simp_all
  have r16: "unat (16 + n) = 16 + unat n" using b(2) n by (simp add: unat_word_ariths)
  have t0: "cs_TotalBits st \<noteq> 0" using b(3) by auto
  have h: "HandleIoctlQuery (query_request devNo m) d =
     (if m < 16 + n then if 16 \<le> m
        then \<lparr> ir_status = STATUS_BUFFER_OVERFLOW, ir_data = query_header (cs_TotalBits st) n, ir_bytesReturned = 16 \<rparr>
        else \<lparr> ir_status = STATUS_BUFFER_OVERFLOW, ir_data = [], ir_bytesReturned = 16 + n \<rparr>
      else \<lparr> ir_status = STATUS_SUCCESS, ir_data = query_header (cs_TotalBits st) n @ buf, ir_bytesReturned = 16 + n \<rparr>)" for m
    using assms(3-6) t0 b(1) n by (simp add: HandleIoctlQuery_def query_request_def Let_def)
  have c: "CbtDispatchDeviceControl A (query_request devNo m) d = (d, HandleIoctlQuery (query_request devNo m) d)" for m
    by (simp add: CbtDispatchDeviceControl_def query_request_def)
  have o: "io_outLen (query_request devNo m) = m" for m by (simp add: query_request_def)
  have lt: "(16 :: u32) < 16 + n" using r16 b n by (simp add: word_less_nat_alt)
  have D: "case (d, HandleIoctlQuery (query_request devNo m) d) of (d', r) \<Rightarrow>
     fst (D (query_request devNo m) d) = d' \<and> dr_ok (snd (D (query_request devNo m) d)) = (ir_status r = STATUS_SUCCESS)
     \<and> (ir_status r = STATUS_BUFFER_OVERFLOW \<longrightarrow> dr_err (snd (D (query_request devNo m) d)) = 234)
     \<and> (ir_status r = STATUS_SUCCESS \<or> ir_status r = STATUS_BUFFER_OVERFLOW \<longrightarrow>
          dr_data (snd (D (query_request devNo m) d)) = take (min (unat m) (unat (ir_bytesReturned r))) (ir_data r))" for m
    using spec [OF spec [OF assms(1) [unfolded io_ok_def], of "query_request devNo m"], of d] by (simp only: c o)
  show "\<exists>r. D (query_request devNo 16) d = (d, r) \<and> \<not> dr_ok r \<and> dr_err r = 234 \<and> dr_data r = query_header (cs_TotalBits st) n"
    using D [of 16] lt h [of 16] by (intro exI [of _ "snd (D (query_request devNo 16) d)"]) (simp add: prod_eq_iff query_header_decode)
  show "\<exists>r. D (query_request devNo (16 + n)) d = (d, r) \<and> dr_ok r \<and> dr_data r = query_header (cs_TotalBits st) n @ buf"
    using D [of "16 + n"] h [of "16 + n"] r16 b(1) n
    by (intro exI [of _ "snd (D (query_request devNo (16 + n)) d)"]) (simp add: prod_eq_iff query_header_decode)
qed


lemma Query_reads_bitmap:
  assumes "io_ok A D" and "disks_wf K d" and "FindDiskMapEntryByNumber devNo d = Some i"
    and "cs_Buffer (dme_CbtState (dv_DiskMap d ! i)) = Some buf" and "cc_connected c" and "cc_hDevice c"
  shows "Query D c devNo t0 d = (d, QueryOk buf (cs_TotalBits (dme_CbtState (dv_DiskMap d ! i))))"
proof -
  define st where "st = dme_CbtState (dv_DiskMap d ! i)"
  define n where "n = (ucast (cs_TotalBytes st) :: u32)"
  have buf: "cs_Buffer st = Some buf" using assms(4) by (simp add: st_def)
  note q = query_replies [OF assms(1-3) st_def buf n_def]
  obtain r1 where r1: "D (query_request devNo 16) d = (d, r1)" "\<not> dr_ok r1" "dr_err r1 = 234"
    "dr_data r1 = query_header (cs_TotalBits st) n" using q(1) by auto
  obtain r2 where r2: "D (query_request devNo (16 + n)) d = (d, r2)" "dr_ok r2"
    "dr_data r2 = query_header (cs_TotalBits st) n @ buf" using q(2) by auto
  have m: "filled 16 (dr_data r1) = query_header (cs_TotalBits st) n" using r1(4) by (simp add: filled_def query_header_decode)
  have n16: "unat (16 + n) = 16 + unat n" using q(5) by (simp add: unat_word_ariths)
  have u: "(ucast (16 + (ucast n :: u64)) :: u32) = 16 + n"
    by (rule word_unat_eq_iff [THEN iffD2]) (use q(5) n16 in \<open>simp add: unsigned_ucast_eq take_bit_eq_mod unat_word_ariths\<close>)
  have nz: "(ucast n :: u64) \<noteq> 0" "cs_TotalBits st \<noteq> 0" using q(4,6) by (auto simp: word_unat_eq_iff)
  have f: "segment 16 (unat n) (filled (16 + unat n) (dr_data r2)) = buf"
    using r2(3) q(3) by (simp add: filled_def segment_def query_header_decode)
  show ?thesis
    using r1 r2 m u nz n16 f assms(5,6) by (simp add: Query_def Let_def query_header_decode flip: st_def)
qed

section \<open>Decoding\<close>

text \<open>The index whose bit the decoder reads for \<open>i\<close>: the bits of a byte in reverse.\<close>

definition mirror :: "nat \<Rightarrow> nat" where
  "mirror i = 8 * (i div 8) + (7 - i mod 8)"

lemma mirror_parts: "mirror i div 8 = i div 8" "mirror i mod 8 = 7 - i mod 8"
proof -
  have "mirror i mod 8 = (7 - i mod 8) mod 8" unfolding mirror_def by (rule mod_mult_self4)
  then show "mirror i mod 8 = 7 - i mod 8" by simp
  have "mirror i div 8 = i div 8 + (7 - i mod 8) div 8" unfolding mirror_def by (rule div_mult_self4) simp
  then show "mirror i div 8 = i div 8" by simp
qed

lemma mirror_mirror: "mirror (mirror i) = i"
proof -
  have "i mod 8 \<le> 7" by (simp add: less_Suc_eq_le [symmetric])
  then show ?thesis unfolding mirror_def [of "mirror i"] mirror_parts by simp
qed

lemma and_one_bit: "drop_bit n (w :: byte) AND 1 = 1 \<longleftrightarrow> bit w n"
  by (simp add: and_one_eq odd_iff_mod_2_eq_one [symmetric] bit_iff_odd_drop_bit mod_2_eq_odd)

lemma set_parse_bits:
  "set (parse_bits buf n i) = {j. i \<le> j \<and> j < n \<and> j div 8 < length buf \<and> rtl_bit buf (mirror j)}"
proof (induction buf n i rule: parse_bits.induct)
  case (1 buf n i)
  show ?case
  proof (cases "i < n \<and> i div 8 < length buf")
    case True
    have "rtl_bit buf (mirror i) = (drop_bit (7 - i mod 8) (buf ! (i div 8)) AND 1 = 1)"
      by (simp add: rtl_bit_def mirror_parts and_one_bit)
    then have "set (parse_bits buf n i) = (if rtl_bit buf (mirror i) then {i} else {}) \<union> set (parse_bits buf n (i + 1))"
      using True by (subst parse_bits.simps) simp
    moreover have "set (parse_bits buf n (i + 1)) = {j. i + 1 \<le> j \<and> j < n \<and> j div 8 < length buf \<and> rtl_bit buf (mirror j)}"
      using 1 True by (cases "drop_bit (7 - i mod 8) (buf ! (i div 8)) AND 1 = 1") simp_all
    moreover have "i \<le> j \<longleftrightarrow> j = i \<or> i + 1 \<le> j" for j by auto
    ultimately show ?thesis using True by auto
  next
    case False
    have "i div 8 \<le> j div 8" if "i \<le> j" for j using that by (rule div_le_mono)
    then have "\<not> (i \<le> j \<and> j < n \<and> j div 8 < length buf)" for j using False by (metis le_less_trans)
    then have "{j. i \<le> j \<and> j < n \<and> j div 8 < length buf \<and> rtl_bit buf (mirror j)} = {}" by blast
    moreover have "parse_bits buf n i = []" using False by (subst parse_bits.simps) (auto simp: not_less)
    ultimately show ?thesis by simp
  qed
qed


section \<open>Properties\<close>

text \<open>
  The two-step query works: on a connected client it returns exactly the driver's bitmap of
  the disk and its number of bits, whatever \<open>totalBits\<close> held, and changes nothing in the driver.
\<close>

lemma query_returns_bitmap:
  assumes "io_ok A D" and "disks_wf K d" and "FindDiskMapEntryByNumber devNo d = Some i"
    and "cs_Buffer (dme_CbtState (dv_DiskMap d ! i)) = Some buf" and "cc_connected c" and "cc_hDevice c"
  shows "Query D c devNo t0 d = (d, QueryOk buf (cs_TotalBits (dme_CbtState (dv_DiskMap d ! i))))"
  by (rule Query_reads_bitmap [OF assms])

text \<open>The concrete kernel's \<open>DeviceIoControl\<close>.\<close>

definition demo_io :: "Driver transport" where
  "demo_io rq d = (case CbtDispatchDeviceControl demo_rtl rq d of (d', r) \<Rightarrow>
     (d', \<lparr> dr_ok = (ir_status r = STATUS_SUCCESS), dr_err = (if ir_status r = STATUS_BUFFER_OVERFLOW then 234 else 87),
            dr_data = take (min (unat (io_outLen rq)) (unat (ir_bytesReturned r))) (ir_data r) \<rparr>))"

lemma demo_io_ok: "io_ok demo_rtl demo_io"
  by (auto simp: io_ok_def demo_io_def split: prod.split)

definition demo_written :: Driver where
  "demo_written = fst (HwReadWrite demo_rtl demo_kernel 10 \<lparr> irp_MajorFunction = 4, irp_ByteOffset = 0x200, irp_Length = 512 \<rparr> demo_driver)"

lemma demo_written_wf: "disks_wf demo_kernel demo_written"
  using driver_step_wf [OF demo_rtl_ok driver_step.step_irp demo_driver_wf] by (simp add: demo_written_def)

lemma demo_written_entry:
  "FindDiskMapEntryByNumber 0 demo_written = Some 0" "cs_TotalBits (dme_CbtState (dv_DiskMap demo_written ! 0)) = 3"
  "cs_Buffer (dme_CbtState (dv_DiskMap demo_written ! 0)) = Some [1, 0, 0, 0]"
proof -
  have m: "rtl_set demo_rtl 3 (replicate 4 0) 0 1 = [1, 0, 0, 0]" by code_simp
  have d: "demo_written = set_cbt 0 (MarkBlockChanged demo_rtl 0x200 512 (dme_CbtState (dv_DiskMap demo_driver ! 0))) demo_driver"
    by (simp add: demo_written_def HwReadWrite_state demo_driver_def)
  show "FindDiskMapEntryByNumber 0 demo_written = Some 0" "cs_TotalBits (dme_CbtState (dv_DiskMap demo_written ! 0)) = 3"
    by (simp_all add: d FindDiskMapEntryByNumber_def set_cbt_def demo_driver_def)
  show "cs_Buffer (dme_CbtState (dv_DiskMap demo_written ! 0)) = Some [1, 0, 0, 0]"
    using m by (simp add: d set_cbt_def demo_driver_def MarkBlockChanged_def Let_def)
qed

theorem query_returns_bitmap_witness:
  "Query demo_io \<lparr> cc_hDevice = True, cc_connected = True \<rparr> 0 0 demo_written = (demo_written, QueryOk [1, 0, 0, 0] 3)"
  using query_returns_bitmap [OF demo_io_ok demo_written_wf demo_written_entry(1,3), of "\<lparr> cc_hDevice = True, cc_connected = True \<rparr>" 0]
    demo_written_entry(2) by simp

text \<open>
  The list of changed blocks is the mirror image of the bitmap: the client reads the bits of
  each byte from the most significant one, the kernel's bitmap routines number them from the
  least significant one. Block \<open>i\<close> is reported exactly when the driver has marked
  \<open>mirror i = 8 * (i div 8) + (7 - i mod 8)\<close>; a marked block whose mirror image is past the end of
  the disk is not reported at all.
\<close>

lemma changed_blocks_mirrored:
  assumes "io_ok A D" and "disks_wf K d" and "FindDiskMapEntryByNumber devNo d = Some i"
    and "st = dme_CbtState (dv_DiskMap d ! i)"
    and "cs_Buffer st = Some buf" and "cc_connected c" and "cc_hDevice c"
  shows "\<exists>bitmap n. Query D c devNo t0 d = (d, QueryOk bitmap n)
     \<and> (\<forall>b < unat n. of_nat b \<in> set (ParseChangedBlocks bitmap n) \<longleftrightarrow> rtl_bit buf (mirror b))
     \<and> (\<forall>b < unat n. mirror b < unat n \<longrightarrow> (of_nat b \<in> set (ParseChangedBlocks bitmap n) \<longleftrightarrow> mirror b \<in> changed_blocks st))"
proof -
  define n where "n = cs_TotalBits st"
  have i: "i < length (dv_DiskMap d)" using find_index_Some assms(3) by (auto simp: FindDiskMapEntryByNumber_def)
  have wf: "cbt_wf st" using disks_wf_cbt [OF assms(2) i] assms(4) by simp
  then have len: "unat n \<le> 8 * length buf" using assms(5) by (simp add: cbt_wf_def n_def)
  have q: "Query D c devNo t0 d = (d, QueryOk buf n)"
    using Query_reads_bitmap [OF assms(1-3) _ assms(6,7)] assms(4,5) by (simp add: n_def)
  have p: "of_nat b \<in> set (ParseChangedBlocks buf n) \<longleftrightarrow> rtl_bit buf (mirror b)" if b: "b < unat n" for b
  proof -
    have "inj_on (of_nat :: nat \<Rightarrow> u64) {..<unat n}"
      by (rule inj_onI) (use unat_u64_bound [of n] in \<open>simp add: word_unat_eq_iff unat_of_nat\<close>)
    moreover have "set (parse_bits buf (unat n) 0) \<subseteq> {..<unat n}" by (auto simp: set_parse_bits)
    ultimately have "of_nat b \<in> set (ParseChangedBlocks buf n) \<longleftrightarrow> b \<in> set (parse_bits buf (unat n) 0)"
      using b by (simp add: ParseChangedBlocks_def inj_on_image_mem_iff)
    moreover have "b div 8 < length buf" using b len by (simp add: less_mult_imp_div_less mult.commute)
    ultimately show ?thesis using b by (simp add: set_parse_bits)
  qed
  moreover have "mirror b \<in> changed_blocks st \<longleftrightarrow> rtl_bit buf (mirror b)" if "mirror b < unat n" for b
    using that assms(5) by (simp add: changed_blocks_def n_def)
  ultimately show ?thesis using q by (intro exI [of _ buf] exI [of _ n]) simp
qed

theorem changed_blocks_mirrored_witness:
  "changed_blocks (dme_CbtState (dv_DiskMap demo_written ! 0)) = {0}
   \<and> (\<exists>bitmap n. Query demo_io \<lparr> cc_hDevice = True, cc_connected = True \<rparr> 0 0 demo_written = (demo_written, QueryOk bitmap n)
       \<and> 0 \<notin> set (ParseChangedBlocks bitmap n))"
proof -
  let ?c = "\<lparr> cc_hDevice = True, cc_connected = True \<rparr>"
  have c: "cc_connected ?c" "cc_hDevice ?c" by simp_all
  have lt3: "i < 3 \<longleftrightarrow> i = 0 \<or> i = 1 \<or> i = (2 :: nat)" for i by auto
  have ch: "changed_blocks (dme_CbtState (dv_DiskMap demo_written ! 0)) = {0}"
    using demo_written_entry(2,3) by (auto simp: changed_blocks_def rtl_bit_def lt3 bit_1_iff)
  obtain bitmap n where q: "Query demo_io ?c 0 0 demo_written = (demo_written, QueryOk bitmap n)"
    "\<forall>b < unat n. of_nat b \<in> set (ParseChangedBlocks bitmap n) \<longleftrightarrow> rtl_bit [1, 0, 0, 0] (mirror b)"
    using changed_blocks_mirrored [OF demo_io_ok demo_written_wf demo_written_entry(1) refl demo_written_entry(3) c, of 0] by blast
  have "0 < unat n"
    using Query_reads_bitmap [OF demo_io_ok demo_written_wf demo_written_entry(1,3), of ?c 0] demo_written_entry(2) q(1) by simp
  moreover have "\<not> rtl_bit [1, 0, 0, 0] (mirror 0)" by (simp add: rtl_bit_def mirror_def bit_1_iff)
  ultimately have "0 \<notin> set (ParseChangedBlocks bitmap n)" using spec [OF q(2), of 0] by simp
  with q(1) ch show ?thesis by blast
qed


text \<open>A disk of nine blocks: a write to block 1 is reported as block 6.\<close>

definition demo_wide :: Driver where
  "demo_wide = set_cbt 0 \<lparr> cs_SizeOfBitMap = 9, cs_Buffer = Some (replicate 4 0), cs_TotalBits = 9, cs_TotalBytes = 4 \<rparr> demo_driver"


end
