(* ===== verification/Backup_Engine.thy ===== *)
theory Backup_Engine
  imports Pipeline_Window Volume_Mapper Vss_Manager Cbt_Client Network_Client
begin

text \<open>
  The backup engine, \<open>client/BackupEngine.{h,cpp}\<close> apart from its pipeline (see \<open>Pipeline_Window\<close>):
  the synchronous transfer of an incremental backup, the full and the incremental backup of a
  disk and the run over several disks. The components are the models of the other theories; the
  services of Windows below them are parameters.
\<close>

section \<open>Configuration, statistics, environment\<close>

record BackupConfig =
  cf_ServerIp :: string
  cf_Port :: u16
  cf_DryRun :: bool
  cf_UseCbt :: bool
  cf_RetryCount :: int
  cf_TimeoutSec :: int
  cf_StateDir :: wstring
  cf_PipelineWindowSize :: int

definition BackupConfig_new :: BackupConfig where
  "BackupConfig_new = \<lparr> cf_ServerIp = [], cf_Port = 0, cf_DryRun = False, cf_UseCbt = False, cf_RetryCount = 3, cf_TimeoutSec = 30,
     cf_StateDir = wlit (CHR ''.'' # CHR 0x5C # ''backup_states'' @ [CHR 0x5C]), cf_PipelineWindowSize = 6 \<rparr>"

text \<open>Counters of blocks are natural numbers, as in the pipeline.\<close>

record BackupStats =
  st_DevNo :: int
  st_TotalBlocks :: u64
  st_ChangedBlocks :: u64
  st_SentBlocks :: nat
  st_AckedBlocks :: nat
  st_FailedBlocks :: nat
  st_SkippedBlocks :: nat
  st_TotalBytes :: u64
  st_CompressedBytes :: nat
  st_VssUsed :: bool

definition BackupStats_new :: BackupStats where
  "BackupStats_new = \<lparr> st_DevNo = 0, st_TotalBlocks = 0, st_ChangedBlocks = 0, st_SentBlocks = 0, st_AckedBlocks = 0, st_FailedBlocks = 0,
     st_SkippedBlocks = 0, st_TotalBytes = 0, st_CompressedBytes = 0, st_VssUsed = False \<rparr>"

text \<open>
  What the services answer while one disk is backed up: the disk, the volumes, the
  snapshot service, the data sources that can be opened, hashing and compression, the
  connection, the clock and the file system (each save by its number).
\<close>

record backup_env =
  ev_open :: bool
  ev_disk :: disk_env
  ev_volumes :: volume_env
  ev_vss :: vss_env
  ev_source :: "wstring \<Rightarrow> (u64 \<Rightarrow> u32 \<Rightarrow> byte list option) option"
  ev_provider :: bool
  ev_bcrypt :: "byte list \<Rightarrow> byte list option"
  ev_createCompressor :: bool
  ev_win :: win_compress
  ev_connect :: connect_env
  ev_now :: FILETIME
  ev_save :: "nat \<Rightarrow> bool \<times> bool"
  ev_lastSave :: "bool \<times> bool"
  ev_destroySave :: "bool \<times> bool"
  ev_heap :: "byte list"

definition PhysicalDrive :: "int \<Rightarrow> wstring" where
  "PhysicalDrive devNo = wlit ([CHR 0x5C, CHR 0x5C, CHR ''.'', CHR 0x5C] @ ''PhysicalDrive'')
     @ (if devNo < 0 then wlit ''-'' else []) @ dec_digits (nat \<bar>devNo\<bar>)"

section \<open>The synchronous transfer\<close>

text \<open>\<open>SimulatedAck\<close> answers at once.\<close>

definition SimulatedAck :: "u64 \<Rightarrow> BlockStateManager \<Rightarrow> BlockStateManager \<times> bool" where
  "SimulatedAck blockIndex m = (fst (SetBlockAck blockIndex AckAcknowledged m), True)"

definition transfer_size :: "u64 \<Rightarrow> BlockState \<Rightarrow> u32" where
  "transfer_size totalBlocks b =
     (if bs_BlockIndex b = totalBlocks - 1 then
        let remain = totalBlocks * BLOCK_SIZE - bs_Offset b in if remain < BLOCK_SIZE then ucast remain else BLOCK_SIZE
      else BLOCK_SIZE)"

text \<open>The zeroed buffer after the attempt to read, and whether it was filled.\<close>

definition read_buffer :: "(u64 \<Rightarrow> u32 \<Rightarrow> byte list option) option \<Rightarrow> u64 \<Rightarrow> u32 \<Rightarrow> byte list \<times> bool" where
  "read_buffer src offset n =
     (case src of
        None \<Rightarrow> (replicate (unat n) 0, False)
      | Some dev \<Rightarrow>
          (case dev offset n of
             None \<Rightarrow> (replicate (unat n) 0, False)
           | Some bytes \<Rightarrow> (take (unat n) bytes @ replicate (unat n - length bytes) 0, length bytes = unat n)))"

text \<open>The attempts for one block.\<close>

fun send_retry ::
  "bool \<Rightarrow> (NetworkClient \<Rightarrow> NetworkClient \<times> bool) \<Rightarrow> u64 \<Rightarrow> nat \<Rightarrow> NetworkClient \<Rightarrow> BlockStateManager
   \<Rightarrow> NetworkClient \<times> BlockStateManager \<times> bool" where
  "send_retry dry send idx 0 c m = (c, m, False)"
| "send_retry dry send idx (Suc n) c m =
     (let (c1, m1, acked) =
        (if dry then (case SimulatedAck idx m of (m1, ok) \<Rightarrow> (c, m1, ok))
         else (case send c of (c1, ok) \<Rightarrow> (c1, m, ok)))
      in if acked then (c1, fst (SetBlockAck idx AckAcknowledged m1), True)
         else send_retry dry send idx n c1 (fst (SetBlockAck idx AckFailed m1)))"

record Transfer =
  tr_client :: NetworkClient
  tr_state :: BlockStateManager
  tr_files :: file_system
  tr_sent :: nat
  tr_acked :: nat
  tr_compressed :: nat

text \<open>What stays the same during a transfer.\<close>

record transfer_job =
  tj_dry :: bool
  tj_retry :: int
  tj_devNo :: int
  tj_version :: u32
  tj_total :: u64
  tj_source :: "(u64 \<Rightarrow> u32 \<Rightarrow> byte list option) option"
  tj_win :: win_compress
  tj_compressor :: DataCompressor
  tj_save :: "nat \<Rightarrow> bool \<times> bool"
  tj_heap :: "byte list"

definition transfer_block :: "transfer_job \<Rightarrow> BlockState \<Rightarrow> Transfer \<Rightarrow> Transfer" where
  "transfer_block j b t =
     (let blockSize = transfer_size (tj_total j) b in
      case read_buffer (tj_source j) (bs_Offset b) blockSize of (blockData, readOk) \<Rightarrow>
        if \<not> readOk \<and> \<not> tj_dry j then t
        else case Compress (tj_win j) (tj_compressor j) blockData of
            None \<Rightarrow> t
          | Some compressed \<Rightarrow>
              (case send_retry (tj_dry j)
                      (SendBlock (word_of_int (tj_devNo j)) (bs_BlockIndex b) blockSize compressed (bs_Hash b) (tj_version j))
                      (bs_BlockIndex b) (nat (tj_retry j + 1)) (tr_client t) (tr_state t) of
                 (c, m, ok) \<Rightarrow>
                   let n = tr_sent t + (if ok then 1 else 0);
                       t1 = t\<lparr> tr_client := c, tr_state := m, tr_sent := n, tr_acked := tr_acked t + (if ok then 1 else 0),
                               tr_compressed := tr_compressed t + length compressed \<rparr>
                   in if n mod 100 = 0 \<and> 0 < n
                      then (case Save (fst (tj_save j n)) (snd (tj_save j n)) (tj_heap j) m (tr_files t) of
                              (m1, fs, ok1) \<Rightarrow> t1\<lparr> tr_state := m1, tr_files := fs \<rparr>)
                      else t1))"

definition TransferBlocks :: "transfer_job \<Rightarrow> NetworkClient \<Rightarrow> BlockStateManager \<Rightarrow> file_system \<Rightarrow> Transfer" where
  "TransferBlocks j c m fs = fold (transfer_block j) (GetPendingBlocks m)
     \<lparr> tr_client = c, tr_state = m, tr_files = fs, tr_sent = 0, tr_acked = 0, tr_compressed = 0 \<rparr>"

definition CloseConnection :: "int \<Rightarrow> NetworkClient \<Rightarrow> NetworkClient" where
  "CloseConnection devNo c =
     (if nc_connected c then Disconnect (fst (SendBye (word_of_int devNo) c)) else c)"

section \<open>Snapshots and data sources\<close>

definition is_filesystem :: "PartitionContent \<Rightarrow> bool" where
  "is_filesystem content \<longleftrightarrow> content \<in> {FilesystemNTFS, FilesystemFAT32, FilesystemExFAT, FilesystemReFS}"

definition mapped_partitions :: "backup_env \<Rightarrow> DiskLayout \<Rightarrow> MappedPartition list" where
  "mapped_partitions E layout = vmp_mapped (fst (Map_volumes (ev_volumes E) layout VolumeMapper_new))"

text \<open>The loop that adds volumes, with the numbers of those added and refused.\<close>

fun add_volumes :: "vss_env \<Rightarrow> wstring list \<Rightarrow> VssManager \<Rightarrow> nat \<Rightarrow> nat \<Rightarrow> VssManager \<times> nat \<times> nat" where
  "add_volumes V [] v fsAdded fsSkipped = (v, fsAdded, fsSkipped)"
| "add_volumes V (g # gs) v fsAdded fsSkipped =
     (case AddVolumeToSnapshotSet V g v of (v1, ok, setId) \<Rightarrow>
        if ok then add_volumes V gs v1 (fsAdded + 1) fsSkipped else add_volumes V gs v1 fsAdded (fsSkipped + 1))"

text \<open>
  The snapshot part shared by the two kinds of backup: \<open>None\<close> where the backup is given up,
  otherwise the manager and whether a snapshot was made.
\<close>

definition prepare_snapshot :: "vss_env \<Rightarrow> MappedPartition list \<Rightarrow> (VssManager \<times> bool) option" where
  "prepare_snapshot V parts =
     (case Initialize_vss V VssManager_new of (v1, ok1) \<Rightarrow>
        if \<not> ok1 then None
        else case StartSnapshotSet V v1 of (v2, ok2) \<Rightarrow>
          if \<not> ok2 then None
          else
            let volumes = map mp_VolumeGuid (filter (\<lambda>mp. is_filesystem (pi_Content (mp_Partition mp))) parts) in
            (case add_volumes V volumes v2 0 0 of (v3, fsAdded, fsSkipped) \<Rightarrow>
               if 0 < fsSkipped \<and> fsAdded = 0 then None
               else if 0 < fsAdded then (case DoSnapshotSet V v3 of (v4, ok4) \<Rightarrow> if ok4 then Some (v4, True) else None)
               else Some (v3, False)))"

fun first_snapshot :: "VssManager \<Rightarrow> MappedPartition list \<Rightarrow> wstring option" where
  "first_snapshot v [] = None"
| "first_snapshot v (mp # mps) =
     (case GetSnapshotDevicePath (mp_VolumeGuid mp) v of
        Some path \<Rightarrow> if path \<noteq> [] then Some path else first_snapshot v mps
      | None \<Rightarrow> first_snapshot v mps)"

definition data_source :: "VssManager \<Rightarrow> int \<Rightarrow> MappedPartition list \<Rightarrow> wstring" where
  "data_source v devNo parts = (case first_snapshot v parts of Some path \<Rightarrow> path | None \<Rightarrow> PhysicalDrive devNo)"

section \<open>Backups\<close>

record BackupResult =
  br_ok :: bool
  br_stats :: BackupStats
  br_files :: file_system
  br_client :: NetworkClient
  br_deleted :: "VSS_ID list"

text \<open>\<open>br_deleted\<close> are the snapshot sets the service was asked to delete.\<close>

text \<open>The end of a function that owns the state manager: a last save and its destructor.\<close>

definition save_and_destroy :: "backup_env \<Rightarrow> BlockStateManager \<Rightarrow> file_system \<Rightarrow> file_system" where
  "save_and_destroy E m fs =
     (case Save (fst (ev_lastSave E)) (snd (ev_lastSave E)) (ev_heap E) m fs of
        (m1, fs1, ok) \<Rightarrow> destroy_manager (fst (ev_destroySave E)) (snd (ev_destroySave E)) (ev_heap E) m1 fs1)"

definition only_destroy :: "backup_env \<Rightarrow> BlockStateManager \<Rightarrow> file_system \<Rightarrow> file_system" where
  "only_destroy E m fs = destroy_manager (fst (ev_destroySave E)) (snd (ev_destroySave E)) (ev_heap E) m fs"

text \<open>
  What the pipelined transfer does to the outside: the state table, the files, the client and
  the statistics. The interleaving of its threads is given by \<open>sched\<close>, which maps a job and a
  starting state to the final state of a run and to the client as the run leaves it.
\<close>

type_synonym scheduler = "job \<Rightarrow> int \<Rightarrow> BlockStateManager \<Rightarrow> file_system \<Rightarrow> NetworkClient \<Rightarrow> Pipe \<times> NetworkClient"

definition pipeline_stats :: "Pipe \<Rightarrow> BackupStats \<Rightarrow> BackupStats" where
  "pipeline_stats p st = st\<lparr> st_SentBlocks := pp_sent p, st_AckedBlocks := be_acked (pp_engine p),
     st_FailedBlocks := st_FailedBlocks st + pp_failedStat p, st_SkippedBlocks := pp_skipped p, st_CompressedBytes := pp_compressed p \<rparr>"

definition dry_stats :: "Dry \<Rightarrow> BackupStats \<Rightarrow> BackupStats" where
  "dry_stats d st = st\<lparr> st_SentBlocks := dr_sent d, st_AckedBlocks := dr_acked d,
     st_FailedBlocks := st_FailedBlocks st + dr_failedStat d, st_SkippedBlocks := 0, st_CompressedBytes := 0 \<rparr>"

definition PipelineTransferBlocks ::
  "scheduler \<Rightarrow> BackupConfig \<Rightarrow> job \<Rightarrow> bool \<Rightarrow> BlockStateManager \<Rightarrow> file_system \<Rightarrow> NetworkClient \<Rightarrow> BackupStats
   \<Rightarrow> nat \<times> BlockStateManager \<times> file_system \<times> NetworkClient \<times> BackupStats" where
  "PipelineTransferBlocks sched cfg j opened m fs c st =
     (if \<not> opened then (0, m, fs, c, st)
      else if cf_DryRun cfg
      then (let d = dry_run j m fs in (dr_sent d, dr_state d, dr_files d, c, dry_stats d st))
      else (case sched j (cf_PipelineWindowSize cfg) m fs c of
              (p, c1) \<Rightarrow> (pp_sent p, pp_state p, pp_files p, c1, pipeline_stats p st)))"

definition full_blocks :: "u64 \<Rightarrow> u64" where
  "full_blocks totalSize = (totalSize + BLOCK_SIZE - 1) div BLOCK_SIZE"

definition full_job :: "backup_env \<Rightarrow> VssManager \<Rightarrow> int \<Rightarrow> DiskLayout \<Rightarrow> job" where
  "full_job E v devNo layout =
     \<lparr> jb_total = full_blocks (di_Size (dl_Disk layout)), jb_size = di_Size (dl_Disk layout),
       jb_source = (case ev_source E (data_source v devNo (mapped_partitions E layout)) of None \<Rightarrow> (\<lambda>off n. None) | Some dev \<Rightarrow> dev),
       jb_bcrypt = ev_bcrypt E, jb_hasher = fst (Initialize_hasher (ev_provider E) BlockHasher_new), jb_win = ev_win E,
       jb_compressor = fst (Initialize_compressor (ev_createCompressor E) DataCompressor_new), jb_save = ev_save E, jb_heap = ev_heap E \<rparr>"

text \<open>The state table at the start of a full backup: loaded, with a new version and all blocks pending.\<close>

definition full_table :: "backup_env \<Rightarrow> BackupConfig \<Rightarrow> int \<Rightarrow> DiskLayout \<Rightarrow> file_system \<Rightarrow> BlockStateManager \<times> VersionRecord" where
  "full_table E cfg devNo layout fs =
     (let totalSize = di_Size (dl_Disk layout); totalBlocks = full_blocks totalSize;
          m0 = fst (Initialize (ev_heap E) (cf_StateDir cfg) devNo BlockStateManager_new fs)
      in case CreateVersion (ev_now E) (wlit ''FULL'') (ev_now E) totalBlocks totalSize m0 of
           (m1, ver) \<Rightarrow> (fst (InitFullBlocksEmpty (vr_VersionId ver) totalBlocks m1), ver))"

definition FullBackup ::
  "scheduler \<Rightarrow> backup_env \<Rightarrow> BackupConfig \<Rightarrow> int \<Rightarrow> DiskLayout \<Rightarrow> BackupStats \<Rightarrow> file_system \<Rightarrow> BackupResult" where
  "FullBackup sched E cfg devNo layout st0 fs =
     (let parts = mapped_partitions E layout; st1 = st0\<lparr> st_VssUsed := True \<rparr>; c0 = NetworkClient_new in
      case prepare_snapshot (ev_vss E) parts of
        None \<Rightarrow> \<lparr> br_ok = False, br_stats = st1, br_files = fs, br_client = c0, br_deleted = [] \<rparr>
      | Some (v, used) \<Rightarrow>
          let gone = snd (Cleanup v); st2 = st1\<lparr> st_VssUsed := used \<rparr>; totalSize = di_Size (dl_Disk layout); totalBlocks = full_blocks totalSize in
          (case full_table E cfg devNo layout fs of (m, ver) \<Rightarrow>
             let (c1, connected) = (if cf_DryRun cfg then (c0, True)
                   else Connect (ev_connect E) (cf_ServerIp cfg) (cf_Port cfg) (cf_TimeoutSec cfg) c0) in
             if \<not> connected then \<lparr> br_ok = False, br_stats = st2, br_files = only_destroy E m fs, br_client = c1, br_deleted = gone \<rparr>
             else
               let (c2, hello) = (if cf_DryRun cfg then (c1, True)
                     else SendHello (ucast (vr_VersionId ver)) (word_of_int devNo) totalBlocks totalSize (wlit ''FULL'') c1) in
               if \<not> hello
               then \<lparr> br_ok = False, br_stats = st2, br_files = save_and_destroy E m fs, br_client = Disconnect c2, br_deleted = gone \<rparr>
               else
                 let st3 = st2\<lparr> st_TotalBlocks := totalBlocks, st_ChangedBlocks := totalBlocks, st_TotalBytes := totalSize \<rparr> in
                 (case PipelineTransferBlocks sched cfg (full_job E v devNo layout)
                         (ev_source E (data_source v devNo parts) \<noteq> None) m fs c2 st3 of
                    (sent, m1, fs1, c3, st4) \<Rightarrow>
                      \<lparr> br_ok = True, br_stats = st4\<lparr> st_SentBlocks := sent \<rparr>, br_files = save_and_destroy E m1 fs1,
                        br_client = CloseConnection devNo c3, br_deleted = gone \<rparr>)))"

text \<open>
  The hashes of the changed blocks. The manifest made up for \<open>ComputeBlockHashes\<close> has entries
  of zeros; a failed call leaves fewer hashes than indices, which \<open>UpdateIncrementalBlocks\<close> refuses.
\<close>

definition dummy_manifest :: "u64 \<Rightarrow> u64 \<Rightarrow> HashManifest" where
  "dummy_manifest totalBlocks totalSize =
     \<lparr> hm_BlockSize = BLOCK_SIZE, hm_TotalBlocks = totalBlocks, hm_TotalSize = totalSize,
       hm_Entries = replicate (unat totalBlocks) \<lparr> he_BlockIndex = 0, he_Offset = 0, he_Hash = replicate 32 0 \<rparr>,
       hm_Timestamp = 0, hm_VolumePath = [] \<rparr>"

definition changed_hashes :: "backup_env \<Rightarrow> int \<Rightarrow> u64 \<Rightarrow> u64 list \<Rightarrow> BlockHashEntry list" where
  "changed_hashes E devNo totalBlocks cbtChanged =
     (case ev_source E (PhysicalDrive devNo) of
        None \<Rightarrow> []
      | Some dev \<Rightarrow>
          (case ComputeBlockHashes dev (ev_bcrypt E) (fst (Initialize_hasher (ev_provider E) BlockHasher_new)) True
                  (dummy_manifest totalBlocks (totalBlocks * BLOCK_SIZE)) cbtChanged of
             None \<Rightarrow> []
           | Some hs \<Rightarrow> hs))"

definition incremental_job :: "backup_env \<Rightarrow> BackupConfig \<Rightarrow> VssManager \<Rightarrow> int \<Rightarrow> MappedPartition list \<Rightarrow> u64 \<Rightarrow> u64 \<Rightarrow> transfer_job" where
  "incremental_job E cfg v devNo parts versionId totalBlocks =
     \<lparr> tj_dry = cf_DryRun cfg, tj_retry = cf_RetryCount cfg, tj_devNo = devNo, tj_version = ucast versionId, tj_total = totalBlocks,
       tj_source = ev_source E (data_source v devNo parts), tj_win = ev_win E,
       tj_compressor = fst (Initialize_compressor (ev_createCompressor E) DataCompressor_new), tj_save = ev_save E, tj_heap = ev_heap E \<rparr>"

text \<open>The table with the new version.\<close>

definition incremental_table :: "backup_env \<Rightarrow> BackupConfig \<Rightarrow> int \<Rightarrow> file_system \<Rightarrow> BlockStateManager \<times> VersionRecord" where
  "incremental_table E cfg devNo fs =
     (let m0 = fst (Initialize (ev_heap E) (cf_StateDir cfg) devNo BlockStateManager_new fs); totalBlocks = m_totalBlocks m0
      in CreateVersion (ev_now E) (wlit ''INCREMENTAL'') (ev_now E) totalBlocks (totalBlocks * BLOCK_SIZE) m0)"

text \<open>The connection before the hashes are computed; none is needed for a dry run.\<close>

definition incremental_connect :: "backup_env \<Rightarrow> BackupConfig \<Rightarrow> int \<Rightarrow> VersionRecord \<Rightarrow> u64 \<Rightarrow> NetworkClient \<times> bool" where
  "incremental_connect E cfg devNo ver totalBlocks =
     (if cf_DryRun cfg then (NetworkClient_new, True)
      else case Connect (ev_connect E) (cf_ServerIp cfg) (cf_Port cfg) (cf_TimeoutSec cfg) NetworkClient_new of (c1, connected) \<Rightarrow>
        if \<not> connected then (c1, False)
        else case SendHello (ucast (vr_VersionId ver)) (word_of_int devNo) totalBlocks (totalBlocks * BLOCK_SIZE) (wlit ''INCREMENTAL'') c1 of
          (c2, hello) \<Rightarrow> if \<not> hello then (Disconnect c2, False) else (c2, True))"

text \<open>The new table, the transfer and its figures.\<close>

definition incremental_blocks ::
  "backup_env \<Rightarrow> BackupConfig \<Rightarrow> VssManager \<Rightarrow> int \<Rightarrow> MappedPartition list \<Rightarrow> u64 list \<Rightarrow> VersionRecord \<Rightarrow> u64 \<Rightarrow> NetworkClient
   \<Rightarrow> BlockStateManager \<Rightarrow> BackupStats \<Rightarrow> file_system \<Rightarrow> BackupResult" where
  "incremental_blocks E cfg v devNo parts cbtChanged ver totalBlocks c m st fs =
     (let m1 = fst (UpdateIncrementalBlocks (vr_VersionId ver) cbtChanged (changed_hashes E devNo totalBlocks cbtChanged) m);
          t = TransferBlocks (incremental_job E cfg v devNo parts (vr_VersionId ver) totalBlocks) c m1 fs;
          st1 = st\<lparr> st_TotalBlocks := totalBlocks, st_ChangedBlocks := of_nat (length cbtChanged), st_TotalBytes := totalBlocks * BLOCK_SIZE,
                   st_SentBlocks := tr_sent t, st_AckedBlocks := st_AckedBlocks st + tr_acked t, st_CompressedBytes := tr_compressed t \<rparr>
      in \<lparr> br_ok = True, br_stats = st1, br_files = save_and_destroy E (tr_state t) (tr_files t),
           br_client = CloseConnection devNo (tr_client t), br_deleted = snd (Cleanup v) \<rparr>)"

text \<open>What the incremental backup does after the driver was asked, apart from the reset of its bitmap,
  which follows exactly when it succeeds.\<close>

definition incremental_transfer ::
  "backup_env \<Rightarrow> BackupConfig \<Rightarrow> int \<Rightarrow> DiskLayout \<Rightarrow> u64 list \<Rightarrow> BackupStats \<Rightarrow> file_system \<Rightarrow> BackupResult" where
  "incremental_transfer E cfg devNo layout cbtChanged st1 fs =
     (let parts = mapped_partitions E layout in
      case prepare_snapshot (ev_vss E) parts of
        None \<Rightarrow> \<lparr> br_ok = False, br_stats = st1, br_files = fs, br_client = NetworkClient_new, br_deleted = [] \<rparr>
      | Some (v, used) \<Rightarrow>
          let gone = snd (Cleanup v); st2 = st1\<lparr> st_VssUsed := used \<rparr> in
          (case incremental_table E cfg devNo fs of (m, ver) \<Rightarrow>
             (case incremental_connect E cfg devNo ver (m_totalBlocks m) of (c, ok) \<Rightarrow>
                if \<not> ok then \<lparr> br_ok = False, br_stats = st2, br_files = save_and_destroy E m fs, br_client = c, br_deleted = gone \<rparr>
                else incremental_blocks E cfg v devNo parts cbtChanged ver (m_totalBlocks m) c m st2 fs)))"

text \<open>
  The driver is reached through \<open>D\<close>; \<open>cc\<close> is the client connected to it or not. \<open>QueryOutOfBounds\<close> is
  the read past the end of a reply, after which nothing is known: it counts as a failure.
\<close>

definition IncrementalBackup ::
  "'s transport \<Rightarrow> (CbtClient \<times> bool) \<Rightarrow> backup_env \<Rightarrow> BackupConfig \<Rightarrow> int \<Rightarrow> DiskLayout \<Rightarrow> BackupStats \<Rightarrow> file_system \<Rightarrow> 's
   \<Rightarrow> BackupResult \<times> 's" where
  "IncrementalBackup D cc E cfg devNo layout st0 fs s =
     (let st1 = st0\<lparr> st_VssUsed := True \<rparr>;
          failed = \<lparr> br_ok = False, br_stats = st1, br_files = fs, br_client = NetworkClient_new, br_deleted = [] \<rparr> in
      case cc of (cbt, connected) \<Rightarrow>
        if \<not> connected then (failed, s)
        else case Query D cbt (word_of_int devNo) 0 s of (s1, q) \<Rightarrow>
          (case q of
             QueryFailed n \<Rightarrow> (failed, s1)
           | QueryOutOfBounds \<Rightarrow> (failed, s1)
           | QueryOk bitmap totalBits \<Rightarrow>
               let cbtChanged = ParseChangedBlocks bitmap totalBits in
               if cbtChanged = [] then (failed\<lparr> br_ok := True \<rparr>, s1)
               else
                 let r = incremental_transfer E cfg devNo layout cbtChanged st1 fs
                 in if br_ok r then (r, fst (Reset_bitmap D cbt (word_of_int devNo) s1)) else (r, s1)))"

definition BackupDisk ::
  "'s transport \<Rightarrow> (CbtClient \<times> bool) \<Rightarrow> scheduler \<Rightarrow> backup_env \<Rightarrow> BackupConfig \<Rightarrow> int \<Rightarrow> BackupStats \<Rightarrow> file_system \<Rightarrow> 's
   \<Rightarrow> BackupResult \<times> 's" where
  "BackupDisk D cc sched E cfg devNo st fs s =
     (let failed = \<lparr> br_ok = False, br_stats = st, br_files = fs, br_client = NetworkClient_new, br_deleted = [] \<rparr> in
      case Open_parser (ev_open E) devNo DiskParser_new of (parser, opened) \<Rightarrow>
        if \<not> opened then (failed, s)
        else case Parse_layout (ev_disk E) parser DiskLayout_new of
            Inl err \<Rightarrow> (failed, s)
          | Inr layout \<Rightarrow>
              if cf_UseCbt cfg then IncrementalBackup D cc E cfg devNo layout st fs s
              else (FullBackup sched E cfg devNo layout st fs, s))"

text \<open>The disks one after the other; the answer is false if one of them failed.\<close>

fun Run_disks ::
  "'s transport \<Rightarrow> (CbtClient \<times> bool) \<Rightarrow> scheduler \<Rightarrow> (int \<Rightarrow> backup_env) \<Rightarrow> BackupConfig \<Rightarrow> int list \<Rightarrow> file_system \<Rightarrow> 's
   \<Rightarrow> bool \<times> BackupStats list \<times> file_system \<times> 's" where
  "Run_disks D cc sched E cfg [] fs s = (True, [], fs, s)"
| "Run_disks D cc sched E cfg (devNo # devNos) fs s =
     (case BackupDisk D cc sched (E devNo) cfg devNo (BackupStats_new\<lparr> st_DevNo := devNo \<rparr>) fs s of (r, s1) \<Rightarrow>
        case Run_disks D cc sched E cfg devNos (br_files r) s1 of (ok, sts, fs1, s2) \<Rightarrow>
          (br_ok r \<and> ok, br_stats r # sts, fs1, s2))"

section \<open>The synchronous transfer\<close>

lemma send_retry_states:
  assumes "send_retry dry send idx n c m = (c', m', ok)"
  shows "ack_states m' = (ack_states m)[unat idx := AckAcknowledged] \<and> ok
    \<or> (ack_states m' = ack_states m \<or> ack_states m' = (ack_states m)[unat idx := AckFailed]) \<and> \<not> ok"
  using assms
proof (induction n arbitrary: c m)
  case (Suc n)
  show ?case
  proof (cases dry)
    case True
    then show ?thesis using Suc.prems by (auto simp: SimulatedAck_def ack_states_SetBlockAck)
  next
    case False
    obtain c1 ok1 where s: "send c = (c1, ok1)" by fastforce
    show ?thesis
    proof (cases ok1)
      case True
      then show ?thesis using Suc.prems False s by (auto simp: ack_states_SetBlockAck)
    next
      case nok: False
      then have "send_retry dry send idx n c1 (fst (SetBlockAck idx AckFailed m)) = (c', m', ok)" using Suc.prems False s by simp
      from Suc.IH [OF this] show ?thesis by (auto simp: ack_states_SetBlockAck)
    qed
  qed
qed simp

lemma transfer_block_states:
  "\<exists>a ok. ack_states (tr_state (transfer_block j b t)) = (ack_states (tr_state t))[unat (bs_BlockIndex b) := a]
     \<and> tr_sent (transfer_block j b t) = tr_sent t + of_bool ok \<and> tr_acked (transfer_block j b t) = tr_acked t + of_bool ok
     \<and> (if ok then a = AckAcknowledged else a = AckFailed \<or> a = ack_states (tr_state t) ! unat (bs_BlockIndex b))"
proof -
  define i where "i = unat (bs_BlockIndex b)"
  define st where "st = ack_states (tr_state t)"
  have same: "st[i := st ! i] = st" by simp
  obtain data readOk where r: "read_buffer (tj_source j) (bs_Offset b) (transfer_size (tj_total j) b) = (data, readOk)" by fastforce
  show ?thesis
  proof (cases "\<not> readOk \<and> \<not> tj_dry j \<or> Compress (tj_win j) (tj_compressor j) data = None")
    case True
    then have "transfer_block j b t = t" using r by (auto simp: transfer_block_def Let_def)
    then show ?thesis using same by (intro exI [of _ "st ! i"] exI [of _ False]) (simp add: st_def i_def)
  next
    case False
    then obtain z where z: "Compress (tj_win j) (tj_compressor j) data = Some z" and go: "\<not> (\<not> readOk \<and> \<not> tj_dry j)" by auto
    obtain c m ok where s: "send_retry (tj_dry j)
        (SendBlock (word_of_int (tj_devNo j)) (bs_BlockIndex b) (transfer_size (tj_total j) b) z (bs_Hash b) (tj_version j))
        (bs_BlockIndex b) (nat (tj_retry j + 1)) (tr_client t) (tr_state t) = (c, m, ok)" by (metis prod_cases3)
    have m: "ack_states m = st[i := AckAcknowledged] \<and> ok \<or> (ack_states m = st \<or> ack_states m = st[i := AckFailed]) \<and> \<not> ok"
      using send_retry_states [OF s] by (simp add: st_def i_def)
    have save: "ack_states m' = ack_states m" if "Save cr mv hp m fs = (m', fs', ok')" for cr mv hp fs m' fs' ok'
      using Save_blocks [OF that] by (simp add: ack_states_def)
    have t: "ack_states (tr_state (transfer_block j b t)) = ack_states m" "tr_sent (transfer_block j b t) = tr_sent t + of_bool ok"
      "tr_acked (transfer_block j b t) = tr_acked t + of_bool ok"
      using r z go s save by (auto simp: transfer_block_def Let_def split: prod.splits if_splits)
    from m show ?thesis
    proof (elim disjE conjE)
      assume "ack_states m = st" "\<not> ok"
      then show ?thesis using t same by (intro exI [of _ "st ! i"] exI [of _ ok]) (simp add: st_def i_def)
    qed (use t in \<open>auto simp: st_def i_def\<close>)
  qed
qed

lemma transfer_fold:
  assumes "distinct (map bs_BlockIndex bs)" and "\<forall>b \<in> set bs. unat (bs_BlockIndex b) < length (ack_states (tr_state t))"
    and "\<forall>b \<in> set bs. ack_states (tr_state t) ! unat (bs_BlockIndex b) \<noteq> AckAcknowledged" and "t' = fold (transfer_block j) bs t"
  shows "length (ack_states (tr_state t')) = length (ack_states (tr_state t))
    \<and> (\<forall>k. k \<notin> unat ` bs_BlockIndex ` set bs \<longrightarrow> ack_states (tr_state t') ! k = ack_states (tr_state t) ! k)
    \<and> (\<forall>k \<in> unat ` bs_BlockIndex ` set bs. ack_states (tr_state t') ! k \<in> {AckAcknowledged, AckFailed, ack_states (tr_state t) ! k})
    \<and> tr_sent t' = tr_sent t + card {k \<in> unat ` bs_BlockIndex ` set bs. ack_states (tr_state t') ! k = AckAcknowledged}
    \<and> tr_acked t' = tr_acked t + card {k \<in> unat ` bs_BlockIndex ` set bs. ack_states (tr_state t') ! k = AckAcknowledged}"
  using assms
proof (induction bs arbitrary: t)
  case (Cons b bs)
  define i where "i = unat (bs_BlockIndex b)"
  define I where "I = unat ` bs_BlockIndex ` set bs"
  define t1 where "t1 = transfer_block j b t"
  define st where "st = ack_states (tr_state t)"
  define st' where "st' = ack_states (tr_state t')"
  have inj: "i \<notin> I" using Cons.prems(1) by (auto simp: i_def I_def word_unat_eq_iff)
  obtain a ok where t1: "ack_states (tr_state t1) = st[i := a]" "tr_sent t1 = tr_sent t + of_bool ok" "tr_acked t1 = tr_acked t + of_bool ok"
    "if ok then a = AckAcknowledged else a = AckFailed \<or> a = st ! i"
    using transfer_block_states [of j b t] by (auto simp: t1_def st_def i_def)
  have i: "i < length st" "st ! i \<noteq> AckAcknowledged" using Cons.prems(2,3) by (simp_all add: i_def st_def)
  have other: "(st[i := a]) ! k = st ! k" if "k \<in> I" for k using that inj by (metis nth_list_update_neq)
  have IH: "length st' = length (st[i := a])" "\<And>k. k \<notin> I \<Longrightarrow> st' ! k = (st[i := a]) ! k"
    "\<And>k. k \<in> I \<Longrightarrow> st' ! k \<in> {AckAcknowledged, AckFailed, (st[i := a]) ! k}"
    "tr_sent t' = tr_sent t1 + card {k \<in> I. st' ! k = AckAcknowledged}" "tr_acked t' = tr_acked t1 + card {k \<in> I. st' ! k = AckAcknowledged}"
  proof -
    have d: "distinct (map bs_BlockIndex bs)" and f: "t' = fold (transfer_block j) bs t1" using Cons.prems(1,4) by (simp_all add: t1_def)
    have l: "\<forall>b \<in> set bs. unat (bs_BlockIndex b) < length (ack_states (tr_state t1))"
      using Cons.prems(2) by (simp add: t1 st_def)
    have n: "\<forall>b \<in> set bs. ack_states (tr_state t1) ! unat (bs_BlockIndex b) \<noteq> AckAcknowledged"
      using Cons.prems(3) other by (auto simp: t1 st_def I_def)
    from Cons.IH [OF d l n f]
    show "length st' = length (st[i := a])" "\<And>k. k \<notin> I \<Longrightarrow> st' ! k = (st[i := a]) ! k"
      "\<And>k. k \<in> I \<Longrightarrow> st' ! k \<in> {AckAcknowledged, AckFailed, (st[i := a]) ! k}"
      "tr_sent t' = tr_sent t1 + card {k \<in> I. st' ! k = AckAcknowledged}" "tr_acked t' = tr_acked t1 + card {k \<in> I. st' ! k = AckAcknowledged}"
      unfolding t1(1) st'_def I_def by blast+
  qed
  have sti: "st' ! i = a" using IH(2) [OF inj] i by simp
  have "{k \<in> insert i I. st' ! k = AckAcknowledged} = (if ok then insert i {k \<in> I. st' ! k = AckAcknowledged} else {k \<in> I. st' ! k = AckAcknowledged})"
    using sti t1(4) i(2) by auto
  moreover have "finite I" by (simp add: I_def)
  ultimately have card: "card {k \<in> insert i I. st' ! k = AckAcknowledged} = of_bool ok + card {k \<in> I. st' ! k = AckAcknowledged}"
    using inj by simp
  have "st' ! k = st ! k" if "k \<notin> insert i I" for k using IH(2) [of k] that by (metis insertCI nth_list_update_neq)
  moreover have "st' ! k \<in> {AckAcknowledged, AckFailed, st ! k}" if "k \<in> insert i I" for k
    using that IH(3) [of k] other [of k] sti t1(4) by (auto split: if_splits)
  moreover have "unat ` bs_BlockIndex ` set (b # bs) = insert i I" by (simp add: i_def I_def)
  ultimately show ?case using IH(1,4,5) t1(2,3) card by (simp flip: st_def st'_def)
qed simp

lemma pending_distinct:
  assumes "bsm_wf m" and "length (m_blocks m) < 2 ^ 64"
  shows "distinct (map bs_BlockIndex (GetPendingBlocks m))"
    and "unat ` bs_BlockIndex ` set (GetPendingBlocks m) = {k. k < length (m_blocks m) \<and> NeedsUpload (m_blocks m ! k)}"
proof -
  have ix: "bs_BlockIndex (m_blocks m ! k) = of_nat k \<and> unat (of_nat k :: u64) = k" if "k < length (m_blocks m)" for k
    using bsm_wf_block(1) [OF assms(1) that] that assms(2) by (simp add: unat_of_nat)
  have "distinct (map bs_BlockIndex (m_blocks m))"
    unfolding distinct_conv_nth using ix by (metis length_map nth_map)
  then show "distinct (map bs_BlockIndex (GetPendingBlocks m))" by (simp add: GetPendingBlocks_def distinct_map_filter)
  have "x \<in> unat ` bs_BlockIndex ` set (GetPendingBlocks m) \<longleftrightarrow> x < length (m_blocks m) \<and> NeedsUpload (m_blocks m ! x)" for x
  proof
    assume "x \<in> unat ` bs_BlockIndex ` set (GetPendingBlocks m)"
    then obtain k where "k < length (m_blocks m)" "NeedsUpload (m_blocks m ! k)" "x = unat (bs_BlockIndex (m_blocks m ! k))"
      by (auto simp: GetPendingBlocks_def in_set_conv_nth)
    then show "x < length (m_blocks m) \<and> NeedsUpload (m_blocks m ! x)" using ix by simp
  next
    assume "x < length (m_blocks m) \<and> NeedsUpload (m_blocks m ! x)"
    then have "m_blocks m ! x \<in> set (GetPendingBlocks m)" "unat (bs_BlockIndex (m_blocks m ! x)) = x"
      using ix by (auto simp: GetPendingBlocks_def)
    then show "x \<in> unat ` bs_BlockIndex ` set (GetPendingBlocks m)" by force
  qed
  then show "unat ` bs_BlockIndex ` set (GetPendingBlocks m) = {k. k < length (m_blocks m) \<and> NeedsUpload (m_blocks m ! k)}" by auto
qed

lemma transfer_start:
  assumes "bsm_wf m" and "length (m_blocks m) < 2 ^ 64" and "set bs \<subseteq> set (GetPendingBlocks m)" and "distinct (map bs_BlockIndex bs)"
  shows "\<forall>b \<in> set bs. unat (bs_BlockIndex b) < length (ack_states m)"
    and "\<forall>b \<in> set bs. ack_states m ! unat (bs_BlockIndex b) \<noteq> AckAcknowledged"
proof -
  have "unat (bs_BlockIndex b) < length (m_blocks m) \<and> NeedsUpload (m_blocks m ! unat (bs_BlockIndex b))" if "b \<in> set bs" for b
    using pending_distinct(2) [OF assms(1,2)] assms(3) that by blast
  then show "\<forall>b \<in> set bs. unat (bs_BlockIndex b) < length (ack_states m)"
    "\<forall>b \<in> set bs. ack_states m ! unat (bs_BlockIndex b) \<noteq> AckAcknowledged"
    by (auto simp: ack_states_def NeedsUpload_def)
qed

text \<open>
  The synchronous transfer touches only the blocks that need an upload. Each of them ends
  acknowledged, failed or, if it could not be read or compressed, as it was; and the number of
  blocks reported as sent is the number of those that became acknowledged.
\<close>

lemma transfer_accounting:
  assumes "bsm_wf m" and "length (m_blocks m) < 2 ^ 64"
  shows "length (m_blocks (tr_state (TransferBlocks j c m fs))) = length (m_blocks m)
    \<and> (\<forall>k < length (m_blocks m). bs_Ack (m_blocks (tr_state (TransferBlocks j c m fs)) ! k) \<in>
         insert (bs_Ack (m_blocks m ! k)) (if NeedsUpload (m_blocks m ! k) then {AckAcknowledged, AckFailed} else {}))
    \<and> tr_sent (TransferBlocks j c m fs) = card {k. k < length (m_blocks m) \<and> NeedsUpload (m_blocks m ! k)
         \<and> bs_Ack (m_blocks (tr_state (TransferBlocks j c m fs)) ! k) = AckAcknowledged}
    \<and> tr_acked (TransferBlocks j c m fs) = tr_sent (TransferBlocks j c m fs)"
proof -
  define t0 where "t0 = \<lparr> tr_client = c, tr_state = m, tr_files = fs, tr_sent = 0, tr_acked = 0, tr_compressed = 0 \<rparr>"
  define t where "t = TransferBlocks j c m fs"
  define I where "I = {k. k < length (m_blocks m) \<and> NeedsUpload (m_blocks m ! k)}"
  have t: "t = fold (transfer_block j) (GetPendingBlocks m) t0" by (simp add: t_def TransferBlocks_def t0_def)
  have m: "tr_state t0 = m" "tr_sent t0 = 0" "tr_acked t0 = 0" by (simp_all add: t0_def)
  note spec = transfer_fold [OF pending_distinct(1) [OF assms] _ _ t, unfolded m(1) pending_distinct(2) [OF assms], folded I_def,
      OF transfer_start [OF assms subset_refl pending_distinct(1) [OF assms]]]
  have len: "length (m_blocks (tr_state t)) = length (m_blocks m)" using spec by (simp add: ack_states_def)
  have st: "ack_states (tr_state t) ! k = bs_Ack (m_blocks (tr_state t) ! k)" "ack_states m ! k = bs_Ack (m_blocks m ! k)"
    if "k < length (m_blocks m)" for k using that len by (simp_all add: ack_states_def)
  have each: "bs_Ack (m_blocks (tr_state t) ! k) \<in> insert (bs_Ack (m_blocks m ! k)) (if NeedsUpload (m_blocks m ! k) then {AckAcknowledged, AckFailed} else {})"
    if k: "k < length (m_blocks m)" for k
  proof (cases "NeedsUpload (m_blocks m ! k)")
    case True
    then have "ack_states (tr_state t) ! k \<in> {AckAcknowledged, AckFailed, ack_states m ! k}" using spec k by (simp add: I_def)
    then show ?thesis using st [OF k] True by auto
  next
    case False
    then have "ack_states (tr_state t) ! k = ack_states m ! k" using spec by (simp add: I_def)
    then show ?thesis using st [OF k] by simp
  qed
  have "{k \<in> I. ack_states (tr_state t) ! k = AckAcknowledged} =
      {k. k < length (m_blocks m) \<and> NeedsUpload (m_blocks m ! k) \<and> bs_Ack (m_blocks (tr_state t) ! k) = AckAcknowledged}"
    using st(1) by (auto simp: I_def)
  then show ?thesis using spec len each m(2,3) by (simp flip: t_def)
qed

text \<open>The blocks of a well-formed table are all read whole, the last one too.\<close>

lemma transfer_size_full:
  assumes "bs_Offset b = bs_BlockIndex b * BLOCK_SIZE"
  shows "transfer_size n b = BLOCK_SIZE"
proof -
  have "n * BLOCK_SIZE - bs_Offset b = BLOCK_SIZE" if "bs_BlockIndex b = n - 1"
  proof -
    have "n = bs_BlockIndex b + 1" using that by simp
    then show ?thesis unfolding assms by (simp only: distrib_right) simp
  qed
  then show ?thesis by (auto simp: transfer_size_def Let_def)
qed

lemma transfer_size_whole:
  assumes "bsm_wf m" and "b \<in> set (m_blocks m)"
  shows "transfer_size (m_totalBlocks m) b = BLOCK_SIZE"
  using assms bsm_wf_block [OF assms(1)] by (intro transfer_size_full) (auto simp: in_set_conv_nth)

text \<open>
  The last block of a disk whose size is no multiple of the block size is never
  transferred by an incremental backup: it is requested whole, the read comes back short, and
  the block keeps the state it had.
\<close>

lemma short_last_block_skipped:
  assumes "bsm_wf m" and "length (m_blocks m) = unat (m_totalBlocks m)" and "unat (m_totalBlocks m) = Suc k"
    and "tj_total j = m_totalBlocks m" and "tj_source j = Some (disk_reader disk)" and "\<not> tj_dry j"
    and "length disk < Suc k * BLOCK_SIZE" and "Suc k * BLOCK_SIZE < 2 ^ 64"
  shows "bs_Ack (m_blocks (tr_state (TransferBlocks j c m fs)) ! k) = bs_Ack (m_blocks m ! k)"
proof -
  define t0 where "t0 = \<lparr> tr_client = c, tr_state = m, tr_files = fs, tr_sent = 0, tr_acked = 0, tr_compressed = 0 \<rparr>"
  define last where "last = m_blocks m ! k"
  define bs where "bs = filter (\<lambda>b. bs_BlockIndex b \<noteq> of_nat k) (GetPendingBlocks m)"
  have k: "k < length (m_blocks m)" and small: "length (m_blocks m) < 2 ^ 64" and kk: "unat (of_nat k :: u64) = k"
    using assms(2,3) unat_u64_bound [of "m_totalBlocks m"] by (simp_all add: unat_of_nat)
  have only: "b = last" if b: "b \<in> set (GetPendingBlocks m)" "bs_BlockIndex b = of_nat k" for b
  proof -
    obtain i where i: "i < length (m_blocks m)" "b = m_blocks m ! i" using b(1) by (auto simp: GetPendingBlocks_def in_set_conv_nth)
    have "unat (of_nat i :: u64) = i" using i small by (simp add: unat_of_nat)
    then have "i = k" using bsm_wf_block(1) [OF assms(1) i(1)] i(2) b(2) kk by metis
    then show ?thesis using i by (simp add: last_def)
  qed
  have skip: "transfer_block j last t = t" for t
  proof -
    have sz: "transfer_size (tj_total j) last = BLOCK_SIZE" using transfer_size_whole [OF assms(1)] k assms(4) by (simp add: last_def)
    have off: "unat (bs_Offset last) = k * BLOCK_SIZE"
      using bsm_wf_block(2) [OF assms(1) k] assms(8) by (simp add: last_def unat_word_ariths kk)
    have "length (segment (k * BLOCK_SIZE) BLOCK_SIZE disk) \<noteq> BLOCK_SIZE" using assms(7) by (simp add: segment_def)
    then show ?thesis using sz off assms(5,6) by (simp add: transfer_block_def read_buffer_def disk_reader_def Let_def)
  qed
  have drop: "fold (transfer_block j) xs t = fold (transfer_block j) (filter (\<lambda>b. bs_BlockIndex b \<noteq> of_nat k) xs) t"
    if "set xs \<subseteq> set (GetPendingBlocks m)" for xs t
    using that
  proof (induction xs arbitrary: t)
    case (Cons x xs)
    show ?case
    proof (cases "bs_BlockIndex x = of_nat k")
      case True
      have "x \<in> set (GetPendingBlocks m)" using Cons.prems by simp
      from only [OF this True] have x: "transfer_block j x t = t" using skip by simp
      show ?thesis using Cons.IH [of t] Cons.prems True by (simp add: x)
    next
      case False
      then show ?thesis using Cons.IH [of "transfer_block j x t"] Cons.prems by simp
    qed
  qed simp
  have run: "TransferBlocks j c m fs = fold (transfer_block j) bs t0"
    unfolding TransferBlocks_def bs_def t0_def by (rule drop) simp
  have d: "distinct (map bs_BlockIndex bs)" using pending_distinct(1) [OF assms(1) small] by (simp add: bs_def distinct_map_filter)
  have sub: "set bs \<subseteq> set (GetPendingBlocks m)" by (auto simp: bs_def)
  have t0: "tr_state t0 = m" by (simp add: t0_def)
  note spec = transfer_fold [OF d _ _ run, unfolded t0, OF transfer_start [OF assms(1) small sub d]]
  have "k \<notin> unat ` bs_BlockIndex ` set bs" using kk by (auto simp: bs_def)
  then have "ack_states (tr_state (TransferBlocks j c m fs)) ! k = ack_states m ! k" using spec by blast
  then show ?thesis using spec k by (simp add: ack_states_def)
qed

section \<open>Full backup\<close>

lemma load_versions_wf: "omap_wf vs \<Longrightarrow> omap_wf (fst (load_versions n rest vs next))"
  by (induction n arbitrary: rest vs "next") (auto simp: Let_def omap_put_wf)

lemma Load_versions_wf:
  assumes "Load heap m fs = (m', ok)" and "m_versions m = []"
  shows "omap_wf (m_versions m')"
proof -
  have nil: "omap_wf ([] :: (u64 \<times> VersionRecord) list)" by (simp add: omap_wf_def)
  have "omap_wf vs" if "load_versions n rest [] k = (vs, nx)" for n rest k vs nx
    using load_versions_wf [OF nil, of n rest k] that by simp
  then show ?thesis using assms nil by (auto simp: Load_def Let_def split: option.splits prod.splits if_splits)
qed

lemma Initialize_versions_wf: "omap_wf (m_versions (fst (Initialize heap dir devNo BlockStateManager_new fs)))"
  using Load_versions_wf [of heap "BlockStateManager_new\<lparr> m_stateDir := dir, m_devNo := devNo, m_initialized := True \<rparr>" fs]
  by (simp add: Initialize_def BlockStateManager_new_def split: prod.split)

text \<open>The table of a full backup is the result of a successful \<open>InitFullBlocksEmpty\<close>.\<close>

lemma full_table_init:
  assumes "full_table E cfg devNo layout fs = (m, ver)"
  shows "\<exists>m1. InitFullBlocksEmpty (vr_VersionId ver) (full_blocks (di_Size (dl_Disk layout))) m1 = (m, True)"
proof -
  define m0 where "m0 = fst (Initialize (ev_heap E) (cf_StateDir cfg) devNo BlockStateManager_new fs)"
  define sz where "sz = di_Size (dl_Disk layout)"
  obtain m1 v where cv: "CreateVersion (ev_now E) (wlit ''FULL'') (ev_now E) (full_blocks sz) sz m0 = (m1, v)" by fastforce
  then have "m_versions m1 = omap_put (vr_VersionId v) v (m_versions m0)" by (auto simp: CreateVersion_def Let_def)
  then have "map_of (m_versions m1) (vr_VersionId v) = Some v"
    using Initialize_versions_wf [of "ev_heap E" "cf_StateDir cfg" devNo fs] by (simp add: map_of_omap_put m0_def)
  then have "snd (InitFullBlocksEmpty (vr_VersionId v) (full_blocks sz) m1)" by (simp add: InitFullBlocksEmpty_def Let_def)
  moreover have "m = fst (InitFullBlocksEmpty (vr_VersionId v) (full_blocks sz) m1)" "ver = v"
    using assms cv by (auto simp: full_table_def Let_def sz_def m0_def)
  ultimately show ?thesis by (intro exI [of _ m1]) (simp add: prod_eq_iff sz_def)
qed

text \<open>The client after the handshake of a full backup, and whether the server accepted it.\<close>

definition full_handshake :: "backup_env \<Rightarrow> BackupConfig \<Rightarrow> int \<Rightarrow> DiskLayout \<Rightarrow> file_system \<Rightarrow> NetworkClient \<times> bool" where
  "full_handshake E cfg devNo layout fs =
     (if cf_DryRun cfg then (NetworkClient_new, True)
      else case Connect (ev_connect E) (cf_ServerIp cfg) (cf_Port cfg) (cf_TimeoutSec cfg) NetworkClient_new of (c, ok) \<Rightarrow>
        if ok then SendHello (ucast (vr_VersionId (snd (full_table E cfg devNo layout fs)))) (word_of_int devNo)
                     (full_blocks (di_Size (dl_Disk layout))) (di_Size (dl_Disk layout)) (wlit ''FULL'') c
        else (c, False))"

lemma FullBackup_eq:
  assumes "prepare_snapshot (ev_vss E) (mapped_partitions E layout) = Some (v, used)" and "full_handshake E cfg devNo layout fs = (c, True)"
    and "full_table E cfg devNo layout fs = (m, ver)"
  shows "FullBackup sched E cfg devNo layout st fs =
    (case PipelineTransferBlocks sched cfg (full_job E v devNo layout) (ev_source E (data_source v devNo (mapped_partitions E layout)) \<noteq> None) m fs c
        (st\<lparr> st_VssUsed := used, st_TotalBlocks := full_blocks (di_Size (dl_Disk layout)),
             st_ChangedBlocks := full_blocks (di_Size (dl_Disk layout)), st_TotalBytes := di_Size (dl_Disk layout) \<rparr>) of
       (sent, m1, fs1, c3, st4) \<Rightarrow>
         \<lparr> br_ok = True, br_stats = st4\<lparr> st_SentBlocks := sent \<rparr>, br_files = save_and_destroy E m1 fs1, br_client = CloseConnection devNo c3, br_deleted = snd (Cleanup v) \<rparr>)"
  using assms by (auto simp: FullBackup_def Let_def full_handshake_def split: if_splits prod.splits)

lemma full_backup_ok:
  "br_ok (FullBackup sched E cfg devNo layout st fs) \<longleftrightarrow>
     prepare_snapshot (ev_vss E) (mapped_partitions E layout) \<noteq> None \<and> snd (full_handshake E cfg devNo layout fs)"
proof (cases "prepare_snapshot (ev_vss E) (mapped_partitions E layout)")
  case None
  then show ?thesis by (simp add: FullBackup_def Let_def)
next
  case (Some vu)
  obtain v used where vu: "vu = (v, used)" by fastforce
  obtain m ver where t: "full_table E cfg devNo layout fs = (m, ver)" by fastforce
  show ?thesis
  proof (cases "snd (full_handshake E cfg devNo layout fs)")
    case True
    then obtain c where "full_handshake E cfg devNo layout fs = (c, True)" by (metis prod.collapse)
    from FullBackup_eq [OF Some [unfolded vu] this t] show ?thesis using Some True by (simp split: prod.splits)
  next
    case False
    then show ?thesis using Some t by (auto simp: FullBackup_def Let_def full_handshake_def split: prod.splits if_splits)
  qed
qed

text \<open>
  C34. What a full backup reports: it answers true exactly when the snapshot service and the
  server's handshake went well (nothing of it is needed in a dry run but the snapshot). The
  transfer has no influence: neither an unreadable data source nor a lost connection does.
\<close>

theorem full_backup_success_iff:
  "br_ok (FullBackup sched E cfg devNo layout st fs) \<longleftrightarrow>
     prepare_snapshot (ev_vss E) (mapped_partitions E layout) \<noteq> None \<and> snd (full_handshake E cfg devNo layout fs)"
  by (rule full_backup_ok)

text \<open>The figures and files of a full backup over the network, after a transfer that ends in \<open>p\<close>.\<close>

lemma FullBackup_figures:
  assumes "prepare_snapshot (ev_vss E) (mapped_partitions E layout) = Some (v, used)" and "full_handshake E cfg devNo layout fs = (c, True)"
    and "full_table E cfg devNo layout fs = (m, ver)" and "\<not> cf_DryRun cfg"
    and "ev_source E (data_source v devNo (mapped_partitions E layout)) \<noteq> None"
    and "sched (full_job E v devNo layout) (cf_PipelineWindowSize cfg) m fs c = (p, c3)"
  shows "br_files (FullBackup sched E cfg devNo layout st fs) = save_and_destroy E (pp_state p) (pp_files p)"
    "st_AckedBlocks (br_stats (FullBackup sched E cfg devNo layout st fs)) = be_acked (pp_engine p)"
    "st_FailedBlocks (br_stats (FullBackup sched E cfg devNo layout st fs)) = st_FailedBlocks st + pp_failedStat p"
    "st_SkippedBlocks (br_stats (FullBackup sched E cfg devNo layout st fs)) = pp_skipped p"
    "st_SentBlocks (br_stats (FullBackup sched E cfg devNo layout st fs)) = pp_sent p"
    "st_TotalBlocks (br_stats (FullBackup sched E cfg devNo layout st fs)) = jb_total (full_job E v devNo layout)"
  unfolding FullBackup_eq [OF assms(1-3)] using assms(4-6)
  by (simp_all add: PipelineTransferBlocks_def pipeline_stats_def) (simp add: full_job_def)

text \<open>A scheduler: every result is the end of a run of the two threads.\<close>

definition sched_ok :: "scheduler \<Rightarrow> bool" where
  "sched_ok sched \<longleftrightarrow> (\<forall>j n m fs c. (pipe_step j)\<^sup>*\<^sup>* (pipe_start n m fs) (fst (sched j n m fs c)) \<and> pp_main (fst (sched j n m fs c)) = Finished)"


section \<open>Incremental backup\<close>


section \<open>Witnesses\<close>

lemma demo_table_facts: "bsm_wf demo_table" "m_totalBlocks demo_table = 1" "length (m_blocks demo_table) = 1" "bs_Ack (m_blocks demo_table ! 0) = AckPending"
proof -
  show "bsm_wf demo_table" using InitFullBlocksEmpty_wf [OF demo_manager_wf] demo_init by auto
  obtain v where "m_versions demo_manager = [(0, v)]" using demo_manager_versions by blast
  then show "m_totalBlocks demo_table = 1" "length (m_blocks demo_table) = 1" "bs_Ack (m_blocks demo_table ! 0) = AckPending"
    by (simp_all add: demo_table_def InitFullBlocksEmpty_def Let_def fresh_block_def set_version_def)
qed

definition demo_transfer :: transfer_job where
  "demo_transfer = \<lparr> tj_dry = False, tj_retry = 3, tj_devNo = 0, tj_version = 0, tj_total = 1, tj_source = Some (disk_reader [1, 2, 3]),
     tj_win = demo_win, tj_compressor = \<lparr> dc_hCompressor = True, dc_initialized = True \<rparr>, tj_save = (\<lambda>n. (True, True)), tj_heap = [0, 0, 0, 0] \<rparr>"

lemma transfer_accounting_witness:
  "tr_acked (TransferBlocks demo_transfer NetworkClient_new demo_table Map.empty) = tr_sent (TransferBlocks demo_transfer NetworkClient_new demo_table Map.empty)
   \<and> length (m_blocks (tr_state (TransferBlocks demo_transfer NetworkClient_new demo_table Map.empty))) = 1"
  using transfer_accounting [of demo_table demo_transfer NetworkClient_new Map.empty] demo_table_facts by simp

theorem short_last_block_skipped_witness:
  "bs_Ack (m_blocks (tr_state (TransferBlocks demo_transfer NetworkClient_new demo_table Map.empty)) ! 0) = AckPending"
  using short_last_block_skipped [of demo_table 0 demo_transfer "[1, 2, 3]" NetworkClient_new Map.empty] demo_table_facts
  by (simp add: demo_transfer_def)

text \<open>A disk without file systems, a server that accepts the handshake, and a connection lost right after it.\<close>

definition demo_env :: backup_env where
  "demo_env = \<lparr> ev_open = True, ev_disk = demo_disk, ev_volumes = \<lparr> vl_find = [], vl_names = (\<lambda>g. None), vl_open = (\<lambda>p. False), vl_extents = (\<lambda>p. None) \<rparr>, ev_vss = demo_vss, ev_source = (\<lambda>p. Some (\<lambda>off n. None)), ev_provider = True,
     ev_bcrypt = (\<lambda>d. None), ev_createCompressor = True, ev_win = demo_win,
     ev_connect = \<lparr> ce_socket_ok = True, ce_option_ok = (\<lambda>opt. True), ce_addr_ok = True, ce_connect_ok = True, ce_tx = replicate 100 (Sent 1000),
       ce_rx = [Received (ack_msg demo_ack)] \<rparr>,
     ev_now = \<lparr> dwLowDateTime = 1, dwHighDateTime = 0 \<rparr>, ev_save = (\<lambda>n. (True, True)), ev_lastSave = (True, True),
     ev_destroySave = (True, True), ev_heap = [0, 0, 0, 0] \<rparr>"

definition lost_at_once :: scheduler where
  "lost_at_once j n m fs c =
     (let p = pipe_start n m fs in (p\<lparr> pp_engine := (pp_engine p)\<lparr> be_error := True \<rparr>, pp_failedStat := 0, pp_ack := AckStopped, pp_main := Finished \<rparr>, c))"

lemma lost_at_once_ok: "sched_ok lost_at_once"
  unfolding sched_ok_def
proof (intro allI conjI)
  fix j n m fs c
  define p where "p = pipe_start n m fs"
  define p1 where "p1 = p\<lparr> pp_engine := (pp_engine p)\<lparr> be_error := True \<rparr>, pp_ack := AckStopped \<rparr>"
  have f: "pp_ack p = AckIdle" "pp_main p = AtTop" "be_failed (pp_engine p) = 0" "pp_failedStat p = 0"
    by (simp_all add: p_def pipe_start_def ResetPipelineWindow_def)
  have s1: "pipe_step j p p1" unfolding p1_def by (rule pipe_step.ack_error) (simp add: f)
  have s2: "pipe_step j p1 (p1\<lparr> pp_main := Waiting \<rparr>)" by (rule pipe_step.loop_error) (simp_all add: p1_def f)
  have s3: "pipe_step j (p1\<lparr> pp_main := Waiting \<rparr>) (p1\<lparr> pp_main := Stopping \<rparr>)"
    using pipe_step.wait_end [of "p1\<lparr> pp_main := Waiting \<rparr>" j] by (simp add: p1_def)
  have s4: "pipe_step j (p1\<lparr> pp_main := Stopping \<rparr>) (fst (lost_at_once j n m fs c))"
    using pipe_step.join [of "p1\<lparr> pp_main := Stopping \<rparr>" j] f by (simp add: p1_def lost_at_once_def Let_def flip: p_def)
  show "(pipe_step j)\<^sup>*\<^sup>* (pipe_start n m fs) (fst (lost_at_once j n m fs c))"
    unfolding p_def [symmetric] using s1 s2 s3 s4 by (meson converse_rtranclp_into_rtranclp rtranclp.rtrancl_refl)
  show "pp_main (fst (lost_at_once j n m fs c)) = Finished" by (simp add: lost_at_once_def Let_def)
qed

lemma SendHello_accepted:
  assumes "nc_connected c" and "nc_tx c = replicate k (Sent 1000)" and "2 \<le> k" and "rx_plain (nc_rx c)" and "rx_stream (nc_rx c) = ack_msg a"
    and "length (ak_Hash a) = 32" and "ak_Status a = 0"
  shows "snd (SendHello v d tb sz ty c)"
proof -
  have send: "SendAll x c' = (c'\<lparr> nc_tx := replicate (k' - 1) (Sent 1000), nc_out := nc_out c' @ x \<rparr>, True)"
    if "nc_tx c' = replicate k' (Sent 1000)" "0 < k'" "0 < length x" "length x \<le> 1000" for c' k' and x :: "byte list"
    using send_all_one_call [OF that(2-4)] that(1) by (auto simp: SendAll_def Let_def)
  define c1 where "c1 = c\<lparr> nc_tx := replicate (k - 1) (Sent 1000), nc_out := nc_out c @ MsgHeader_bytes (client_header HELLO d) \<rparr>"
  have ty: "length (hello_type ty) = 32" by (simp add: hello_type_def Let_def)
  have l2: "length (HelloBody_bytes (hello_body v d tb sz ty)) = 88" using hb.length_enc [of "hello_body v d tb sz ty"] ty by (simp add: hello_body_def)
  have s1: "SendAll (MsgHeader_bytes (client_header HELLO d)) c = (c1, True)"
  proof -
    have "0 < length (MsgHeader_bytes (client_header HELLO d))" "length (MsgHeader_bytes (client_header HELLO d)) \<le> 1000" by (simp_all del: length_greater_0_conv)
    from send [OF assms(2) _ this] show ?thesis using assms(3) by (simp add: c1_def)
  qed
  obtain c2 where s2: "SendAll (HelloBody_bytes (hello_body v d tb sz ty)) c1 = (c2, True)" "nc_rx c2 = nc_rx c"
    using send [of c1 "k - 1" "HelloBody_bytes (hello_body v d tb sz ty)"] assms(3) l2 by (auto simp: c1_def)
  show ?thesis using ReceiveAck_ack [of c2 a "[]" d 0] s1 s2 assms by (auto simp: SendHello_def)
qed

lemma demo_ack_msg: "ack_msg demo_ack \<noteq> []"
  by (simp add: ack_msg_def demo_ack_def AckBody_bytes_def)

lemma demo_handshake: "snd (full_handshake demo_env BackupConfig_new 0 DiskLayout_new Map.empty)"
  by (auto simp: demo_ack_msg full_handshake_def BackupConfig_new_def demo_env_def Connect_def SetSocketTimeout_def SetTcpKeepAlive_def apply_option_def Let_def
      intro!: SendHello_accepted [where k = 100 and a = demo_ack]) (simp_all add: demo_ack_def)

lemma demo_snapshot: "\<exists>v. prepare_snapshot (ev_vss demo_env) (mapped_partitions demo_env layout) = Some (v, False)"
proof -
  obtain v1 where v1: "Initialize_vss demo_vss VssManager_new = (v1, True)" using demo_vss_run(1) by blast
  obtain v2 where v2: "StartSnapshotSet demo_vss v1 = (v2, True)" using demo_vss_run(2) v1 by auto
  have "mapped_partitions demo_env layout = []" "ev_vss demo_env = demo_vss"
    by (simp_all add: mapped_partitions_def Map_volumes_def EnumerateVolumes_def VolumeMapper_new_def demo_env_def)
  then show ?thesis using v1 v2 by (simp add: prepare_snapshot_def)
qed

lemma demo_backup_ok:
  "br_ok (FullBackup lost_at_once demo_env BackupConfig_new 0 DiskLayout_new BackupStats_new Map.empty)"
  unfolding full_backup_ok using demo_handshake demo_snapshot [of DiskLayout_new] by auto


text \<open>A driver whose only disk has eight blocks; its state tells whether the bitmap was reset.\<close>

definition demo_transport :: "bool transport" where
  "demo_transport rq reset =
     (if io_code rq = IOCTL_RESET_CBT_DATA then (True, \<lparr> dr_ok = True, dr_err = 0, dr_data = [] \<rparr>)
      else if io_outLen rq = 16 then (reset, \<lparr> dr_ok = False, dr_err = 234, dr_data = le_bytes 8 (8 :: u64) @ le_bytes 8 (1 :: u64) \<rparr>)
      else (reset, \<lparr> dr_ok = True, dr_err = 0, dr_data = le_bytes 8 (8 :: u64) @ le_bytes 8 (1 :: u64) @ [if reset then 0 else 0x80] \<rparr>))"

definition demo_cbt :: CbtClient where
  "demo_cbt = \<lparr> cc_hDevice = True, cc_connected = True \<rparr>"

definition demo_dry :: BackupConfig where
  "demo_dry = BackupConfig_new\<lparr> cf_DryRun := True, cf_UseCbt := True \<rparr>"


end
