(* ===== verification/Server_Sessions.thy ===== *)
theory Server_Sessions
  imports Server_Correct
begin

text \<open>
  Several clients at one server. What a connection sees of the server is its own record, its registration, its
  socket and the files it is meant for; shown is that the events of other connections have no influence on that
  view, so that everything proved of one connection alone holds of it among others.
\<close>

section \<open>The view of a connection\<close>

definition same_view :: "int \<Rightarrow> int set \<Rightarrow> Server \<Rightarrow> Server \<Rightarrow> bool" where
  "same_view h F s t \<longleftrightarrow> sv_conns s h = sv_conns t h \<and> sv_epoll s h = sv_epoll t h \<and> sv_tx s h = sv_tx t h \<and> sv_sent s h = sv_sent t h
     \<and> sv_disk s = sv_disk t \<and> sv_listenFd s = sv_listenFd t \<and> sv_running s = sv_running t \<and> (\<forall>fd \<in> F. sv_files s fd = sv_files t fd)"

lemma same_view_touch: "same_view h F s t \<Longrightarrow> same_view h F (touch g s) (touch g' t)"
  by (simp add: same_view_def touch_def)

lemma same_view_set_conn: "same_view h F s t \<Longrightarrow> same_view h F (set_conn h c s) (set_conn h c t)"
  by (simp add: same_view_def set_conn_def)

lemma same_view_EpollMod: "same_view h F s t \<Longrightarrow> same_view h F (EpollMod h out s) (EpollMod h out t)"
  by (simp add: same_view_def EpollMod_def)

lemma same_view_CloseConn: "same_view h F s t \<Longrightarrow> same_view h F (CloseConn h s) (CloseConn h t)"
  by (auto simp: same_view_def CloseConn_def split: option.split)

lemma same_view_set_recv: "same_view h F s t \<Longrightarrow> same_view h F (set_recv h b s) (set_recv h b t)"
  by (auto simp: same_view_def set_recv_def set_conn_def split: option.split)

lemma same_view_conns: "same_view h F s t \<Longrightarrow> sv_conns s h = sv_conns t h"
  by (simp add: same_view_def)

lemmas same_view_intros = same_view_touch same_view_set_conn same_view_EpollMod same_view_CloseConn same_view_set_recv

lemma same_view_HandleConnWritable:
  assumes "same_view h F s t"
  shows "same_view h F (HandleConnWritable h s) (HandleConnWritable h t)"
proof (cases "sv_conns s h")
  case None
  then show ?thesis using assms same_view_conns [OF assms] by (simp add: HandleConnWritable_def same_view_touch)
next
  case (Some c)
  obtain b tx out e where l: "send_loop (sv_tx s h) (sendBuf c) [] = (b, tx, out, e)" by (metis prod_cases4)
  have t: "sv_conns t h = Some c" "sv_tx t h = sv_tx s h" "sv_sent t h = sv_sent s h" using assms Some by (simp_all add: same_view_def)
  define upd where "upd u = (set_conn h (c\<lparr> sendBuf := b \<rparr>) u)\<lparr> sv_tx := (sv_tx u)(h := tx), sv_sent := (sv_sent u)(h := sv_sent s h @ out) \<rparr>" for u
  have u: "same_view h F (upd s) (upd t)" using assms by (simp add: same_view_def upd_def set_conn_def)
  show ?thesis
  proof (cases e)
    case Drained
    then show ?thesis using u Some l t by (simp add: HandleConnWritable_def Let_def same_view_intros flip: upd_def)
  qed (use u Some l t in \<open>simp_all add: HandleConnWritable_def Let_def same_view_intros flip: upd_def\<close>)
qed

lemma same_view_EnqueueAck:
  assumes "same_view h F s t"
  shows "same_view h F (EnqueueAck h ack s) (EnqueueAck h ack t)"
  using assms same_view_conns [OF assms]
  by (auto simp: EnqueueAck_def TryArmWrite_def set_conn_def Let_def same_view_touch split: option.split
      intro!: same_view_HandleConnWritable same_view_EpollMod same_view_set_conn [unfolded set_conn_def])

lemma same_view_reject: "same_view h F s t \<Longrightarrow> same_view h F (reject h ack s) (reject h ack t)"
  by (simp add: reject_def same_view_intros same_view_EnqueueAck)

lemma same_view_HandleHello:
  assumes "same_view h F s t"
  shows "same_view h F (HandleHello h hdr body s) (HandleHello h hdr body t)"
proof -
  have d: "sv_disk t = sv_disk s" "sv_conns t h = sv_conns s h" using assms by (simp_all add: same_view_def)
  show ?thesis using assms
    by (auto simp: HandleHello_def d Let_def split: option.split intro!: same_view_intros same_view_reject same_view_EnqueueAck)
qed

lemma Process_local:
  assumes "\<forall>fd \<in> F. fs fd = gs fd" and "Process P dm fs devno bh cd = (fs', ack, st)"
  shows "\<exists>gs'. Process P dm gs devno bh cd = (gs', ack, st) \<and> (\<forall>fd \<in> F. fs' fd = gs' fd)"
  using assms by (auto simp: process_cases split: option.splits if_splits)

lemma same_view_HandleDataBlock:
  assumes "same_view h F s t"
  shows "same_view h F (HandleDataBlock P h hdr body s) (HandleDataBlock P h hdr body t)"
proof (cases "sv_conns s h")
  case None
  then show ?thesis using assms same_view_conns [OF assms] by (simp add: HandleDataBlock_def same_view_touch)
next
  case (Some c)
  have t: "sv_conns t h = Some c" "sv_disk t = sv_disk s" using assms Some by (simp_all add: same_view_def)
  define bh where "bh = BlockHeader_of (take 52 body)"
  obtain fs ack st where p: "Process P (sv_disk s) (sv_files s) (mh_DevNo hdr) bh (drop (unat BLOCK_HEADER_SIZE) body) = (fs, ack, st)"
    by (metis prod_cases3)
  obtain gs where q: "Process P (sv_disk s) (sv_files t) (mh_DevNo hdr) bh (drop (unat BLOCK_HEADER_SIZE) body) = (gs, ack, st)" "\<forall>fd \<in> F. fs fd = gs fd"
    using Process_local [OF _ p, of F "sv_files t"] assms by (auto simp: same_view_def)
  have "same_view h F ((set_conn h c' s)\<lparr> sv_files := fs \<rparr>) ((set_conn h c' t)\<lparr> sv_files := gs \<rparr>)" for c'
    using assms q(2) by (simp add: same_view_def set_conn_def)
  then show ?thesis using assms Some t p q(1)
    by (auto simp: HandleDataBlock_def Let_def bh_def intro!: same_view_CloseConn same_view_EnqueueAck)
qed

lemma same_view_dispatch: "same_view h F s t \<Longrightarrow> same_view h F (dispatch P h m s) (dispatch P h m t)"
  by (auto simp: dispatch_def HandleBye_def same_view_HandleHello same_view_HandleDataBlock same_view_reject same_view_touch
      split: option.split MessageType.split)

lemma same_view_ProcessMessages: "same_view h F s t \<Longrightarrow> same_view h F (ProcessMessages P h s) (ProcessMessages P h t)"
proof (induction P h s arbitrary: t rule: ProcessMessages.induct)
  case (1 P h s)
  note same = "1.prems" and conns = same_view_conns [OF "1.prems"]
  show ?case
  proof (cases "sv_conns s h")
    case None
    then show ?thesis using same conns by (simp add: ProcessMessages.simps [of P h] same_view_touch)
  next
    case (Some c)
    obtain r m d where tp: "TryParse (recvBuf c) ParsedMessage_zero = (r, m, d)" by (metis prod_cases3)
    have tc: "sv_conns t h = Some c" using conns Some by simp
    define s1 where "s1 = touch h (dispatch P h m s)"
    define t1 where "t1 = touch h (dispatch P h m t)"
    have 1: "same_view h F s1 t1" using same by (simp add: s1_def t1_def same_view_touch same_view_dispatch)
    show ?thesis
    proof (cases r)
      case kOk
      show ?thesis
      proof (cases "sv_conns s1 h")
        case None
        then show ?thesis using None 1 same_view_conns [OF 1] tc \<open>sv_conns s h = Some c\<close> tp kOk
          unfolding s1_def t1_def by (simp add: ProcessMessages.simps [of P h s] ProcessMessages.simps [of P h t] Let_def)
      next
        case (Some c1)
        have "sv_conns t1 h = Some c1" using Some same_view_conns [OF 1] by simp
        then show ?thesis using "1.IH"(1) [OF \<open>sv_conns s h = Some c\<close> tp [symmetric] refl kOk refl s1_def Some same_view_set_recv [OF 1]]
            tc Some \<open>sv_conns s h = Some c\<close> tp kOk
          unfolding s1_def t1_def by (simp add: ProcessMessages.simps [of P h s] ProcessMessages.simps [of P h t] Let_def)
      qed
    next
      case kBadMagic
      then show ?thesis using "1.IH"(2) [OF Some tp [symmetric] refl _ same_view_set_recv [OF same]] tc Some tp
        by (simp add: ProcessMessages.simps [of P h s] ProcessMessages.simps [of P h t])
    next
      case kInvalidType
      then show ?thesis using "1.IH"(3) [OF Some tp [symmetric] refl _ same_view_set_recv [OF same]] tc Some tp
        by (simp add: ProcessMessages.simps [of P h s] ProcessMessages.simps [of P h t])
    qed (use same tc Some tp in \<open>simp_all add: ProcessMessages.simps [of P h s] ProcessMessages.simps [of P h t] same_view_CloseConn\<close>)
  qed
qed

lemma same_view_HandleConnReadable: "same_view h F s t \<Longrightarrow> same_view h F (HandleConnReadable P h rx s) (HandleConnReadable P h rx t)"
proof (induction P h rx s arbitrary: t rule: HandleConnReadable.induct)
  case (1 P h rx s)
  note same = "1.prems" and conns = same_view_conns [OF "1.prems"]
  show ?case
  proof (cases "sv_conns s h")
    case None
    then show ?thesis using same conns by (simp add: HandleConnReadable.simps [of P h] same_view_touch)
  next
    case (Some c)
    have tc: "sv_conns t h = Some c" using conns Some by simp
    obtain b n where w: "WriteFromFd (recv_next rx) (recvBuf c) = (b, n)" by (metis surj_pair)
    have r: "same_view h F (set_recv h b s) (set_recv h b t)" using same by (rule same_view_set_recv)
    note pm = same_view_ProcessMessages [OF r, of P]
    show ?thesis
    proof (cases n)
      case (Failed e)
      then show ?thesis using r pm Some tc w
        by (simp add: HandleConnReadable.simps [of P h rx s] HandleConnReadable.simps [of P h rx t] Let_def same_view_CloseConn)
    next
      case (Bytes j)
      show ?thesis
      proof (cases j)
        case 0
        then show ?thesis using r Some tc w Bytes
          by (simp add: HandleConnReadable.simps [of P h rx s] HandleConnReadable.simps [of P h rx t] Let_def same_view_CloseConn)
      next
        case (Suc k)
        note IH = "1.IH" [OF Some w [symmetric] refl Bytes Suc refl _ pm]
        show ?thesis using IH pm same_view_conns [OF pm] Some tc w Bytes Suc
          by (simp add: HandleConnReadable.simps [of P h rx s] HandleConnReadable.simps [of P h rx t] Let_def)
      qed
    qed
  qed
qed

lemma same_view_HandleAccept: "same_view h F s t \<Longrightarrow> same_view h F (HandleAccept cfds s) (HandleAccept cfds t)"
proof (induction cfds arbitrary: s t)
  case (Cons cfd cfds)
  define upd where "upd u = EpollAdd cfd False ((set_conn cfd (Conn_new cfd) u)\<lparr> sv_sent := (sv_sent u)(cfd := []) \<rparr>)" for u
  have "same_view h F (upd s) (upd t)" using Cons.prems by (simp add: upd_def same_view_def EpollAdd_def set_conn_def)
  then show ?case using Cons by (simp add: upd_def)
qed simp

lemma same_view_run_event:
  assumes "same_view h F s t" and "ev_fd ev = h"
  shows "same_view h F (run_event P ev s) (run_event P ev t)"
proof (cases "h = sv_listenFd s")
  case True
  then show ?thesis using assms same_view_HandleAccept [OF assms(1)] by (simp add: run_event_def same_view_def)
next
  case False
  note assms = assms False
  have l: "sv_listenFd t = sv_listenFd s" "sv_conns t h = sv_conns s h" using assms(1) by (simp_all add: same_view_def)
  define in_step where "in_step u = (if ev_in ev then HandleConnReadable P h (ev_rx ev) u else u)" for u
  have i: "same_view h F (in_step s) (in_step t)" using assms(1) by (simp add: in_step_def same_view_HandleConnReadable)
  have e: "run_event P ev u = (case sv_conns u h of None \<Rightarrow> u | Some c \<Rightarrow> if ev_err ev then HandleConnError h u
      else if sv_conns (in_step u) h = None then in_step u else if ev_out ev then HandleConnWritable h (in_step u) else in_step u)"
    if "sv_listenFd u = sv_listenFd s" for u
    unfolding run_event_def in_step_def Let_def using that assms(2,3) by (simp split: option.split)
  show ?thesis unfolding e [OF refl] e [OF l(1)]
    using assms(1) i l(2) same_view_conns [OF i]
    by (auto simp: HandleConnError_def split: option.split intro!: same_view_intros same_view_HandleConnWritable)
qed

section \<open>Foreign events\<close>

text \<open>What an operation on connection \<open>g\<close> leaves alone.\<close>

definition only :: "int \<Rightarrow> Server \<Rightarrow> Server \<Rightarrow> bool" where
  "only g s t \<longleftrightarrow> (\<forall>h. h \<noteq> g \<longrightarrow> same_view h {} s t)"

lemma only_refl [simp]: "only g s s"
  by (simp add: only_def same_view_def)

lemma only_trans [trans]: "only g s t \<Longrightarrow> only g t u \<Longrightarrow> only g s u"
  by (simp add: only_def same_view_def)

lemma only_basic:
  "only g s t \<Longrightarrow> only g s (touch g t)" "only g s t \<Longrightarrow> only g s (set_conn g c t)" "only g s t \<Longrightarrow> only g s (EpollMod g out t)"
  "only g s t \<Longrightarrow> only g s (CloseConn g t)" "only g s t \<Longrightarrow> only g s (set_recv g b t)" "only g s t \<Longrightarrow> only g s (t\<lparr> sv_files := fs \<rparr>)"
  by (simp_all add: only_def same_view_def touch_def set_conn_def EpollMod_def CloseConn_def set_recv_def split: option.split)

lemma only_HandleConnWritable: "only g s t \<Longrightarrow> only g s (HandleConnWritable g t)"
proof -
  assume o: "only g s t"
  have u: "only g s ((set_conn g c t)\<lparr> sv_tx := (sv_tx t)(g := tx), sv_sent := (sv_sent t)(g := out) \<rparr>)" for c tx out
    using o by (simp add: only_def same_view_def set_conn_def)
  show ?thesis using o u
    by (auto simp: HandleConnWritable_def Let_def split: option.split prod.split send_end.split intro!: only_basic)
qed

lemma only_EnqueueAck: "only g s t \<Longrightarrow> only g s (EnqueueAck g ack t)"
  by (auto simp: EnqueueAck_def TryArmWrite_def Let_def split: option.split intro!: only_basic only_HandleConnWritable)

lemma only_dispatch: "only g s t \<Longrightarrow> only g s (dispatch P g m t)"
  by (auto simp: dispatch_def HandleHello_def HandleDataBlock_def HandleBye_def reject_def Let_def
      split: option.split prod.split MessageType.split intro!: only_basic only_EnqueueAck)

lemma only_ProcessMessages: "only g s t \<Longrightarrow> only g s (ProcessMessages P g t)"
proof (induction P g t rule: ProcessMessages.induct)
  case (1 P g t)
  note o = "1.prems"
  show ?case
  proof (cases "sv_conns t g")
    case None
    then show ?thesis using o by (simp add: ProcessMessages.simps [of P g t] only_basic)
  next
    case (Some c)
    obtain r m d where tp: "TryParse (recvBuf c) ParsedMessage_zero = (r, m, d)" by (metis prod_cases3)
    define t1 where "t1 = touch g (dispatch P g m t)"
    have 1: "only g s t1" using o by (simp add: t1_def only_basic only_dispatch)
    show ?thesis
    proof (cases r)
      case kOk
      show ?thesis
      proof (cases "sv_conns t1 g")
        case None
        then show ?thesis using 1 \<open>sv_conns t g = Some c\<close> tp kOk unfolding t1_def by (simp add: ProcessMessages.simps [of P g t] Let_def)
      next
        case (Some c1)
        from "1.IH"(1) [OF \<open>sv_conns t g = Some c\<close> tp [symmetric] refl kOk refl t1_def Some only_basic(5) [OF 1]]
        show ?thesis using Some \<open>sv_conns t g = Some c\<close> tp kOk unfolding t1_def by (simp add: ProcessMessages.simps [of P g t] Let_def)
      qed
    next
      case kBadMagic
      then show ?thesis using "1.IH"(2) [OF Some tp [symmetric] refl _ only_basic(5) [OF o]] Some tp by (simp add: ProcessMessages.simps [of P g t])
    next
      case kInvalidType
      then show ?thesis using "1.IH"(3) [OF Some tp [symmetric] refl _ only_basic(5) [OF o]] Some tp by (simp add: ProcessMessages.simps [of P g t])
    qed (use o Some tp in \<open>simp_all add: ProcessMessages.simps [of P g t] only_basic\<close>)
  qed
qed

lemma only_HandleConnReadable: "only g s t \<Longrightarrow> only g s (HandleConnReadable P g rx t)"
proof (induction P g rx t rule: HandleConnReadable.induct)
  case (1 P g rx t)
  show ?case
  proof (cases "sv_conns t g")
    case None
    then show ?thesis using "1.prems" by (simp add: HandleConnReadable.simps [of P g rx t] only_basic)
  next
    case (Some c)
    obtain b n where w: "WriteFromFd (recv_next rx) (recvBuf c) = (b, n)" by (metis surj_pair)
    have r: "only g s (set_recv g b t)" using "1.prems" by (rule only_basic)
    note pm = only_ProcessMessages [OF r, of P]
    show ?thesis
    proof (cases n)
      case (Failed e)
      then show ?thesis using r pm Some w by (simp add: HandleConnReadable.simps [of P g rx t] Let_def only_basic)
    next
      case (Bytes j)
      show ?thesis
      proof (cases j)
        case 0
        then show ?thesis using r Some w Bytes by (simp add: HandleConnReadable.simps [of P g rx t] Let_def only_basic)
      next
        case (Suc k)
        show ?thesis using "1.IH" [OF Some w [symmetric] refl Bytes Suc refl _ pm] pm Some w Bytes Suc
          by (simp add: HandleConnReadable.simps [of P g rx t] Let_def)
      qed
    qed
  qed
qed

lemma same_view_accept: "h \<notin> set cfds \<Longrightarrow> same_view h F s (HandleAccept cfds s)"
proof (induction cfds s rule: HandleAccept.induct)
  case (2 cfd cfds s)
  define s1 where "s1 = EpollAdd cfd False ((set_conn cfd (Conn_new cfd) s)\<lparr> sv_sent := (sv_sent s)(cfd := []) \<rparr>)"
  have "same_view h F s s1" using "2.prems" by (simp add: s1_def same_view_def EpollAdd_def set_conn_def)
  then show ?case using 2 by (auto simp: s1_def same_view_def)
qed (simp add: same_view_def)

lemma foreign_event:
  assumes "ev_fd ev \<noteq> h" and "h \<notin> set (ev_accepts ev)"
  shows "same_view h {} s (run_event P ev s)"
proof -
  define g where "g = ev_fd ev"
  have "only g s (if ev_in ev then HandleConnReadable P g (ev_rx ev) s else s)" by (simp add: only_HandleConnReadable)
  then have "only g s (run_event P ev s)" if "g \<noteq> sv_listenFd s"
    using that by (auto simp: run_event_def Let_def HandleConnError_def simp flip: g_def
        split: option.split intro!: only_basic only_HandleConnWritable only_HandleConnReadable)
  then show ?thesis using assms same_view_accept [OF assms(2)]
    by (cases "g = sv_listenFd s") (auto simp: only_def g_def run_event_def)
qed

section \<open>Noninterference\<close>

interpretation conn: separation "run_event P" "\<lambda>ev. ev_fd ev = h" "same_view h F" for P h F
  by unfold_locales (auto simp: same_view_def same_view_run_event [unfolded same_view_def])

text \<open>The files of \<open>F\<close> are left to connection \<open>h\<close>, and its descriptor is not given to a new connection.\<close>

definition left_to :: "int \<Rightarrow> int set \<Rightarrow> Platform \<Rightarrow> Event list \<Rightarrow> Server \<Rightarrow> bool" where
  "left_to h F P evs s \<longleftrightarrow> (\<forall>k < length evs. ev_fd (evs ! k) \<noteq> h \<longrightarrow> h \<notin> set (ev_accepts (evs ! k))
     \<and> (\<forall>fd \<in> F. sv_files (fold (run_event P) (take (Suc k) evs) s) fd = sv_files (fold (run_event P) (take k evs) s) fd))"

lemma run_separate:
  assumes "left_to h F P evs s"
  shows "same_view h F (fold (run_event P) evs s) (fold (run_event P) (filter (\<lambda>ev. ev_fd ev = h) evs) s)"
proof (rule conn.run_separated, intro allI impI)
  fix k assume k: "k < length evs"
  define s1 where "s1 = fold (run_event P) (take k evs) s"
  have n: "fold (run_event P) (take (Suc k) evs) s = run_event P (evs ! k) s1" using k by (simp add: s1_def take_Suc_conv_app_nth)
  show "ev_fd (evs ! k) = h \<or> same_view h F (fold (run_event P) (take k evs) s) (fold (run_event P) (take (Suc k) evs) s)"
    using assms k foreign_event [of "evs ! k" h s1 P] by (auto simp: left_to_def same_view_def n simp flip: s1_def)
qed

section \<open>A session of data blocks\<close>

text \<open>Bytes the server's parser waits to be continued.\<close>

definition unfinished :: "byte list \<Rightarrow> bool" where
  "unfinished p \<longleftrightarrow> fst (TryParse_at (length p) p ParsedMessage_zero) = kNeedMore"

lemma unfinished_Nil: "unfinished []"
  by (simp add: unfinished_def TryParse_at_def)

lemma unfinished_no_message:
  assumes "unfinished (concat (map msg_bytes ms) @ rest)" and "\<forall>m \<in> set ms. wf_msg m"
  shows "ms = []"
proof (cases ms)
  case (Cons m ms')
  then have "TryParse_at (length (concat (map msg_bytes ms) @ rest)) (concat (map msg_bytes ms) @ rest) ParsedMessage_zero = (kOk, m, ParseDiag_zero)"
    using assms(2) by (intro TryParse_at_frame [of m _ "concat (map msg_bytes ms') @ rest"]) simp_all
  then show ?thesis using assms(1) unfolding unfinished_def by simp
qed simp

lemma cut_message_unfinished:
  assumes "wf_msg m" and "msg_bytes m = p @ q" and "q \<noteq> []"
  shows "unfinished p"
proof (rule ccontr)
  assume u: "\<not> unfinished p"
  obtain r m' d where t: "TryParse_at (length p) p ParsedMessage_zero = (r, m', d)" by (metis prod_cases3)
  then have r: "r \<noteq> kNeedMore" using u by (simp add: unfinished_def)
  have "TryParse_at (length (p @ q)) (p @ q) ParsedMessage_zero = (r, m', d)" using TryParse_at_extend [OF t r] .
  moreover have "TryParse_at (length (p @ q)) (p @ q) ParsedMessage_zero = (kOk, m, ParseDiag_zero)"
    using TryParse_at_frame [OF assms(1), of "p @ q" "[]"] assms(2) by simp
  ultimately have "TryParse_at (length p) p ParsedMessage_zero = (kOk, m, ParseDiag_zero)" using t by simp
  from TryParse_at_kOk [OF this] show False using assms(2,3) by auto
qed

lemma unfinished_prefix: "unfinished (p @ q) \<Longrightarrow> unfinished p"
  unfolding unfinished_def using TryParse_at_extend by (metis prod.collapse)

lemma arrived_messages:
  assumes "p @ q = concat (map msg_bytes ms) @ rest" and "\<forall>m \<in> set ms. wf_msg m" and "unfinished rest"
  shows "\<exists>n rest'. p = concat (map msg_bytes (take n ms)) @ rest' \<and> unfinished rest'"
  using assms
proof (induction ms arbitrary: p)
  case Nil
  then show ?case using unfinished_prefix [of p q] by (intro exI [of _ 0]) auto
next
  case (Cons m ms)
  have "p @ q = msg_bytes m @ (concat (map msg_bytes ms) @ rest)" using Cons.prems(1) by simp
  then obtain u where "p = msg_bytes m @ u \<and> u @ q = concat (map msg_bytes ms) @ rest \<or> msg_bytes m = p @ u \<and> u \<noteq> []"
    unfolding append_eq_append_conv2 by (metis append.right_neutral append_Nil)
  then show ?case
  proof
    assume u: "p = msg_bytes m @ u \<and> u @ q = concat (map msg_bytes ms) @ rest"
    then obtain n rest' where "u = concat (map msg_bytes (take n ms)) @ rest'" "unfinished rest'"
      using Cons.IH [of u] Cons.prems(2,3) by auto
    then show ?thesis using u by (intro exI [of _ "Suc n"]) auto
  next
    assume "msg_bytes m = p @ u \<and> u \<noteq> []"
    then have "unfinished p" using cut_message_unfinished [of m p u] Cons.prems(2) by simp
    then show ?thesis by (intro exI [of _ 0]) auto
  qed
qed

text \<open>A handshaken connection on a healthy socket, between two events, with \<open>buf\<close> received and not yet complete.\<close>

definition session_at :: "int \<Rightarrow> byte list \<Rightarrow> Server \<Rightarrow> bool" where
  "session_at h buf s \<longleftrightarrow> srv_ok s \<and> tx_ok (sv_tx s h) \<and> h \<noteq> sv_listenFd s
     \<and> (\<exists>c. sv_conns s h = Some c \<and> helloDone c \<and> conn_idle c \<and> ReadPtr (recvBuf c) = buf)"

lemma session_at_unfinished: "session_at h buf s \<Longrightarrow> unfinished buf"
  by (auto simp: session_at_def conn_idle_def TryParse_def unfinished_def srv_ok_def conn_wf_def)

lemma only_listen: "only g s t \<Longrightarrow> sv_listenFd t = sv_listenFd s"
  by (auto simp: only_def same_view_def dest: spec [of _ "g + 1"])

lemma process_all_append:
  "process_all P dm fs (ms @ ms') =
     (case process_all P dm fs ms of (fs1, a) \<Rightarrow> case process_all P dm fs1 ms' of (fs2, a') \<Rightarrow> (fs2, a @ a'))"
  by (induction ms arbitrary: fs) (auto split: prod.splits)

lemma readable_step:
  assumes P: "pwrite_ok P" and "session_at h buf s" and "rx_plain rx" and stream: "buf @ rx_stream rx = concat (map msg_bytes ms) @ rest"
    and "\<forall>m \<in> set ms. is_data m" and "unfinished rest" and "process_all P (sv_disk s) (sv_files s) ms = (fs', acks)"
    and t: "t = HandleConnReadable P h rx s"
  shows "session_at h rest t \<and> sv_files t = fs' \<and> sv_disk t = sv_disk s \<and> out_stream h t = out_stream h s @ concat (map ack_bytes acks)"
proof -
  obtain c where ok: "srv_ok s" "tx_ok (sv_tx s h)" "h \<noteq> sv_listenFd s"
    and c: "sv_conns s h = Some c" "helloDone c" "conn_idle c" "ReadPtr (recvBuf c) = buf" using assms(2) by (auto simp: session_at_def)
  have ready: "session_ready h s" using ok(2) c(1,2) by (simp add: session_ready_def)
  from serve_data [OF P ok(1) ready assms(5,7), of rest] obtain s' where
    sv: "serve P h (concat (map msg_bytes ms) @ rest) s = serve P h rest s'" and s': "session_ready h s'"
    "sv_files s' = fs'" "sv_disk s' = sv_disk s" "out_stream h s' = out_stream h s @ concat (map ack_bytes acks)" by blast
  have "serve P h rest s' = (s', rest)"
    using s'(1) assms(6) serve_undecided [of s' h rest] by (auto simp: session_ready_def unfinished_def) (metis prod.collapse)
  then have "serve P h (ReadPtr (recvBuf c) @ rx_stream rx) (set_recv h (recvBuf c) s) = (s', rest)"
    using sv stream c(1,4) by (simp add: set_recv_self)
  from HandleConnReadable_serve [OF P ok(1) c(1,3) assms(3) this]
  have r: "set_recv h (recvBuf c) t = s'" and idle: "\<forall>c'. sv_conns t h = Some c' \<longrightarrow> ReadPtr (recvBuf c') = rest \<and> conn_idle c'"
    by (auto simp: t)
  have "session_ready h t" using s'(1) unfolding r [symmetric] by simp
  moreover have "srv_ok t" unfolding t by (rule srv_ok_HandleConnReadable [OF P ok(1)])
  moreover have "sv_listenFd t = sv_listenFd s" unfolding t by (rule only_listen [OF only_HandleConnReadable [OF only_refl]])
  ultimately have "session_at h rest t" using idle ok(3) by (auto simp: session_at_def session_ready_def)
  then show ?thesis using s'(2-4) unfolding r [symmetric] by simp
qed

lemma writable_keeps:
  assumes "srv_ok s" and "sv_conns s h = Some c" and "tx_ok (sv_tx s h)" and t: "t = HandleConnWritable h s"
  shows "\<exists>b. sv_conns t h = Some (c\<lparr> sendBuf := b \<rparr>) \<and> srv_ok t \<and> tx_ok (sv_tx t h) \<and> sv_listenFd t = sv_listenFd s
    \<and> sv_files t = sv_files s \<and> sv_disk t = sv_disk s \<and> out_stream h t = out_stream h s"
proof -
  have b: "rb_wf (sendBuf c)" using srv_ok_conn [OF assms(1,2)] by (simp add: conn_wf_def)
  from srv_ok_epoll [OF assms(1,2)] obtain a where a: "sv_epoll s h = Some a \<and> (0 < ReadableBytes (sendBuf c) \<longrightarrow> a)" ..
  from HandleConnWritable_cases [OF assms(2) b a [THEN conjunct1] a [THEN conjunct2, rule_format]] obtain b' tx' out where o: "out @ ReadPtr b' = ReadPtr (sendBuf c)" "set tx' \<subseteq> set (sv_tx s h)"
    "t = s\<lparr> sv_conns := (sv_conns s)(h \<mapsto> c\<lparr> sendBuf := b' \<rparr>), sv_epoll := (sv_epoll s)(h \<mapsto> 0 < ReadableBytes b'),
      sv_tx := (sv_tx s)(h := tx'), sv_sent := (sv_sent s)(h := sv_sent s h @ out) \<rparr>"
    using assms(3) unfolding send_open_def send_closed_def t by blast
  have "srv_ok t" unfolding t by (rule srv_ok_HandleConnWritable [OF assms(1)])
  then show ?thesis using assms(2,3) o(1,2) by (intro exI [of _ b']) (auto simp: o(3) tx_ok_def out_stream_def)
qed

lemma writable_step:
  assumes "session_at h buf s" and t: "t = HandleConnWritable h s"
  shows "session_at h buf t \<and> sv_files t = sv_files s \<and> sv_disk t = sv_disk s \<and> out_stream h t = out_stream h s"
proof -
  obtain c where c: "srv_ok s" "sv_conns s h = Some c" "tx_ok (sv_tx s h)" "h \<noteq> sv_listenFd s" "helloDone c" "conn_idle c" "ReadPtr (recvBuf c) = buf"
    using assms(1) by (auto simp: session_at_def)
  from writable_keeps [OF c(1-3) t] c(4-7) show ?thesis by (auto simp: session_at_def conn_idle_def)
qed

text \<open>The bytes an event brings.\<close>

definition ev_bytes :: "Event \<Rightarrow> byte list" where
  "ev_bytes ev = (if ev_in ev then rx_stream (ev_rx ev) else [])"

lemma event_step:
  assumes "pwrite_ok P" and s: "session_at h buf s" and ev: "ev_fd ev = h" "\<not> ev_err ev" "rx_plain (ev_rx ev)"
    and "buf @ ev_bytes ev = concat (map msg_bytes ms) @ rest" "\<forall>m \<in> set ms. is_data m" "unfinished rest"
    and "process_all P (sv_disk s) (sv_files s) ms = (fs', acks)" and t: "t = run_event P ev s"
  shows "session_at h rest t \<and> sv_files t = fs' \<and> sv_disk t = sv_disk s \<and> out_stream h t = out_stream h s @ concat (map ack_bytes acks)"
proof -
  define s1 where "s1 = (if ev_in ev then HandleConnReadable P h (ev_rx ev) s else s)"
  have 1: "session_at h rest s1 \<and> sv_files s1 = fs' \<and> sv_disk s1 = sv_disk s \<and> out_stream h s1 = out_stream h s @ concat (map ack_bytes acks)"
  proof (cases "ev_in ev")
    case True
    then show ?thesis using readable_step [OF assms(1,2) ev(3) _ assms(7,8,9) refl] assms(6) by (simp add: s1_def ev_bytes_def)
  next
    case False
    then have "ms = []" using session_at_unfinished [OF s] unfinished_no_message [of ms rest] assms(6,7) by (simp add: ev_bytes_def is_data_def)
    then show ?thesis using False assms(6,9) s by (simp add: s1_def ev_bytes_def)
  qed
  have "t = (if ev_out ev then HandleConnWritable h s1 else s1)"
  proof -
    obtain c where c: "sv_conns s h = Some c" "h \<noteq> sv_listenFd s" using s by (auto simp: session_at_def)
    have "sv_conns s1 h \<noteq> None" using 1 by (auto simp: session_at_def)
    then show ?thesis using c ev(1,2) unfolding t run_event_def Let_def s1_def by (cases "ev_in ev") auto
  qed
  then show ?thesis using 1 writable_step [of h rest s1, OF _ refl] by (cases "ev_out ev") simp_all
qed

lemma events_data:
  assumes "pwrite_ok P" and "session_at h buf s" and "\<forall>ev \<in> set evs. ev_fd ev = h \<and> \<not> ev_err ev \<and> rx_plain (ev_rx ev)"
    and "buf @ concat (map ev_bytes evs) = concat (map msg_bytes ms) @ rest" and "\<forall>m \<in> set ms. is_data m" and "unfinished rest"
    and "process_all P (sv_disk s) (sv_files s) ms = (fs', acks)"
  shows "sv_files (fold (run_event P) evs s) = fs' \<and> out_stream h (fold (run_event P) evs s) = out_stream h s @ concat (map ack_bytes acks)"
  using assms(2-)
proof (induction evs arbitrary: s buf ms acks)
  case Nil
  then have "ms = []" using session_at_unfinished [OF Nil.prems(1)] unfinished_no_message [of ms rest] by (simp add: is_data_def)
  then show ?case using Nil.prems by simp
next
  case (Cons ev evs)
  have whole: "(buf @ ev_bytes ev) @ concat (map ev_bytes evs) = concat (map msg_bytes ms) @ rest" using Cons.prems(3) by simp
  from arrived_messages [OF whole _ Cons.prems(5)] Cons.prems(4) obtain n rest' where
    got: "buf @ ev_bytes ev = concat (map msg_bytes (take n ms)) @ rest'" "unfinished rest'" by (auto simp: is_data_def)
  obtain fs1 a1 where p1: "process_all P (sv_disk s) (sv_files s) (take n ms) = (fs1, a1)" by (metis surj_pair)
  obtain fs2 a2 where p2: "process_all P (sv_disk s) fs1 (drop n ms) = (fs2, a2)" by (metis surj_pair)
  have res: "fs' = fs2" "acks = a1 @ a2" using Cons.prems(6) process_all_append [of P "sv_disk s" "sv_files s" "take n ms" "drop n ms"] p1 p2 by simp_all
  have sub: "\<forall>m \<in> set (take n ms). is_data m" "\<forall>m \<in> set (drop n ms). is_data m"
    using Cons.prems(4) by (meson in_set_takeD, meson in_set_dropD)
  define t where "t = run_event P ev s"
  have t: "session_at h rest' t" "sv_files t = fs1" "sv_disk t = sv_disk s" "out_stream h t = out_stream h s @ concat (map ack_bytes a1)"
    using event_step [OF assms(1) Cons.prems(1) _ _ _ got(1) sub(1) got(2) p1 t_def] Cons.prems(2) by auto
  have cut: "concat (map msg_bytes ms) = concat (map msg_bytes (take n ms)) @ concat (map msg_bytes (drop n ms))"
    by (metis append_take_drop_id concat_append map_append)
  have "rest' @ concat (map ev_bytes evs) = concat (map msg_bytes (drop n ms)) @ rest" using whole unfolding got(1) cut by (simp only: append_assoc same_append_eq)
  moreover have "process_all P (sv_disk t) (sv_files t) (drop n ms) = (fs', a2)" using p2 by (simp only: t(2,3) res(1))
  moreover have "\<forall>ev \<in> set evs. ev_fd ev = h \<and> \<not> ev_err ev \<and> rx_plain (ev_rx ev)" using Cons.prems(2) by simp
  ultimately have "sv_files (fold (run_event P) evs t) = fs' \<and> out_stream h (fold (run_event P) evs t) = out_stream h t @ concat (map ack_bytes a2)"
    using Cons.IH [OF t(1) _ _ sub(2) Cons.prems(5)] by blast
  then show ?case using t(4) by (simp add: res(2) t_def)
qed

section \<open>Property\<close>

lemma run_event_running: "sv_running (run_event P ev s) = sv_running s"
proof -
  obtain h where "h \<notin> insert (ev_fd ev) (set (ev_accepts ev))"
    using ex_new_if_finite [of "insert (ev_fd ev) (set (ev_accepts ev))"] by (auto simp: infinite_UNIV_int)
  then show ?thesis using foreign_event [of ev h s P] by (auto simp: same_view_def)
qed

text \<open>A loop that is not stopped handles its events one after the other.\<close>

lemma Run_polled: "sv_running s \<Longrightarrow> Run P (map Polled polls) s = fold (run_event P) (concat polls) s"
proof (induction polls arbitrary: s)
  case (Cons evs polls)
  have "sv_running (fold (run_event P) evs s)" using Cons.prems by (induction evs arbitrary: s) (simp_all add: run_event_running)
  then show ?case using Cons by simp
qed simp


text \<open>Connection 5 sends a block after connection 7 was lost.\<close>

definition demo_pair :: Server where
  "demo_pair = (demo_server True)\<lparr> sv_conns := [5 \<mapsto> demo_conn True, 7 \<mapsto> (demo_conn True)\<lparr> c_fd := 7 \<rparr>],
     sv_epoll := [4 \<mapsto> False, 5 \<mapsto> False, 7 \<mapsto> False] \<rparr>"

definition demo_lost :: Event where
  "demo_lost = \<lparr> ev_fd = 7, ev_err = True, ev_in = True, ev_out = False, ev_accepts = [], ev_rx = [] \<rparr>"

definition demo_arrival :: Event where
  "demo_arrival = \<lparr> ev_fd = 5, ev_err = False, ev_in = True, ev_out = True, ev_accepts = [], ev_rx = [Received (msg_bytes demo_data)] \<rparr>"

lemma demo_process: "process_all demo_platform demo_disk demo_files [demo_data]
    = (demo_files(3 := [9, 8, 7, 6, 5, 6]), [\<lparr> ak_BlockIndex = 0, ak_Status = 0, ak_DevNo = 0, ak_Hash = replicate 32 7 \<rparr>])"
  by (simp add: demo_data_def)
    (simp add: Process_def demo_defs Get_def raw_capacity_def block_offset_def ComputeSha256_def do_pwrite_def file_write_def overwrite_def)

lemma demo_pair_session: "session_at 5 [] demo_pair"
proof -
  have "srv_ok demo_pair" using demo_dm_sized by (simp add: srv_ok_def conn_wf_def demo_pair_def)
      (auto simp: demo_server_def Contains_def demo_disk_def)
  then show ?thesis using demo_conn_idle [of True] by (simp add: session_at_def demo_pair_def tx_ok_def demo_server_def ReadPtr_def segment_def)
qed


end
