(* ===== verification/Sync_System.thy ===== *)
theory Sync_System
  imports End_To_End Backup_Engine Server_Sessions
begin

text \<open>
  The synchronous transfer of an incremental backup together with the server, over the bytes of the connection: what
  \<open>TransferBlocks\<close> sends is what the server's connection receives, and what the server answers is what the
  client reads, each cut into segments in any way. Shown is that a block the transfer marks
  acknowledged is in the device's file.
\<close>

section \<open>The client's side\<close>

text \<open>
  The client in step with the server: \<open>ms\<close> was sent, and of the answers \<open>A\<close> as many are read. Or the connection is
  lost, after \<open>ms\<close> and perhaps a part of a further message.
\<close>

definition in_step :: "AckBody list \<Rightarrow> NetworkClient \<Rightarrow> NetworkClient \<Rightarrow> ParsedMessage list \<Rightarrow> bool" where
  "in_step A c0 c ms \<longleftrightarrow> nc_connected c \<and> nc_out c = nc_out c0 @ concat (map msg_bytes ms) \<and> rx_plain (nc_rx c)
     \<and> length ms \<le> length A \<and> rx_stream (nc_rx c) = concat (map ack_msg (drop (length ms) A))"

definition lost :: "NetworkClient \<Rightarrow> NetworkClient \<Rightarrow> ParsedMessage list \<Rightarrow> bool" where
  "lost c0 c ms \<longleftrightarrow> \<not> nc_connected c \<and> (\<exists>rest. unfinished rest \<and> nc_out c = nc_out c0 @ concat (map msg_bytes ms) @ rest)"

definition linked :: "AckBody list \<Rightarrow> NetworkClient \<Rightarrow> NetworkClient \<Rightarrow> ParsedMessage list \<Rightarrow> bool" where
  "linked A c0 c ms \<longleftrightarrow> in_step A c0 c ms \<or> lost c0 c ms"

text \<open>The message was sent and answered positively.\<close>

definition answered :: "AckBody list \<Rightarrow> ParsedMessage list \<Rightarrow> ParsedMessage \<Rightarrow> bool" where
  "answered A ms m \<longleftrightarrow> (\<exists>i < length ms. i < length A \<and> ms ! i = m \<and> ak_Status (A ! i) = 0)"

lemma answered_append: "answered A ms m \<Longrightarrow> answered A (ms @ ms') m"
  unfolding answered_def by (metis length_append nth_append trans_less_add1)

lemma rx_plain_Nil: "rx_plain rx \<Longrightarrow> rx_stream rx = [] \<Longrightarrow> rx = []"
  by (induction rx rule: rx_plain.induct) auto

lemma ReceiveAck_nothing:
  assumes "rx_plain (nc_rx c)" and "rx_stream (nc_rx c) = []"
  shows "ReceiveAck devNo idx c = (c\<lparr> nc_connected := False \<rparr>, False)"
  using rx_plain_Nil [OF assms] by (simp add: ReceiveAck_def RecvAll_def recv_all.simps [of 16] Let_def)

lemma SendBlock_linked:
  assumes link: "linked A c0 c ms" and A: "\<forall>a \<in> set A. length (ak_Hash a) = 32"
    and m: "m = data_msg devNo idx n z hash ver" "length hash = 32" "length z \<le> 2 * BLOCK_SIZE"
    and run: "SendBlock devNo idx n z hash ver c = (c', ok)"
  shows "\<exists>k. linked A c0 c' (ms @ replicate k m) \<and> (ok \<longrightarrow> answered A (ms @ replicate k m) m)"
proof (cases "in_step A c0 c ms")
  case False
  then have "\<not> nc_connected c" using link by (auto simp: linked_def lost_def)
  then have "c' = c \<and> \<not> ok" using run by (simp add: SendBlock_def)
  then show ?thesis using link by (intro exI [of _ 0]) simp
next
  case True
  note step = True [unfolded in_step_def]
  have wf: "wf_msg m" unfolding m(1) using m(2,3) by (rule data_msg_wf)
  obtain c1 sent where s: "SendBlockNoWait devNo idx n z hash ver c = (c1, sent)" by (metis surj_pair)
  show ?thesis
  proof (cases sent)
    case False
    obtain p q where pq: "msg_bytes m = p @ q" "q \<noteq> []" "nc_out c1 = nc_out c @ p" "\<not> nc_connected c1"
      using SendBlockNoWait_False [of devNo idx n z hash ver c c1] s False step m(1) by auto
    have "lost c0 c1 ms" using cut_message_unfinished [OF wf pq(1,2)] pq(3,4) step by (auto simp: lost_def)
    then show ?thesis using run s False by (intro exI [of _ 0]) (simp add: linked_def SendBlock_split)
  next
    case True
    have c1: "nc_out c1 = nc_out c @ msg_bytes m" "nc_connected c1" "nc_rx c1 = nc_rx c"
      using SendBlockNoWait_True [of devNo idx n z hash ver c c1] s True m(1) by auto
    have r: "ReceiveAck devNo idx c1 = (c', ok)" using run s True by (simp add: SendBlock_split)
    show ?thesis
    proof (cases "length ms < length A")
      case False
      then have "c' = c1\<lparr> nc_connected := False \<rparr>" "\<not> ok" using r ReceiveAck_nothing [of c1 devNo idx] step c1(3) by auto
      then have "lost c0 c' (ms @ [m])" using c1(1) step unfinished_Nil by (auto simp: lost_def)
      then show ?thesis using \<open>\<not> ok\<close> by (intro exI [of _ 1]) (simp add: linked_def)
    next
      case True
      define a where "a = A ! length ms"
      have d: "drop (length ms) A = a # drop (Suc (length ms)) A" using True by (simp add: a_def Cons_nth_drop_Suc)
      have "length (ak_Hash a) = 32" using A True by (simp add: a_def)
      from ReceiveAck_ack [of c1 a "concat (map ack_msg (drop (Suc (length ms)) A))" devNo idx, OF _ _ this] r step c1(3) d
      obtain rx' where "c' = c1\<lparr> nc_rx := rx' \<rparr>" "ok = (ak_Status a = 0)" "rx_plain rx'"
        "rx_stream rx' = concat (map ack_msg (drop (Suc (length ms)) A))" by auto
      then have "in_step A c0 c' (ms @ [m])" "ok \<longrightarrow> answered A (ms @ [m]) m" using c1 step True
        by (auto simp: in_step_def answered_def a_def intro!: exI [of _ "length ms"])
      then show ?thesis by (intro exI [of _ 1]) (simp add: linked_def)
    qed
  qed
qed

lemma send_retry_linked:
  assumes "linked A c0 c ms" and "\<forall>a \<in> set A. length (ak_Hash a) = 32"
    and "m = data_msg devNo idx n z hash ver" "length hash = 32" "length z \<le> 2 * BLOCK_SIZE"
    and "send_retry False (SendBlock devNo idx n z hash ver) idx tries c st = (c', st', ok)"
  shows "\<exists>k. linked A c0 c' (ms @ replicate k m) \<and> (ok \<longrightarrow> answered A (ms @ replicate k m) m)"
  using assms(1,6)
proof (induction tries arbitrary: c st ms)
  case 0
  then show ?case by (intro exI [of _ 0]) simp
next
  case (Suc tries)
  obtain c1 ok1 where s: "SendBlock devNo idx n z hash ver c = (c1, ok1)" by (metis surj_pair)
  obtain k where k: "linked A c0 c1 (ms @ replicate k m)" "ok1 \<longrightarrow> answered A (ms @ replicate k m) m"
    using SendBlock_linked [OF Suc.prems(1) assms(2-5) s] by blast
  show ?case
  proof (cases ok1)
    case True
    then show ?thesis using Suc.prems(2) s k by (auto simp: Let_def)
  next
    case False
    then have "send_retry False (SendBlock devNo idx n z hash ver) idx tries c1 (fst (SetBlockAck idx AckFailed st)) = (c', st', ok)"
      using Suc.prems(2) s by (simp add: Let_def)
    from Suc.IH [OF k(1) this] obtain l where
      "linked A c0 c' ((ms @ replicate k m) @ replicate l m)" "ok \<longrightarrow> answered A ((ms @ replicate k m) @ replicate l m) m" by blast
    then show ?thesis by (intro exI [of _ "k + l"]) (simp add: replicate_add)
  qed
qed

section \<open>The transfer\<close>

text \<open>A message of block \<open>b\<close> with the contents \<open>data\<close>.\<close>

definition sent_as :: "transfer_job \<Rightarrow> BlockState \<Rightarrow> byte list \<Rightarrow> ParsedMessage \<Rightarrow> bool" where
  "sent_as j b data m \<longleftrightarrow> (\<exists>z. read_buffer (tj_source j) (bs_Offset b) (transfer_size (tj_total j) b) = (data, True)
     \<and> Compress (tj_win j) (tj_compressor j) data = Some z
     \<and> m = data_msg (word_of_int (tj_devNo j)) (bs_BlockIndex b) (transfer_size (tj_total j) b) z (bs_Hash b) (tj_version j))"

text \<open>The compressor does not more than double a block.\<close>

definition modest :: "transfer_job \<Rightarrow> bool" where
  "modest j \<longleftrightarrow> (\<forall>d z. Compress (tj_win j) (tj_compressor j) d = Some z \<longrightarrow> length d \<le> BLOCK_SIZE \<longrightarrow> length z \<le> 2 * BLOCK_SIZE)"

lemma transfer_size_le: "unat (transfer_size n b) \<le> BLOCK_SIZE"
proof -
  have "unat (ucast r :: u32) = unat r" if "r < (BLOCK_SIZE :: u64)" for r :: u64
    using that by (simp add: unsigned_ucast_eq word_less_nat_alt take_bit_nat_eq_self)
  then show ?thesis by (auto simp: transfer_size_def Let_def word_less_nat_alt)
qed

lemma length_read_buffer: "length (fst (read_buffer src off n)) = unat n"
  by (auto simp: read_buffer_def split: option.split)

lemma transfer_block_linked:
  assumes link: "linked A c0 (tr_client t) ms" and A: "\<forall>a \<in> set A. length (ak_Hash a) = 32"
    and job: "\<not> tj_dry j" "modest j" and b: "length (bs_Hash b) = 32"
  shows "\<exists>ms'. linked A c0 (tr_client (transfer_block j b t)) (ms @ ms') \<and> (\<forall>m \<in> set ms'. \<exists>d. sent_as j b d m)
    \<and> (tr_sent (transfer_block j b t) \<noteq> tr_sent t \<longrightarrow> (\<exists>m d. sent_as j b d m \<and> answered A (ms @ ms') m))"
proof -
  define n where "n = transfer_size (tj_total j) b"
  obtain data readOk where r: "read_buffer (tj_source j) (bs_Offset b) n = (data, readOk)" by fastforce
  show ?thesis
  proof (cases "readOk \<and> Compress (tj_win j) (tj_compressor j) data \<noteq> None")
    case False
    then have "transfer_block j b t = t" using r job(1) by (auto simp: transfer_block_def Let_def n_def)
    then show ?thesis using link by (intro exI [of _ "[]"]) simp
  next
    case True
    then obtain z where z: "Compress (tj_win j) (tj_compressor j) data = Some z" by blast
    define m where "m = data_msg (word_of_int (tj_devNo j)) (bs_BlockIndex b) n z (bs_Hash b) (tj_version j)"
    have sent: "sent_as j b data m" using r z True by (auto simp: sent_as_def m_def n_def)
    have "length data \<le> BLOCK_SIZE" using length_read_buffer [of "tj_source j" "bs_Offset b" n] r transfer_size_le [of "tj_total j" b] by (simp add: n_def)
    then have small: "length z \<le> 2 * BLOCK_SIZE" using job(2) z by (simp add: modest_def)
    obtain c' st ok where s: "send_retry False (SendBlock (word_of_int (tj_devNo j)) (bs_BlockIndex b) n z (bs_Hash b) (tj_version j))
        (bs_BlockIndex b) (nat (tj_retry j + 1)) (tr_client t) (tr_state t) = (c', st, ok)" by (metis prod_cases3)
    have t': "tr_client (transfer_block j b t) = c'" "tr_sent (transfer_block j b t) = tr_sent t + of_bool ok"
      using r z s True job(1) by (auto simp: transfer_block_def Let_def n_def split: prod.splits)
    obtain k where "linked A c0 c' (ms @ replicate k m)" "ok \<longrightarrow> answered A (ms @ replicate k m) m"
      using send_retry_linked [OF link A m_def b small s] by blast
    then show ?thesis using t' sent by (intro exI [of _ "replicate k m"]) auto
  qed
qed

lemma transfer_fold_linked:
  assumes A: "\<forall>a \<in> set A. length (ak_Hash a) = 32" and job: "\<not> tj_dry j" "modest j"
    and "distinct (map bs_BlockIndex bs)" "\<forall>b \<in> set bs. length (bs_Hash b) = 32 \<and> unat (bs_BlockIndex b) < length (ack_states (tr_state t))
      \<and> ack_states (tr_state t) ! unat (bs_BlockIndex b) \<noteq> AckAcknowledged"
    and "linked A c0 (tr_client t) ms"
  shows "\<exists>ms'. linked A c0 (tr_client (fold (transfer_block j) bs t)) (ms @ ms') \<and> (\<forall>m \<in> set ms'. \<exists>b \<in> set bs. \<exists>d. sent_as j b d m)
    \<and> (\<forall>b \<in> set bs. ack_states (tr_state (fold (transfer_block j) bs t)) ! unat (bs_BlockIndex b) = AckAcknowledged
         \<longrightarrow> (\<exists>m d. sent_as j b d m \<and> answered A (ms @ ms') m))"
  using assms(4-6)
proof (induction bs arbitrary: t ms)
  case Nil
  then show ?case by (intro exI [of _ "[]"]) simp
next
  case (Cons b bs)
  define t1 where "t1 = transfer_block j b t"
  define t2 where "t2 = fold (transfer_block j) bs t1"
  obtain ms1 where 1: "linked A c0 (tr_client t1) (ms @ ms1)" "\<forall>m \<in> set ms1. \<exists>d. sent_as j b d m"
    "tr_sent t1 \<noteq> tr_sent t \<longrightarrow> (\<exists>m d. sent_as j b d m \<and> answered A (ms @ ms1) m)"
    using transfer_block_linked [OF Cons.prems(3) A job, of b] Cons.prems(2) unfolding t1_def by auto
  obtain a ok where st: "ack_states (tr_state t1) = (ack_states (tr_state t))[unat (bs_BlockIndex b) := a]" "tr_sent t1 = tr_sent t + of_bool ok"
    "if ok then a = AckAcknowledged else a = AckFailed \<or> a = ack_states (tr_state t) ! unat (bs_BlockIndex b)"
    using transfer_block_states [of j b t] unfolding t1_def by blast
  have other: "unat (bs_BlockIndex b) \<noteq> unat (bs_BlockIndex x)" if "x \<in> set bs" for x
    using Cons.prems(1) that by (auto simp flip: word_unat_eq_iff)
  have pre: "\<forall>x \<in> set bs. length (bs_Hash x) = 32 \<and> unat (bs_BlockIndex x) < length (ack_states (tr_state t1))
      \<and> ack_states (tr_state t1) ! unat (bs_BlockIndex x) \<noteq> AckAcknowledged"
    using Cons.prems(2) other by (auto simp: st(1))
  obtain ms2 where 2: "linked A c0 (tr_client t2) ((ms @ ms1) @ ms2)" "\<forall>m \<in> set ms2. \<exists>x \<in> set bs. \<exists>d. sent_as j x d m"
    "\<forall>x \<in> set bs. ack_states (tr_state t2) ! unat (bs_BlockIndex x) = AckAcknowledged \<longrightarrow> (\<exists>m d. sent_as j x d m \<and> answered A ((ms @ ms1) @ ms2) m)"
    using Cons.IH [OF _ pre 1(1)] Cons.prems(1) unfolding t2_def by auto
  have "unat (bs_BlockIndex b) \<notin> unat ` bs_BlockIndex ` set bs" using other by auto
  moreover have "\<forall>k. k \<notin> unat ` bs_BlockIndex ` set bs \<longrightarrow> ack_states (tr_state t2) ! k = ack_states (tr_state t1) ! k"
    using transfer_fold [of bs t1 t2 j] Cons.prems(1) pre by (simp add: t2_def)
  ultimately have "ack_states (tr_state t2) ! unat (bs_BlockIndex b) = a" using Cons.prems(2) by (simp add: st(1))
  moreover have "ok" if "a = AckAcknowledged" using st(3) that Cons.prems(2) by (auto split: if_splits)
  ultimately have "ack_states (tr_state t2) ! unat (bs_BlockIndex b) = AckAcknowledged \<longrightarrow> (\<exists>m d. sent_as j b d m \<and> answered A ((ms @ ms1) @ ms2) m)"
    using 1(3) st(2) answered_append by (metis add_left_cancel add.right_neutral of_bool_eq(2) one_neq_zero)
  then show ?case using 1(2) 2 by (intro exI [of _ "ms1 @ ms2"]) (auto simp: t1_def t2_def)
qed

section \<open>The server's side\<close>

text \<open>Messages that carry blocks of the contents \<open>D\<close> to the device.\<close>

definition carries :: "Platform \<Rightarrow> u32 \<Rightarrow> (u64 \<Rightarrow> byte list) \<Rightarrow> ParsedMessage \<Rightarrow> u64 \<Rightarrow> bool" where
  "carries P devno D m i \<longleftrightarrow> (\<exists>n z hash ver. m = data_msg devno i n z hash ver \<and> length hash = 32 \<and> length z \<le> 2 * BLOCK_SIZE
     \<and> unat i < 2 ^ 43 \<and> uncompress2 P raw_capacity z = Some (D i))"

lemma process_all_holds:
  assumes small: "\<And>b. length (D b) \<le> BLOCK_SIZE" and P: "pwrite_ok P" and "dm_sized dm fs"
    and "process_all P dm fs ms = (fs', acks)" and "\<forall>m \<in> set ms. \<exists>i. carries P devno D m i"
  shows "(\<forall>b. holds dm devno D fs b \<longrightarrow> holds dm devno D fs' b)
    \<and> (\<forall>k i. k < length ms \<longrightarrow> ak_Status (acks ! k) = 0 \<longrightarrow> carries P devno D (ms ! k) i \<longrightarrow> holds dm devno D fs' i)"
  using assms(3-5)
proof (induction ms arbitrary: fs acks)
  case (Cons m ms)
  define bh where "bh = BlockHeader_of (take 52 (pm_body m))"
  have car: "bh_BlockIndex bh = i \<and> mh_DevNo (pm_header m) = devno \<and> unat i < 2 ^ 43
    \<and> uncompress2 P raw_capacity (take (unat (bh_CompressedSize bh)) (drop 52 (pm_body m))) = Some (D i)" if c: "carries P devno D m i" for i
  proof -
    obtain n z hash ver where m: "m = data_msg devno i n z hash ver" "length hash = 32" "length z \<le> 2 * BLOCK_SIZE" "unat i < 2 ^ 43"
      "uncompress2 P raw_capacity z = Some (D i)" using c by (auto simp: carries_def)
    have "length (bh_Hash (client_block i n z hash ver)) = 32" using m(2) by (simp add: client_block_def)
    then have "bh = client_block i n z hash ver" "drop 52 (pm_body m) = z" by (simp_all add: bh_def m(1) data_msg_def)
    then show ?thesis using m by (simp add: client_block_def data_msg_def client_header_def unat_of_nat)
  qed
  obtain i where i: "carries P devno D m i" using Cons.prems(3) by auto
  note ci = car [OF i]
  obtain fs1 ack st where pr: "Process P dm fs devno bh (drop 52 (pm_body m)) = (fs1, ack, st)" by (metis prod_cases3)
  obtain fs2 acks2 where rest: "process_all P dm fs1 ms = (fs2, acks2)" by (metis surj_pair)
  have res: "fs' = fs2" "acks = ack # acks2" using Cons.prems(2) pr rest ci by (simp_all add: bh_def)
  note h = Process_holds [where D = D, OF small P Cons.prems(1) _ _ pr]
  note IH = Cons.IH [OF Process_dm_sized [OF pr P Cons.prems(1)] rest [folded res(1)]]
  have keep: "holds dm devno D fs b \<Longrightarrow> holds dm devno D fs1 b" and first: "ak_Status ack = 0 \<Longrightarrow> holds dm devno D fs1 i" for b
    using h ci Process_ack [OF pr] ack_code_OK by auto
  show ?case
  proof (intro conjI allI impI)
    show "holds dm devno D fs' b" if "holds dm devno D fs b" for b using keep that IH Cons.prems(3) res(1) by auto
    fix k l assume k: "k < length (m # ms)" "ak_Status (acks ! k) = 0" "carries P devno D ((m # ms) ! k) l"
    show "holds dm devno D fs' l"
    proof (cases k)
      case 0
      then have "l = i" using car [of l] ci k(3) by simp
      then show ?thesis using first k(2) 0 res IH Cons.prems(3) by auto
    next
      case (Suc k')
      then show ?thesis using k res IH Cons.prems(3) by auto
    qed
  qed
qed simp

lemma ack_stream_prefix:
  assumes "concat (map ack_msg A) @ later = concat (map ack_msg B)" and "\<forall>a \<in> set A \<union> set B. length (ak_Hash a) = 32"
  shows "length A \<le> length B \<and> (\<forall>k < length A. B ! k = A ! k)"
  using assms
proof (induction A arbitrary: B)
  case (Cons a A)
  have ne: "ack_msg a \<noteq> []" by (rule ack_msg_nonempty)
  then obtain b B' where B: "B = b # B'" using Cons.prems(1) by (cases B) auto
  have "a = b \<and> concat (map ack_msg A) @ later = concat (map ack_msg B')"
  proof -
    have l: "length (ak_Hash a) = 32" "length (ak_Hash b) = 32" using Cons.prems(2) B by auto
    then have "length (ack_msg a) = length (ack_msg b)" by (simp add: ack_msg_def)
    then have "ack_msg a = ack_msg b" "concat (map ack_msg A) @ later = concat (map ack_msg B')"
      using Cons.prems(1) B by (simp_all add: append_eq_append_conv)
    moreover have "AckBody_of (drop 16 (ack_msg x)) = x" if "length (ak_Hash x) = 32" for x
      using that by (simp add: ack_msg_def)
    ultimately show ?thesis using l by metis
  qed
  then show ?case using Cons.IH [of B'] Cons.prems(2) B by (auto simp: nth_Cons split: nat.split)
qed simp

lemma process_all_hashes:
  assumes "process_all P dm fs ms = (fs', acks)" and "\<forall>m \<in> set ms. \<exists>i. carries P devno D m i"
  shows "\<forall>a \<in> set acks. length (ak_Hash a) = 32"
  using assms
proof (induction ms arbitrary: fs acks)
  case (Cons m ms)
  then obtain i n z hash ver where m: "m = data_msg devno i n z hash ver" "length hash = 32" by (auto simp: carries_def)
  obtain fs1 ack st where pr: "Process P dm fs (mh_DevNo (pm_header m)) (BlockHeader_of (take 52 (pm_body m))) (drop 52 (pm_body m)) = (fs1, ack, st)"
    by (metis prod_cases3)
  obtain fs2 acks2 where rest: "process_all P dm fs1 ms = (fs2, acks2)" by (metis surj_pair)
  have "length (bh_Hash (client_block i n z hash ver)) = 32" using m(2) by (simp add: client_block_def)
  then have "length (ak_Hash ack) = 32" unfolding Process_ack [OF pr] by (simp add: m(1) data_msg_def)
  then show ?case using Cons pr rest by auto
qed simp

section \<open>Property\<close>

definition table_bytes :: "transfer_job \<Rightarrow> u64 \<Rightarrow> byte list" where
  "table_bytes j i = fst (read_buffer (tj_source j) (i * BLOCK_SIZE) BLOCK_SIZE)"

lemma length_table_bytes: "length (table_bytes j i) = BLOCK_SIZE"
  by (simp add: table_bytes_def length_read_buffer)

lemma sent_as_carries:
  assumes "sent_as j b d m" and b: "bs_Offset b = bs_BlockIndex b * BLOCK_SIZE" "length (bs_Hash b) = 32" "unat (bs_BlockIndex b) < 2 ^ 43"
    and codec: "deflate_api inflate (tj_win j)" "zlib_ok inflate P" "modest j"
  shows "carries P (word_of_int (tj_devNo j)) (table_bytes j) m (bs_BlockIndex b) \<and> d = table_bytes j (bs_BlockIndex b)
    \<and> read_buffer (tj_source j) (bs_BlockIndex b * BLOCK_SIZE) BLOCK_SIZE = (d, True)"
proof -
  obtain z where r: "read_buffer (tj_source j) (bs_BlockIndex b * BLOCK_SIZE) BLOCK_SIZE = (d, True)"
    and z: "Compress (tj_win j) (tj_compressor j) d = Some z"
    and m: "m = data_msg (word_of_int (tj_devNo j)) (bs_BlockIndex b) BLOCK_SIZE z (bs_Hash b) (tj_version j)"
    using assms(1) by (auto simp: sent_as_def transfer_size_full [OF b(1)] b(1))
  have d: "d = table_bytes j (bs_BlockIndex b)" using r by (simp add: table_bytes_def)
  have l: "length d = BLOCK_SIZE" unfolding d by (rule length_table_bytes)
  have "d \<noteq> []" "length d \<le> BLOCK_SIZE" using l by auto
  from uncompress_compressed [OF z codec(1,2) this] have "uncompress2 P raw_capacity z = Some d" .
  moreover have "length z \<le> 2 * BLOCK_SIZE" using codec(3) z l by (simp add: modest_def)
  ultimately show ?thesis using m b r d by (auto simp: carries_def)
qed

text \<open>The client's half: the messages of a transfer, and what an acknowledged block means for them.\<close>

lemma pending_block:
  assumes "bsm_wf m" and "length (m_blocks m) \<le> 2 ^ 43" and "b \<in> set (GetPendingBlocks m)"
  shows "bs_Offset b = bs_BlockIndex b * BLOCK_SIZE \<and> length (bs_Hash b) = 32 \<and> unat (bs_BlockIndex b) < 2 ^ 43"
proof -
  obtain i where i: "i < length (m_blocks m)" "b = m_blocks m ! i" using assms(3) by (auto simp: GetPendingBlocks_def in_set_conv_nth)
  then have "bs_BlockIndex b = of_nat i" "bs_Offset b = of_nat i * BLOCK_SIZE" "length (bs_Hash b) = 32"
    using assms(1) by (auto simp: bsm_wf_def blocks_wf_def)
  then show ?thesis using i(1) assms(2) by (simp add: unat_of_nat)
qed

lemma transfer_messages:
  assumes table: "bsm_wf m" "length (m_blocks m) \<le> 2 ^ 43" and job: "\<not> tj_dry j" "modest j"
    and run: "TransferBlocks j c m cfs = t" "nc_connected c"
    and reply: "rx_plain (nc_rx c)" "rx_stream (nc_rx c) = concat (map ack_msg A)" "\<forall>a \<in> set A. length (ak_Hash a) = 32"
  obtains ms where "linked A c (tr_client t) ms" and "\<forall>x \<in> set ms. \<exists>b \<in> set (GetPendingBlocks m). \<exists>d. sent_as j b d x"
    and "\<And>k. k < length (m_blocks m) \<Longrightarrow> NeedsUpload (m_blocks m ! k) \<Longrightarrow> bs_Ack (m_blocks (tr_state t) ! k) = AckAcknowledged
      \<Longrightarrow> \<exists>x d. sent_as j (m_blocks m ! k) d x \<and> answered A ms x"
proof -
  define bs where "bs = GetPendingBlocks m"
  define t0 where "t0 = \<lparr> tr_client = c, tr_state = m, tr_files = cfs, tr_sent = 0, tr_acked = 0, tr_compressed = 0 \<rparr>"
  have small: "length (m_blocks m) < 2 ^ 64" using table(2) by simp
  have t: "t = fold (transfer_block j) bs t0" using run(1) by (simp add: TransferBlocks_def bs_def t0_def)
  note pend = pending_distinct [OF table(1) small]
  note start = transfer_start [OF table(1) small subset_refl pend(1)]
  have "linked A c c []" using run(2) reply by (simp add: linked_def in_step_def)
  with transfer_fold_linked [OF reply(3) job, of bs t0 c "[]"] pend(1) pending_block [OF table] start
  obtain ms where link: "linked A c (tr_client t) ms" "\<forall>x \<in> set ms. \<exists>b \<in> set bs. \<exists>d. sent_as j b d x"
    and ack: "\<forall>b \<in> set bs. ack_states (tr_state t) ! unat (bs_BlockIndex b) = AckAcknowledged \<longrightarrow> (\<exists>x d. sent_as j b d x \<and> answered A ms x)"
    by (auto simp: t0_def bs_def t)
  have len: "length (m_blocks (tr_state t)) = length (m_blocks m)"
    using transfer_fold [of bs t0 t j] t pend(1) start by (simp add: t0_def bs_def ack_states_def)
  have "\<exists>x d. sent_as j (m_blocks m ! k) d x \<and> answered A ms x"
    if k: "k < length (m_blocks m)" "NeedsUpload (m_blocks m ! k)" "bs_Ack (m_blocks (tr_state t) ! k) = AckAcknowledged" for k
  proof -
    have "m_blocks m ! k \<in> set bs" "bs_BlockIndex (m_blocks m ! k) = of_nat k" "unat (of_nat k :: u64) = k"
      using k(1,2) table(1) small by (auto simp: bs_def GetPendingBlocks_def bsm_wf_def blocks_wf_def unat_of_nat)
    then show ?thesis using ack k(1,3) len by (simp add: ack_states_def)
  qed
  with link show thesis using that by (simp add: bs_def)
qed

text \<open>The server's half: the block of a message whose answer the client has read is in the file.\<close>

lemma answered_holds:
  assumes server: "pwrite_ok P" "session_at h [] s"
    and wire: "\<forall>ev \<in> set evs. ev_fd ev = h \<and> \<not> ev_err ev \<and> rx_plain (ev_rx ev)" "concat (map ev_bytes evs) @ underway = concat (map msg_bytes ms) @ rest"
      "unfinished rest" "out_stream h (fold (run_event P) evs s) = out_stream h s @ concat (map ack_msg A) @ unread"
    and small: "\<And>b. length (D b) \<le> BLOCK_SIZE" and all: "\<forall>x \<in> set ms. \<exists>i. carries P dev D x i" and hashes: "\<forall>a \<in> set A. length (ak_Hash a) = 32"
    and x: "answered A ms x" "carries P dev D x i"
  shows "holds (sv_disk s) dev D (sv_files (fold (run_event P) evs s)) i"
proof -
  have data: "\<forall>x \<in> set ms. is_data x" using all data_msg_is_data by (auto simp: carries_def)
  obtain n rest' where got: "concat (map ev_bytes evs) = concat (map msg_bytes (take n ms)) @ rest'" "unfinished rest'"
    using arrived_messages [OF wire(2) _ wire(3)] data by (auto simp: is_data_def)
  have sub: "set (take n ms) \<subseteq> set ms" by (rule set_take_subset)
  then have part: "\<forall>x \<in> set (take n ms). \<exists>i. carries P dev D x i" and "\<forall>x \<in> set (take n ms). is_data x" using all data by blast+
  obtain fs' acks where pa: "process_all P (sv_disk s) (sv_files s) (take n ms) = (fs', acks)" by (metis surj_pair)
  have "ack_bytes = ack_msg" using ack_msg_bytes by (intro ext) simp
  with events_data [OF server wire(1) _ \<open>\<forall>x \<in> set (take n ms). is_data x\<close> got(2) pa] got(1) wire(4)
  have files: "sv_files (fold (run_event P) evs s) = fs'" and "concat (map ack_msg A) @ unread = concat (map ack_msg acks)" by auto
  then have ans: "length A \<le> length acks" "\<And>i. i < length A \<Longrightarrow> acks ! i = A ! i"
    using ack_stream_prefix [of A unread acks] hashes process_all_hashes [OF pa part] by auto
  obtain k where k: "k < length A" "ms ! k = x" "ak_Status (A ! k) = 0" using x(1) by (auto simp: answered_def)
  have "k < length (take n ms)" using ans(1) k(1) process_all_length [OF pa] by simp
  moreover have "dm_sized (sv_disk s) (sv_files s)" using server(2) by (simp add: session_at_def srv_ok_def)
  ultimately show ?thesis using process_all_holds [where D = D, OF small server(1) _ pa part] k(2,3) ans(2) [OF k(1)] x(2) files by simp
qed

text \<open>Among other connections that leave the device's file alone.\<close>

abbreviation device_files :: "Server \<Rightarrow> u32 \<Rightarrow> int set" where
  "device_files s dev \<equiv> bf_fd ` set_option (Get (sv_disk s) dev)"

lemma answered_holds_among:
  assumes server: "pwrite_ok P" "session_at h [] s" and run: "s' = fold (run_event P) evs s"
    and others: "left_to h (device_files s dev) P evs s"
    and wire: "\<forall>ev \<in> set evs. ev_fd ev = h \<longrightarrow> \<not> ev_err ev \<and> rx_plain (ev_rx ev)"
      "concat (map ev_bytes (filter (\<lambda>ev. ev_fd ev = h) evs)) @ underway = concat (map msg_bytes ms) @ rest"
      "unfinished rest" "out_stream h s' = out_stream h s @ concat (map ack_msg A) @ unread"
    and "\<And>b. length (D b) \<le> BLOCK_SIZE" "\<forall>x \<in> set ms. \<exists>i. carries P dev D x i" "\<forall>a \<in> set A. length (ak_Hash a) = 32"
      "answered A ms x" "carries P dev D x i"
  shows "holds (sv_disk s) dev D (sv_files s') i"
proof -
  define own where "own = filter (\<lambda>ev. ev_fd ev = h) evs"
  have same: "same_view h (device_files s dev) s' (fold (run_event P) own s)" unfolding run own_def by (rule run_separate [OF others])
  then have "out_stream h (fold (run_event P) own s) = out_stream h s @ concat (map ack_msg A) @ unread" using wire(4) by (simp add: same_view_def out_stream_def)
  moreover have "\<forall>ev \<in> set own. ev_fd ev = h \<and> \<not> ev_err ev \<and> rx_plain (ev_rx ev)" using wire(1) by (simp add: own_def)
  ultimately have "holds (sv_disk s) dev D (sv_files (fold (run_event P) own s)) i"
    using answered_holds [OF server _ wire(2,3) [folded own_def] _ assms(9-13)] by blast
  then show ?thesis using same by (auto simp: holds_def same_view_def)
qed

text \<open>
  C4. A block that an incremental backup marks acknowledged is on the server: for the synchronous transfer over a session whose bytes reach
  the server and whose answers the client reads, cut in any way, with retries, refusals and a connection that
  may break at any point, among any other connections of the server that leave the device's file alone, every block of the
  table that becomes acknowledged is in the device's file at its place, with the bytes read from the source.
\<close>

theorem transfer_on_server:
  assumes table: "bsm_wf m" "length (m_blocks m) \<le> 2 ^ 43"
    and job: "\<not> tj_dry j" "deflate_api inflate (tj_win j)" "zlib_ok inflate P" "modest j"
    and run: "TransferBlocks j c m cfs = t" "nc_connected c"
    and reply: "rx_plain (nc_rx c)" "rx_stream (nc_rx c) = concat (map ack_msg A)" "\<forall>a \<in> set A. length (ak_Hash a) = 32"
    and server: "pwrite_ok P" "sv_running s" "session_at h [] s" "s' = Run P (map Polled polls) s"
      "left_to h (device_files s (word_of_int (tj_devNo j))) P (concat polls) s"
    and wire: "\<forall>ev \<in> set (concat polls). ev_fd ev = h \<longrightarrow> \<not> ev_err ev \<and> rx_plain (ev_rx ev)"
      "nc_out (tr_client t) = nc_out c @ concat (map ev_bytes (filter (\<lambda>ev. ev_fd ev = h) (concat polls))) @ underway"
      "out_stream h s' = out_stream h s @ rx_stream (nc_rx c) @ unread"
    and block: "k < length (m_blocks m)" "NeedsUpload (m_blocks m ! k)" "bs_Ack (m_blocks (tr_state t) ! k) = AckAcknowledged"
  shows "\<exists>bf data. Get (sv_disk s) (word_of_int (tj_devNo j)) = Some bf
    \<and> read_buffer (tj_source j) (of_nat k * BLOCK_SIZE) BLOCK_SIZE = (data, True)
    \<and> segment (k * BLOCK_SIZE) BLOCK_SIZE (sv_files s' (bf_fd bf)) = data"
proof -
  define dev :: u32 where "dev = word_of_int (tj_devNo j)"
  obtain ms where ms: "linked A c (tr_client t) ms" "\<forall>x \<in> set ms. \<exists>b \<in> set (GetPendingBlocks m). \<exists>d. sent_as j b d x"
    and ack: "\<exists>x d. sent_as j (m_blocks m ! k) d x \<and> answered A ms x"
    using transfer_messages [OF table job(1,4) run reply] block by metis
  have car: "carries P dev (table_bytes j) x (bs_BlockIndex b)
      \<and> read_buffer (tj_source j) (bs_BlockIndex b * BLOCK_SIZE) BLOCK_SIZE = (table_bytes j (bs_BlockIndex b), True)"
    if "sent_as j b d x" "b \<in> set (GetPendingBlocks m)" for b d x
    using sent_as_carries [OF that(1)] pending_block [OF table that(2)] job(2-4) by (auto simp: dev_def)
  have all: "\<forall>x \<in> set ms. \<exists>i. carries P dev (table_bytes j) x i" using ms(2) car by blast
  obtain rest where rest: "concat (map ev_bytes (filter (\<lambda>ev. ev_fd ev = h) (concat polls))) @ underway = concat (map msg_bytes ms) @ rest" "unfinished rest"
    using ms(1) wire(2) unfinished_Nil by (auto simp: linked_def in_step_def lost_def)
  have b: "m_blocks m ! k \<in> set (GetPendingBlocks m)" "bs_BlockIndex (m_blocks m ! k) = of_nat k" "unat (of_nat k :: u64) = k"
    using block(1,2) table by (auto simp: GetPendingBlocks_def bsm_wf_def blocks_wf_def unat_of_nat)
  obtain x d where x: "sent_as j (m_blocks m ! k) d x" "answered A ms x" using ack by blast
  note at = car [OF x(1) b(1), unfolded b(2)]
  have "length (table_bytes j i) \<le> BLOCK_SIZE" for i by (simp add: length_table_bytes)
  from answered_holds_among [where D = "table_bytes j", OF server(1,3) server(4) [unfolded Run_polled [OF server(2)]] server(5) [folded dev_def]
      wire(1) rest wire(3) [unfolded reply(2)] this all reply(3) x(2) at [THEN conjunct1]]
  show ?thesis using at b(3) by (auto simp: holds_def length_table_bytes dev_def)
qed

section \<open>Witness\<close>

text \<open>A device of one block, the table of a one-block disk, and a session of one answered block, which arrives in two events with the loss of another connection between them.\<close>

definition sync_image :: "byte list" where
  "sync_image = replicate BLOCK_SIZE 9"

definition sync_platform :: Platform where
  "sync_platform = demo_zlib\<lparr> SHA256 := \<lambda>d. replicate 32 0 \<rparr>"

definition sync_server :: Server where
  "sync_server = demo_pair\<lparr>
     sv_disk := \<lparr> dm_map = [(0, \<lparr> bf_fd = 3, bf_size_bytes = BLOCK_SIZE, bf_path = ''/img'' \<rparr>)], dm_open = [3] \<rparr>,
     sv_files := (\<lambda>fd. if fd = 3 then replicate BLOCK_SIZE 0 else []) \<rparr>"

definition sync_job :: transfer_job where
  "sync_job = demo_transfer\<lparr> tj_source := Some (disk_reader sync_image) \<rparr>"

definition sync_ack :: AckBody where
  "sync_ack = \<lparr> ak_BlockIndex = 0, ak_Status = 0, ak_DevNo = 0, ak_Hash = replicate 32 0 \<rparr>"

definition sync_client :: NetworkClient where
  "sync_client = NetworkClient_new\<lparr> nc_socket := True, nc_connected := True,
     nc_tx := [Sent 100, Sent 100, Sent (3 * BLOCK_SIZE)], nc_rx := [Received (ack_msg sync_ack)] \<rparr>"

lemma length_sync_image: "length sync_image = BLOCK_SIZE"
  unfolding sync_image_def by (rule length_replicate)

lemma sync_platform_ok: "pwrite_ok sync_platform" "zlib_ok inflate_stored sync_platform"
  by (auto simp: pwrite_ok_def zlib_ok_def sync_platform_def demo_zlib_def demo_platform_def)

lemma sync_server_fields:
  "Get (sv_disk sync_server) 0 = Some \<lparr> bf_fd = 3, bf_size_bytes = BLOCK_SIZE, bf_path = ''/img'' \<rparr>"
  "length (sv_files sync_server 3) = BLOCK_SIZE" "sv_running sync_server"
  by (simp_all add: sync_server_def demo_pair_def Get_def demo_server_def)

lemma sync_dm_sized: "dm_sized (sv_disk sync_server) (sv_files sync_server)"
  by (simp add: dm_sized_def sync_server_def Get_def)

lemma sync_session: "session_at 5 [] sync_server"
proof -
  have "sv_conns sync_server = sv_conns demo_pair" "sv_epoll sync_server = sv_epoll demo_pair" "sv_tx sync_server = sv_tx demo_pair"
    "sv_listenFd sync_server = sv_listenFd demo_pair" by (simp_all add: sync_server_def)
  moreover have "Contains (sv_disk sync_server) = Contains (sv_disk demo_pair)"
    by (simp add: fun_eq_iff Contains_def sync_server_def demo_pair_def Block_Processor.demo_disk_def)
  ultimately show ?thesis using demo_pair_session sync_dm_sized by (simp add: session_at_def srv_ok_def conn_wf_def)
qed

lemma demo_win_modest:
  assumes "Compress demo_win c d = Some z" and "length d \<le> BLOCK_SIZE"
  shows "length z \<le> 2 * BLOCK_SIZE"
  using assms by (cases "d = []")
    (auto simp: Compress_def compress_call_def demo_win_def Let_def GetMaxCompressedSize_def WrapDeflateAsZlib_def
      length_stored_blocks be_bytes32_def CreateStoredZlib_def split: if_splits)

lemma modest_sync: "modest sync_job"
  using demo_win_modest by (auto simp: modest_def sync_job_def demo_transfer_def)

lemma sync_compressed: "\<exists>z. Compress demo_win \<lparr> dc_hCompressor = True, dc_initialized = True \<rparr> sync_image = Some z \<and> z \<noteq> []"
  using length_sync_image by (auto simp: Compress_def compress_call_def demo_win_def Let_def GetMaxCompressedSize_def WrapDeflateAsZlib_def)

lemma send_all_once: "d \<noteq> [] \<Longrightarrow> length d \<le> n \<Longrightarrow> send_all (Sent n # tx) d = (d, tx, True)"
  by (simp add: send_all.simps [of "Sent n # _"] send_all.simps [of _ "[]"] Let_def)

lemma sync_sent:
  assumes "z \<noteq> []" and "length z \<le> 2 * BLOCK_SIZE" and "length hash = 32"
  shows "\<exists>c1. SendBlockNoWait dev i n z hash v sync_client = (c1, True)"
proof -
  have l: "length (BlockHeader_bytes (client_block i n z hash v)) = 52" using assms(3) by (simp add: client_block_def)
  then have "BlockHeader_bytes (client_block i n z hash v) \<noteq> []" "MsgHeader_bytes (client_header DATA_BLOCK dev) \<noteq> []"
    by (auto simp flip: length_0_conv)
  then show ?thesis using assms l
    by (simp add: SendBlockNoWait_def SendAll_def sync_client_def send_all_once Let_def)
qed

lemma sync_read: "read_buffer (tj_source sync_job) 0 BLOCK_SIZE = (sync_image, True)"
  using length_sync_image by (simp add: read_buffer_def sync_job_def disk_reader_def segment_def)

definition sync_run :: Transfer where
  "sync_run = TransferBlocks sync_job sync_client demo_table Map.empty"

lemma sync_table: "\<exists>b. m_blocks demo_table = [b] \<and> NeedsUpload b \<and> bs_BlockIndex b = 0 \<and> bs_Offset b = 0 \<and> bs_Hash b = replicate 32 0"
proof -
  obtain v where "m_versions demo_manager = [(0, v)]" using demo_manager_versions by blast
  then show ?thesis by (simp add: demo_table_def InitFullBlocksEmpty_def Let_def fresh_block_def set_version_def NeedsUpload_def)
qed

text \<open>The client's run: one message sent, its block acknowledged.\<close>

lemma sync_run:
  "\<exists>z. Compress demo_win \<lparr> dc_hCompressor = True, dc_initialized = True \<rparr> sync_image = Some z
    \<and> nc_out (tr_client sync_run) = msg_bytes (data_msg 0 0 BLOCK_SIZE z (replicate 32 0) 0)
    \<and> bs_Ack (m_blocks (tr_state sync_run) ! 0) = AckAcknowledged"
proof -
  obtain b where b: "m_blocks demo_table = [b]" "NeedsUpload b" "bs_BlockIndex b = 0" "bs_Offset b = 0" "bs_Hash b = replicate 32 0"
    using sync_table by blast
  obtain z where z: "Compress demo_win \<lparr> dc_hCompressor = True, dc_initialized = True \<rparr> sync_image = Some z" "z \<noteq> []"
    using sync_compressed by blast
  have small: "length z \<le> 2 * BLOCK_SIZE" using demo_win_modest [OF z(1)] length_sync_image by simp
  obtain c1 where c1: "SendBlockNoWait 0 0 BLOCK_SIZE z (replicate 32 0) 0 sync_client = (c1, True)"
    using sync_sent [OF z(2) small] by fastforce
  note sent = SendBlockNoWait_True [OF c1]
  have "rx_plain (nc_rx c1)" "rx_stream (nc_rx c1) = ack_msg sync_ack @ []" "length (ak_Hash sync_ack) = 32"
    using sent ack_msg_nonempty [of sync_ack] by (simp_all add: sync_client_def sync_ack_def)
  from ReceiveAck_ack [OF this, of 0 0] obtain rx where
    r: "SendBlock 0 0 BLOCK_SIZE z (replicate 32 0) 0 sync_client = (c1\<lparr> nc_rx := rx \<rparr>, True)"
    using c1 by (auto simp: SendBlock_split sync_ack_def)
  have retry: "send_retry False (SendBlock 0 0 BLOCK_SIZE z (replicate 32 0) 0) 0 4 sync_client demo_table =
      (c1\<lparr> nc_rx := rx \<rparr>, fst (SetBlockAck 0 AckAcknowledged demo_table), True)"
    using send_retry.simps(2) [of False "SendBlock 0 0 BLOCK_SIZE z (replicate 32 0) 0" 0 3 sync_client demo_table] r by (simp add: Let_def)
  have size: "transfer_size 1 b = BLOCK_SIZE" by (rule transfer_size_full) (simp add: b)
  have job: "tj_total sync_job = 1" "\<not> tj_dry sync_job" "tj_win sync_job = demo_win" "nat (tj_retry sync_job + 1) = 4" "tj_devNo sync_job = 0"
    "tj_version sync_job = 0" "tj_compressor sync_job = \<lparr> dc_hCompressor = True, dc_initialized = True \<rparr>"
    by (simp_all add: sync_job_def demo_transfer_def)
  have run: "sync_run = transfer_block sync_job b \<lparr> tr_client = sync_client, tr_state = demo_table, tr_files = Map.empty, tr_sent = 0, tr_acked = 0, tr_compressed = 0 \<rparr>"
    using b(1,2) by (simp add: sync_run_def TransferBlocks_def GetPendingBlocks_def)
  have "tr_client sync_run = c1\<lparr> nc_rx := rx \<rparr> \<and> tr_state sync_run = fst (SetBlockAck 0 AckAcknowledged demo_table)"
    unfolding run using b size sync_read z(1) retry job by (simp add: transfer_block_def Let_def)
  then show ?thesis using z(1) sent b(1)
    by (auto simp: SetBlockAck_def ack_block_def set_version_def Let_def sync_client_def NetworkClient_new_def split: option.split)
qed

text \<open>The server's run on that message, its first 30 bytes in an event of their own, then connection 7 is lost.\<close>

definition piece :: "byte list \<Rightarrow> Event" where
  "piece bs = demo_arrival\<lparr> ev_rx := [Received bs] \<rparr>"

definition sync_polls :: "byte list \<Rightarrow> Event list list" where
  "sync_polls bs = [[piece (take 30 bs), demo_lost], [piece (drop 30 bs)]]"

lemma error_keeps_files: "ev_err ev \<Longrightarrow> ev_accepts ev = [] \<Longrightarrow> sv_files (run_event P ev s) = sv_files s"
  by (auto simp: run_event_def Let_def HandleConnError_def CloseConn_def touch_def split: option.split)

lemma sync_left: "left_to 5 F P (concat (sync_polls bs)) s"
  using error_keeps_files [of demo_lost]
  by (auto simp: left_to_def sync_polls_def less_Suc_eq numeral_3_eq_3 piece_def demo_arrival_def demo_lost_def)

lemma sync_own: "filter (\<lambda>ev. ev_fd ev = 5) (concat (sync_polls bs)) = [piece (take 30 bs), piece (drop 30 bs)]"
  by (simp add: sync_polls_def piece_def demo_arrival_def demo_lost_def)

lemma sync_events:
  assumes "68 \<le> length frame"
  shows "\<forall>ev \<in> set [piece (take 30 frame), piece (drop 30 frame)]. ev_fd ev = 5 \<and> \<not> ev_err ev \<and> rx_plain (ev_rx ev)"
    and "concat (map ev_bytes [piece (take 30 frame), piece (drop 30 frame)]) = frame"
  using assms by (auto simp: piece_def demo_arrival_def ev_bytes_def)

lemma sync_served:
  assumes z: "Compress demo_win \<lparr> dc_hCompressor = True, dc_initialized = True \<rparr> sync_image = Some z"
    and frame: "frame = msg_bytes (data_msg 0 0 BLOCK_SIZE z (replicate 32 0) 0)"
  shows "68 \<le> length frame"
    and "out_stream 5 (Run sync_platform (map Polled (sync_polls frame)) sync_server) = out_stream 5 sync_server @ ack_msg sync_ack"
proof -
  let ?m = "data_msg 0 0 BLOCK_SIZE z (replicate 32 0) 0"
  have small: "length z \<le> 2 * BLOCK_SIZE" using demo_win_modest [OF z] length_sync_image by simp
  show len: "68 \<le> length frame" by (simp add: frame msg_bytes_def data_msg_def client_block_def)
  have data: "\<forall>m \<in> set [?m]. is_data m" using small data_msg_is_data by simp
  have ne: "sync_image \<noteq> []" using length_sync_image by auto
  define fs' where "fs' = (sv_files sync_server)(3 := overwrite (sv_files sync_server 3) 0 sync_image)"
  have "ingest sync_platform (sv_disk sync_server) (sv_files sync_server) 0 0 (length sync_image) (SHA256 sync_platform sync_image) z = (fs', OK)"
    using ingest_compressed [OF z demo_win_api sync_platform_ok(2) _ _ sync_server_fields(1), of 0 "sv_files sync_server"] length_sync_image sync_server_fields(2) ne
    by (auto simp: fs'_def sync_platform_def demo_zlib_def demo_platform_def)
  then have ing: "ingest sync_platform (sv_disk sync_server) (sv_files sync_server) 0 (unat (0 :: u64)) (unat (BLOCK_SIZE :: u32)) (replicate 32 0) z = (fs', OK)"
    by (simp add: length_sync_image sync_platform_def)
  have pa: "process_all sync_platform (sv_disk sync_server) (sv_files sync_server) [?m] = (fs', [sync_ack])"
    using Process_data_msg [OF _ small _ sync_platform_ok(1) sync_dm_sized ing] by (simp add: sync_ack_def)
  have "[] @ concat (map ev_bytes [piece (take 30 frame), piece (drop 30 frame)]) = concat (map msg_bytes [?m]) @ []"
    using sync_events(2) [OF len] by (simp add: frame)
  from events_data [OF sync_platform_ok(1) sync_session sync_events(1) [OF len] this data unfinished_Nil pa]
  have "out_stream 5 (fold (run_event sync_platform) [piece (take 30 frame), piece (drop 30 frame)] sync_server) = out_stream 5 sync_server @ ack_msg sync_ack"
    by (simp add: ack_msg_bytes)
  then show "out_stream 5 (Run sync_platform (map Polled (sync_polls frame)) sync_server) = out_stream 5 sync_server @ ack_msg sync_ack"
    using run_separate [OF sync_left [of "{}" sync_platform frame sync_server]]
    unfolding Run_polled [OF sync_server_fields(3)] sync_own by (simp add: same_view_def out_stream_def)
qed

theorem transfer_on_server_witness:
  "\<exists>polls. bs_Ack (m_blocks (tr_state (TransferBlocks sync_job sync_client demo_table Map.empty)) ! 0) = AckAcknowledged
    \<and> segment 0 BLOCK_SIZE (sv_files (Run sync_platform (map Polled polls) sync_server) 3) = sync_image"
proof -
  obtain z where z: "Compress demo_win \<lparr> dc_hCompressor = True, dc_initialized = True \<rparr> sync_image = Some z"
    "nc_out (tr_client sync_run) = msg_bytes (data_msg 0 0 BLOCK_SIZE z (replicate 32 0) 0)"
    "bs_Ack (m_blocks (tr_state sync_run) ! 0) = AckAcknowledged" using sync_run by blast
  define frame where "frame = nc_out (tr_client sync_run)"
  note served = sync_served [OF z(1) frame_def [unfolded z(2)]]
  note ev = sync_events [OF served(1)]
  have client: "nc_connected sync_client" "rx_plain (nc_rx sync_client)" "rx_stream (nc_rx sync_client) = concat (map ack_msg [sync_ack])"
    "\<forall>a \<in> set [sync_ack]. length (ak_Hash a) = 32" "nc_out sync_client = []"
    using ack_msg_nonempty [of sync_ack] by (simp_all add: sync_client_def sync_ack_def NetworkClient_new_def)
  have job: "\<not> tj_dry sync_job" "deflate_api inflate_stored (tj_win sync_job)" "tj_devNo sync_job = 0"
    using demo_win_api by (simp_all add: sync_job_def demo_transfer_def)
  have blk: "0 < length (m_blocks demo_table)" "NeedsUpload (m_blocks demo_table ! 0)" using sync_table by auto
  have wire: "\<forall>ev \<in> set (concat (sync_polls frame)). ev_fd ev = 5 \<longrightarrow> \<not> ev_err ev \<and> rx_plain (ev_rx ev)"
    "nc_out (tr_client sync_run) = nc_out sync_client @ concat (map ev_bytes (filter (\<lambda>ev. ev_fd ev = 5) (concat (sync_polls frame)))) @ []"
    "out_stream 5 (Run sync_platform (map Polled (sync_polls frame)) sync_server) = out_stream 5 sync_server @ rx_stream (nc_rx sync_client) @ []"
    using ev client(3,5) served(2) unfolding sync_own frame_def [symmetric] by (auto simp: sync_polls_def demo_lost_def)
  from transfer_on_server [OF demo_table_facts(1) _ job(1,2) sync_platform_ok(2) modest_sync sync_run_def [symmetric] client(1-4)
      sync_platform_ok(1) sync_server_fields(3) sync_session refl sync_left wire blk z(3)] demo_table_facts(3) sync_read sync_server_fields(1) job(3)
  have "segment 0 BLOCK_SIZE (sv_files (Run sync_platform (map Polled (sync_polls frame)) sync_server) 3) = sync_image" by simp
  with z(3) show ?thesis unfolding sync_run_def by blast
qed

end
