(* ===== verification/Wire_System.thy ===== *)
theory Wire_System
  imports Backup_System Sync_System
begin

text \<open>
  The pipelined backup and the server over the bytes of their connection. The transferring thread sends with
  \<open>SendBlockNoWait\<close>, the acknowledgement thread receives with \<open>receive_one\<close>, and the server's loop handles the
  events of the connection, among those of others; the network delivers what was sent, cut in any way. Every run is one
  of \<open>Backup_System\<close>, where messages and acknowledgements travel whole.
\<close>

section \<open>Steps\<close>

text \<open>\<open>wr_taken\<close> counts the bytes of \<open>nc_out\<close> that have reached the server, \<open>wr_read\<close> those of \<open>sv_sent\<close> that have reached the client.\<close>

record Wire =
  wr_pipe :: Pipe
  wr_client :: NetworkClient
  wr_server :: Server
  wr_taken :: nat
  wr_read :: nat

definition to_server :: "Wire \<Rightarrow> byte list" where
  "to_server w = drop (wr_taken w) (nc_out (wr_client w))"

definition to_client :: "int \<Rightarrow> Wire \<Rightarrow> byte list" where
  "to_client h w = drop (wr_read w) (sv_sent (wr_server w) h)"

text \<open>The call of \<open>SendBlockNoWait\<close> for the block in slot \<open>k\<close>.\<close>

definition send_block :: "session \<Rightarrow> nat \<Rightarrow> Pipe \<Rightarrow> NetworkClient \<Rightarrow> NetworkClient \<times> bool" where
  "send_block S k p =
     (let j = ss_job S; sl = be_window (pp_engine p) ! k
      in SendBlockNoWait (ss_dev S) (pp_i p) (pipeline_block_size (jb_total j) (jb_size j) (pp_i p)) (ps_Compressed sl) (ps_Hash sl) (ss_version S))"

text \<open>The event tells of the end of the connection: an error, or \<open>recv\<close> fails or finds it closed.\<close>

definition ends :: "Event \<Rightarrow> bool" where
  "ends ev \<longleftrightarrow> ev_err ev \<or> ev_in ev \<and> (case ev_rx ev of Received d # rx \<Rightarrow> d = [] | RecvErr e # rx \<Rightarrow> e \<noteq> EAGAIN | [] \<Rightarrow> False)"

text \<open>The files of the session's device, which other connections leave alone.\<close>

abbreviation session_files :: "session \<Rightarrow> int set" where
  "session_files S \<equiv> bf_fd ` set_option (Get (ss_disks S) (ss_dev S))"

text \<open>
  A step of a client thread that does not use the connection; a send; a receipt; a receipt that fails, or brings something
  else than an acknowledgement; an event with bytes of this client; the end of the connection at the server; an event of another connection.
\<close>

inductive wire_step :: "session \<Rightarrow> int \<Rightarrow> Wire \<Rightarrow> Wire \<Rightarrow> bool" for S h where
  wire_local: "pipe_step (ss_job S) (wr_pipe w) q \<Longrightarrow> pp_wire q = pp_wire (wr_pipe w) \<Longrightarrow>
    pp_main q = pp_main (wr_pipe w) \<or> (\<forall>k. pp_main (wr_pipe w) \<noteq> ReadyToSend k) \<Longrightarrow> wire_step S h w (w\<lparr> wr_pipe := q \<rparr>)"
| wire_send: "pp_main (wr_pipe w) = ReadyToSend k \<Longrightarrow> send_block S k (wr_pipe w) ((wr_client w)\<lparr> nc_tx := tx \<rparr>) = (c, ok) \<Longrightarrow>
    wire_step S h w (w\<lparr> wr_pipe := send_slot ok k (wr_pipe w), wr_client := c \<rparr>)"
| wire_receive: "pp_ack (wr_pipe w) = AckIdle \<Longrightarrow> rx_plain rx \<Longrightarrow> rx_stream rx = take n (to_client h w) \<Longrightarrow>
    receive_one ((wr_client w)\<lparr> nc_rx := rx \<rparr>) = (c, Inr a) \<Longrightarrow>
    record_ack (ak_BlockIndex a) (ak_Status a) (pp_engine (wr_pipe w)) (pp_state (wr_pipe w)) = (e, m) \<Longrightarrow>
    wire_step S h w (w\<lparr> wr_pipe := (wr_pipe w)\<lparr> pp_wire := tl (pp_wire (wr_pipe w)), pp_engine := e, pp_state := m,
      pp_ack := AckRecorded (ak_BlockIndex a) \<rparr>, wr_client := c, wr_read := wr_read w + (length (rx_stream rx) - length (rx_stream (nc_rx c))) \<rparr>)"
| wire_receive_error: "pp_ack (wr_pipe w) = AckIdle \<Longrightarrow> receive_one ((wr_client w)\<lparr> nc_rx := rx \<rparr>) = (c, Inl err) \<Longrightarrow>
    wire_step S h w (w\<lparr> wr_pipe := (wr_pipe w)\<lparr> pp_engine := (pp_engine (wr_pipe w))\<lparr> be_error := True \<rparr>, pp_ack := AckStopped \<rparr>, wr_client := c \<rparr>)"
| wire_event: "ev_fd ev = h \<Longrightarrow> \<not> ev_err ev \<Longrightarrow> rx_plain (ev_rx ev) \<Longrightarrow> ev_bytes ev = take n (to_server w) \<Longrightarrow>
    wire_step S h w (w\<lparr> wr_server := run_event (ss_platform S) ev (wr_server w), wr_taken := wr_taken w + length (ev_bytes ev) \<rparr>)"
| wire_lost: "ev_fd ev = h \<Longrightarrow> ends ev \<Longrightarrow> wire_step S h w (w\<lparr> wr_server := run_event (ss_platform S) ev (wr_server w) \<rparr>)"
| wire_other: "ev_fd ev \<noteq> h \<Longrightarrow> h \<notin> set (ev_accepts ev) \<Longrightarrow>
    \<forall>fd \<in> session_files S. sv_files (run_event (ss_platform S) ev (wr_server w)) fd = sv_files (wr_server w) fd \<Longrightarrow>
    wire_step S h w (w\<lparr> wr_server := run_event (ss_platform S) ev (wr_server w) \<rparr>)"

text \<open>After the handshake: everything sent so far was read, on both sides.\<close>

definition wire_start :: "int \<Rightarrow> BlockStateManager \<Rightarrow> file_system \<Rightarrow> NetworkClient \<Rightarrow> int \<Rightarrow> Server \<Rightarrow> Wire" where
  "wire_start w m cfs c h s = \<lparr> wr_pipe = pipe_start w m cfs, wr_client = c, wr_server = s,
     wr_taken = length (nc_out c), wr_read = length (sv_sent s h) \<rparr>"

section \<open>What the simulation relates\<close>

definition request_msg :: "session \<Rightarrow> BlockHeader \<times> byte list \<Rightarrow> ParsedMessage" where
  "request_msg S r = \<lparr> pm_header = client_header DATA_BLOCK (ss_dev S), pm_body = BlockHeader_bytes (fst r) @ snd r \<rparr>"

text \<open>The hashes have the size of the field of the header, and the compressor does not more than double a block.\<close>

definition fits_messages :: "session \<Rightarrow> bool" where
  "fits_messages S \<longleftrightarrow> (\<forall>i data hash z. prepare_block (ss_job S) i = PrepReady data hash z \<longrightarrow> length hash = 32 \<and> length z \<le> 2 * BLOCK_SIZE)"

text \<open>
  The bytes under way to the server, after those it keeps, are the frames of the requests, and then perhaps a part of a frame when the
  client has given up; the bytes under way to the client begin the frames of the replies, and are all of them while the
  server has the connection.
\<close>

definition carries_session :: "session \<Rightarrow> int \<Rightarrow> Wire \<Rightarrow> System \<Rightarrow> bool" where
  "carries_session S h w y \<longleftrightarrow> sy_pipe y = wr_pipe w \<and> (\<forall>fd \<in> session_files S. sv_files (wr_server w) fd = sy_files y fd)
     \<and> sv_disk (wr_server w) = ss_disks S \<and> h \<noteq> sv_listenFd (wr_server w) \<and> srv_ok (wr_server w)
     \<and> wr_taken w \<le> length (nc_out (wr_client w))
     \<and> (\<forall>a \<in> set (sy_replies y). length (ak_Hash a) = 32)
     \<and> (\<exists>u. drop (wr_read w) (out_stream h (wr_server w)) @ u = concat (map ack_msg (sy_replies y))
          \<and> (sv_conns (wr_server w) h \<noteq> None \<longrightarrow> u = [] \<and> wr_read w \<le> length (out_stream h (wr_server w))))
     \<and> (sv_conns (wr_server w) h \<noteq> None \<longrightarrow> (\<exists>buf tail. session_at h buf (wr_server w)
          \<and> buf @ to_server w = concat (map (msg_bytes \<circ> request_msg S) (sy_requests y)) @ tail \<and> unfinished tail
          \<and> (tail = [] \<or> \<not> nc_connected (wr_client w))))"

lemma good_request_fits:
  assumes "good_request S r" and "fits_messages S"
  shows "length (bh_Hash (fst r)) = 32" "length (snd r) \<le> 2 * BLOCK_SIZE" "is_data (request_msg S r)"
proof -
  obtain i data hash where p: "prepare_block (ss_job S) i = PrepReady data hash (snd r)"
    and r: "fst r = client_block i (pipeline_block_size (jb_total (ss_job S)) (jb_size (ss_job S)) i) (snd r) hash (ss_version S)"
    using assms(1) by (auto simp: good_request_def)
  have f: "length hash = 32" "length (snd r) \<le> 2 * BLOCK_SIZE" using p assms(2) unfolding fits_messages_def by blast+
  then show "length (bh_Hash (fst r)) = 32" "length (snd r) \<le> 2 * BLOCK_SIZE" by (simp_all add: r client_block_def)
  have "request_msg S r = data_msg (ss_dev S) i (pipeline_block_size (jb_total (ss_job S)) (jb_size (ss_job S)) i) (snd r) hash (ss_version S)"
    by (simp add: request_msg_def data_msg_def r)
  then show "is_data (request_msg S r)" using data_msg_is_data [OF f] by simp
qed

lemma sent_request_frame:
  "data_msg (ss_dev S) (pp_i p) (pipeline_block_size (jb_total (ss_job S)) (jb_size (ss_job S)) (pp_i p))
      (ps_Compressed (be_window (pp_engine p) ! k)) (ps_Hash (be_window (pp_engine p) ! k)) (ss_version S)
    = request_msg S (sent_request S k p)"
  by (simp add: data_msg_def request_msg_def sent_request_def Let_def)

text \<open>The server's loop at some requests is as many steps of the system.\<close>

lemma serve_requests:
  assumes fits: "fits_messages S" and "sy_requests y = rs @ rs'" and "\<forall>r \<in> set rs. good_request S r"
    and "process_all (ss_platform S) (ss_disks S) fs (map (request_msg S) rs) = (fs', acks)" and "\<forall>fd \<in> F. fs fd = sy_files y fd"
  shows "\<exists>gs. (sys_step S)\<^sup>*\<^sup>* y (y\<lparr> sy_files := gs, sy_requests := rs', sy_replies := sy_replies y @ acks \<rparr>)
    \<and> (\<forall>fd \<in> F. fs' fd = gs fd) \<and> (\<forall>a \<in> set acks. length (ak_Hash a) = 32)"
  using assms(2-5)
proof (induction rs arbitrary: y fs acks)
  case Nil
  then have "y\<lparr> sy_files := sy_files y, sy_requests := rs', sy_replies := sy_replies y @ acks \<rparr> = y" by (cases y) auto
  then show ?case using Nil by (intro exI [of _ "sy_files y"]) auto
next
  case (Cons r rs)
  obtain bh z where r: "r = (bh, z)" by (metis surj_pair)
  have good: "good_request S (bh, z)" using Cons.prems(2) r by simp
  note g = good_request_fits [OF good fits, unfolded fst_conv snd_conv]
  have body: "BlockHeader_of (take 52 (pm_body (request_msg S r))) = bh" "drop 52 (pm_body (request_msg S r)) = z" "mh_DevNo (pm_header (request_msg S r)) = ss_dev S"
    using g(1) by (simp_all add: r request_msg_def client_header_def)
  obtain fs1 ack st where p: "Process (ss_platform S) (ss_disks S) fs (ss_dev S) bh z = (fs1, ack, st)" by (metis prod_cases3)
  obtain acks1 where rest: "process_all (ss_platform S) (ss_disks S) fs1 (map (request_msg S) rs) = (fs', acks1)" "acks = ack # acks1"
    using Cons.prems(3) p body by (auto split: prod.splits)
  obtain gs1 where q: "Process (ss_platform S) (ss_disks S) (sy_files y) (ss_dev S) bh z = (gs1, ack, st)" "\<forall>fd \<in> F. fs1 fd = gs1 fd"
    using Process_local [OF Cons.prems(4) p] by blast
  define y1 where "y1 = y\<lparr> sy_files := gs1, sy_requests := rs @ rs', sy_replies := sy_replies y @ [ack] \<rparr>"
  have step: "sys_step S y y1" using sys_step.sys_serve [OF _ g(2) q(1)] Cons.prems(1) r by (simp add: y1_def)
  obtain gs where gs: "(sys_step S)\<^sup>*\<^sup>* y1 (y1\<lparr> sy_files := gs, sy_requests := rs', sy_replies := sy_replies y1 @ acks1 \<rparr>)"
    "\<forall>fd \<in> F. fs' fd = gs fd" "\<forall>a \<in> set acks1. length (ak_Hash a) = 32"
    using Cons.IH [OF _ _ rest(1), of y1] Cons.prems(2) q(2) by (auto simp: y1_def)
  have "length (ak_Hash ack) = 32" using g(1) by (simp add: Process_ack [OF p])
  then show ?case using converse_rtranclp_into_rtranclp [OF step gs(1)] gs(2,3) rest(2) by (intro exI [of _ gs]) (simp add: y1_def)
qed

text \<open>The end of the connection closes it and changes nothing else.\<close>

lemma CloseConn_fields:
  "sv_conns (CloseConn h s) h = None" "sv_sent (CloseConn h s) = sv_sent s" "sv_files (CloseConn h s) = sv_files s"
  "sv_disk (CloseConn h s) = sv_disk s" "sv_listenFd (CloseConn h s) = sv_listenFd s"
  by (auto simp: CloseConn_def split: option.split)

lemma event_ends:
  assumes s: "session_at h buf s" and ev: "ev_fd ev = h" "ends ev" and t: "t = run_event P ev s"
  shows "sv_conns t h = None \<and> sv_sent t h = sv_sent s h \<and> sv_files t = sv_files s \<and> sv_disk t = sv_disk s \<and> sv_listenFd t = sv_listenFd s"
proof -
  obtain c where ok: "srv_ok s" "h \<noteq> sv_listenFd s" and c: "sv_conns s h = Some c" "conn_idle c" using s by (auto simp: session_at_def)
  show ?thesis
  proof (cases "ev_err ev")
    case True
    then show ?thesis using ok(2) c(1) ev(1) CloseConn_fields
      by (auto simp: t run_event_def Let_def HandleConnError_def touch_def CloseConn_def split: option.split)
  next
    case False
    have wf: "rb_wf (recvBuf c)" "length (rb_buf (recvBuf c)) = kRecvBufSize" using srv_ok_recvBuf [OF ok(1) c(1)] by auto
    have room: "0 < fd_room (recvBuf c)" using conn_idle_room wf c(2) by blast
    obtain b n where w: "WriteFromFd (recv_next (ev_rx ev)) (recvBuf c) = (b, n)" by (metis surj_pair)
    note eff = WriteFromFd_cases [OF wf(1) recv_bounded_next, of "ev_rx ev", unfolded w fst_conv snd_conv]
    have "n = Bytes 0 \<or> (\<exists>e. n = Failed e \<and> e \<noteq> EAGAIN)" and i: "ev_in ev"
      using eff room ev(2) False by (auto simp: ends_def split: list.splits recv_result.splits)
    then have "HandleConnReadable P h (ev_rx ev) s = CloseConn h (set_recv h b s)" using c(1) w
      by (auto simp: HandleConnReadable.simps [of P h "ev_rx ev" s] Let_def)
    then have "t = CloseConn h (set_recv h b s)" using ok(2) c(1) i ev(1) False CloseConn_fields(1) by (simp add: t run_event_def Let_def)
    then show ?thesis using CloseConn_fields by (simp add: set_recv_def set_conn_def split: option.split)
  qed
qed

lemma receive_one_enough:
  assumes "receive_one c = (c', Inr a)" and "rx_plain (nc_rx c)"
  shows "64 \<le> length (rx_stream (nc_rx c))" and "nc_out c' = nc_out c \<and> nc_connected c' = nc_connected c"
proof -
  have few: "recv_all n rx = (Some d, rx') \<Longrightarrow> rx_plain rx \<Longrightarrow>
      n \<le> length (rx_stream rx) \<and> rx_plain rx' \<and> rx_stream rx' = drop n (rx_stream rx)" for n rx rx' d
  proof (induction rx arbitrary: n d rule: rx_stream.induct)
    case (2 x rx)
    show ?case
    proof (cases "n = 0 \<or> n < length x")
      case True
      then show ?thesis using 2 by (cases "n = 0") (auto simp: recv_all.simps [of n] recv_all.simps [of 0])
    next
      case False
      then obtain z where "recv_all (n - length x) rx = (Some z, rx')" using 2(2,3) by (auto simp: recv_all.simps [of n] split: prod.splits)
      then show ?thesis using 2(1) [of "n - length x" z] 2(3) False by auto
    qed
  qed (auto simp: recv_all.simps split: if_splits)
  obtain rx1 hb where 1: "recv_all 16 (nc_rx c) = (Some hb, rx1)" "RecvAll 16 c = (c\<lparr> nc_rx := rx1 \<rparr>, Some hb)"
    using assms(1) by (auto simp: receive_one_def RecvAll_def Let_def split: prod.splits option.splits if_splits)
  obtain rx2 ab where 2: "recv_all 48 rx1 = (Some ab, rx2)" "c' = c\<lparr> nc_rx := rx2 \<rparr>"
    using assms(1) 1(2) by (auto simp: receive_one_def RecvAll_def Let_def split: prod.splits option.splits if_splits)
  show "64 \<le> length (rx_stream (nc_rx c))" using few [OF 1(1) assms(2)] few [OF 2(1)] by auto
  show "nc_out c' = nc_out c \<and> nc_connected c' = nc_connected c" by (simp add: 2(2))
qed

lemma receive_one_error: "receive_one c = (c', Inl err) \<Longrightarrow> nc_out c' = nc_out c \<and> (nc_connected c' \<longrightarrow> nc_connected c)"
  by (auto simp: receive_one_def RecvAll_def Let_def split: prod.splits option.splits if_splits)

text \<open>The receipt takes the oldest of the replies.\<close>

lemma length_ack_msg: "length (ak_Hash a) = 32 \<Longrightarrow> length (ack_msg a) = 64"
  by (simp add: ack_msg_def)

lemma received_oldest:
  assumes "receive_one c = (c', Inr a)" and "rx_plain (nc_rx c)" and "rx_stream (nc_rx c) @ later = concat (map ack_msg replies)"
    and "\<forall>a \<in> set replies. length (ak_Hash a) = 32"
  obtains rest where "replies = a # rest" and "length (rx_stream (nc_rx c)) - length (rx_stream (nc_rx c')) = 64"
    and "drop 64 (rx_stream (nc_rx c)) @ later = concat (map ack_msg rest)"
proof -
  note enough = receive_one_enough(1) [OF assms(1,2)]
  have "concat (map ack_msg replies) \<noteq> []" using enough unfolding assms(3) [symmetric] by auto
  then obtain a1 rest where r: "replies = a1 # rest" by (cases replies) auto
  have l: "length (ack_msg a1) = 64" "length (ak_Hash a1) = 32" using assms(4) r length_ack_msg by auto
  have "rx_stream (nc_rx c) @ later = ack_msg a1 @ concat (map ack_msg rest)" using assms(3) r by simp
  from arg_cong [OF this, of "take 64"] arg_cong [OF this, of "drop 64"] enough l(1)
  have "take 64 (rx_stream (nc_rx c)) = ack_msg a1" and d: "drop 64 (rx_stream (nc_rx c)) @ later = concat (map ack_msg rest)" by simp_all
  then have "rx_stream (nc_rx c) = ack_msg a1 @ drop 64 (rx_stream (nc_rx c))" by (metis append_take_drop_id)
  from receive_one_ack [OF assms(2) this l(2)] assms(1) have "a1 = a" "rx_stream (nc_rx c') = drop 64 (rx_stream (nc_rx c))" by auto
  then show thesis using that r d enough by simp
qed

section \<open>The simulation\<close>

lemma send_block_True:
  assumes "send_block S k p (c\<lparr> nc_tx := tx \<rparr>) = (c', True)"
  shows "nc_out c' = nc_out c @ msg_bytes (request_msg S (sent_request S k p))" "nc_connected c" "nc_connected c'"
proof -
  show "nc_connected c" using assms by (auto simp: send_block_def Let_def SendBlockNoWait_def split: if_splits)
  note s = SendBlockNoWait_True [OF assms [unfolded send_block_def Let_def], unfolded sent_request_frame]
  then show "nc_out c' = nc_out c @ msg_bytes (request_msg S (sent_request S k p))" "nc_connected c'" by simp_all
qed

lemma send_block_False:
  assumes "send_block S k p (c\<lparr> nc_tx := tx \<rparr>) = (c', False)"
  shows "\<not> nc_connected c'" "nc_out c' = nc_out c \<or> nc_connected c \<and> (\<exists>p' q. msg_bytes (request_msg S (sent_request S k p)) = p' @ q \<and> q \<noteq> [] \<and> nc_out c' = nc_out c @ p')"
proof -
  have run: "SendBlockNoWait (ss_dev S) (pp_i p) (pipeline_block_size (jb_total (ss_job S)) (jb_size (ss_job S)) (pp_i p))
     (ps_Compressed (be_window (pp_engine p) ! k)) (ps_Hash (be_window (pp_engine p) ! k)) (ss_version S) (c\<lparr> nc_tx := tx \<rparr>) = (c', False)"
    using assms by (simp add: send_block_def Let_def)
  have "\<not> nc_connected c' \<and> (nc_out c' = nc_out c \<or> nc_connected c \<and> (\<exists>p' q. msg_bytes (request_msg S (sent_request S k p)) = p' @ q \<and> q \<noteq> [] \<and> nc_out c' = nc_out c @ p'))"
  proof (cases "nc_connected c")
    case True
    then show ?thesis using SendBlockNoWait_False [OF run] by (auto simp: sent_request_frame)
  next
    case False
    then have "c' = c\<lparr> nc_tx := tx \<rparr>" using run by (simp add: SendBlockNoWait_def)
    then show ?thesis using False by simp
  qed
  then show "\<not> nc_connected c'" "nc_out c' = nc_out c \<or> nc_connected c \<and> (\<exists>p' q. msg_bytes (request_msg S (sent_request S k p)) = p' @ q \<and> q \<noteq> [] \<and> nc_out c' = nc_out c @ p')"
    by simp_all
qed

text \<open>A step that leaves the server and the bytes alone.\<close>

lemma carries_local:
  assumes "carries_session S h w y" and "nc_out c = nc_out (wr_client w)" and "nc_connected c \<longrightarrow> nc_connected (wr_client w)"
  shows "carries_session S h (w\<lparr> wr_pipe := q, wr_client := c \<rparr>) (y\<lparr> sy_pipe := q \<rparr>)"
  using assms by (auto simp: carries_session_def to_server_def)

lemma carries_send:
  assumes link: "carries_session S h w y" and send: "send_block S k (wr_pipe w) ((wr_client w)\<lparr> nc_tx := tx \<rparr>) = (c, True)"
  shows "carries_session S h (w\<lparr> wr_pipe := q, wr_client := c \<rparr>) (y\<lparr> sy_pipe := q, sy_requests := sy_requests y @ [sent_request S k (wr_pipe w)] \<rparr>)"
proof -
  note s = send_block_True [OF send]
  have "\<exists>buf tail. session_at h buf (wr_server w) \<and> buf @ drop (wr_taken w) (nc_out c) =
      concat (map (msg_bytes \<circ> request_msg S) (sy_requests y @ [sent_request S k (wr_pipe w)])) @ tail \<and> unfinished tail \<and> (tail = [] \<or> \<not> nc_connected c)"
    if live: "sv_conns (wr_server w) h \<noteq> None"
  proof -
    obtain buf where buf: "session_at h buf (wr_server w)" "buf @ to_server w = concat (map (msg_bytes \<circ> request_msg S) (sy_requests y))"
      using link live s(2) by (auto simp: carries_session_def)
    have "drop (wr_taken w) (nc_out c) = to_server w @ msg_bytes (request_msg S (sent_request S k (wr_pipe w)))"
      using link s(1) by (simp add: carries_session_def to_server_def)
    then show ?thesis using buf unfinished_Nil by (intro exI [of _ buf] exI [of _ "[]"]) (simp flip: append_assoc)
  qed
  then show ?thesis using link s(1) by (auto simp: carries_session_def to_server_def)
qed

lemma carries_broken:
  assumes link: "carries_session S h w y" and send: "send_block S k (wr_pipe w) ((wr_client w)\<lparr> nc_tx := tx \<rparr>) = (c, False)"
    and wf: "wf_msg (request_msg S (sent_request S k (wr_pipe w)))"
  shows "carries_session S h (w\<lparr> wr_pipe := q, wr_client := c \<rparr>) (y\<lparr> sy_pipe := q \<rparr>)"
proof -
  note s = send_block_False [OF send]
  show ?thesis
  proof (cases "nc_out c = nc_out (wr_client w)")
    case True
    then show ?thesis using carries_local [OF link] s(1) by simp
  next
    case False
    then obtain p r where pr: "nc_connected (wr_client w)" "msg_bytes (request_msg S (sent_request S k (wr_pipe w))) = p @ r" "r \<noteq> []"
      "nc_out c = nc_out (wr_client w) @ p" using s(2) by auto
    note cut = cut_message_unfinished [OF wf pr(2,3)]
    have "\<exists>buf tail. session_at h buf (wr_server w) \<and> buf @ drop (wr_taken w) (nc_out c) =
        concat (map (msg_bytes \<circ> request_msg S) (sy_requests y)) @ tail \<and> unfinished tail \<and> (tail = [] \<or> \<not> nc_connected c)"
      if live: "sv_conns (wr_server w) h \<noteq> None"
    proof -
      obtain buf where buf: "session_at h buf (wr_server w)" "buf @ to_server w = concat (map (msg_bytes \<circ> request_msg S) (sy_requests y))"
        using link live pr(1) by (auto simp: carries_session_def)
      have "drop (wr_taken w) (nc_out c) = to_server w @ p" using link pr(4) by (simp add: carries_session_def to_server_def)
      then show ?thesis using buf cut s(1) by (intro exI [of _ buf] exI [of _ p]) (simp flip: append_assoc)
    qed
    then show ?thesis using link pr(4) by (auto simp: carries_session_def to_server_def)
  qed
qed

lemma ack_bytes_msg: "ack_bytes = ack_msg"
  by (intro ext) (simp add: ack_msg_bytes)

lemma carries_event:
  assumes link: "carries_session S h w y" and P: "pwrite_ok (ss_platform S)" and fits: "fits_messages S" and good: "\<forall>r \<in> set (sy_requests y). good_request S r"
    and ev: "ev_fd ev = h" "\<not> ev_err ev" "rx_plain (ev_rx ev)" "ev_bytes ev = take n (to_server w)"
    and live: "sv_conns (wr_server w) h \<noteq> None"
  shows "\<exists>z. (sys_step S)\<^sup>*\<^sup>* y z
    \<and> carries_session S h (w\<lparr> wr_server := run_event (ss_platform S) ev (wr_server w), wr_taken := wr_taken w + length (ev_bytes ev) \<rparr>) z"
proof -
  let ?s = "wr_server w"
  obtain buf tail where buf: "session_at h buf ?s" "unfinished tail" "tail = [] \<or> \<not> nc_connected (wr_client w)"
    and bytes: "buf @ to_server w = concat (map msg_bytes (map (request_msg S) (sy_requests y))) @ tail"
    using link live by (auto simp: carries_session_def)
  have srv: "sv_disk ?s = ss_disks S" "\<forall>fd \<in> session_files S. sv_files ?s fd = sy_files y fd" "wr_taken w \<le> length (nc_out (wr_client w))" "wr_read w \<le> length (out_stream h ?s)"
    and replies: "drop (wr_read w) (out_stream h ?s) = concat (map ack_msg (sy_replies y))" "\<forall>a \<in> set (sy_replies y). length (ak_Hash a) = 32"
    using link live by (auto simp: carries_session_def)
  have data: "\<forall>m \<in> set (map (request_msg S) (sy_requests y)). is_data m" using good good_request_fits(3) [OF _ fits] by auto
  define left where "left = drop (length (ev_bytes ev)) (to_server w)"
  have split: "to_server w = ev_bytes ev @ left" unfolding left_def ev(4) by (simp add: min_def)
  have whole: "(buf @ ev_bytes ev) @ left = concat (map msg_bytes (map (request_msg S) (sy_requests y))) @ tail" using bytes split by simp
  from arrived_messages [OF whole _ buf(2)] data obtain k rest where
    got: "buf @ ev_bytes ev = concat (map msg_bytes (take k (map (request_msg S) (sy_requests y)))) @ rest" "unfinished rest" by (auto simp: is_data_def)
  define rs where "rs = take k (sy_requests y)"
  have got': "buf @ ev_bytes ev = concat (map msg_bytes (map (request_msg S) rs)) @ rest" using got(1) by (simp add: rs_def take_map)
  have rs: "sy_requests y = rs @ drop k (sy_requests y)" "\<forall>r \<in> set rs. good_request S r" "\<forall>m \<in> set (map (request_msg S) rs). is_data m"
    using good data by (auto simp: rs_def dest: in_set_takeD)
  obtain fs acks where pa: "process_all (ss_platform S) (ss_disks S) (sv_files ?s) (map (request_msg S) rs) = (fs, acks)" by (metis surj_pair)
  obtain gs where gs: "(sys_step S)\<^sup>*\<^sup>* y (y\<lparr> sy_files := gs, sy_requests := drop k (sy_requests y), sy_replies := sy_replies y @ acks \<rparr>)"
    "\<forall>fd \<in> session_files S. fs fd = gs fd" "\<forall>a \<in> set acks. length (ak_Hash a) = 32"
    using serve_requests [OF fits rs(1,2) pa srv(2)] by blast
  define t where "t = run_event (ss_platform S) ev ?s"
  have t: "session_at h rest t" "sv_files t = fs" "sv_disk t = sv_disk ?s" "out_stream h t = out_stream h ?s @ concat (map ack_bytes acks)"
    using event_step [OF P buf(1) ev(1-3) got' rs(3) got(2) pa [folded srv(1)] t_def] by simp_all
  have left: "rest @ left = concat (map (msg_bytes \<circ> request_msg S) (drop k (sy_requests y))) @ tail"
  proof -
    have "concat (map msg_bytes (map (request_msg S) (sy_requests y))) =
        concat (map msg_bytes (map (request_msg S) rs)) @ concat (map msg_bytes (map (request_msg S) (drop k (sy_requests y))))"
      by (subst rs(1)) simp
    then show ?thesis using whole unfolding got' by simp
  qed
  have "drop (wr_taken w + length (ev_bytes ev)) (nc_out (wr_client w)) = left"
    by (simp add: left_def to_server_def add.commute)
  moreover have "wr_taken w + length (ev_bytes ev) \<le> length (nc_out (wr_client w))"
    using srv(3) arg_cong [OF split, of length] by (simp add: to_server_def)
  moreover have "drop (wr_read w) (out_stream h t) = concat (map ack_msg (sy_replies y @ acks))"
    and "wr_read w \<le> length (out_stream h t)" using srv(4) replies(1) by (simp_all add: t(4) ack_bytes_msg)
  moreover have "srv_ok t \<and> h \<noteq> sv_listenFd t" using t(1) by (simp add: session_at_def)
  ultimately show ?thesis using gs link t(1-3) srv(1) left buf(2,3) replies(2)
    by (intro exI [of _ "y\<lparr> sy_files := gs, sy_requests := drop k (sy_requests y), sy_replies := sy_replies y @ acks \<rparr>"])
      (auto simp: carries_session_def to_server_def simp flip: t_def)
qed

text \<open>Without the connection, its events do nothing.\<close>

lemma event_of_nobody: "sv_conns s h = None \<Longrightarrow> h \<noteq> sv_listenFd s \<Longrightarrow> ev_fd ev = h \<Longrightarrow> run_event P ev s = s"
  by (simp add: run_event_def)

lemma carries_closed:
  assumes link: "carries_session S h w y" and P: "pwrite_ok (ss_platform S)" and ev: "ev_fd ev = h" "ends ev"
  shows "carries_session S h (w\<lparr> wr_server := run_event (ss_platform S) ev (wr_server w) \<rparr>) y"
proof (cases "sv_conns (wr_server w) h = None")
  case True
  then have "run_event (ss_platform S) ev (wr_server w) = wr_server w" using link ev(1) event_of_nobody by (simp add: carries_session_def)
  then show ?thesis using link by simp
next
  case False
  let ?s = "wr_server w"
  define t where "t = run_event (ss_platform S) ev ?s"
  obtain buf where "session_at h buf ?s" using link False by (auto simp: carries_session_def)
  from event_ends [OF this ev t_def] have t: "sv_conns t h = None" "sv_sent t h = sv_sent ?s h" "sv_files t = sv_files ?s" "sv_disk t = sv_disk ?s"
    "sv_listenFd t = sv_listenFd ?s" by auto
  have "srv_ok t" using link srv_ok_run_event [OF P] by (simp add: carries_session_def t_def)
  moreover have "\<exists>u. drop (wr_read w) (out_stream h t) @ u = concat (map ack_msg (sy_replies y))"
    using link t(1,2) False by (auto simp: carries_session_def out_stream_def)
  ultimately show ?thesis using link t by (auto simp: carries_session_def simp flip: t_def)
qed

lemma carries_other:
  assumes link: "carries_session S h w y" and P: "pwrite_ok (ss_platform S)" and ev: "ev_fd ev \<noteq> h" "h \<notin> set (ev_accepts ev)"
    and files: "\<forall>fd \<in> session_files S. sv_files (run_event (ss_platform S) ev (wr_server w)) fd = sv_files (wr_server w) fd"
  shows "carries_session S h (w\<lparr> wr_server := run_event (ss_platform S) ev (wr_server w) \<rparr>) y"
proof -
  define t where "t = run_event (ss_platform S) ev (wr_server w)"
  have t: "sv_conns t h = sv_conns (wr_server w) h" "sv_tx t h = sv_tx (wr_server w) h" "sv_sent t h = sv_sent (wr_server w) h"
    "sv_disk t = sv_disk (wr_server w)" "sv_listenFd t = sv_listenFd (wr_server w)"
    using foreign_event [OF ev] by (simp_all add: same_view_def t_def)
  have ok: "srv_ok t" using link srv_ok_run_event [OF P] by (simp add: carries_session_def t_def)
  have "out_stream h t = out_stream h (wr_server w)" by (simp add: out_stream_def t)
  moreover have "session_at h buf (wr_server w) \<Longrightarrow> session_at h buf t" for buf using ok by (simp add: session_at_def t)
  ultimately show ?thesis using link files ok t unfolding carries_session_def to_server_def by (fastforce simp flip: t_def)
qed

lemma carries_receipt:
  assumes link: "carries_session S h w y" and rx: "rx_plain rx" "rx_stream rx = take n (to_client h w)"
    and got: "receive_one ((wr_client w)\<lparr> nc_rx := rx \<rparr>) = (c, Inr a)"
  obtains as where "sy_replies y = a # as"
    and "carries_session S h (w\<lparr> wr_pipe := q, wr_client := c, wr_read := wr_read w + (length (rx_stream rx) - length (rx_stream (nc_rx c))) \<rparr>)
      (y\<lparr> sy_pipe := q, sy_replies := as \<rparr>)"
proof -
  let ?s = "wr_server w"
  obtain u where u: "drop (wr_read w) (out_stream h ?s) @ u = concat (map ack_msg (sy_replies y))"
    and live: "sv_conns ?s h \<noteq> None \<longrightarrow> u = [] \<and> wr_read w \<le> length (out_stream h ?s)" and hashes: "\<forall>a \<in> set (sy_replies y). length (ak_Hash a) = 32"
    using link by (auto simp: carries_session_def)
  have plain: "rx_plain (nc_rx ((wr_client w)\<lparr> nc_rx := rx \<rparr>))" using rx(1) by simp
  obtain q' where o: "out_stream h ?s = sv_sent ?s h @ q'" by (auto simp: out_stream_def)
  define later where "later = drop n (to_client h w) @ drop (wr_read w - length (sv_sent ?s h)) q' @ u"
  have "rx_stream rx @ later = to_client h w @ drop (wr_read w - length (sv_sent ?s h)) q' @ u"
    unfolding later_def rx(2) by (metis append_assoc append_take_drop_id)
  then have "rx_stream rx @ later = concat (map ack_msg (sy_replies y))" unfolding u [symmetric] by (simp add: o to_client_def)
  then have cat: "rx_stream (nc_rx ((wr_client w)\<lparr> nc_rx := rx \<rparr>)) @ later = concat (map ack_msg (sy_replies y))" by simp
  obtain as where as: "sy_replies y = a # as" "length (rx_stream rx) - length (rx_stream (nc_rx c)) = 64"
    "drop 64 (rx_stream rx) @ later = concat (map ack_msg as)"
    using received_oldest [OF got plain cat hashes] by auto
  have en: "64 \<le> length (rx_stream rx)" "nc_out c = nc_out (wr_client w)" "nc_connected c = nc_connected (wr_client w)"
    using receive_one_enough [OF got plain] by simp_all
  then have room: "64 \<le> length (drop (wr_read w) (out_stream h ?s))" using rx(2) by (simp add: o to_client_def)
  have "drop (wr_read w + 64) (out_stream h ?s) @ u = drop 64 (drop (wr_read w) (out_stream h ?s) @ u)" using room by (simp add: add.commute)
  also have "\<dots> = concat (map ack_msg as)" using as(1) hashes length_ack_msg [of a] unfolding u by simp
  finally have "drop (wr_read w + 64) (out_stream h ?s) @ u = concat (map ack_msg as)" .
  then have "\<exists>u. drop (wr_read w + 64) (out_stream h ?s) @ u = concat (map ack_msg as)
      \<and> (sv_conns ?s h \<noteq> None \<longrightarrow> u = [] \<and> wr_read w + 64 \<le> length (out_stream h ?s))" using live room by (intro exI [of _ u]) auto
  then show thesis using link as(1,2) en(2,3) by (intro that [of as]) (auto simp: carries_session_def to_server_def)
qed

lemma wire_simulation:
  assumes step: "wire_step S h w v" and link: "carries_session S h w y" and inv: "sys_inv S n y" and fits: "fits_messages S"
  shows "\<exists>z. (sys_step S)\<^sup>*\<^sup>* y z \<and> carries_session S h v z"
proof -
  have pipe: "sy_pipe y = wr_pipe w" using link by (simp add: carries_session_def)
  have P: "pwrite_ok (ss_platform S)" and good: "\<forall>r \<in> set (sy_requests y). good_request S r" using inv by (auto simp: sys_inv_def session_ok_def)
  from step show ?thesis
  proof cases
    case (wire_local q)
    from sys_step.sys_local [OF wire_local(2,3) [folded pipe]] have "sys_step S y (y\<lparr> sy_pipe := q \<rparr>)" .
    moreover have "carries_session S h v (y\<lparr> sy_pipe := q \<rparr>)" using carries_local [OF link, of "wr_client w" q] wire_local(1) by simp
    ultimately show ?thesis by blast
  next
    case (wire_send k tx c ok)
    note at = wire_send(2) [folded pipe]
    show ?thesis
    proof (cases ok)
      case True
      then have "send_block S k (wr_pipe w) ((wr_client w)\<lparr> nc_tx := tx \<rparr>) = (c, True)" using wire_send(3) by simp
      from sys_step.sys_send [OF at] carries_send [OF link this, of "send_slot True k (wr_pipe w)"] show ?thesis
        using True wire_send(1) pipe by auto
    next
      case False
      have "wf_msg (request_msg S (sent_request S k (wr_pipe w)))"
        using good_request_fits(3) [OF sent_request_good [OF inv at] fits] by (simp add: is_data_def pipe)
      moreover have "send_block S k (wr_pipe w) ((wr_client w)\<lparr> nc_tx := tx \<rparr>) = (c, False)" using wire_send(3) False by simp
      ultimately have "carries_session S h v (y\<lparr> sy_pipe := send_slot False k (wr_pipe w) \<rparr>)"
        using carries_broken [OF link] False wire_send(1) by simp
      moreover have "sys_step S y (y\<lparr> sy_pipe := send_slot False k (wr_pipe w) \<rparr>)"
        using sys_step.sys_local [OF pipe_step.send [OF at, of "ss_job S" False]] by (simp add: pipe send_slot_def)
      ultimately show ?thesis by blast
    qed
  next
    case (wire_receive rx n c a e m)
    obtain as where as: "sy_replies y = a # as"
      "carries_session S h v (y\<lparr> sy_pipe := (wr_pipe w)\<lparr> pp_wire := tl (pp_wire (wr_pipe w)), pp_engine := e, pp_state := m,
        pp_ack := AckRecorded (ak_BlockIndex a) \<rparr>, sy_replies := as \<rparr>)"
      using carries_receipt [OF link wire_receive(3-5)] wire_receive(1) by metis
    from sys_step.sys_receive [OF wire_receive(2) [folded pipe] as(1) wire_receive(6) [folded pipe]] as(2) pipe show ?thesis by auto
  next
    case (wire_receive_error rx c err)
    define q where "q = (wr_pipe w)\<lparr> pp_engine := (pp_engine (wr_pipe w))\<lparr> be_error := True \<rparr>, pp_ack := AckStopped \<rparr>"
    have "sys_step S y (y\<lparr> sy_pipe := q \<rparr>)"
      using sys_step.sys_local [OF pipe_step.ack_error [OF wire_receive_error(2) [folded pipe], of "ss_job S"]] by (simp add: pipe q_def)
    moreover have "carries_session S h v (y\<lparr> sy_pipe := q \<rparr>)"
      using carries_local [OF link, of c q] receive_one_error [OF wire_receive_error(3)] wire_receive_error(1) by (simp add: q_def)
    ultimately show ?thesis by blast
  next
    case (wire_event ev n)
    show ?thesis
    proof (cases "sv_conns (wr_server w) h = None")
      case False
      then show ?thesis using carries_event [OF link P fits good wire_event(2-5)] wire_event(1) by simp
    next
      case True
      then have "run_event (ss_platform S) ev (wr_server w) = wr_server w"
        using link wire_event(2) event_of_nobody by (simp add: carries_session_def)
      moreover have "wr_taken w + length (ev_bytes ev) \<le> length (nc_out (wr_client w))"
      proof -
        have "wr_taken w \<le> length (nc_out (wr_client w))" using link by (simp add: carries_session_def)
        moreover have "length (ev_bytes ev) \<le> length (to_server w)" using wire_event(5) by simp
        ultimately show ?thesis by (simp add: to_server_def)
      qed
      ultimately have "carries_session S h v y" using link True wire_event(1) by (auto simp: carries_session_def)
      then show ?thesis by blast
    qed
  next
    case (wire_lost ev)
    then show ?thesis using carries_closed [OF link P wire_lost(2,3)] by auto
  next
    case (wire_other ev)
    then show ?thesis using carries_other [OF link P wire_other(2-4)] by auto
  qed
qed

interpretation wire: forward_simulation "wire_step S h" "sys_step S" "\<lambda>y. sys_inv S n y \<and> fits_messages S" "carries_session S h" for S h n
  by unfold_locales (use sys_inv_step wire_simulation in \<open>blast+\<close>)

text \<open>The two sides at the start: the connection is open and both have read everything.\<close>

definition handshaken :: "session \<Rightarrow> int \<Rightarrow> Server \<Rightarrow> bool" where
  "handshaken S h s \<longleftrightarrow> session_at h [] s \<and> sv_disk s = ss_disks S \<and> out_stream h s = sv_sent s h"

lemma wire_run:
  assumes ok: "session_ok S" "InitFullBlocksEmpty vid (jb_total (ss_job S)) m0 = (m, True)" "handshaken S h s" "fits_messages S"
    and run: "(wire_step S h)\<^sup>*\<^sup>* (wire_start w m cfs c h s) v"
  shows "\<exists>y. (sys_step S)\<^sup>*\<^sup>* (system_start w m cfs (sv_files s)) y \<and> carries_session S h v y \<and> dm_sized (ss_disks S) (sv_files s)"
proof -
  have srv: "session_at h [] s" "sv_disk s = ss_disks S" "out_stream h s = sv_sent s h" using ok(3) by (simp_all add: handshaken_def)
  then have sized: "dm_sized (ss_disks S) (sv_files s)" by (auto simp: session_at_def srv_ok_def)
  have "carries_session S h (wire_start w m cfs c h s) (system_start w m cfs (sv_files s))"
    using srv unfinished_Nil
    by (auto simp: carries_session_def wire_start_def system_start_def to_server_def session_at_def intro!: exI [of _ "[]"])
  from wire.run_simulated [OF run this] system_inv [OF ok(1,2) sized rtranclp.rtrancl_refl] ok(4) sized show ?thesis by blast
qed

section \<open>Properties\<close>


text \<open>
  C1. A block acknowledged in the client's table is in the device's file, over the bytes of the connection: with messages cut
  and joined by the network, failing sends and receipts, connections lost on either side and other connections that leave the
  file alone.
\<close>

theorem acknowledged_on_wire:
  assumes "session_ok S" and "InitFullBlocksEmpty vid (jb_total (ss_job S)) m0 = (m, True)" and "handshaken S h s" and "fits_messages S"
    and "(wire_step S h)\<^sup>*\<^sup>* (wire_start w m cfs c h s) v"
    and "bs_Ack (GetBlockState b (pp_state (wr_pipe v))) = AckAcknowledged"
  shows "\<exists>bf data. Get (ss_disks S) (ss_dev S) = Some bf
    \<and> ReadAt (jb_source (ss_job S)) (b * BLOCK_SIZE) (pipeline_block_size (jb_total (ss_job S)) (jb_size (ss_job S)) b) = Some data
    \<and> segment (unat b * BLOCK_SIZE) (length data) (sv_files (wr_server v) (bf_fd bf)) = data"
proof -
  obtain y where y: "(sys_step S)\<^sup>*\<^sup>* (system_start w m cfs (sv_files s)) y" "carries_session S h v y" "dm_sized (ss_disks S) (sv_files s)"
    using wire_run [OF assms(1-5)] by blast
  have "bs_Ack (GetBlockState b (pp_state (sy_pipe y))) = AckAcknowledged" using y(2) assms(6) by (simp add: carries_session_def)
  from acknowledged_in_file [OF system_inv [OF assms(1,2) y(3,1)] this] y(2) show ?thesis by (auto simp: carries_session_def)
qed

section \<open>Three bytes over the wire\<close>

text \<open>A socket that takes an acknowledgement at once.\<close>

lemma EnqueueAck_sent:
  assumes "sv_conns s h = Some c" and "rb_wf (sendBuf c)" and "ReadPtr (sendBuf c) = []" and "sv_tx s h = Sent n # tx" and "64 \<le> n"
    and "length (ak_Hash ack) = 32"
  shows "sv_sent (EnqueueAck h ack s) h = sv_sent s h @ ack_bytes ack"
proof -
  define b where "b = Append (Append (sendBuf c) (MsgHeader_bytes (ack_header ack))) (AckBody_bytes ack)"
  have b: "rb_wf b" "ReadPtr b = ack_bytes ack" using assms(2,3) by (simp_all add: b_def ack_bytes_def stream_simps)
  have len: "ReadableBytes b = 64" using b assms(6) length_ack_msg [of ack] by (metis ack_msg_bytes length_ReadPtr)
  have "ReadableBytes (Consume b 64) = 0" using Consume_wf [OF b(1), of 64] Consume_ReadPtr [OF b(1), of 64] b(2) len length_ReadPtr
    by (metis assms(6) ack_msg_bytes drop_eq_Nil le_refl length_0_conv length_ack_msg)
  then have loop: "send_loop (Sent n # tx) b [] = (Consume b 64, tx, ack_bytes ack, Drained)"
    using len assms(5,6) b(2) length_ack_msg [of ack] by (simp add: send_loop.simps [of "Sent n # tx"] send_loop.simps [of tx] Let_def ack_msg_bytes)
  show ?thesis using assms(1,4) len loop unfolding b_def
    by (simp add: EnqueueAck_def TryArmWrite_def HandleConnWritable_def Let_def set_conn_def EpollMod_def)
qed

lemma sv_sent_set_recv: "sv_sent (set_recv h b s) = sv_sent s"
  by (simp add: set_recv_def set_conn_def split: option.split)

lemma frame_event:
  assumes P: "pwrite_ok P" and s: "srv_ok s" "h \<noteq> sv_listenFd s" and c: "sv_conns s h = Some c" "conn_idle c" "ReadPtr (recvBuf c) = []"
    and m: "wf_msg m" "sv_conns (dispatch P h m s) h \<noteq> None"
    and ev: "ev_fd ev = h" "\<not> ev_err ev" "ev_in ev" "\<not> ev_out ev" "ev_rx ev = [Received (msg_bytes m)]"
  shows "sv_sent (run_event P ev s) = sv_sent (dispatch P h m s)"
proof -
  have "serve P h (msg_bytes m @ []) s = serve P h [] (dispatch P h m s)" by (rule serve_frame) (use m c(1) in simp_all)
  also have "\<dots> = (dispatch P h m s, [])" using m(2) unfinished_Nil by (intro serve_undecided) (simp_all add: unfinished_def TryParse_at_def prod_eq_iff)
  finally have "serve P h (ReadPtr (recvBuf c) @ rx_stream [Received (msg_bytes m)]) (set_recv h (recvBuf c) s) = (dispatch P h m s, [])"
    using c by (simp add: set_recv_self)
  from HandleConnReadable_serve [OF P s(1) c(1,2) _ this] m(1)
  have "set_recv h (recvBuf c) (HandleConnReadable P h [Received (msg_bytes m)] s) = dispatch P h m s"
    by (auto simp: msg_bytes_def wf_msg_def simp flip: length_0_conv)
  then have "sv_sent (HandleConnReadable P h [Received (msg_bytes m)] s) = sv_sent (dispatch P h m s)" by (metis sv_sent_set_recv)
  then show ?thesis using s(2) c(1) ev by (simp add: run_event_def Let_def)
qed

lemma data_event_sent:
  assumes P: "pwrite_ok P" and s: "session_at h [] s" and c: "sv_conns s h = Some c" "ReadPtr (sendBuf c) = []" and tx: "sv_tx s h = Sent n # tx" "64 \<le> n"
    and m: "is_data m" and p: "process_all P (sv_disk s) (sv_files s) [m] = (fs, [ack])" "length (ak_Hash ack) = 32"
    and ev: "ev_fd ev = h" "\<not> ev_err ev" "ev_in ev" "\<not> ev_out ev" "ev_rx ev = [Received (msg_bytes m)]"
  shows "sv_sent (run_event P ev s) h = sv_sent s h @ ack_msg ack"
proof -
  have ok: "srv_ok s" "h \<noteq> sv_listenFd s" and c': "helloDone c" "conn_idle c" "ReadPtr (recvBuf c) = []" and ready: "session_ready h s"
    using s c(1) by (auto simp: session_at_def session_ready_def)
  obtain st where pr: "Process P (sv_disk s) (sv_files s) (mh_DevNo (pm_header m)) (BlockHeader_of (take 52 (pm_body m))) (drop 52 (pm_body m)) = (fs, ack, st)"
    using p(1) by (auto split: prod.splits)
  obtain c2 where d: "dispatch P h m s = EnqueueAck h ack ((set_conn h c2 s)\<lparr> sv_files := fs \<rparr>)" "sendBuf c2 = sendBuf c"
    using dispatch_enqueues [OF m c(1) c'(1) pr] by blast
  have "rb_wf (sendBuf c2)" using srv_ok_conn [OF ok(1) c(1)] d(2) by (simp add: conn_wf_def)
  then have sent: "sv_sent (dispatch P h m s) h = sv_sent s h @ ack_bytes ack"
    unfolding d(1) using c(2) d(2) tx p(2) by (subst EnqueueAck_sent [where c = c2 and n = n and tx = tx]) (simp_all add: set_conn_def)
  have "sv_conns (dispatch P h m s) h \<noteq> None" using dispatch_data [OF P ok(1) ready m pr] by (auto simp: session_ready_def)
  from frame_event [OF P ok c(1) c'(2,3) _ this ev] m sent show ?thesis by (simp add: is_data_def ack_bytes_msg)
qed

definition wire_server :: Server where
  "wire_server = demo_pair\<lparr> sv_tx := (\<lambda>_. [Sent 100]) \<rparr>"

lemma wire_handshaken: "handshaken demo_link 5 wire_server"
proof -
  have "session_at 5 [] wire_server" using demo_pair_session
    by (simp add: session_at_def wire_server_def srv_ok_def tx_ok_def)
  moreover have "out_stream 5 wire_server = sv_sent wire_server 5" by (simp add: out_stream_def wire_server_def demo_pair_def)
  ultimately show ?thesis by (simp add: handshaken_def wire_server_def demo_link_def demo_pair_def)
qed

lemma demo_link_prepared:
  "\<exists>z. prepare_block (ss_job demo_link) 0 = PrepReady [1, 2, 3] (replicate 32 7) z \<and> prepare_block demo_job 0 = PrepReady [1, 2, 3] (replicate 32 7) z
     \<and> Compress demo_win \<lparr> dc_hCompressor = True, dc_initialized = True \<rparr> [1, 2, 3] = Some z \<and> z \<noteq> [] \<and> length z \<le> 2 * BLOCK_SIZE"
proof -
  obtain z where z: "Compress demo_win \<lparr> dc_hCompressor = True, dc_initialized = True \<rparr> [1, 2, 3] = Some z" "z \<noteq> []" "length z \<le> 2 * BLOCK_SIZE"
    by (simp add: Compress_def compress_call_def demo_win_def Let_def GetMaxCompressedSize_def WrapDeflateAsZlib_def length_stored_blocks be_bytes32_def)
  then show ?thesis using demo_hasher_ready pipeline_demo_size
    by (auto simp: prepare_block_def demo_link_def demo_job_def ReadAt_def ComputeBlockHash_def ready_def disk_reader_def segment_def)
qed

lemma demo_fits: "fits_messages demo_link"
  unfolding fits_messages_def
proof (intro allI impI)
  fix i data hash z
  assume p: "prepare_block (ss_job demo_link) i = PrepReady data hash z"
  have "jb_win (ss_job demo_link) = demo_win" by (simp add: demo_link_def demo_job_def)
  then have "length z \<le> 2 * BLOCK_SIZE" using demo_win_modest prepared_block(1,4) [OF p] by simp
  moreover have "length hash = 32" using p
    by (auto simp: demo_link_def demo_job_def prepare_block_def ComputeBlockHash_def split: option.splits if_splits)
  ultimately show "length hash = 32 \<and> length z \<le> 2 * BLOCK_SIZE" by simp
qed

text \<open>The client prepares its block.\<close>

definition wire_first :: Wire where
  "wire_first = wire_start 1 demo_table Map.empty sync_client 5 wire_server"

lemma demo_ready_slot:
  "\<exists>sl z. be_window (pp_engine demo_ready) = [sl] \<and> ps_Hash sl = replicate 32 7 \<and> ps_Compressed sl = z
     \<and> prepare_block (ss_job demo_link) 0 = PrepReady [1, 2, 3] (replicate 32 7) z
     \<and> Compress demo_win \<lparr> dc_hCompressor = True, dc_initialized = True \<rparr> [1, 2, 3] = Some z \<and> z \<noteq> [] \<and> length z \<le> 2 * BLOCK_SIZE"
  using demo_link_prepared by (auto simp: demo_ready_def prepare_slot_def fill_slot_def set_slot_def Let_def demo_acquired_fields)

lemma wire_prepared: "(wire_step demo_link 5)\<^sup>*\<^sup>* wire_first (wire_first\<lparr> wr_pipe := demo_ready \<rparr>)"
proof -
  let ?j = "ss_job demo_link" and ?p = "pipe_start 1 demo_table Map.empty" and ?w = "\<lambda>q. wire_first\<lparr> wr_pipe := q \<rparr>"
  have j: "jb_total ?j = jb_total demo_job" "jb_size ?j = jb_size demo_job" by (simp_all add: demo_link_def)
  have a: "AcquireSlot (pp_engine ?p) = (fst (AcquireSlot (pp_engine ?p)), Some 0)"
    by (simp add: AcquireSlot_def pipe_start_def ResetPipelineWindow_def Engine_new_def PipelineSlot_new_def)
  have s1: "pipe_step ?j ?p demo_acquired" unfolding demo_acquired_def Let_def using a j
    by (intro pipe_step.acquire) (simp_all add: pipe_start_def demo_job_def ResetPipelineWindow_def Engine_new_def)
  have f: "fill_slot ?j 0 demo_acquired = fill_slot demo_job 0 demo_acquired" by (simp add: fill_slot_def j)
  have s2: "pipe_step ?j demo_acquired (fill_slot demo_job 0 demo_acquired)"
    using pipe_step.fill [OF demo_acquired_fields(1), of ?j] by (simp only: f)
  have "prepare_slot ?j 0 (fill_slot demo_job 0 demo_acquired) = demo_ready"
    using demo_link_prepared by (auto simp: demo_ready_def prepare_slot_def fill_slot_def Let_def demo_acquired_fields)
  moreover have at: "pp_main (fill_slot demo_job 0 demo_acquired) = Filled 0" by (simp add: fill_slot_def Let_def)
  ultimately have s3: "pipe_step ?j (fill_slot demo_job 0 demo_acquired) demo_ready" using pipe_step.prepare [OF at, of ?j] by simp
  have p0: "wire_first = ?w ?p" "pp_wire ?p = []" "pp_main ?p = AtTop" by (simp_all add: wire_first_def wire_start_def pipe_start_def)
  have "wire_step demo_link 5 (?w ?p) (?w demo_acquired)"
    using wire_step.wire_local [of demo_link "?w ?p" demo_acquired 5] s1 p0(2,3) demo_acquired_fields by simp
  moreover have "wire_step demo_link 5 (?w demo_acquired) (?w (fill_slot demo_job 0 demo_acquired))"
    using wire_step.wire_local [of demo_link "?w demo_acquired" "fill_slot demo_job 0 demo_acquired" 5] s2 demo_acquired_fields
    by (simp add: fill_slot_def Let_def)
  moreover have "wire_step demo_link 5 (?w (fill_slot demo_job 0 demo_acquired)) (?w demo_ready)"
    using wire_step.wire_local [of demo_link "?w (fill_slot demo_job 0 demo_acquired)" demo_ready 5] s3 at demo_acquired_fields(3) demo_ready_fields(3)
    by (simp add: fill_slot_def Let_def)
  ultimately show ?thesis using p0(1) by (metis (no_types, lifting) rtranclp.simps)
qed

text \<open>It sends the block, the server answers, and the client receives the answer.\<close>

definition wire_ack :: AckBody where
  "wire_ack = \<lparr> ak_BlockIndex = 0, ak_Status = 0, ak_DevNo = 0, ak_Hash = replicate 32 7 \<rparr>"

lemma wire_served:
  assumes z: "Compress demo_win \<lparr> dc_hCompressor = True, dc_initialized = True \<rparr> [1, 2, 3] = Some z" "length z \<le> 2 * BLOCK_SIZE"
    and ev: "ev_fd ev = 5" "\<not> ev_err ev" "ev_in ev" "\<not> ev_out ev" "ev_rx ev = [Received (msg_bytes (data_msg 0 0 3 z (replicate 32 7) 1))]"
  shows "sv_sent (run_event demo_zlib ev wire_server) 5 = ack_msg wire_ack"
proof -
  let ?m = "data_msg 0 0 3 z (replicate 32 7) 1"
  have P: "pwrite_ok demo_zlib" "zlib_ok inflate_stored demo_zlib" by (auto simp: pwrite_ok_def zlib_ok_def demo_zlib_def demo_platform_def)
  have s: "session_at 5 [] wire_server" using wire_handshaken by (simp add: handshaken_def)
  have f: "sv_disk wire_server = Block_Processor.demo_disk" "sv_files wire_server = demo_files" "sv_tx wire_server 5 = [Sent 100]" "sv_sent wire_server 5 = []"
    "sv_conns wire_server 5 = Some (demo_conn True)"
    by (simp_all add: wire_server_def demo_pair_def demo_server_def)
  have l: "length [1 :: byte, 2, 3] = 3" "SHA256 demo_zlib [1, 2, 3] = replicate 32 7" by (simp_all add: demo_zlib_def demo_platform_def)
  obtain fs where "ingest demo_zlib Block_Processor.demo_disk demo_files 0 0 (length [1 :: byte, 2, 3]) (SHA256 demo_zlib [1, 2, 3]) z = (fs, OK)"
    using ingest_compressed [OF z(1) demo_win_api P(2) _ _ demo_lookup(1), of 0 demo_files]
    by (auto simp: demo_zlib_def demo_platform_def demo_files_def)
  then have "ingest demo_zlib Block_Processor.demo_disk demo_files 0 (unat (0 :: u64)) (unat (3 :: u32)) (replicate 32 7) z = (fs, OK)"
    unfolding l by simp
  from Process_data_msg [OF _ z(2) _ P(1) demo_dm_sized this] have pa: "process_all demo_zlib Block_Processor.demo_disk demo_files [?m] = (fs, [wire_ack])"
    by (simp add: wire_ack_def)
  have m: "is_data ?m" using data_msg_is_data z(2) by simp
  show ?thesis
    using data_event_sent [OF P(1) s f(5) _ f(3) _ m pa [folded f(1,2)] _ ev] f(4) by (simp add: wire_ack_def)
qed

lemma wire_demo_run:
  "\<exists>v. (wire_step demo_link 5)\<^sup>*\<^sup>* wire_first v \<and> bs_Ack (GetBlockState 0 (pp_state (wr_pipe v))) = AckAcknowledged"
proof -
  obtain sl z where sl: "be_window (pp_engine demo_ready) = [sl]" "ps_Hash sl = replicate 32 7" "ps_Compressed sl = z"
    and z: "Compress demo_win \<lparr> dc_hCompressor = True, dc_initialized = True \<rparr> [1, 2, 3] = Some z" "z \<noteq> []" "length z \<le> 2 * BLOCK_SIZE"
    using demo_ready_slot by blast
  have job: "jb_total (ss_job demo_link) = 1" "jb_size (ss_job demo_link) = 3" "ss_dev demo_link = 0" "ss_version demo_link = 1" "ss_platform demo_link = demo_zlib"
    by (simp_all add: demo_link_def demo_job_def)
  obtain c where c: "SendBlockNoWait 0 0 3 z (replicate 32 7) 1 sync_client = (c, True)" using sync_sent [OF z(2,3)] by fastforce
  define frame where "frame = msg_bytes (data_msg 0 0 3 z (replicate 32 7) 1)"
  have out: "nc_out c = frame" using SendBlockNoWait_True [OF c] by (simp add: frame_def sync_client_def NetworkClient_new_def)
  have ne: "frame \<noteq> []" by (simp add: frame_def msg_bytes_def flip: length_0_conv)
  have first: "wr_client wire_first = sync_client" "wr_server wire_first = wire_server" "wr_taken wire_first = 0" "wr_read wire_first = 0"
    by (simp_all add: wire_first_def wire_start_def sync_client_def NetworkClient_new_def wire_server_def demo_pair_def demo_server_def)
  define w1 where "w1 = wire_first\<lparr> wr_pipe := demo_ready \<rparr>"
  define w2 where "w2 = w1\<lparr> wr_pipe := send_slot True 0 demo_ready, wr_client := c \<rparr>"
  have "sync_client\<lparr> nc_tx := nc_tx sync_client \<rparr> = sync_client" by simp
  then have "send_block demo_link 0 (wr_pipe w1) ((wr_client w1)\<lparr> nc_tx := nc_tx sync_client \<rparr>) = (c, True)"
    using c sl pipeline_demo_size demo_ready_fields(2) by (simp add: send_block_def Let_def w1_def first job)
  then have 2: "wire_step demo_link 5 w1 w2"
    using wire_step.wire_send [of w1 0 demo_link _ c True 5] demo_ready_fields(1) by (simp add: w1_def w2_def)
  define ev where "ev = (piece frame)\<lparr> ev_out := False \<rparr>"
  have ev: "ev_fd ev = 5" "\<not> ev_err ev" "ev_in ev" "\<not> ev_out ev" "ev_rx ev = [Received frame]" "ev_bytes ev = frame"
    by (simp_all add: ev_def piece_def demo_arrival_def ev_bytes_def)
  define w3 where "w3 = w2\<lparr> wr_server := run_event demo_zlib ev wire_server, wr_taken := length frame \<rparr>"
  have 3: "wire_step demo_link 5 w2 w3"
    using wire_step.wire_event [of ev 5 "length frame" w2 demo_link] ev ne out by (simp add: w2_def w1_def w3_def first job to_server_def)
  have sent: "sv_sent (run_event demo_zlib ev wire_server) 5 = ack_msg wire_ack" using wire_served [OF z(1,3) ev(1-4)] ev(5) by (simp add: frame_def)
  define rx where "rx = [Received (ack_msg wire_ack)]"
  have rx: "rx_plain rx" "rx_stream rx = ack_msg wire_ack @ []" by (simp_all add: rx_def ack_msg_nonempty)
  obtain c' where c': "receive_one (c\<lparr> nc_rx := rx \<rparr>) = (c', Inr wire_ack)"
    using receive_one_ack [of "c\<lparr> nc_rx := rx \<rparr>" wire_ack "[]"] rx by (auto simp: wire_ack_def)
  define p where "p = send_slot True 0 demo_ready"
  obtain e m where em: "record_ack 0 0 (pp_engine p) (pp_state p) = (e, m)" by (metis surj_pair)
  define w4 where "w4 = w3\<lparr> wr_pipe := p\<lparr> pp_wire := tl (pp_wire p), pp_engine := e, pp_state := m, pp_ack := AckRecorded 0 \<rparr>,
    wr_client := c', wr_read := 0 + (length (rx_stream rx) - length (rx_stream (nc_rx c'))) \<rparr>"
  have "pp_ack p = AckIdle" using demo_ready_fields(4) by (simp add: p_def send_slot_def)
  moreover have w3: "wr_pipe w3 = p" "wr_client w3 = c" "wr_read w3 = 0" "to_client 5 w3 = ack_msg wire_ack"
    using sent by (simp_all add: w3_def w2_def w1_def p_def first to_client_def)
  ultimately have 4: "wire_step demo_link 5 w3 w4"
    using wire_step.wire_receive [of w3 rx 64 5 c' wire_ack e m demo_link] rx c' em length_ack_msg [of wire_ack]
    by (simp add: w4_def wire_ack_def)
  have "ack_states (pp_state p) = [AckPending]"
  proof -
    have "ack_states demo_table = [AckPending]" using InitFull_pending [OF demo_init] by (simp add: demo_job_def)
    then have "ack_states (pp_state demo_ready) = [AckPending]" using demo_link_prepared
      by (auto simp: demo_ready_def prepare_slot_def fill_slot_def Let_def demo_acquired_fields ack_states_store_hash)
        (simp add: demo_acquired_def pipe_start_def)
    then show ?thesis by (simp add: p_def send_slot_def)
  qed
  then have "ack_states m = [AckAcknowledged]" using record_ack_states [OF em] by simp
  then have "bs_Ack (GetBlockState 0 (pp_state (wr_pipe w4))) = AckAcknowledged"
    by (auto simp: w4_def GetBlockState_def ack_states_def)
  moreover have "(wire_step demo_link 5)\<^sup>*\<^sup>* wire_first w4" using wire_prepared 2 3 4 by (simp add: w1_def)
  ultimately show ?thesis by blast
qed

theorem acknowledged_on_wire_witness:
  "\<exists>v. (wire_step demo_link 5)\<^sup>*\<^sup>* wire_first v \<and> segment 0 3 (sv_files (wr_server v) 3) = [1, 2, 3]"
proof -
  obtain v where v: "(wire_step demo_link 5)\<^sup>*\<^sup>* wire_first v" "bs_Ack (GetBlockState 0 (pp_state (wr_pipe v))) = AckAcknowledged"
    using wire_demo_run by blast
  have "ReadAt (jb_source (ss_job demo_link)) 0 (pipeline_block_size (jb_total (ss_job demo_link)) (jb_size (ss_job demo_link)) 0) = Some [1, 2, 3]"
    using pipeline_demo_size by (simp add: demo_link_def demo_job_def ReadAt_def disk_reader_def segment_def)
  then have "segment 0 3 (sv_files (wr_server v) 3) = [1, 2, 3]"
    using acknowledged_on_wire [OF demo_link_ok(1,2) wire_handshaken demo_fits v(1) [unfolded wire_first_def] v(2)] demo_link_fields(1)
    by (simp add: numeral_3_eq_3)
  then show ?thesis using v(1) by blast
qed


end
