(* ===== verification/Hello_Session.thy ===== *)
theory Hello_Session
  imports Wire_System
begin

text \<open>
  The handshake over the bytes of the connection: what \<open>SendHello\<close> sends reaches a connection the server has just accepted,
  cut in any way and among the events of other connections, and what the server answers is what \<open>SendHello\<close> reads.
  Its success is the state from which \<open>Wire_System\<close> starts.
\<close>

section \<open>The message\<close>

definition hello_msg :: "u32 \<Rightarrow> HelloBody \<Rightarrow> ParsedMessage" where
  "hello_msg devNo hb = \<lparr> pm_header = client_header HELLO devNo, pm_body = HelloBody_bytes hb \<rparr>"

lemma hello_msg_wf: "length (hb_VersionType hb) = 32 \<Longrightarrow> wf_msg (hello_msg devNo hb)"
  by (auto simp: wf_msg_def hello_msg_def client_header_def body_ok_def intro!: exI [of _ HELLO])

lemma length_hello_type: "length (hello_type ty) = 32"
  by (simp add: hello_type_def Let_def)

lemma SendHello_sent:
  assumes "SendHello ver devNo tb sz ty c = (c', True)"
  shows "nc_out c' = nc_out c @ msg_bytes (hello_msg devNo (hello_body ver devNo tb sz ty)) \<and> nc_connected c'"
    and "rx_plain (nc_rx c) \<Longrightarrow> 64 \<le> length (rx_stream (nc_rx c))"
    and "rx_plain (nc_rx c) \<Longrightarrow> rx_stream (nc_rx c) = ack_msg a @ rest \<Longrightarrow> length (ak_Hash a) = 32 \<Longrightarrow> ak_Status a = 0"
proof -
  obtain c1 ok1 where s1: "SendAll (MsgHeader_bytes (client_header HELLO devNo)) c = (c1, ok1)" by (metis surj_pair)
  obtain c2 ok2 where s2: "SendAll (HelloBody_bytes (hello_body ver devNo tb sz ty)) c1 = (c2, ok2)" by (metis surj_pair)
  have ok: "nc_connected c" "ok1" "ok2" and r: "ReceiveAck devNo 0 c2 = (c', True)"
    using assms s1 s2 by (auto simp: SendHello_def split: if_splits)
  obtain a' where a': "receive_one c2 = (c', Inr a')" "ak_Status a' = 0"
    using r by (auto simp: ReceiveAck_eq split: prod.splits sum.splits)
  note e = SendAll_effect [OF s1] SendAll_effect [OF s2]
  have c2: "nc_out c2 = nc_out c @ msg_bytes (hello_msg devNo (hello_body ver devNo tb sz ty))" "nc_rx c2 = nc_rx c" "nc_connected c2"
    using e ok by (simp_all add: msg_bytes_def hello_msg_def)
  have "nc_out c' = nc_out c2 \<and> nc_connected c' = nc_connected c2" using a'(1) 
    by (auto simp: receive_one_def RecvAll_def Let_def split: prod.splits option.splits if_splits)
  then show "nc_out c' = nc_out c @ msg_bytes (hello_msg devNo (hello_body ver devNo tb sz ty)) \<and> nc_connected c'" using c2 by simp
  show "64 \<le> length (rx_stream (nc_rx c))" if "rx_plain (nc_rx c)" using receive_one_enough(1) [OF a'(1)] that by (simp add: c2(2))
  show "ak_Status a = 0" if "rx_plain (nc_rx c)" "rx_stream (nc_rx c) = ack_msg a @ rest" "length (ak_Hash a) = 32"
    using receive_one_ack [of c2 a rest] that a' by (auto simp: c2(2))
qed

section \<open>The server's side\<close>

text \<open>A connection that has not said hello, between two events, with \<open>buf\<close> received and not yet complete.\<close>

definition greeting_at :: "int \<Rightarrow> byte list \<Rightarrow> Server \<Rightarrow> bool" where
  "greeting_at h buf s \<longleftrightarrow> srv_ok s \<and> tx_ok (sv_tx s h) \<and> h \<noteq> sv_listenFd s
     \<and> (\<exists>c. sv_conns s h = Some c \<and> \<not> helloDone c \<and> conn_idle c \<and> ReadPtr (recvBuf c) = buf)"

lemma greeting_unfinished: "greeting_at h buf s \<Longrightarrow> unfinished buf"
  by (auto simp: greeting_at_def conn_idle_def TryParse_def unfinished_def srv_ok_def conn_wf_def)

text \<open>The server's answer to a \<open>HELLO\<close>: the session is open and \<open>OK\<close> answered, or the connection is closed after a refusal.\<close>

definition greeted :: "int \<Rightarrow> Server \<Rightarrow> HelloBody \<Rightarrow> Server \<Rightarrow> bool" where
  "greeted h s hb t \<longleftrightarrow> sv_files t = sv_files s \<and> sv_disk t = sv_disk s \<and> sv_listenFd t = sv_listenFd s
     \<and> (if device_fits (sv_disk s) hb then session_at h [] t \<and> out_stream h t = out_stream h s @ ack_bytes (plain_ack (hb_DevNo hb) OK)
        else refused h s hb t)"

lemma greeting_readable:
  assumes P: "pwrite_ok P" and s: "greeting_at h buf s" and rx: "rx_plain rx" and t: "t = HandleConnReadable P h rx s"
  shows "unfinished (buf @ rx_stream rx) \<Longrightarrow>
      greeting_at h (buf @ rx_stream rx) t \<and> sv_files t = sv_files s \<and> sv_disk t = sv_disk s \<and> sv_listenFd t = sv_listenFd s \<and> out_stream h t = out_stream h s"
    and "buf @ rx_stream rx = msg_bytes (hello_msg devNo hb) \<Longrightarrow> length (hb_VersionType hb) = 32 \<Longrightarrow> greeted h s hb t"
proof -
  obtain c where ok: "srv_ok s" "tx_ok (sv_tx s h)" "h \<noteq> sv_listenFd s"
    and c: "sv_conns s h = Some c" "\<not> helloDone c" "conn_idle c" "ReadPtr (recvBuf c) = buf" using s by (auto simp: greeting_at_def)
  have ok': "srv_ok t" "sv_listenFd t = sv_listenFd s"
    unfolding t using srv_ok_HandleConnReadable [OF P ok(1)] only_listen [OF only_HandleConnReadable [OF only_refl]] by auto
  have serve: "set_recv h (recvBuf c) t = s1 \<and> (\<forall>c'. sv_conns t h = Some c' \<longrightarrow> ReadPtr (recvBuf c') = r \<and> conn_idle c')"
    if "serve P h (buf @ rx_stream rx) s = (s1, r)" for s1 r
    using HandleConnReadable_serve [OF P ok(1) c(1,3) rx, of "recvBuf c" s1 r] that c(1,4) by (simp add: t set_recv_self)
  {
    assume u: "unfinished (buf @ rx_stream rx)"
    have "serve P h (buf @ rx_stream rx) s = (s, buf @ rx_stream rx)"
      using u c(1) serve_undecided [of s h "buf @ rx_stream rx"] by (simp add: unfinished_def) (metis prod.collapse)
    from serve [OF this] have r: "set_recv h (recvBuf c) t = s"
      and idle: "\<forall>c'. sv_conns t h = Some c' \<longrightarrow> ReadPtr (recvBuf c') = buf @ rx_stream rx \<and> conn_idle c'" by auto
    have "sv_conns t h \<noteq> None" using set_recv_dead [of h "recvBuf c" t] c(1) unfolding r by simp
    then obtain c' where c': "sv_conns t h = Some c'" by blast
    have "c'\<lparr> recvBuf := recvBuf c \<rparr> = c" using arg_cong [OF r, of "\<lambda>s. sv_conns s h"] c(1) c' by (auto simp: set_recv_def set_conn_def)
    from arg_cong [OF this, of helloDone] have "helloDone c' = helloDone c" by simp
    moreover have "sv_tx t h = sv_tx s h" "sv_files t = sv_files s" "sv_disk t = sv_disk s" "out_stream h t = out_stream h s"
      unfolding r [symmetric] by (simp_all add: out_stream_set_recv)
    ultimately show "greeting_at h (buf @ rx_stream rx) t \<and> sv_files t = sv_files s \<and> sv_disk t = sv_disk s
        \<and> sv_listenFd t = sv_listenFd s \<and> out_stream h t = out_stream h s"
      using c' c(2) idle ok ok' by (simp add: greeting_at_def)
  }
  {
    assume full: "buf @ rx_stream rx = msg_bytes (hello_msg devNo hb)" and vt: "length (hb_VersionType hb) = 32"
    define d where "d = dispatch P h (hello_msg devNo hb) s"
    have hh: "d = HandleHello h (client_header HELLO devNo) (HelloBody_bytes hb) s"
      by (simp add: d_def dispatch_def hello_msg_def client_header_def)
    note eff = HandleHello_effect [OF ok(1) c(1,2) ok(2) vt hh]
    note wf = hello_msg_wf [OF vt, of devNo]
    show "greeted h s hb t"
    proof (cases "device_fits (sv_disk s) hb")
      case True
      then have ready: "session_ready h d" using eff by simp
      then have live: "sv_conns d h \<noteq> None" by (auto simp: session_ready_def)
      have "serve P h (msg_bytes (hello_msg devNo hb) @ []) s = serve P h [] d"
        unfolding d_def by (rule serve_frame [OF wf]) (use c(1) live in \<open>simp_all add: d_def\<close>)
      also have "\<dots> = (d, [])" using live unfinished_Nil by (intro serve_undecided) (simp_all add: unfinished_def TryParse_at_def prod_eq_iff)
      finally have "serve P h (buf @ rx_stream rx) s = (d, [])" using full by simp
      from serve [OF this] have r: "set_recv h (recvBuf c) t = d"
        and idle: "\<forall>c'. sv_conns t h = Some c' \<longrightarrow> ReadPtr (recvBuf c') = [] \<and> conn_idle c'" by auto
      have "session_ready h t" using ready unfolding r [symmetric] by simp
      then have "session_at h [] t" using idle ok(3) ok' by (auto simp: session_at_def session_ready_def)
      moreover have "sv_files t = sv_files d" "sv_disk t = sv_disk d" "out_stream h t = out_stream h d"
        unfolding r [symmetric] by (simp_all add: out_stream_set_recv)
      ultimately show ?thesis using eff True ok'(2) by (simp add: greeted_def)
    next
      case False
      then have dead: "sv_conns d h = None" using eff by (simp add: refused_def)
      have p: "TryParse_at (length (msg_bytes (hello_msg devNo hb))) (msg_bytes (hello_msg devNo hb)) ParsedMessage_zero = (kOk, hello_msg devNo hb, ParseDiag_zero)"
        using TryParse_at_frame [OF wf, of "msg_bytes (hello_msg devNo hb)" "[]"] by simp
      have "serve P h (buf @ rx_stream rx) s = (touch h d, [])"
        unfolding full using c(1) dead p by (simp add: serve.simps [of P h "msg_bytes (hello_msg devNo hb)"] Let_def touch_def flip: d_def)
      from serve [OF this] have r: "set_recv h (recvBuf c) t = touch h d" by auto
      then have "sv_conns t h = None" using set_recv_dead [of h "recvBuf c" t] dead by (simp add: touch_def)
      then have "t = touch h d" using r by (simp add: set_recv_def)
      then show ?thesis using eff False ok'(2) by (simp add: greeted_def refused_def touch_def)
    qed
  }
qed

lemma greeting_writable:
  assumes "greeting_at h buf s" and t: "t = HandleConnWritable h s"
  shows "greeting_at h buf t \<and> sv_files t = sv_files s \<and> sv_disk t = sv_disk s \<and> sv_listenFd t = sv_listenFd s \<and> out_stream h t = out_stream h s"
proof -
  obtain c where c: "srv_ok s" "sv_conns s h = Some c" "tx_ok (sv_tx s h)" "h \<noteq> sv_listenFd s" "\<not> helloDone c" "conn_idle c" "ReadPtr (recvBuf c) = buf"
    using assms(1) by (auto simp: greeting_at_def)
  from writable_keeps [OF c(1-3) t] c(4-7) show ?thesis by (auto simp: greeting_at_def conn_idle_def)
qed

lemma greeted_writable:
  assumes "greeted h s hb t" and "device_fits (sv_disk s) hb" and u: "u = HandleConnWritable h t"
  shows "greeted h s hb u"
proof -
  have t: "session_at h [] t" using assms(1,2) by (simp add: greeted_def)
  have "sv_listenFd u = sv_listenFd t" unfolding u by (rule only_listen [OF only_HandleConnWritable [OF only_refl]])
  then show ?thesis using writable_step [OF t u] assms(1,2) by (simp add: greeted_def)
qed

text \<open>An event of a connection.\<close>

lemma own_event:
  assumes "sv_conns s h \<noteq> None" and "h \<noteq> sv_listenFd s" and "ev_fd ev = h" "\<not> ev_err ev"
  shows "run_event P ev s = (let s1 = (if ev_in ev then HandleConnReadable P h (ev_rx ev) s else s)
    in if sv_conns s1 h = None \<or> \<not> ev_out ev then s1 else HandleConnWritable h s1)"
  using assms by (auto simp: run_event_def Let_def)

lemma greeting_event:
  assumes P: "pwrite_ok P" and s: "greeting_at h buf s" and ev: "ev_fd ev = h" "\<not> ev_err ev" "rx_plain (ev_rx ev)" and t: "t = run_event P ev s"
  shows "unfinished (buf @ ev_bytes ev) \<Longrightarrow>
      greeting_at h (buf @ ev_bytes ev) t \<and> sv_files t = sv_files s \<and> sv_disk t = sv_disk s \<and> sv_listenFd t = sv_listenFd s \<and> out_stream h t = out_stream h s"
    and "buf @ ev_bytes ev = msg_bytes (hello_msg devNo hb) \<Longrightarrow> length (hb_VersionType hb) = 32 \<Longrightarrow> greeted h s hb t"
proof -
  define s1 where "s1 = (if ev_in ev then HandleConnReadable P h (ev_rx ev) s else s)"
  have "sv_conns s h \<noteq> None" "h \<noteq> sv_listenFd s" using s by (auto simp: greeting_at_def)
  then have t: "t = (if sv_conns s1 h = None \<or> \<not> ev_out ev then s1 else HandleConnWritable h s1)"
    using own_event [of s h ev P] ev(1,2) by (simp add: t s1_def Let_def)
  {
    assume u: "unfinished (buf @ ev_bytes ev)"
    have 1: "greeting_at h (buf @ ev_bytes ev) s1 \<and> sv_files s1 = sv_files s \<and> sv_disk s1 = sv_disk s \<and> sv_listenFd s1 = sv_listenFd s \<and> out_stream h s1 = out_stream h s"
      using greeting_readable(1) [OF P s ev(3) refl] u s by (cases "ev_in ev") (simp_all add: s1_def ev_bytes_def)
    then show "greeting_at h (buf @ ev_bytes ev) t \<and> sv_files t = sv_files s \<and> sv_disk t = sv_disk s \<and> sv_listenFd t = sv_listenFd s \<and> out_stream h t = out_stream h s"
      using greeting_writable [of h "buf @ ev_bytes ev" s1, OF _ refl] by (simp add: t)
  }
  {
    assume full: "buf @ ev_bytes ev = msg_bytes (hello_msg devNo hb)" and vt: "length (hb_VersionType hb) = 32"
    have "unfinished buf" using s by (rule greeting_unfinished)
    then have "ev_in ev" using full unfinished_no_message [of "[hello_msg devNo hb]" "[]"] hello_msg_wf [OF vt] by (auto simp: ev_bytes_def split: if_splits)
    then have 1: "greeted h s hb s1" using greeting_readable(2) [OF P s ev(3) refl, of devNo hb] full vt by (simp add: s1_def ev_bytes_def)
    show "greeted h s hb t"
    proof (cases "device_fits (sv_disk s) hb")
      case True
      then show ?thesis using 1 greeted_writable [OF 1 True refl] by (simp add: t)
    next
      case False
      then show ?thesis using 1 by (simp add: t greeted_def refused_def)
    qed
  }
qed

lemma greeted_quiet:
  assumes P: "pwrite_ok P" and "greeted h s hb t" and "h \<noteq> sv_listenFd s" and ev: "ev_fd ev = h" "\<not> ev_err ev" "rx_plain (ev_rx ev)" "ev_bytes ev = []"
  shows "greeted h s hb (run_event P ev t)"
proof (cases "device_fits (sv_disk s) hb")
  case True
  then have t: "session_at h [] t" using assms(2) by (simp add: greeted_def)
  have "sv_listenFd (run_event P ev t) = sv_listenFd t"
  proof -
    obtain g where "g \<notin> insert (ev_fd ev) (set (ev_accepts ev))"
      using ex_new_if_finite [of "insert (ev_fd ev) (set (ev_accepts ev))"] by (auto simp: infinite_UNIV_int)
    then show ?thesis using foreign_event [of ev g t P] by (auto simp: same_view_def)
  qed
  moreover have "session_at h [] (run_event P ev t) \<and> sv_files (run_event P ev t) = sv_files t \<and> sv_disk (run_event P ev t) = sv_disk t
      \<and> out_stream h (run_event P ev t) = out_stream h t @ concat (map ack_bytes [])"
    by (rule event_step [where ms = "[]" and rest = "[]", OF P t ev(1-3) _ _ unfinished_Nil _ refl]) (simp_all add: ev(4))
  ultimately show ?thesis using True assms(2) by (simp add: greeted_def)
next
  case False
  then have "sv_conns t h = None" "h \<noteq> sv_listenFd t" using assms(2,3) by (auto simp: greeted_def refused_def)
  then show ?thesis using event_of_nobody [of t h ev P] ev(1) assms(2) by simp
qed

lemma greeted_quiet_events:
  assumes P: "pwrite_ok P" and "greeted h s hb t" and ne: "h \<noteq> sv_listenFd s"
    and "\<forall>ev \<in> set evs. ev_fd ev = h \<and> \<not> ev_err ev \<and> rx_plain (ev_rx ev) \<and> ev_bytes ev = []"
  shows "greeted h s hb (fold (run_event P) evs t)"
  using assms(2,4)
proof (induction evs arbitrary: t)
  case (Cons ev evs)
  have "ev_fd ev = h" "\<not> ev_err ev" "rx_plain (ev_rx ev)" "ev_bytes ev = []" using Cons.prems(2) by (meson list.set_intros(1))+
  from Cons.IH [OF greeted_quiet [OF P Cons.prems(1) ne this]] Cons.prems(2) show ?case by (metis fold_simps(2) list.set_intros(2))
qed simp

lemma hello_events:
  assumes P: "pwrite_ok P" and vt: "length (hb_VersionType hb) = 32"
    and "greeting_at h buf s" and "\<forall>ev \<in> set evs. ev_fd ev = h \<and> \<not> ev_err ev \<and> rx_plain (ev_rx ev)"
    and "buf @ concat (map ev_bytes evs) = msg_bytes (hello_msg devNo hb)"
  shows "greeted h s hb (fold (run_event P) evs s)"
  using assms(3-)
proof (induction evs arbitrary: s buf)
  case Nil
  then have "unfinished (msg_bytes (hello_msg devNo hb))" using greeting_unfinished by fastforce
  then show ?case using unfinished_no_message [of "[hello_msg devNo hb]" "[]"] hello_msg_wf [OF vt] by simp
next
  case (Cons ev evs)
  have own: "ev_fd ev = h" "\<not> ev_err ev" "rx_plain (ev_rx ev)" "\<forall>ev \<in> set evs. ev_fd ev = h \<and> \<not> ev_err ev \<and> rx_plain (ev_rx ev)"
    using Cons.prems(2) by simp_all
  note ge = greeting_event [OF P Cons.prems(1) own(1-3) refl]
  have whole: "(buf @ ev_bytes ev) @ concat (map ev_bytes evs) = msg_bytes (hello_msg devNo hb)" using Cons.prems(3) by simp
  have ne: "h \<noteq> sv_listenFd s" using Cons.prems(1) by (simp add: greeting_at_def)
  show ?case
  proof (cases "concat (map ev_bytes evs) = []")
    case True
    have "buf @ ev_bytes ev = msg_bytes (hello_msg devNo hb)" using whole [unfolded True] by simp
    from ge(2) [OF this vt] have "greeted h s hb (run_event P ev s)" .
    from greeted_quiet_events [OF P this ne] own(4) True have "greeted h s hb (fold (run_event P) evs (run_event P ev s))" by simp
    then show ?thesis by simp
  next
    case False
    then have "unfinished (buf @ ev_bytes ev)" using cut_message_unfinished [OF hello_msg_wf [OF vt] whole [symmetric]] by simp
    note first = ge(1) [OF this]
    have "greeted h (run_event P ev s) hb (fold (run_event P) evs (run_event P ev s))" using Cons.IH [OF _ own(4) whole] first by blast
    then show ?thesis using first by (cases "device_fits (sv_disk s) hb") (simp_all add: greeted_def refused_def)
  qed
qed

section \<open>Property\<close>

text \<open>A connection the server has just accepted.\<close>

lemma accepted_greeting:
  assumes "0 \<le> cfd" and "srv_ok (HandleAccept [cfd] s)" and "tx_ok (sv_tx s cfd)" and "cfd \<noteq> sv_listenFd s"
  shows "greeting_at cfd [] (HandleAccept [cfd] s) \<and> out_stream cfd (HandleAccept [cfd] s) = sv_sent (HandleAccept [cfd] s) cfd"
proof -
  have "conn_idle (Conn_new cfd)" by (simp add: conn_idle_def TryParse_def Conn_new_def TryParse_at_def Let_def)
  then show ?thesis using assms by (simp add: greeting_at_def EpollAdd_def set_conn_def out_stream_def Conn_new_def)
qed

lemma greeted_answer:
  assumes "greeted h s hb t" and "out_stream h s = sv_sent s h" and "sv_sent t h = sv_sent s h @ answer @ unread" and "64 \<le> length answer"
    and status: "\<And>a rest. answer = ack_msg a @ rest \<Longrightarrow> length (ak_Hash a) = 32 \<Longrightarrow> ak_Status a = 0"
  shows "device_fits (sv_disk s) hb \<and> session_at h [] t \<and> out_stream h t = sv_sent t h"
proof -
  have len: "length (ack_msg (plain_ack d st)) = 64" "length (ak_Hash (plain_ack d st)) = 32" for d st
    by (simp_all add: length_ack_msg plain_ack_def)
  have whole: "answer = ack_msg (plain_ack d st) \<and> more = []" if "answer @ more = ack_msg (plain_ack d st)" for d st more
  proof -
    have "length answer + length more = 64" using arg_cong [OF that, of length] len(1) by simp
    then have "length more = 0" using assms(4) by linarith
    then have "more = []" by simp
    then show ?thesis using that by simp
  qed
  show ?thesis
  proof (cases "device_fits (sv_disk s) hb")
    case True
    obtain q where q: "out_stream h t = sv_sent t h @ q" by (simp add: out_stream_def)
    have "answer @ unread @ q = ack_msg (plain_ack (hb_DevNo hb) OK)"
      using assms(1-3) True q by (simp add: greeted_def ack_bytes_msg)
    then have "unread @ q = []" using whole by blast
    then show ?thesis using assms(1) True q by (simp add: greeted_def)
  next
    case False
    then obtain st q where st: "st \<noteq> OK" "sv_sent t h @ q = out_stream h s @ ack_bytes (plain_ack (hb_DevNo hb) st)"
      using assms(1) by (auto simp: greeted_def refused_def)
    then have "answer @ unread @ q = ack_msg (plain_ack (hb_DevNo hb) st)" using assms(2,3) by (simp add: ack_bytes_msg)
    then have "answer = ack_msg (plain_ack (hb_DevNo hb) st) @ []" using whole by simp
    from status [OF this len(2)] have "ack_code st = 0" by (simp add: plain_ack_def)
    then show ?thesis using st(1) ack_code_OK by blast
  qed
qed


text \<open>A client that announces three bytes to the demonstration server.\<close>

definition hello_client :: NetworkClient where
  "hello_client = sync_client\<lparr> nc_rx := [Received (ack_msg (plain_ack 0 OK))] \<rparr>"

definition hello_server :: Server where
  "hello_server = (demo_server False)\<lparr> sv_tx := (\<lambda>_. [Sent 100]) \<rparr>"

definition hello_event :: "byte list \<Rightarrow> Event" where
  "hello_event bs = (piece bs)\<lparr> ev_out := False \<rparr>"

lemma hello_client_sends: "\<exists>c'. SendHello 1 0 1 3 [] hello_client = (c', True)"
proof -
  have hb: "length (HelloBody_bytes (hello_body 1 0 1 3 [])) = 88"
    using hb.length_enc [of "hello_body 1 0 1 3 []"] by (simp add: hello_body_def length_hello_type)
  then have ne: "HelloBody_bytes (hello_body 1 0 1 3 []) \<noteq> []" "MsgHeader_bytes (client_header HELLO 0) \<noteq> []" by (auto simp flip: length_0_conv)
  define c2 where "c2 = hello_client\<lparr> nc_tx := [Sent (3 * BLOCK_SIZE)], nc_out := nc_out hello_client @ MsgHeader_bytes (client_header HELLO 0) @ HelloBody_bytes (hello_body 1 0 1 3 []) \<rparr>"
  have s: "SendHello 1 0 1 3 [] hello_client = ReceiveAck 0 0 c2"
    using ne hb by (simp add: SendHello_def SendAll_def hello_client_def sync_client_def send_all_once Let_def c2_def)
  have "rx_plain (nc_rx c2)" "rx_stream (nc_rx c2) = ack_msg (plain_ack 0 OK) @ []"
    by (simp_all add: c2_def hello_client_def ack_msg_nonempty)
  from ReceiveAck_ack [OF this, of 0 0] show ?thesis unfolding s by (auto simp: plain_ack_def)
qed

lemma hello_server_greeting: "greeting_at 5 [] hello_server" "out_stream 5 hello_server = sv_sent hello_server 5"
  using demo_server_ok [of False] demo_conn_idle [of False] demo_recv_empty [of False]
  by (simp_all add: greeting_at_def hello_server_def srv_ok_def tx_ok_def out_stream_def demo_server_def)

lemma hello_answered:
  assumes ev: "ev_fd ev = 5" "\<not> ev_err ev" "ev_in ev" "\<not> ev_out ev" "ev_rx ev = [Received (msg_bytes (hello_msg 0 (hello_body 1 0 1 3 [])))]"
  shows "sv_sent (run_event demo_platform ev hello_server) 5 = ack_msg (plain_ack 0 OK)"
proof -
  let ?hb = "hello_body 1 0 1 3 []" and ?c = "demo_conn False"
  let ?s1 = "set_conn 5 (?c\<lparr> c_devno := 0, helloDone := True \<rparr>) hello_server"
  have g: "srv_ok hello_server" "5 \<noteq> sv_listenFd hello_server" "sv_conns hello_server 5 = Some ?c" "tx_ok (sv_tx hello_server 5)"
    using hello_server_greeting(1) by (simp_all add: greeting_at_def hello_server_def demo_server_def)
  have c: "conn_idle ?c" "ReadPtr (recvBuf ?c) = []" "\<not> helloDone ?c" using demo_conn_idle demo_recv_empty by simp_all
  have vt: "length (hb_VersionType ?hb) = 32" "hb_DevNo ?hb = 0" by (simp_all add: hello_body_def length_hello_type)
  have fits: "device_fits (sv_disk hello_server) ?hb"
    by (auto simp: device_fits_def hello_server_def demo_server_def hello_body_def Block_Processor.demo_disk_def Get_def)
  define d where "d = dispatch demo_platform 5 (hello_msg 0 ?hb) hello_server"
  have hh: "d = HandleHello 5 (client_header HELLO 0) (HelloBody_bytes ?hb) hello_server"
    by (simp add: d_def dispatch_def hello_msg_def client_header_def)
  have live: "sv_conns d 5 \<noteq> None" using HandleHello_effect [OF g(1,3) c(3) g(4) vt(1) hh] fits by auto
  have "d = touch 5 (EnqueueAck 5 (plain_ack 0 OK) ?s1)" unfolding hh using HandleHello_accepts [OF g(3) c(3) vt(1) fits] vt(2) by simp
  moreover have "sv_sent (EnqueueAck 5 (plain_ack 0 OK) ?s1) 5 = sv_sent ?s1 5 @ ack_bytes (plain_ack 0 OK)"
    using srv_ok_conn [OF g(1,3)]
    by (intro EnqueueAck_sent [where c = "?c\<lparr> c_devno := 0, helloDone := True \<rparr>" and n = 100 and tx = "[]"])
      (simp_all add: set_conn_def conn_wf_def plain_ack_def hello_server_def)
  ultimately have "sv_sent d 5 = ack_msg (plain_ack 0 OK)"
    by (simp add: touch_def set_conn_def hello_server_def demo_server_def ack_bytes_msg)
  then show ?thesis
    using frame_event [OF demo_pwrite_ok g(1,2,3) c(1,2) hello_msg_wf [OF vt(1)] _ ev] live by (simp add: d_def)
qed


end
