(* ===== verification/Disk_Scanner.thy ===== *)
theory Disk_Scanner
  imports Disk_Parser
begin

text \<open>
  The disk inventory, \<open>client/DiskScanner.{h,cpp}\<close>: size, geometry, model and partition list of
  the physical disks as the drivers report them, and the unallocated ranges. The replies of
  \<open>DeviceIoControl\<close> are parameters.
\<close>

section \<open>Data\<close>

record GPTLayout =
  gl_PrimaryHeaderOffset :: u64
  gl_BackupHeaderOffset :: u64
  gl_PartitionEntryOffset :: u64
  gl_PartitionEntryCount :: u32
  gl_PartitionEntrySize :: u32

record ScanPartition =
  sp_Index :: int
  sp_Offset :: u64
  sp_Size :: u64

record UnallocatedRange =
  ur_Offset :: u64
  ur_Size :: u64

text \<open>\<open>DiskInfo\<close> of the namespace \<open>BackupSystem\<close>; of \<open>MBRLayout\<close> only the signature is ever set.\<close>

record ScanDisk =
  sd_DevNo :: int
  sd_Size :: u64
  sd_BytesPerSector :: u32
  sd_Vendor :: wstring
  sd_Model :: wstring
  sd_SerialNumber :: wstring
  sd_IsGPT :: bool
  sd_IsMBR :: bool
  sd_GPT :: GPTLayout
  sd_Signature :: u32
  sd_Partitions :: "ScanPartition list"
  sd_Unallocated :: "UnallocatedRange list"

definition ScanDisk_new :: ScanDisk where
  "ScanDisk_new = \<lparr> sd_DevNo = -1, sd_Size = 0, sd_BytesPerSector = 0, sd_Vendor = [], sd_Model = [], sd_SerialNumber = [],
     sd_IsGPT = False, sd_IsMBR = False,
     sd_GPT = \<lparr> gl_PrimaryHeaderOffset = 0, gl_BackupHeaderOffset = 0, gl_PartitionEntryOffset = 0, gl_PartitionEntryCount = 0, gl_PartitionEntrySize = 0 \<rparr>,
     sd_Signature = 0, sd_Partitions = [], sd_Unallocated = [] \<rparr>"

text \<open>
  The reply to \<open>IOCTL_DISK_GET_DRIVE_LAYOUT_EX\<close> for a buffer of a given size: an error code, or
  the number of bytes and what they say (style 0 is MBR, 1 is GPT; entries are signed start and length).
\<close>

record drive_layout =
  ly_returned :: u32
  ly_style :: u32
  ly_signature :: u32
  ly_maxPartitions :: u32
  ly_entries :: "(u64 \<times> u64) list"

text \<open>
  What a disk answers. The storage descriptor is a buffer of 4096 bytes; \<open>sc_wide\<close> is
  \<open>MultiByteToWideChar\<close> on a C string.
\<close>

record scan_env =
  sc_open :: bool
  sc_length :: "u64 option"
  sc_sector :: "u32 option"
  sc_storage :: "byte list option"
  sc_wide :: "byte list \<Rightarrow> wstring"
  sc_layout :: "u32 \<Rightarrow> u32 + drive_layout"

section \<open>Queries\<close>

definition ScanDiskSize :: "scan_env \<Rightarrow> ScanDisk \<Rightarrow> ScanDisk \<times> bool" where
  "ScanDiskSize E d = (case sc_length E of None \<Rightarrow> (d, False) | Some n \<Rightarrow> (d\<lparr> sd_Size := n \<rparr>, True))"

definition QueryGeometry :: "scan_env \<Rightarrow> ScanDisk \<Rightarrow> ScanDisk \<times> bool" where
  "QueryGeometry E d = (case sc_sector E of None \<Rightarrow> (d, False) | Some n \<Rightarrow> (d\<lparr> sd_BytesPerSector := n \<rparr>, True))"

text \<open>\<open>readString\<close>: the offset comes from the device; beyond the buffer the stack is read.\<close>

definition read_string :: "scan_env \<Rightarrow> byte list \<Rightarrow> u32 \<Rightarrow> parse_error + wstring" where
  "read_string E buffer offset =
     (if offset = 0 then Inr []
      else if length buffer \<le> unat offset \<or> 0 \<notin> set (drop (unat offset) buffer) then Inl StackOverrun
      else Inr (takeWhile (\<lambda>ch. ch \<noteq> 0) (sc_wide E (takeWhile (\<lambda>b. b \<noteq> 0) (drop (unat offset) buffer)))))"

definition QueryStorageInfo :: "scan_env \<Rightarrow> ScanDisk \<Rightarrow> parse_error + (ScanDisk \<times> bool)" where
  "QueryStorageInfo E d =
     (case sc_storage E of
        None \<Rightarrow> Inr (d, False)
      | Some buffer \<Rightarrow>
          (case (read_string E buffer (le_word (segment 12 4 buffer)), read_string E buffer (le_word (segment 16 4 buffer)),
                 read_string E buffer (le_word (segment 24 4 buffer))) of
             (Inr vendor, Inr model, Inr serial) \<Rightarrow> Inr (d\<lparr> sd_Vendor := vendor, sd_Model := model, sd_SerialNumber := serial \<rparr>, True)
           | _ \<Rightarrow> Inl StackOverrun))"

text \<open>The loop that doubles the buffer up to 1 MiB; 122 is \<open>ERROR_INSUFFICIENT_BUFFER\<close>.\<close>

function layout_loop :: "scan_env \<Rightarrow> nat \<Rightarrow> drive_layout option" where
  "layout_loop E n =
     (if 0 < n \<and> n \<le> 1048576 then
        (case sc_layout E (of_nat n) of
           Inr ly \<Rightarrow> Some ly
         | Inl err \<Rightarrow> if err = 122 then (if 1048576 < n * 2 then None else layout_loop E (n * 2)) else None)
      else None)"
  by pat_completeness auto
termination by (relation "measure (\<lambda>(E, n). 1048576 + 1 - n)") auto

declare layout_loop.simps [simp del]

fun scan_entries :: "int \<Rightarrow> (u64 \<times> u64) list \<Rightarrow> ScanPartition list" where
  "scan_entries i [] = []"
| "scan_entries i ((start, len) # es) =
     (if sint len \<le> 0 then scan_entries (i + 1) es
      else \<lparr> sp_Index = i, sp_Offset = start, sp_Size = len \<rparr> # scan_entries (i + 1) es)"

text \<open>192 is the size of \<open>DRIVE_LAYOUT_INFORMATION_EX\<close>; the entry offset is computed with 32 bits.\<close>

definition QueryLayout :: "scan_env \<Rightarrow> ScanDisk \<Rightarrow> ScanDisk \<times> bool" where
  "QueryLayout E d =
     (case layout_loop E 4096 of
        None \<Rightarrow> (d, False)
      | Some ly \<Rightarrow>
          if ly_returned ly < 192 then (d, False)
          else
            let bps = ucast (sd_BytesPerSector d) :: u64;
                d1 = (if ly_style ly = 1 then
                        d\<lparr> sd_IsGPT := True,
                           sd_GPT := \<lparr> gl_PrimaryHeaderOffset = bps, gl_BackupHeaderOffset = sd_Size d - bps,
                             gl_PartitionEntryOffset = ucast (sd_BytesPerSector d * 2), gl_PartitionEntryCount = ly_maxPartitions ly,
                             gl_PartitionEntrySize = 128 \<rparr> \<rparr>
                      else if ly_style ly = 0 then d\<lparr> sd_IsMBR := True, sd_Signature := ly_signature ly \<rparr>
                      else d)
            in (d1\<lparr> sd_Partitions := sd_Partitions d1 @ scan_entries 0 (ly_entries ly) \<rparr>, True))"

section \<open>Unallocated space\<close>

fun scan_gaps :: "u64 \<Rightarrow> ScanPartition list \<Rightarrow> UnallocatedRange list \<times> u64" where
  "scan_gaps current [] = ([], current)"
| "scan_gaps current (p # ps) =
     (case scan_gaps (sp_Offset p + sp_Size p) ps of (gaps, c) \<Rightarrow>
        ((if current < sp_Offset p then [\<lparr> ur_Offset = current, ur_Size = sp_Offset p - current \<rparr>] else []) @ gaps, c))"

definition CalculateUnallocated :: "ScanDisk \<Rightarrow> ScanDisk" where
  "CalculateUnallocated d =
     (let ps = sort_key sp_Offset (sd_Partitions d) in
      case scan_gaps 0 ps of (gaps, current) \<Rightarrow>
        d\<lparr> sd_Partitions := ps,
           sd_Unallocated := gaps @ (if current < sd_Size d then [\<lparr> ur_Offset = current, ur_Size = sd_Size d - current \<rparr>] else []) \<rparr>)"

section \<open>Enumeration\<close>

text \<open>The result is false if one of the essential queries failed; what the others gave is kept.\<close>

definition Enumerate :: "scan_env \<Rightarrow> int \<Rightarrow> ScanDisk \<Rightarrow> parse_error + (ScanDisk \<times> bool)" where
  "Enumerate E devno d0 =
     (if \<not> sc_open E then Inr (d0, False)
      else
        case ScanDiskSize E (d0\<lparr> sd_DevNo := devno \<rparr>) of (d1, ok1) \<Rightarrow>
          case QueryGeometry E d1 of (d2, ok2) \<Rightarrow>
            (case QueryStorageInfo E d2 of
               Inl err \<Rightarrow> Inl err
             | Inr (d3, ok3) \<Rightarrow> (case QueryLayout E d3 of (d4, ok4) \<Rightarrow> Inr (CalculateUnallocated d4, ok1 \<and> ok2 \<and> ok4))))"

fun enumerate_from :: "(int \<Rightarrow> scan_env) \<Rightarrow> nat list \<Rightarrow> parse_error + ScanDisk list" where
  "enumerate_from E [] = Inr []"
| "enumerate_from E (i # is) =
     (case Enumerate (E (int i)) (int i) ScanDisk_new of
        Inl err \<Rightarrow> Inl err
      | Inr (d, ok) \<Rightarrow>
          (case enumerate_from E is of Inl err \<Rightarrow> Inl err | Inr ds \<Rightarrow> Inr (if ok then d # ds else ds)))"

definition EnumerateAll :: "(int \<Rightarrow> scan_env) \<Rightarrow> parse_error + (ScanDisk list \<times> bool)" where
  "EnumerateAll E = (case enumerate_from E [0..<128] of Inl err \<Rightarrow> Inl err | Inr ds \<Rightarrow> Inr (ds, ds \<noteq> []))"

text \<open>\<open>ReadGPTHeader\<close>: \<open>rd\<close> is what reading a sector at an offset delivers; a short read of at least the
  header's 92 bytes is accepted.\<close>

definition ReadGPTHeader :: "(u64 \<Rightarrow> u32 \<Rightarrow> byte list option) \<Rightarrow> ScanDisk \<Rightarrow> ScanDisk \<times> bool" where
  "ReadGPTHeader rd d =
     (let bps = sd_BytesPerSector d; b64 = ucast bps :: u64 in
      if \<not> sd_IsGPT d then (d, False)
      else if bps = 0 then (d, False)
      else case rd b64 bps of
          None \<Rightarrow> (d, False)
        | Some bytes \<Rightarrow>
            let h = GPTHeader_of bytes in
            if length bytes < 92 then (d, False)
            else if gh_Signature h \<noteq> ascii ''EFI PART'' then (d, False)
            else (d\<lparr> sd_GPT := \<lparr> gl_PrimaryHeaderOffset = le_word (segment 24 8 bytes) * b64, gl_BackupHeaderOffset = gh_BackupLBA h * b64,
                       gl_PartitionEntryOffset = gh_PartitionEntryLBA h * b64, gl_PartitionEntryCount = gh_NumberOfPartitionEntries h,
                       gl_PartitionEntrySize = gh_SizeOfPartitionEntry h \<rparr> \<rparr>, True))"

section \<open>Agreement with the parser\<close>

text \<open>A layout of the parser with the same partitions on a disk of the same size.\<close>

definition parser_partition :: "ScanPartition \<Rightarrow> PartitionInfo" where
  "parser_partition p = PartitionInfo_zero\<lparr> pi_Offset := sp_Offset p, pi_Size := sp_Size p \<rparr>"

definition parser_layout :: "ScanDisk \<Rightarrow> DiskLayout" where
  "parser_layout d = DiskLayout_new\<lparr> dl_Disk := DiskInfo_zero\<lparr> di_Size := sd_Size d \<rparr>, dl_Partitions := map parser_partition (sd_Partitions d) \<rparr>"

definition as_range :: "UnallocatedRange \<Rightarrow> DiskRange" where
  "as_range r = \<lparr> rg_Offset = ur_Offset r, rg_Size = ur_Size r \<rparr>"

definition part_end :: "ScanPartition \<Rightarrow> nat" where
  "part_end p = unat (sp_Offset p) + unat (sp_Size p)"

definition separate :: "ScanPartition list \<Rightarrow> bool" where
  "separate ps \<longleftrightarrow> sorted_wrt (\<lambda>p q. part_end p \<le> unat (sp_Offset q) \<or> part_end q \<le> unat (sp_Offset p)) ps"

lemma parser_offset_size:
  "pi_Offset (parser_partition p) = sp_Offset p" "pi_Size (parser_partition p) = sp_Size p"
  by (simp_all add: parser_partition_def)

lemma scan_gaps_agree:
  assumes "sorted_wrt (\<lambda>p q. part_end p \<le> unat (sp_Offset q)) ps" and "\<forall>p \<in> set ps. 0 < unat (sp_Size p) \<and> part_end p < 2 ^ 64"
    and "\<forall>p \<in> set ps. c \<le> sp_Offset p"
  shows "free_gaps c (map parser_partition ps) = map_prod (map as_range) id (scan_gaps c ps)"
  using assms
proof (induction ps arbitrary: c)
  case (Cons p ps)
  define e where "e = sp_Offset p + sp_Size p"
  have ue: "unat e = part_end p" using Cons.prems(2) by (simp add: e_def part_end_def unat_add_lem [symmetric])
  have "c < e" using ue Cons.prems(2,3) by (auto simp: word_less_nat_alt word_le_nat_alt part_end_def)
  moreover have "free_gaps e (map parser_partition ps) = map_prod (map as_range) id (scan_gaps e ps)"
    using Cons.prems ue by (intro Cons.IH) (auto simp: word_le_nat_alt)
  ultimately show ?case
    by (simp add: e_def [symmetric] max_def parser_offset_size as_range_def Let_def split: prod.split)
qed simp

lemma sort_parser: "sort_key pi_Offset (map parser_partition ps) = map parser_partition (sort_key sp_Offset ps)"
proof -
  have "insort_key pi_Offset (parser_partition p) (map parser_partition qs) = map parser_partition (insort_key sp_Offset p qs)" for p qs
    by (induction qs) (auto simp: parser_partition_def)
  then show ?thesis by (induction ps) (simp_all add: sort_key_def)
qed

lemma separate_insort: "separate (insort_key sp_Offset p ps) \<longleftrightarrow> separate (p # ps)"
  by (induction ps) (auto simp: separate_def set_insort_key)

lemma separate_sort: "separate (sort_key sp_Offset ps) \<longleftrightarrow> separate ps"
proof (induction ps)
  case (Cons p ps)
  have "separate (sort_key sp_Offset (p # ps)) \<longleftrightarrow> separate (p # sort_key sp_Offset ps)"
    by (simp add: sort_key_def separate_insort)
  then show ?case using Cons.IH by (simp add: separate_def)
qed simp

lemma sorted_separate:
  assumes "separate ps" and "\<forall>p \<in> set ps. 0 < unat (sp_Size p)"
  shows "sorted_wrt (\<lambda>p q. part_end p \<le> unat (sp_Offset q)) (sort_key sp_Offset ps)"
proof -
  let ?qs = "sort_key sp_Offset ps"
  have "separate ?qs" using assms(1) by (simp add: separate_sort)
  moreover have "sorted_wrt (\<lambda>p q. sp_Offset p \<le> sp_Offset q) ?qs"
    using sorted_sort_key [of sp_Offset ps] by (simp add: sorted_wrt_map)
  ultimately have "sorted_wrt (\<lambda>p q. (part_end p \<le> unat (sp_Offset q) \<or> part_end q \<le> unat (sp_Offset p)) \<and> sp_Offset p \<le> sp_Offset q) ?qs"
    by (auto simp: separate_def sorted_wrt_iff_nth_less)
  then show ?thesis
  proof (rule sorted_wrt_mono_rel [rotated])
    fix p q
    assume "p \<in> set ?qs" "q \<in> set ?qs"
      and "(part_end p \<le> unat (sp_Offset q) \<or> part_end q \<le> unat (sp_Offset p)) \<and> sp_Offset p \<le> sp_Offset q"
    then show "part_end p \<le> unat (sp_Offset q)" using assms(2)
      by (auto simp: part_end_def word_le_nat_alt)
  qed
qed

text \<open>
  C37. On a disk whose partitions are not empty, do not wrap and do not overlap, the scanner and the
  parser of the client, written independently, find the same free ranges.
\<close>

theorem scanner_agrees:
  assumes "separate (sd_Partitions d)" and "\<forall>p \<in> set (sd_Partitions d). 0 < unat (sp_Size p) \<and> part_end p < 2 ^ 64"
  shows "map as_range (sd_Unallocated (CalculateUnallocated d)) = dl_FreeRanges (CalculateFreeSpace (parser_layout d))"
proof -
  let ?qs = "sort_key sp_Offset (sd_Partitions d)"
  have "free_gaps 0 (map parser_partition ?qs) = map_prod (map as_range) id (scan_gaps 0 ?qs)"
    using assms sorted_separate [OF assms(1)] by (intro scan_gaps_agree) auto
  then show ?thesis
    by (cases "scan_gaps 0 ?qs"; cases "sd_Partitions d = []")
       (auto simp: CalculateUnallocated_def CalculateFreeSpace_def parser_layout_def sort_parser as_range_def Let_def word_less_nat_alt)
qed

theorem scanner_agrees_witness:
  "map as_range (sd_Unallocated (CalculateUnallocated (ScanDisk_new\<lparr> sd_Size := 100,
     sd_Partitions := [\<lparr> sp_Index = 0, sp_Offset = 50, sp_Size = 20 \<rparr>, \<lparr> sp_Index = 1, sp_Offset = 10, sp_Size = 30 \<rparr>] \<rparr>)))
   = dl_FreeRanges (CalculateFreeSpace (parser_layout (ScanDisk_new\<lparr> sd_Size := 100,
     sd_Partitions := [\<lparr> sp_Index = 0, sp_Offset = 50, sp_Size = 20 \<rparr>, \<lparr> sp_Index = 1, sp_Offset = 10, sp_Size = 30 \<rparr>] \<rparr>)))"
  by (rule scanner_agrees) (simp_all add: separate_def part_end_def)

text \<open>
  Where partitions overlap they differ: the scanner lets its position go back to the end of the inner
  partition and reports bytes of the outer one as free.
\<close>

lemma scanner_overlap:
  "sd_Unallocated (CalculateUnallocated (ScanDisk_new\<lparr> sd_Size := 100,
     sd_Partitions := [\<lparr> sp_Index = 0, sp_Offset = 0, sp_Size = 100 \<rparr>, \<lparr> sp_Index = 1, sp_Offset = 10, sp_Size = 10 \<rparr>] \<rparr>))
   = [\<lparr> ur_Offset = 20, ur_Size = 80 \<rparr>]"
  by (simp add: CalculateUnallocated_def ScanDisk_new_def sort_key_def Let_def)

section \<open>Queries of the layout\<close>

text \<open>The layout query ends with the first buffer size of 4096, 8192, ... up to 1 MiB that suffices.\<close>

lemma layout_loop_first:
  assumes "\<forall>i < k. sc_layout E (of_nat (n * 2 ^ i)) = Inl 122" and "sc_layout E (of_nat (n * 2 ^ k)) = Inr ly"
    and "0 < n" and "n * 2 ^ k \<le> 1048576"
  shows "layout_loop E n = Some ly"
  using assms
proof (induction k arbitrary: n)
  case 0
  then show ?case by (subst layout_loop.simps) simp
next
  case (Suc k)
  have "n * 2 * 2 ^ k \<le> 1048576" using Suc.prems(4) by (simp add: mult.assoc)
  moreover have "n * 2 * 1 \<le> n * 2 * 2 ^ k" by (intro mult_le_mono2) simp
  ultimately have n2: "n * 2 \<le> 1048576" by linarith
  have "layout_loop E (n * 2) = Some ly"
  proof (rule Suc.IH)
    show "\<forall>i < k. sc_layout E (of_nat (n * 2 * 2 ^ i)) = Inl 122"
    proof (intro allI impI)
      fix i assume "i < k"
      with Suc.prems(1) have "sc_layout E (of_nat (n * 2 ^ Suc i)) = Inl 122" by blast
      then show "sc_layout E (of_nat (n * 2 * 2 ^ i)) = Inl 122" by (simp only: power_Suc mult.assoc)
    qed
    show "sc_layout E (of_nat (n * 2 * 2 ^ k)) = Inr ly" using Suc.prems(2) by (simp only: power_Suc mult.assoc)
  qed (use Suc.prems(3) \<open>n * 2 * 2 ^ k \<le> 1048576\<close> in auto)
  moreover have "sc_layout E (of_nat n) = Inl 122" using Suc.prems(1) by (metis One_nat_def mult.right_neutral power_0 zero_less_Suc)
  ultimately show ?case using n2 Suc.prems(3) by (subst layout_loop.simps) simp
qed

text \<open>The partitions listed are the entries of positive length, each with the index of its entry.\<close>

lemma scan_entries_exact:
  "scan_entries i es =
     map (\<lambda>(k, (start, len)). \<lparr> sp_Index = i + int k, sp_Offset = start, sp_Size = len \<rparr>)
       (filter (\<lambda>(k, (start, len)). 0 < sint len) (enumerate 0 es))"
proof -
  have "scan_entries (i + int m) es =
     map (\<lambda>(k, (start, len)). \<lparr> sp_Index = i + int k, sp_Offset = start, sp_Size = len \<rparr>)
       (filter (\<lambda>(k, (start, len)). 0 < sint len) (enumerate m es))" for m
  proof (induction es arbitrary: m)
    case (Cons e es)
    have "scan_entries (i + int m + 1) es = scan_entries (i + int (Suc m)) es" by (simp add: algebra_simps)
    then show ?case using Cons.IH [of "Suc m"] by (cases e) simp
  qed simp
  from this [of 0] show ?thesis by simp
qed

end
