(* ===== verification/C_Text.thy ===== *)
theory C_Text
  imports Cbt_Prelude
begin

text \<open>
  The text functions of the C library the command lines use: decimal numbers (\<open>atol\<close> of the
  Microsoft runtime, \<open>std::stoul\<close> of the server's platform) and comparison without case. Strings are lists of
  character codes without the terminating zero.
\<close>

definition is_space :: "byte \<Rightarrow> bool" where
  "is_space c \<longleftrightarrow> c = 32 \<or> 9 \<le> c \<and> c \<le> 13"

definition is_digit :: "byte \<Rightarrow> bool" where
  "is_digit c \<longleftrightarrow> 48 \<le> c \<and> c \<le> 57"

text \<open>Sign and digits at the start of a text, after white space; the rest is ignored.\<close>

definition scan_decimal :: "byte list \<Rightarrow> bool \<times> byte list" where
  "scan_decimal s =
     (let t = dropWhile is_space s in
      case t of [] \<Rightarrow> (False, [])
      | c # u \<Rightarrow> (c = 45, takeWhile is_digit (if c = 45 \<or> c = 43 then u else t)))"

definition decimal_value :: "byte list \<Rightarrow> nat" where
  "decimal_value ds = foldl (\<lambda>v c. 10 * v + (unat c - 48)) 0 ds"

text \<open>A \<open>long\<close> has 32 bits on Windows; values out of its range give its limits.\<close>

definition atol :: "byte list \<Rightarrow> int" where
  "atol s = (case scan_decimal s of (neg, ds) \<Rightarrow>
     let v = (if neg then - int (decimal_value ds) else int (decimal_value ds)) in max (- (2 ^ 31)) (min (2 ^ 31 - 1) v))"

text \<open>\<open>unsigned long\<close> has 64 bits on the server; no digits or a value that does not fit is an exception,
  a minus sign negates modulo \<open>2 ^ 64\<close>.\<close>

definition stoul :: "byte list \<Rightarrow> u64 option" where
  "stoul s = (case scan_decimal s of (neg, ds) \<Rightarrow>
     if ds = [] \<or> 2 ^ 64 \<le> decimal_value ds then None
     else Some (if neg then - of_nat (decimal_value ds) else of_nat (decimal_value ds)))"

definition to_lower :: "byte \<Rightarrow> byte" where
  "to_lower c = (if 65 \<le> c \<and> c \<le> 90 then c + 32 else c)"

definition same_text :: "byte list \<Rightarrow> byte list \<Rightarrow> bool" where
  "same_text s t \<longleftrightarrow> map to_lower s = map to_lower t"

section \<open>Decimal notation\<close>

fun decimal :: "nat \<Rightarrow> byte list" where
  "decimal n = (if n < 10 then [of_nat (48 + n)] else decimal (n div 10) @ [of_nat (48 + n mod 10)])"

declare decimal.simps [simp del]

lemma digit_code:
  assumes "d < 10"
  shows "is_digit (of_nat (48 + d))" and "unat (of_nat (48 + d) :: byte) = 48 + d"
proof -
  show u: "unat (of_nat (48 + d) :: byte) = 48 + d" using assms by (simp add: unat_of_nat del: of_nat_add)
  show "is_digit (of_nat (48 + d))" unfolding is_digit_def word_le_nat_alt u using assms by simp
qed

lemma decimal_digits: "\<forall>c \<in> set (decimal n). is_digit c" "decimal n \<noteq> []"
proof (induction n rule: decimal.induct)
  case (1 n)
  { case 1 then show ?case using "1.IH" digit_code(1) [of n] digit_code(1) [of "n mod 10"] by (subst decimal.simps) (auto simp del: of_nat_add) }
  { case 2 then show ?case by (subst decimal.simps) simp }
qed

lemma decimal_value_decimal [simp]: "decimal_value (decimal n) = n"
proof (induction n rule: decimal.induct)
  case (1 n)
  show ?case
  proof (cases "n < 10")
    case True
    then show ?thesis using digit_code(2) [of n] by (subst decimal.simps) (simp add: decimal_value_def del: of_nat_add)
  next
    case False
    then have "decimal_value (decimal n) = 10 * decimal_value (decimal (n div 10)) + (unat (of_nat (48 + n mod 10) :: byte) - 48)"
      by (subst decimal.simps) (simp add: decimal_value_def del: of_nat_add)
    then show ?thesis using 1 [OF False] digit_code(2) [of "n mod 10"] by (simp del: of_nat_add)
  qed
qed

text \<open>Reading a number followed by anything that does not start with a digit.\<close>

lemma scan_decimal_decimal:
  assumes "rest = [] \<or> \<not> is_digit (hd rest)"
  shows "scan_decimal (decimal n @ rest) = (False, decimal n)"
proof -
  obtain c u where c: "decimal n = c # u" using decimal_digits(2) by (cases "decimal n") auto
  have d: "is_digit c" using decimal_digits(1) [of n] c by simp
  have ns: "\<not> is_space c" "c \<noteq> 45" "c \<noteq> 43" using d by (auto simp: is_digit_def is_space_def word_le_nat_alt)
  have "takeWhile is_digit (decimal n @ rest) = decimal n"
    using assms decimal_digits(1) [of n] by (cases rest) (simp_all add: takeWhile_append2)
  then show ?thesis using ns by (simp add: scan_decimal_def c)
qed

lemma stoul_decimal:
  assumes "n < 2 ^ 64"
  shows "stoul (decimal n) = Some (of_nat n)"
  using scan_decimal_decimal [of "[]" n] assms decimal_digits(2) [of n] by (simp add: stoul_def)

lemma atol_decimal:
  assumes "n < 2 ^ 31"
  shows "atol (decimal n) = int n"
  using scan_decimal_decimal [of "[]" n] assms by (simp add: atol_def Let_def)

end
