(* ===== verification/Printed_Numbers.thy ===== *)
theory Printed_Numbers
  imports C_Text Complex_Main "HOL-Library.Log_Nat"
begin

text \<open>
  Numbers as \<open>printf\<close> shows them: integers in decimal and hexadecimal notation, padding, and numbers of
  type \<open>double\<close> with a fixed number of digits. A \<open>double\<close> that is not negative is the rational number it stands for; an operation rounds
  the exact result to 53 significant bits, to the nearest and to the even one of two nearest. The values here stay between \<open>2 ^ -64\<close> and
  \<open>2 ^ 71\<close>, so that neither the smallest nor the largest exponent is met.
\<close>

section \<open>Rounding\<close>

text \<open>The integer nearest to a number, the even one of two.\<close>

definition round_even :: "rat \<Rightarrow> int" where
  "round_even x =
     (let f = \<lfloor>x\<rfloor>; d = x - of_int f in
      if d < 1 / 2 then f else if 1 / 2 < d then f + 1 else if even f then f else f + 1)"

lemma round_even_error: "\<bar>of_int (round_even x) - x\<bar> \<le> 1 / 2"
proof -
  have "of_int \<lfloor>x\<rfloor> \<le> x" "x < of_int \<lfloor>x\<rfloor> + 1" by (rule of_int_floor_le, rule floor_less_iff [THEN iffD1, of x "\<lfloor>x\<rfloor> + 1", simplified]) 
  then show ?thesis by (auto simp: round_even_def Let_def abs_le_iff)
qed

lemma round_even_of_int [simp]: "round_even (of_int k) = k"
  by (simp add: round_even_def)

lemma round_even_mono:
  assumes "x \<le> y"
  shows "round_even x \<le> round_even y"
proof (cases "\<lfloor>x\<rfloor> = \<lfloor>y\<rfloor>")
  case True
  then show ?thesis using assms by (auto simp: round_even_def Let_def)
next
  case False
  then have "\<lfloor>x\<rfloor> + 1 \<le> \<lfloor>y\<rfloor>" using floor_mono [OF assms] by simp
  then show ?thesis by (auto simp: round_even_def Let_def)
qed

lemma round_even_between:
  assumes "of_int a \<le> x" and "x \<le> of_int b"
  shows "a \<le> round_even x" and "round_even x \<le> b"
  using round_even_mono [OF assms(1)] round_even_mono [OF assms(2)] by simp_all

section \<open>Numbers of type double\<close>

text \<open>The exponent of the leading bit.\<close>

definition exponent :: "rat \<Rightarrow> int" where
  "exponent q =
     (case quotient_of q of (a, b) \<Rightarrow>
        let k = bitlen a - bitlen b in if q < 2 powi k then k - 1 else k)"

lemma powi_split: "(2 :: rat) powi (a + b) = 2 powi a * 2 powi b"
  by (simp add: power_int_add)

lemma bitlen_powi:
  assumes "0 < m"
  shows "(2 :: rat) powi (bitlen m - 1) \<le> of_int m" and "(of_int m :: rat) < 2 powi bitlen m"
proof -
  have b: "2 ^ nat (bitlen m - 1) \<le> m" "m < 2 ^ nat (bitlen m)" using bitlen_bounds [OF assms] by auto
  have n: "0 \<le> bitlen m - 1" using bitlen_nonneg [of m] bitlen_eq_zero_iff [of m] assms by linarith
  have "(of_int (2 ^ nat (bitlen m - 1)) :: rat) \<le> of_int m" using b(1) of_int_le_iff by blast
  then show "(2 :: rat) powi (bitlen m - 1) \<le> of_int m" using n by (simp add: power_int_def)
  have "(of_int m :: rat) < of_int (2 ^ nat (bitlen m))" using b(2) of_int_less_iff by blast
  then show "(of_int m :: rat) < 2 powi bitlen m" using bitlen_nonneg [of m] by (simp add: power_int_def)
qed

lemma exponent_bounds:
  assumes "0 < q"
  shows "2 powi exponent q \<le> q" and "q < 2 powi (exponent q + 1)"
proof -
  obtain a b where ab: "quotient_of q = (a, b)" by fastforce
  have b: "0 < b" using quotient_of_denom_pos [OF ab] .
  have q: "q = of_int a / of_int b" using quotient_of_div [OF ab] .
  have a: "0 < a" using assms b by (simp add: q zero_less_divide_iff)
  define k where "k = bitlen a - bitlen b"
  have "q < 2 powi bitlen a / 2 powi (bitlen b - 1)"
    unfolding q using bitlen_powi [OF a] bitlen_powi [OF b] a b by (intro frac_less) auto
  then have up: "q < 2 powi (k + 1)" by (simp add: k_def algebra_simps flip: power_int_diff)
  have "2 powi (bitlen a - 1) / 2 powi bitlen b \<le> q"
    unfolding q using bitlen_powi [OF a] bitlen_powi [OF b] a b by (intro frac_le) auto
  then have lo: "2 powi (k - 1) \<le> q" by (simp add: k_def algebra_simps flip: power_int_diff)
  have e: "exponent q = (if q < 2 powi k then k - 1 else k)" by (simp add: exponent_def ab k_def)
  show "2 powi exponent q \<le> q" "q < 2 powi (exponent q + 1)" using up lo by (auto simp: e)
qed

lemma exponent_mono:
  assumes "0 < p" and "p \<le> q"
  shows "exponent p \<le> exponent q"
proof (rule ccontr)
  assume "\<not> exponent p \<le> exponent q"
  then have "(2 :: rat) powi (exponent q + 1) \<le> 2 powi exponent p" by (intro power_int_increasing) auto
  then show False using exponent_bounds [of p] exponent_bounds [of q] assms by simp
qed

definition to_double :: "rat \<Rightarrow> rat" where
  "to_double q =
     (if q \<le> 0 then 0
      else let e = exponent q - 52 in of_int (round_even (q * 2 powi (- e))) * 2 powi e)"

lemma to_double_zero [simp]: "to_double 0 = 0"
  by (simp add: to_double_def)

text \<open>The scaled number lies between \<open>2 ^ 52\<close> and \<open>2 ^ 53\<close>.\<close>

lemma scaled_bounds:
  assumes "0 < q"
  shows "of_int (2 ^ 52) \<le> q * 2 powi (- (exponent q - 52))" and "q * 2 powi (- (exponent q - 52)) \<le> of_int (2 ^ 53)"
proof -
  have "2 powi (exponent q + (- (exponent q - 52))) \<le> q * 2 powi (- (exponent q - 52))"
    unfolding powi_split by (intro mult_right_mono exponent_bounds(1) [OF assms]) simp
  then show "of_int (2 ^ 52) \<le> q * 2 powi (- (exponent q - 52))" by simp
  have "q * 2 powi (- (exponent q - 52)) \<le> 2 powi ((exponent q + 1) + (- (exponent q - 52)))"
    unfolding powi_split [of "exponent q + 1"] by (intro mult_right_mono less_imp_le [OF exponent_bounds(2) [OF assms]]) simp
  then show "q * 2 powi (- (exponent q - 52)) \<le> of_int (2 ^ 53)" by simp
qed

lemma to_double_range:
  assumes "0 < q"
  shows "2 powi exponent q \<le> to_double q" and "to_double q \<le> 2 powi (exponent q + 1)"
proof -
  let ?e = "exponent q - 52"
  define r where "r = round_even (q * 2 powi (- ?e))"
  have r: "2 ^ 52 \<le> r" "r \<le> 2 ^ 53" unfolding r_def using round_even_between [OF scaled_bounds [OF assms]] by auto
  have t: "to_double q = of_int r * 2 powi ?e" using assms by (simp add: to_double_def r_def Let_def)
  have "(of_int (2 ^ 52) :: rat) \<le> of_int r" "(of_int r :: rat) \<le> of_int (2 ^ 53)" using r by (simp_all only: of_int_le_iff)
  then have "2 powi (52 + ?e) \<le> to_double q" "to_double q \<le> 2 powi (53 + ?e)"
    unfolding powi_split t by (intro mult_right_mono; simp)+
  then show "2 powi exponent q \<le> to_double q" "to_double q \<le> 2 powi (exponent q + 1)" by (simp_all add: algebra_simps)
qed

lemma to_double_error:
  assumes "0 \<le> q"
  shows "\<bar>to_double q - q\<bar> \<le> q / 2 ^ 53"
proof (cases "q = 0")
  case False
  let ?e = "exponent q - 52"
  have "to_double q - q = (of_int (round_even (q * 2 powi (- ?e))) - q * 2 powi (- ?e)) * 2 powi ?e"
    using False assms by (simp add: to_double_def Let_def left_diff_distrib mult.assoc flip: powi_split)
  then have "\<bar>to_double q - q\<bar> \<le> 1 / 2 * 2 powi ?e"
    unfolding abs_mult using round_even_error by (simp add: abs_mult mult_right_mono del: times_divide_eq_left)
  also have "\<dots> = 2 powi exponent q / 2 ^ 53" by (simp add: power_int_diff)
  also have "\<dots> \<le> q / 2 ^ 53" using exponent_bounds(1) [of q] False assms by (intro divide_right_mono) auto
  finally show ?thesis .
qed simp

lemma to_double_nonneg [simp]: "0 \<le> to_double q"
proof (cases "0 < q")
  case True
  have "(0 :: rat) < 2 powi exponent q" by simp
  then show ?thesis using to_double_range(1) [OF True] by linarith
qed (simp add: to_double_def)

lemma to_double_mono:
  assumes "p \<le> q"
  shows "to_double p \<le> to_double q"
proof (cases "0 < p")
  case True
  then have q: "0 < q" using assms by simp
  show ?thesis
  proof (cases "exponent p = exponent q")
    case True
    then show ?thesis using \<open>0 < p\<close> q assms
      by (simp add: to_double_def Let_def mult_right_mono round_even_mono)
  next
    case False
    then have "(2 :: rat) powi (exponent p + 1) \<le> 2 powi exponent q" using exponent_mono [OF True assms] by (intro power_int_increasing) auto
    then show ?thesis using to_double_range(2) [OF True] to_double_range(1) [OF q] by linarith
  qed
qed (simp add: to_double_def [of p])

text \<open>A number of at most 53 bits times a power of two is not rounded.\<close>

lemma to_double_exact:
  assumes "0 \<le> m" and "m < 2 ^ 53"
  shows "to_double (of_int m * 2 powi e) = of_int m * 2 powi e"
proof (cases "m = 0")
  case False
  define q :: rat where "q = of_int m * 2 powi e"
  have q: "0 < q" using assms False by (simp add: q_def)
  have "(of_int m :: rat) < of_int (2 ^ 53)" using assms(2) by (simp only: of_int_less_iff)
  then have "q < 2 powi (53 + e)"
    unfolding powi_split q_def by (intro mult_strict_right_mono) simp_all
  then have "2 powi exponent q < (2 :: rat) powi (53 + e)" using exponent_bounds(1) [OF q] by simp
  then have "exponent q < 53 + e" using power_int_increasing [of "53 + e" "exponent q" "2 :: rat"] by linarith
  then have le: "exponent q - 52 \<le> e" by simp
  have "q * 2 powi (- (exponent q - 52)) = of_int m * 2 powi (e - (exponent q - 52))"
    by (simp add: q_def mult.assoc flip: powi_split) (simp add: algebra_simps)
  also have "\<dots> = of_int (m * 2 ^ nat (e - (exponent q - 52)))" using le by (simp add: power_int_def)
  finally have "round_even (q * 2 powi (- (exponent q - 52))) = m * 2 ^ nat (e - (exponent q - 52))" by (metis round_even_of_int)
  then have "to_double q = of_int m * (2 powi (e - (exponent q - 52)) * 2 powi (exponent q - 52))"
    using q le by (simp add: to_double_def Let_def power_int_def [of _ "e - _"] mult.assoc)
  then show ?thesis by (simp add: q_def flip: powi_split)
qed simp

lemma to_double_int:
  assumes "0 \<le> m" and "m < 2 ^ 53"
  shows "to_double (of_int m) = of_int m"
  using to_double_exact [OF assms, of 0] by simp

text \<open>What fits in 53 bits, and operations on numbers that do.\<close>

definition representable :: "rat \<Rightarrow> bool" where
  "representable x \<longleftrightarrow> (\<exists>m e. 0 \<le> m \<and> m < 2 ^ 53 \<and> x = of_int m * 2 powi e)"

lemma representable_to_double: "representable (to_double q)"
proof (cases "0 < q")
  case True
  let ?e = "exponent q - 52"
  define r where "r = round_even (q * 2 powi (- ?e))"
  have r: "2 ^ 52 \<le> r" "r \<le> 2 ^ 53" unfolding r_def using round_even_between [OF scaled_bounds [OF True]] by auto
  have t: "to_double q = of_int r * 2 powi ?e" using True by (simp add: to_double_def r_def Let_def)
  show ?thesis
  proof (cases "r = 2 ^ 53")
    case True
    then have "to_double q = of_int 1 * 2 powi (53 + ?e)" unfolding powi_split t by simp
    then show ?thesis unfolding representable_def by (intro exI [of _ 1] exI [of _ "53 + ?e"]) simp
  next
    case False
    then show ?thesis unfolding representable_def using r t by (intro exI [of _ r] exI [of _ ?e]) simp
  qed
next
  case False
  then show ?thesis unfolding representable_def by (intro exI [of _ 0]) (simp add: to_double_def)
qed

lemma to_double_representable: "representable x \<Longrightarrow> to_double x = x"
  by (auto simp: representable_def to_double_exact)

lemma representable_scale:
  assumes "representable x"
  shows "representable (x * 2 powi k)"
proof -
  obtain m e where "0 \<le> m" "m < 2 ^ 53" "x = of_int m * 2 powi e" using assms by (auto simp: representable_def)
  then show ?thesis unfolding representable_def by (intro exI [of _ m] exI [of _ "e + k"]) (simp add: powi_split mult.assoc)
qed

lemma representable_div:
  assumes "representable x"
  shows "representable (x / 2 ^ k)"
proof -
  have "x / 2 ^ k = x * 2 powi (- int k)" by (simp add: power_int_minus divide_inverse)
  then show ?thesis using representable_scale [OF assms] by simp
qed

text \<open>The operators on \<open>double\<close> and the conversion of an integer.\<close>

definition double_div :: "rat \<Rightarrow> rat \<Rightarrow> rat" where
  "double_div x y = to_double (x / y)"

definition double_mult :: "rat \<Rightarrow> rat \<Rightarrow> rat" where
  "double_mult x y = to_double (x * y)"

definition double_of :: "nat \<Rightarrow> rat" where
  "double_of n = to_double (of_nat n)"

lemma double_of_exact: "n < 2 ^ 53 \<Longrightarrow> double_of n = of_nat n"
  using to_double_int [of "int n"] by (simp add: double_of_def)

lemma double_div_scale:
  assumes "representable x"
  shows "double_div x (2 ^ k) = x / 2 ^ k"
  using to_double_representable [OF representable_div [OF assms]] by (simp add: double_div_def)

lemma double_of_ge_iff:
  assumes "m < 2 ^ 53"
  shows "of_nat m \<le> double_of n \<longleftrightarrow> m \<le> n"
proof
  assume "m \<le> n"
  then show "of_nat m \<le> double_of n"
    using to_double_mono [of "of_nat m" "of_nat n"] double_of_exact [OF assms] by (simp add: double_of_def)
next
  assume a: "of_nat m \<le> double_of n"
  show "m \<le> n"
  proof (rule ccontr)
    assume "\<not> m \<le> n"
    then have "double_of n = of_nat n" "n < m" using assms by (auto intro: double_of_exact)
    then show False using a by simp
  qed
qed

section \<open>Texts of numbers\<close>

definition pad_left :: "byte \<Rightarrow> nat \<Rightarrow> byte list \<Rightarrow> byte list" where
  "pad_left c w s = replicate (w - length s) c @ s"

definition pad_right :: "nat \<Rightarrow> 'a::len word list \<Rightarrow> 'a word list" where
  "pad_right w s = s @ replicate (w - length s) 32"

definition signed_decimal :: "int \<Rightarrow> byte list" where
  "signed_decimal n = (if n < 0 then [45] else []) @ decimal (nat \<bar>n\<bar>)"

text \<open>\<open>%llx\<close> and \<open>%X\<close>.\<close>

definition hex_char :: "bool \<Rightarrow> nat \<Rightarrow> byte" where
  "hex_char upper d = of_nat (if d < 10 then 48 + d else if upper then 55 + d else 87 + d)"

fun hexadecimal :: "bool \<Rightarrow> nat \<Rightarrow> byte list" where
  "hexadecimal upper n = (if n < 16 then [hex_char upper n] else hexadecimal upper (n div 16) @ [hex_char upper (n mod 16)])"

declare hexadecimal.simps [simp del]

text \<open>
  \<open>%.nf\<close>. A number just between two texts is rounded up by older versions of the Windows runtime and to the even digit by newer ones
  (\<open>half_up\<close>); all others are rounded to the nearest text.
\<close>

definition fixed_digits :: "bool \<Rightarrow> nat \<Rightarrow> rat \<Rightarrow> nat" where
  "fixed_digits half_up n q = nat (if half_up then \<lfloor>q * 10 ^ n + 1 / 2\<rfloor> else round_even (q * 10 ^ n))"

definition fixed_text :: "bool \<Rightarrow> nat \<Rightarrow> rat \<Rightarrow> byte list" where
  "fixed_text half_up n q =
     (let d = fixed_digits half_up n q in decimal (d div 10 ^ n) @ [46] @ pad_left 48 n (decimal (d mod 10 ^ n)))"

text \<open>The number a text with a point shows.\<close>

definition shown :: "byte list \<Rightarrow> rat" where
  "shown t = (let i = takeWhile is_digit t; f = drop (length i + 1) t in of_nat (decimal_value (i @ f)) / 10 ^ length f)"

lemma fixed_digits_error:
  assumes "0 \<le> q"
  shows "\<bar>of_nat (fixed_digits half_up n q) - q * 10 ^ n\<bar> \<le> 1 / 2"
proof -
  define d where "d = (if half_up then \<lfloor>q * 10 ^ n + 1 / 2\<rfloor> else round_even (q * 10 ^ n))"
  have nn: "0 \<le> q * 10 ^ n" using assms by simp
  have "0 \<le> d" using nn round_even_between(1) [of 0 "q * 10 ^ n" "\<lceil>q * 10 ^ n\<rceil>"] by (auto simp: d_def)
  moreover have "\<bar>of_int d - q * 10 ^ n\<bar> \<le> 1 / 2"
  proof -
    define x where "x = q * 10 ^ n"
    have "of_int \<lfloor>x + 1 / 2\<rfloor> \<le> x + 1 / 2" "x + 1 / 2 < of_int \<lfloor>x + 1 / 2\<rfloor> + 1" using floor_correct [of "x + 1 / 2"] by simp_all
    then have "\<bar>of_int \<lfloor>x + 1 / 2\<rfloor> - x\<bar> \<le> 1 / 2" unfolding abs_le_iff by linarith
    then show ?thesis using round_even_error [of x] by (simp add: d_def x_def)
  qed
  ultimately show ?thesis by (simp add: fixed_digits_def d_def [symmetric])
qed

lemma decimal_value_append: "decimal_value (s @ t) = decimal_value s * 10 ^ length t + decimal_value t"
proof (induction t rule: rev_induct)
  case (snoc c t)
  have "decimal_value (u @ [c]) = 10 * decimal_value u + (unat c - 48)" for u by (simp add: decimal_value_def)
  from this [of "s @ t"] this [of t] snoc show ?case by (simp add: algebra_simps)
qed (simp add: decimal_value_def)

lemma decimal_length: "n < 10 ^ Suc k \<Longrightarrow> length (decimal n) \<le> Suc k"
proof (induction k arbitrary: n)
  case (Suc k)
  then show ?case by (subst decimal.simps) (auto simp: less_mult_imp_div_less)
qed (subst decimal.simps, simp)

lemma decimal_value_zeros: "decimal_value (replicate k 48 @ s) = decimal_value s"
proof -
  have "decimal_value (replicate k 48) = 0" by (induction k) (simp_all add: decimal_value_def)
  then show ?thesis by (simp add: decimal_value_append)
qed

lemma pad_left_decimal:
  assumes "m < 10 ^ n" and "0 < n"
  shows "length (pad_left 48 n (decimal m)) = n" and "decimal_value (pad_left 48 n (decimal m)) = m"
  using decimal_length [of m "n - 1"] assms by (simp_all add: pad_left_def decimal_value_zeros)

lemma shown_fixed:
  assumes "0 < n"
  shows "shown (fixed_text half_up n q) = of_nat (fixed_digits half_up n q) / 10 ^ n"
proof -
  define d where "d = fixed_digits half_up n q"
  let ?i = "decimal (d div 10 ^ n)"
  let ?f = "pad_left 48 n (decimal (d mod 10 ^ n))"
  have t: "fixed_text half_up n q = ?i @ 46 # ?f" by (simp add: fixed_text_def d_def Let_def)
  have f: "length ?f = n" "decimal_value ?f = d mod 10 ^ n" using pad_left_decimal [of "d mod 10 ^ n" n] assms by simp_all
  have "\<not> is_digit 46" by (simp add: is_digit_def)
  then have "takeWhile is_digit (?i @ 46 # ?f) = ?i" using decimal_digits(1) by (simp add: takeWhile_append2)
  then have "shown (fixed_text half_up n q) = of_nat (decimal_value (?i @ ?f)) / 10 ^ length ?f" by (simp add: shown_def t)
  moreover have "decimal_value (?i @ ?f) = d" using f by (simp only: decimal_value_append decimal_value_decimal div_mult_mod_eq)
  ultimately show ?thesis using f(1) by (simp add: d_def)
qed

lemma shown_error:
  assumes "0 \<le> q" and "0 < n"
  shows "\<bar>shown (fixed_text half_up n q) - q\<bar> \<le> 1 / (2 * 10 ^ n)"
proof -
  have p: "(0 :: rat) < 10 ^ n" by simp
  have "shown (fixed_text half_up n q) - q = (of_nat (fixed_digits half_up n q) - q * 10 ^ n) / 10 ^ n"
    by (simp add: shown_fixed [OF assms(2)] diff_divide_distrib)
  then have "\<bar>shown (fixed_text half_up n q) - q\<bar> = \<bar>of_nat (fixed_digits half_up n q) - q * 10 ^ n\<bar> / 10 ^ n" by simp
  also have "\<dots> \<le> (1 / 2) / 10 ^ n" by (intro divide_right_mono fixed_digits_error assms(1)) simp
  finally show ?thesis by simp
qed

lemma fixed_length:
  assumes "0 \<le> q" and "q < 10 ^ Suc k - 1" and "0 < n"
  shows "length (fixed_text half_up n q) \<le> Suc k + 1 + n"
proof -
  define d where "d = fixed_digits half_up n q"
  have "of_nat d \<le> q * 10 ^ n + 1 / 2" using fixed_digits_error [OF assms(1), of half_up n] unfolding d_def abs_le_iff by linarith
  also have "\<dots> < (q + 1) * 10 ^ n" by (simp add: distrib_right) (use one_le_power [of "10 :: rat" n] in linarith)
  also have "\<dots> \<le> 10 ^ Suc k * 10 ^ n" using assms(2) by (intro mult_right_mono) simp_all
  finally have "(of_nat d :: rat) < of_nat (10 ^ Suc k * 10 ^ n)" by simp
  then have "d < 10 ^ Suc k * 10 ^ n" by (simp only: of_nat_less_iff)
  then have "d div 10 ^ n < 10 ^ Suc k" by (simp add: less_mult_imp_div_less)
  from decimal_length [OF this] pad_left_decimal(1) [of "d mod 10 ^ n" n] assms(3)
  show ?thesis by (simp add: fixed_text_def d_def [symmetric])
qed

lemma hexadecimal_length: "n < 16 ^ Suc k \<Longrightarrow> length (hexadecimal upper n) \<le> Suc k"
proof (induction k arbitrary: n)
  case (Suc k)
  then show ?case by (subst hexadecimal.simps) (auto simp: less_mult_imp_div_less)
qed (subst hexadecimal.simps, simp)

text \<open>The number a hexadecimal text stands for.\<close>

definition hex_char_value :: "byte \<Rightarrow> nat" where
  "hex_char_value c = (if is_digit c then unat c - 48 else if 97 \<le> c then unat c - 87 else unat c - 55)"

definition hex_value :: "byte list \<Rightarrow> nat" where
  "hex_value ds = foldl (\<lambda>v c. 16 * v + hex_char_value c) 0 ds"

lemma hex_char_value_char: "d < 16 \<Longrightarrow> hex_char_value (hex_char upper d) = d"
proof -
  have "\<forall>d \<in> set [0..<16]. hex_char_value (hex_char True d) = d" "\<forall>d \<in> set [0..<16]. hex_char_value (hex_char False d) = d" by code_simp+
  then show "d < 16 \<Longrightarrow> hex_char_value (hex_char upper d) = d" by (cases upper) simp_all
qed

lemma hex_value_hexadecimal: "hex_value (hexadecimal upper n) = n"
proof (induction upper n rule: hexadecimal.induct)
  case (1 upper n)
  have snoc: "hex_value (u @ [c]) = 16 * hex_value u + hex_char_value c" for u c by (simp add: hex_value_def)
  show ?case
  proof (cases "n < 16")
    case True
    then show ?thesis by (subst hexadecimal.simps) (simp add: hex_value_def hex_char_value_char)
  next
    case False
    then show ?thesis using 1 [OF False] by (subst hexadecimal.simps) (simp add: snoc hex_char_value_char)
  qed
qed

end
