(* ===== verification/Client_Report.thy ===== *)
theory Client_Report
  imports Backup_Engine Disk_Scanner Printed_Numbers
begin

text \<open>
  What the client prints about disks, \<open>client/main.cpp\<close>: sizes, the report of a disk's layout, the list of disks and
  the help. The texts are those handed to \<open>wprintf\<close>; \<open>half_up\<close> is the rounding of the C runtime.
\<close>

section \<open>Classes of partitions\<close>

definition PartitionContentToStr :: "PartitionContent \<Rightarrow> string" where
  "PartitionContentToStr c =
     (case c of
        ContentUnknown \<Rightarrow> ''Unknown'' | FilesystemNTFS \<Rightarrow> ''NTFS'' | FilesystemFAT32 \<Rightarrow> ''FAT32'' | FilesystemExFAT \<Rightarrow> ''exFAT''
      | FilesystemReFS \<Rightarrow> ''ReFS'' | RawPartition \<Rightarrow> ''Raw'' | Reserved \<Rightarrow> ''Reserved'')"

definition GetBackupStrategy :: "PartitionContent \<Rightarrow> string" where
  "GetBackupStrategy c =
     (case c of
        FilesystemNTFS \<Rightarrow> ''VSS Snapshot'' | FilesystemFAT32 \<Rightarrow> ''VSS Snapshot'' | FilesystemExFAT \<Rightarrow> ''VSS Snapshot''
      | FilesystemReFS \<Rightarrow> ''VSS Snapshot'' | RawPartition \<Rightarrow> ''Physical Read'' | Reserved \<Rightarrow> ''Metadata Backup'' | ContentUnknown \<Rightarrow> ''Skip'')"

record LayoutSummary =
  ls_fsCount :: nat
  ls_rawCount :: nat
  ls_reservedCount :: nat
  ls_unknownCount :: nat
  ls_fsBytes :: u64
  ls_rawBytes :: u64

definition LayoutSummary_zero :: LayoutSummary where
  "LayoutSummary_zero = \<lparr> ls_fsCount = 0, ls_rawCount = 0, ls_reservedCount = 0, ls_unknownCount = 0, ls_fsBytes = 0, ls_rawBytes = 0 \<rparr>"

definition count_partition :: "PartitionInfo \<Rightarrow> LayoutSummary \<Rightarrow> LayoutSummary" where
  "count_partition p s =
     (if is_filesystem (pi_Content p) then s\<lparr> ls_fsCount := ls_fsCount s + 1, ls_fsBytes := ls_fsBytes s + pi_Size p \<rparr>
      else if pi_Content p = RawPartition then s\<lparr> ls_rawCount := ls_rawCount s + 1, ls_rawBytes := ls_rawBytes s + pi_Size p \<rparr>
      else if pi_Content p = Reserved then s\<lparr> ls_reservedCount := ls_reservedCount s + 1 \<rparr>
      else s\<lparr> ls_unknownCount := ls_unknownCount s + 1 \<rparr>)"

definition layout_summary :: "PartitionInfo list \<Rightarrow> LayoutSummary" where
  "layout_summary ps = fold count_partition ps LayoutSummary_zero"

section \<open>Sizes\<close>

definition wtext :: "byte list \<Rightarrow> wstring" where
  "wtext = map ucast"

definition wline :: "string \<Rightarrow> wstring" where
  "wline s = wlit s @ [10]"

text \<open>\<open>%s\<close> of a \<open>c_str\<close>: the characters up to the first zero.\<close>

definition cstr :: "wstring \<Rightarrow> wstring" where
  "cstr s = takeWhile (\<lambda>c. c \<noteq> 0) s"

definition gigabytes :: "u64 \<Rightarrow> rat" where
  "gigabytes s = double_div (double_of (unat s)) (2 ^ 30)"

definition PrintSize :: "bool \<Rightarrow> u64 \<Rightarrow> byte list" where
  "PrintSize half_up s =
     (if 1 \<le> gigabytes s then fixed_text half_up 2 (gigabytes s) @ ascii '' GB ('' @ decimal (unat s) @ ascii '' bytes)''
      else fixed_text half_up 2 (double_div (double_of (unat s)) (2 ^ 20)) @ ascii '' MB ('' @ decimal (unat s) @ ascii '' bytes)'')"

definition short_size :: "bool \<Rightarrow> u64 \<Rightarrow> byte list" where
  "short_size half_up s =
     (if 1 \<le> gigabytes s then fixed_text half_up 2 (gigabytes s) @ ascii '' GB''
      else decimal (unat (s div (1024 * 1024))) @ ascii '' MB'')"

section \<open>The layout of a disk\<close>

definition offset_text :: "u64 \<Rightarrow> wstring" where
  "offset_text off = wlit ''0x'' @ wtext (pad_left 48 10 (hexadecimal False (unat off)))"

definition hex_upper :: "nat \<Rightarrow> nat \<Rightarrow> byte list" where
  "hex_upper w n = pad_left 48 w (hexadecimal True n)"

definition guid_text :: "GUID \<Rightarrow> byte list" where
  "guid_text g =
     ascii ''{'' @ hex_upper 8 (unat (le_word (take 4 g) :: u32)) @ ascii ''-'' @ hex_upper 4 (unat (le_word (segment 4 2 g) :: u16)) @ ascii ''-''
     @ hex_upper 4 (unat (le_word (segment 6 2 g) :: u16)) @ ascii ''-'' @ concat (map (\<lambda>b. hex_upper 2 (unat b)) (segment 8 2 g)) @ ascii ''-''
     @ concat (map (\<lambda>b. hex_upper 2 (unat b)) (segment 10 6 g)) @ ascii ''}''"

definition double_ruler :: wstring where
  "double_ruler = replicate 79 61 @ [10]"

definition disk_info_text :: "bool \<Rightarrow> int \<Rightarrow> DiskInfo \<Rightarrow> wstring" where
  "disk_info_text half_up devno d =
     [10] @ double_ruler @ wlit ''  DISK LAYOUT REPORT - PhysicalDrive'' @ wtext (signed_decimal devno) @ [10] @ double_ruler @ [10]
     @ wline ''  [Disk Info]''
     @ wlit ''    Device Number : '' @ wtext (signed_decimal (di_DeviceNumber d)) @ [10]
     @ wlit ''    Sector Size   : '' @ wtext (decimal (unat (di_SectorSize d))) @ wline '' bytes''
     @ wlit ''    Total Size    : '' @ wtext (PrintSize half_up (di_Size d)) @ [10]
     @ wlit ''    Partition Style: '' @ wline (if di_Style d = GPT then ''GPT'' else if di_Style d = MBR then ''MBR'' else ''Unknown'')
     @ (if di_Style d = GPT then wlit ''    GPT Disk GUID : '' @ wtext (guid_text (gi_DiskGuid (di_GPT d))) @ [10] else [])
     @ (if di_Style d = MBR then wlit ''    MBR Signature  : 0x'' @ wtext (hex_upper 8 (unat (di_MBRSignature d))) @ [10] else [])"

text \<open>The lines of a list of ranges, numbered from 0.\<close>

definition range_line :: "bool \<Rightarrow> nat \<Rightarrow> DiskRange \<Rightarrow> wstring" where
  "range_line half_up i r =
     wlit ''    ['' @ wtext (decimal i) @ wlit ''] Offset='' @ offset_text (rg_Offset r) @ wlit ''  Size='' @ wtext (PrintSize half_up (rg_Size r)) @ [10]"

definition range_lines :: "bool \<Rightarrow> DiskRange list \<Rightarrow> wstring" where
  "range_lines half_up rs = concat (map (\<lambda>(i, r). range_line half_up i r) (enumerate 0 rs))"

definition metadata_text :: "bool \<Rightarrow> DiskRange list \<Rightarrow> wstring" where
  "metadata_text half_up rs =
     (if rs = [] then []
      else [10] @ wlit ''  [Metadata Regions] ('' @ wtext (decimal (length rs)) @ wline '' region(s))'' @ range_lines half_up rs)"

definition partition_line :: "bool \<Rightarrow> PartitionInfo \<Rightarrow> wstring" where
  "partition_line half_up p =
     wlit ''  '' @ pad_right 6 (wtext (decimal (unat (pi_Index p)))) @ wlit '' '' @ offset_text (pi_Offset p) @ wlit ''  ''
     @ pad_right 14 (wtext (short_size half_up (pi_Size p))) @ wlit '' ''
     @ pad_right 12 (wlit (PartitionContentToStr (pi_Content p))) @ wlit '' ''
     @ pad_right 8 (wlit (if pi_IsEncrypted p then ''YES'' else ''no'')) @ wlit '' ''
     @ (if is_filesystem (pi_Content p) then wlit ''VSS  ['' @ cstr (pi_FsName p) @ wlit '']''
        else if pi_Content p = RawPartition then wlit ''RAW  ['' @ cstr (pi_FsName p) @ wlit '']''
        else if pi_Content p = Reserved then wlit ''SKIP ['' @ cstr (pi_FsName p) @ wlit '']''
        else wlit ''???'')
     @ (if pi_Name p \<noteq> [] then wlit ''  '' @ [34] @ cstr (pi_Name p) @ [34] else []) @ [10]"

definition partitions_text :: "bool \<Rightarrow> PartitionInfo list \<Rightarrow> wstring" where
  "partitions_text half_up ps =
     (if ps = [] then []
      else [10] @ wlit ''  [Partitions] ('' @ wtext (decimal (length ps)) @ wline '' partition(s))''
        @ wline ''  Index  Offset         Size           Content      Encrypt  Backup Strategy / FS Name''
        @ wline ''  -----  -------------- -------------- ------------ -------- --------------------------''
        @ concat (map (partition_line half_up) ps))"

definition free_text :: "bool \<Rightarrow> DiskRange list \<Rightarrow> wstring" where
  "free_text half_up rs =
     (if rs = [] then []
      else [10] @ wlit ''  [Unallocated Space] ('' @ wtext (decimal (length rs)) @ wline '' range(s)) - will NOT be backed up''
        @ range_lines half_up rs)"

definition mapping_line :: "MappedPartition \<Rightarrow> wstring" where
  "mapping_line mp =
     wlit ''    '' @ pad_right 6 (wtext (decimal (unat (pi_Index (mp_Partition mp))))) @ wlit '' '' @ offset_text (pi_Offset (mp_Partition mp)) @ wlit ''  ''
     @ pad_right 8 (if mp_DriveLetter mp = [] then wlit ''(none)'' else cstr (mp_DriveLetter mp)) @ wlit '' '' @ cstr (mp_VolumeGuid mp) @ [10]"

definition mapping_text :: "MappedPartition list \<times> bool \<Rightarrow> wstring" where
  "mapping_text mapped =
     [10] @ wline ''  [Volume Mapping]''
     @ (if snd mapped
        then wline ''    Part#  Offset         Drive    Volume GUID''
          @ wline ''    -----  -------------- -------- ------------------------------------'' @ concat (map mapping_line (fst mapped))
        else wline ''    No volume mappings found (admin privileges required)'')"

text \<open>The size of the metadata is computed from the number of regions, as if each were one sector.\<close>

definition metadata_kb :: "DiskLayout \<Rightarrow> u64" where
  "metadata_kb l = of_nat (length (dl_MetadataRanges l)) * ucast (di_SectorSize (dl_Disk l)) div 1024"

definition count_line :: "string \<Rightarrow> nat \<Rightarrow> string \<Rightarrow> wstring" where
  "count_line label n note = wlit label @ wtext (pad_left 32 2 (decimal n)) @ wline note"

definition summary_lines :: "bool \<Rightarrow> DiskLayout \<Rightarrow> LayoutSummary \<Rightarrow> wstring" where
  "summary_lines half_up l s =
     [10] @ wlit ''  '' @ double_ruler @ wline ''  BACKUP SUMMARY'' @ wlit ''  '' @ double_ruler
     @ count_line ''    Filesystem partitions : '' (ls_fsCount s) ''  (VSS backup)''
     @ count_line ''    Raw / bare partitions : '' (ls_rawCount s) ''  (physical read)''
     @ count_line ''    Reserved partitions   : '' (ls_reservedCount s) ''  (metadata backup)''
     @ count_line ''    Unknown / unreadable  : '' (ls_unknownCount s) []
     @ count_line ''    Unallocated ranges    : '' (length (dl_FreeRanges l)) ''  (skip)'' @ [10]
     @ wlit ''    Filesystem data size  : '' @ wtext (PrintSize half_up (ls_fsBytes s)) @ [10]
     @ wlit ''    Raw partition size    : '' @ wtext (PrintSize half_up (ls_rawBytes s)) @ [10]
     @ wlit ''    Metadata size         : ~'' @ wtext (decimal (unat (metadata_kb l))) @ wline '' KB''"

definition report_text :: "bool \<Rightarrow> int \<Rightarrow> DiskLayout \<Rightarrow> MappedPartition list \<times> bool \<Rightarrow> wstring" where
  "report_text half_up devno l mapped =
     disk_info_text half_up devno (dl_Disk l) @ metadata_text half_up (dl_MetadataRanges l) @ partitions_text half_up (dl_Partitions l)
     @ free_text half_up (dl_FreeRanges l) @ mapping_text mapped @ summary_lines half_up l (layout_summary (dl_Partitions l))"

text \<open>\<open>PrintDiskLayout\<close>: a disk that cannot be opened or parsed gives a message; a read past the buffers of the parser is an error.\<close>

definition PrintDiskLayout :: "bool \<Rightarrow> backup_env \<Rightarrow> int \<Rightarrow> parse_error + wstring" where
  "PrintDiskLayout half_up E devno =
     (case Open_parser (ev_open E) devno DiskParser_new of (parser, opened) \<Rightarrow>
        if \<not> opened then Inr (wlit ''[ERROR] Cannot open PhysicalDrive'' @ wtext (signed_decimal devno) @ [10])
        else case Parse_layout (ev_disk E) parser DiskLayout_new of
            Inl ParseRefused \<Rightarrow> Inr (wlit ''[ERROR] DiskParser::Parse failed for PhysicalDrive'' @ wtext (signed_decimal devno) @ [10])
          | Inl err \<Rightarrow> Inl err
          | Inr layout \<Rightarrow>
              (case Map_volumes (ev_volumes E) layout VolumeMapper_new of (mapper, ok) \<Rightarrow>
                 Inr (report_text half_up devno layout (vmp_mapped mapper, ok))))"

section \<open>The list of disks and the help\<close>

definition PrintDiskInfoBrief :: "bool \<Rightarrow> ScanDisk \<Rightarrow> wstring" where
  "PrintDiskInfoBrief half_up d =
     wlit ''  Disk '' @ pad_right 3 (wtext (signed_decimal (sd_DevNo d))) @ wlit ''  '' @ wtext (PrintSize half_up (sd_Size d))
     @ wlit ''  '' @ wlit (if sd_IsGPT d then ''GPT'' else if sd_IsMBR d then ''MBR'' else ''RAW'') @ wlit ''  '' @ cstr (sd_Vendor d)
     @ wlit ''  '' @ pad_right 20 (cstr (sd_Model d))
     @ (if sd_SerialNumber d \<noteq> [] then wlit ''  S/N:'' @ cstr (sd_SerialNumber d) else []) @ [10]"

definition PrintHelp :: wstring where
  "PrintHelp =
     concat (map wline
       [[], ''Usage:'',
        ''  client.exe query_disks              Enumerate all physical disks (fast scan)'',
        ''  client.exe query_disk  <devno>      Detailed disk layout + volume mapping'',
        ''  client.exe backup <all|devno>       Backup disk(s) to server'',
        ''  client.exe cleanup-shadows          Delete orphaned VSS snapshots (admin)'',
        ''         --cbt        Use CBT incremental tracking'',
        ''         --serverip   Server IP address'',
        ''         --port       Server port'',
        ''         --dryrun     Simulated mode (no server)'',
        ''         --retry N    Retry count (default 3)'',
        ''         --state-dir  State file directory'',
        ''         --window N   Pipeline window size (default 6)'',
        [], ''Examples:'',
        ''  client.exe query_disks'',
        ''  client.exe query_disk  0'',
        ''  client.exe backup 0 --serverip 192.168.1.100 --port 9000'',
        ''  client.exe backup all --cbt --dryrun'', []])"

section \<open>Properties\<close>

text \<open>A partition is counted exactly once, under the name that decides how it is backed up.\<close>

lemma layout_summary_total:
  "ls_fsCount (layout_summary ps) + ls_rawCount (layout_summary ps) + ls_reservedCount (layout_summary ps)
     + ls_unknownCount (layout_summary ps) = length ps"
proof -
  have "ls_fsCount (fold count_partition ps s) + ls_rawCount (fold count_partition ps s) + ls_reservedCount (fold count_partition ps s)
     + ls_unknownCount (fold count_partition ps s)
     = ls_fsCount s + ls_rawCount s + ls_reservedCount s + ls_unknownCount s + length ps" for s
    by (induction ps arbitrary: s) (simp_all add: count_partition_def)
  then show ?thesis by (simp add: layout_summary_def LayoutSummary_zero_def)
qed

text \<open>
  A size is printed in gigabytes exactly from one gigabyte on, and the value printed is within half a hundredth of the size in that unit.
\<close>

lemma gigabytes_ge: "1 \<le> gigabytes s \<longleftrightarrow> 2 ^ 30 \<le> unat s"
proof -
  have g: "gigabytes s = double_of (unat s) / 2 ^ 30"
    unfolding gigabytes_def by (rule double_div_scale) (simp add: double_of_def representable_to_double)
  have "1 \<le> gigabytes s \<longleftrightarrow> of_nat (2 ^ 30) \<le> double_of (unat s)" unfolding g by (simp add: le_divide_eq)
  also have "\<dots> \<longleftrightarrow> 2 ^ 30 \<le> unat s" by (rule double_of_ge_iff) simp
  finally show ?thesis .
qed

lemma PrintSize_accurate:
  assumes "unat s < 2 ^ 53" and "k = (if 2 ^ 30 \<le> unat s then 30 else 20)"
  shows "\<exists>t. PrintSize half_up s = t @ ascii (if 2 ^ 30 \<le> unat s then '' GB ('' else '' MB ('') @ decimal (unat s) @ ascii '' bytes)''
    \<and> \<bar>shown t * 2 ^ k - of_nat (unat s)\<bar> \<le> 2 ^ k / 200"
proof -
  define q :: rat where "q = of_nat (unat s) / 2 ^ k"
  have d: "double_div (double_of (unat s)) (2 ^ j) = of_nat (unat s) / 2 ^ j" for j
    using double_div_scale [of "double_of (unat s)" j] double_of_exact [OF assms(1)] by (simp add: double_of_def representable_to_double)
  have "0 \<le> q" unfolding q_def by (intro divide_nonneg_nonneg of_nat_0_le_iff) simp
  then have "\<bar>shown (fixed_text half_up 2 q) - q\<bar> * 2 ^ k \<le> 1 / 200 * 2 ^ k" using shown_error [of q 2 half_up] by (intro mult_right_mono) simp_all
  moreover have "(shown (fixed_text half_up 2 q) - q) * 2 ^ k = shown (fixed_text half_up 2 q) * 2 ^ k - of_nat (unat s)"
    by (simp add: q_def left_diff_distrib)
  then have "\<bar>shown (fixed_text half_up 2 q) - q\<bar> * 2 ^ k = \<bar>shown (fixed_text half_up 2 q) * 2 ^ k - of_nat (unat s)\<bar>"
    by (metis abs_mult abs_numeral power_abs)
  ultimately have "\<bar>shown (fixed_text half_up 2 q) * 2 ^ k - of_nat (unat s)\<bar> \<le> 2 ^ k / 200" by simp
  moreover have "PrintSize half_up s = fixed_text half_up 2 q @ ascii (if 2 ^ 30 \<le> unat s then '' GB ('' else '' MB ('') @ decimal (unat s) @ ascii '' bytes)''"
    unfolding PrintSize_def gigabytes_ge unfolding gigabytes_def d q_def assms(2) by (cases "2 ^ 30 \<le> unat s") simp_all
  ultimately show ?thesis by blast
qed

text \<open>
  The size given for the metadata depends on the number of regions only: six regions of a GPT disk count as six sectors, although the two
  tables of entries alone have 32 each.
\<close>

lemma metadata_kb_ignores_sizes:
  assumes "length (dl_MetadataRanges l) = length (dl_MetadataRanges l')" and "di_SectorSize (dl_Disk l) = di_SectorSize (dl_Disk l')"
  shows "metadata_kb l = metadata_kb l'"
  using assms by (simp add: metadata_kb_def)

end
