(* ===== verification/Client_Main.thy ===== *)
theory Client_Main
  imports Client_Report
begin

text \<open>
  The command line of the client, \<open>client/main.cpp\<close>: the four commands over the scanner, the parser with
  the volume mapper, the backup engine and the snapshot manager, with what they print.
\<close>

section \<open>Environment\<close>

text \<open>
  \<open>cl_sid\<close> is the result of \<open>AllocateAndInitializeSid\<close>, \<open>cl_member\<close> what \<open>CheckTokenMembership\<close> stores, if
  anything; \<open>cl_wtoi\<close> is \<open>_wtoi\<close>, \<open>cl_utf8\<close> the conversion of a wide text to UTF-8 and \<open>cl_half_up\<close> the rounding
  of the C runtime; the rest are the environments of the components.
\<close>

record 's client_env =
  cl_sid :: bool
  cl_member :: "int option"
  cl_wtoi :: "wstring \<Rightarrow> int"
  cl_utf8 :: "wstring \<Rightarrow> string"
  cl_half_up :: bool
  cl_scan :: "int \<Rightarrow> scan_env"
  cl_backup :: "int \<Rightarrow> backup_env"
  cl_io :: "'s transport"
  cl_cbt :: "CbtClient \<times> bool"
  cl_sched :: scheduler
  cl_vss :: vss_env
  cl_objects :: "VSS_ID option list option"
  cl_delete :: "VSS_ID \<Rightarrow> HRESULT \<times> int"

text \<open>A read of memory that was never written, or a read out of bounds of the disk readers.\<close>

datatype client_error = UninitializedRead | DiskRead parse_error

section \<open>Privileges\<close>

text \<open>\<open>client/PrivilegeManager.cpp\<close>: a call that fails leaves the initial \<open>FALSE\<close>.\<close>

definition IsAdministrator :: "bool \<Rightarrow> int option \<Rightarrow> bool" where
  "IsAdministrator sid member =
     (if \<not> sid then False else let result = (case member of None \<Rightarrow> 0 | Some r \<Rightarrow> r) in result = 1)"

section \<open>Options of backup\<close>

text \<open>
  \<open>WideCharToMultiByte\<close> into 64 bytes fails for longer texts, with a buffer whose contents are
  unspecified. An option nobody knows, and one whose value is missing, is skipped.
\<close>

definition wide :: "string \<Rightarrow> wstring" where
  "wide = wlit"

fun parse_backup_options :: "'s client_env \<Rightarrow> wstring list \<Rightarrow> BackupConfig \<Rightarrow> client_error + BackupConfig" where
  "parse_backup_options E [] c = Inr c"
| "parse_backup_options E (a # as) c =
     (if a = wide ''--cbt'' then parse_backup_options E as (c\<lparr> cf_UseCbt := True \<rparr>)
      else if a = wide ''--dryrun'' then parse_backup_options E as (c\<lparr> cf_DryRun := True \<rparr>)
      else case as of
          [] \<Rightarrow> Inr c
        | v # rest \<Rightarrow>
            if a = wide ''--serverip'' then
              if 64 \<le> length (cl_utf8 E v) then Inl UninitializedRead
              else parse_backup_options E rest (c\<lparr> cf_ServerIp := cl_utf8 E v \<rparr>)
            else if a = wide ''--port'' then parse_backup_options E rest (c\<lparr> cf_Port := of_int (cl_wtoi E v) \<rparr>)
            else if a = wide ''--retry'' then parse_backup_options E rest (c\<lparr> cf_RetryCount := cl_wtoi E v \<rparr>)
            else if a = wide ''--state-dir'' then parse_backup_options E rest (c\<lparr> cf_StateDir := v \<rparr>)
            else if a = wide ''--window'' then parse_backup_options E rest (c\<lparr> cf_PipelineWindowSize := cl_wtoi E v \<rparr>)
            else parse_backup_options E as c)"

definition backup_targets :: "'s client_env \<Rightarrow> wstring \<Rightarrow> int list" where
  "backup_targets E t = (if t = wide ''all'' then [0..7] else [cl_wtoi E t])"

definition config_valid :: "BackupConfig \<Rightarrow> bool" where
  "config_valid c \<longleftrightarrow> cf_DryRun c \<or> cf_ServerIp c \<noteq> [] \<and> cf_Port c \<noteq> 0"

section \<open>Commands\<close>

datatype client_output =
    Help
  | Complaint wstring
  | ComplaintHelp wstring
  | DiskList "ScanDisk list"
  | DiskReport ScanDisk wstring
  | BackupReport BackupConfig "int list" bool "BackupStats list"
  | Cleaned int
  | CleanupFailed
  | PrivilegeError

definition query_disks_command :: "'s client_env \<Rightarrow> client_error + int \<times> client_output" where
  "query_disks_command E =
     (case EnumerateAll (cl_scan E) of
        Inl err \<Rightarrow> Inl (DiskRead err)
      | Inr (disks, ok) \<Rightarrow> if ok then Inr (0, DiskList disks) else Inr (-1, Complaint (wline ''[ERROR] Failed to enumerate disks'')))"

definition query_disk_command :: "'s client_env \<Rightarrow> int \<Rightarrow> client_error + int \<times> client_output" where
  "query_disk_command E devno =
     (case Enumerate (cl_scan E devno) devno ScanDisk_new of
        Inl err \<Rightarrow> Inl (DiskRead err)
      | Inr (d, False) \<Rightarrow>
          Inr (-1, Complaint (wlit ''[ERROR] DiskScanner::Enumerate failed for PhysicalDrive'' @ wtext (signed_decimal devno) @ [10]
            @ wline ''  Make sure the disk exists and you have administrator privileges.''))
      | Inr (d, True) \<Rightarrow>
          (case PrintDiskLayout (cl_half_up E) (cl_backup E devno) devno of
             Inl err \<Rightarrow> Inl (DiskRead err) | Inr report \<Rightarrow> Inr (0, DiskReport d report)))"

text \<open>The message for options that are not valid.\<close>

definition missing_option :: "BackupConfig \<Rightarrow> wstring" where
  "missing_option c =
     (if cf_ServerIp c = [] then wline ''[ERROR] --serverip required (or use --dryrun)'' else wline ''[ERROR] --port required (or use --dryrun)'')"

definition backup_command ::
  "'s client_env \<Rightarrow> wstring \<Rightarrow> wstring list \<Rightarrow> file_system \<Rightarrow> 's \<Rightarrow> (client_error + int \<times> client_output) \<times> file_system \<times> 's" where
  "backup_command E target opts fs s =
     (case parse_backup_options E opts BackupConfig_new of
        Inl err \<Rightarrow> (Inl err, fs, s)
      | Inr c \<Rightarrow>
          if \<not> config_valid c then (Inr (-1, Complaint (missing_option c)), fs, s)
          else case Run_disks (cl_io E) (cl_cbt E) (cl_sched E) (cl_backup E) c (backup_targets E target) fs s of
                 (ok, stats, fs1, s1) \<Rightarrow> (Inr (0, BackupReport c (backup_targets E target) ok (if ok then stats else [])), fs1, s1))"

definition cleanup_command :: "'s client_env \<Rightarrow> int \<times> client_output" where
  "cleanup_command E =
     (case DeleteOrphanedSnapshots (cl_vss E) (cl_objects E) (cl_delete E) of (deleted, sets) \<Rightarrow>
        if 0 \<le> deleted then (0, Cleaned deleted) else (-1, CleanupFailed))"

text \<open>\<open>wmain\<close>; \<open>argv\<close> includes the name of the program.\<close>

definition wmain ::
  "'s client_env \<Rightarrow> wstring list \<Rightarrow> file_system \<Rightarrow> 's \<Rightarrow> (client_error + int \<times> client_output) \<times> file_system \<times> 's" where
  "wmain E argv fs s =
     (if \<not> IsAdministrator (cl_sid E) (cl_member E) then (Inr (-1, PrivilegeError), fs, s)
      else if length argv < 2 then (Inr (0, Help), fs, s)
      else if argv ! 1 = wide ''query_disks'' then (query_disks_command E, fs, s)
      else if argv ! 1 = wide ''query_disk'' then
        if length argv < 3 then (Inr (-1, ComplaintHelp (wline ''[ERROR] Missing disk number'')), fs, s) else (query_disk_command E (cl_wtoi E (argv ! 2)), fs, s)
      else if argv ! 1 = wide ''backup'' then
        if length argv < 3 then (Inr (-1, ComplaintHelp (wline ''[ERROR] Missing target disk number'')), fs, s) else backup_command E (argv ! 2) (drop 3 argv) fs s
      else if argv ! 1 = wide ''cleanup-shadows'' then (Inr (cleanup_command E), fs, s)
      else (Inr (-1, ComplaintHelp (wlit ''[ERROR] Unknown command: '' @ argv ! 1 @ [10])), fs, s))"

section \<open>Output\<close>

definition config_text :: "BackupConfig \<Rightarrow> int list \<Rightarrow> wstring" where
  "config_text c targets =
     [10] @ replicate 56 61 @ [10]
     @ wlit ''  BACKUP '' @ wlit (if cf_UseCbt c then ''INCREMENTAL (CBT)'' else ''FULL'') @ wline (if cf_DryRun c then '' [DRY RUN]'' else [])
     @ replicate 56 61 @ [10]
     @ wlit ''  Targets : '' @ concat (map (\<lambda>d. wlit ''Disk'' @ wtext (signed_decimal d) @ wlit '' '') targets) @ [10]
     @ (if cf_DryRun c then [] else wlit ''  Server  : '' @ wlit (cf_ServerIp c) @ wlit '':'' @ wtext (decimal (unat (cf_Port c))) @ [10])
     @ wlit ''  Window  : '' @ wtext (signed_decimal (cf_PipelineWindowSize c)) @ [10]
     @ wlit ''  Retry   : '' @ wtext (signed_decimal (cf_RetryCount c)) @ [10]
     @ wlit ''  State   : '' @ cstr (cf_StateDir c) @ [10] @ [10]"

definition result_text :: "bool \<Rightarrow> BackupStats list \<Rightarrow> wstring" where
  "result_text ok stats =
     (if ok
      then [10] @ wline ''  BACKUP COMPLETE''
        @ concat (map (\<lambda>s. wlit ''  Disk'' @ wtext (signed_decimal (st_DevNo s)) @ wlit '': sent='' @ wtext (decimal (st_SentBlocks s))
            @ wlit '' acked='' @ wtext (decimal (st_AckedBlocks s)) @ [10]) stats)
      else [10] @ wline ''  BACKUP FAILED'') @ [10]"

definition disk_list_text :: "bool \<Rightarrow> ScanDisk list \<Rightarrow> wstring" where
  "disk_list_text half_up disks =
     [10] @ double_ruler @ wlit ''  DISK LIST ('' @ wtext (decimal (length disks)) @ wline '' disk(s) found)'' @ double_ruler
     @ wline ''  Disk#  Size           Style Model                Serial''
     @ wline ''  -----  -------------- ----- -------------------- ------------------''
     @ concat (map (PrintDiskInfoBrief half_up) disks) @ [10]
     @ wline ''  Use 'query_disk <N>' for detailed layout of a specific disk.'' @ [10]"

text \<open>
  The standard output of a command; \<open>shadows\<close> is what \<open>vssadmin\<close> prints, which the client starts after a clean-up. The note about missing
  privileges goes to the error stream. The server address is printed as the characters of its bytes.
\<close>

definition printed :: "bool \<Rightarrow> wstring \<Rightarrow> client_output \<Rightarrow> wstring" where
  "printed half_up shadows out =
     (case out of
        Help \<Rightarrow> PrintHelp
      | Complaint t \<Rightarrow> t
      | ComplaintHelp t \<Rightarrow> t @ PrintHelp
      | DiskList disks \<Rightarrow> disk_list_text half_up disks
      | DiskReport d report \<Rightarrow>
          wlit ''  Vendor : '' @ cstr (sd_Vendor d) @ [10] @ wlit ''  Model  : '' @ cstr (sd_Model d) @ [10]
          @ wlit ''  Serial : '' @ cstr (sd_SerialNumber d) @ [10] @ report
      | BackupReport c targets ok stats \<Rightarrow> config_text c targets @ result_text ok stats
      | Cleaned n \<Rightarrow>
          [10] @ wline ''Cleaning up orphaned VSS snapshots...'' @ wlit ''  Deleted: '' @ wtext (signed_decimal n) @ wline '' snapshot set(s)'' @ [10]
          @ wline ''Verifying with vssadmin...'' @ shadows @ [10]
      | CleanupFailed \<Rightarrow>
          [10] @ wline ''Cleaning up orphaned VSS snapshots...'' @ wline ''  Cleanup failed (check backup.log for details)'' @ [10]
      | PrivilegeError \<Rightarrow> [])"

section \<open>Properties\<close>

lemma wide_eq: "wide s = wide t \<longleftrightarrow> s = t"
proof -
  have "c = d" if "(of_nat (of_char c) :: u16) = of_nat (of_char d)" for c d :: char
  proof -
    have "unat (of_nat (of_char x) :: u16) = of_char x" for x :: char
      using less_trans [OF nat_of_char_less_256 [of x], of 65536] by (simp add: unat_of_nat)
    then have "(of_char c :: nat) = of_char d" using that by metis
    then show ?thesis by (simp only: of_char_eq_iff)
  qed
  then have "inj (\<lambda>c. of_nat (of_char (c :: char)) :: u16)" by (rule injI)
  then show ?thesis by (simp add: wide_def wlit_def inj_map_eq_map)
qed

text \<open>The options written for a configuration are read back, whatever stood before.\<close>

definition config_args :: "(int \<Rightarrow> wstring) \<Rightarrow> wstring \<Rightarrow> BackupConfig \<Rightarrow> wstring list" where
  "config_args num ip c =
     (if cf_UseCbt c then [wide ''--cbt''] else []) @ (if cf_DryRun c then [wide ''--dryrun''] else [])
     @ [wide ''--serverip'', ip, wide ''--port'', num (uint (cf_Port c)), wide ''--retry'', num (cf_RetryCount c),
        wide ''--state-dir'', cf_StateDir c, wide ''--window'', num (cf_PipelineWindowSize c)]"

lemma options_roundtrip:
  assumes "\<And>n. cl_wtoi E (num n) = n" and "cl_utf8 E ip = cf_ServerIp c" and "length (cf_ServerIp c) < 64" and "cf_TimeoutSec c = 30"
  shows "parse_backup_options E (config_args num ip c) BackupConfig_new = Inr c"
  using assms by (cases c) (simp add: config_args_def wide_eq BackupConfig_new_def)


text \<open>A dry run of the backup of a disk that cannot be opened.\<close>

definition demo_client :: "bool client_env" where
  "demo_client =
     \<lparr> cl_sid = True, cl_member = Some 1, cl_wtoi = (\<lambda>t. 0), cl_utf8 = (\<lambda>t. []), cl_half_up = False,
       cl_scan = (\<lambda>d. \<lparr> sc_open = False, sc_length = None, sc_sector = None, sc_storage = None, sc_wide = (\<lambda>b. []), sc_layout = (\<lambda>n. Inl 5) \<rparr>),
       cl_backup = (\<lambda>d. demo_env\<lparr> ev_open := False \<rparr>), cl_io = demo_transport, cl_cbt = (demo_cbt, True), cl_sched = lost_at_once,
       cl_vss = demo_vss, cl_objects = None, cl_delete = (\<lambda>i. (0, 0)) \<rparr>"


end
