(* ===== verification/Server_Main.thy ===== *)
theory Server_Main
  imports Server_Correct C_Text
begin

text \<open>
  Start and end of the server: \<open>server/main.cpp\<close> and \<open>Server::Start\<close> of \<open>server/Server.cpp\<close>. The
  socket calls and \<open>getopt_long\<close> are parameters: the former by what they return, the latter by the options it delivers.
\<close>

section \<open>Listening address\<close>

text \<open>\<open>std::stoi\<close>: no digits or a value outside 32 bits is an exception.\<close>

definition stoi :: "byte list \<Rightarrow> int option" where
  "stoi s = (case scan_decimal s of (neg, ds) \<Rightarrow>
     let v = (if neg then - int (decimal_value ds) else int (decimal_value ds))
     in if ds = [] \<or> v < - (2 ^ 31) \<or> 2 ^ 31 \<le> v then None else Some v)"

text \<open>A start that fails, and an exception nobody catches, which ends the process.\<close>

datatype start_failure = StartFailed | Uncaught

text \<open>The text before and after the last colon.\<close>

definition split_last :: "char \<Rightarrow> string \<Rightarrow> (string \<times> string) option" where
  "split_last c s =
     (if c \<in> set s
      then Some (rev (tl (dropWhile (\<lambda>x. x \<noteq> c) (rev s))), rev (takeWhile (\<lambda>x. x \<noteq> c) (rev s)))
      else None)"

definition ParseListenAddr :: "string \<Rightarrow> start_failure + string \<times> u16" where
  "ParseListenAddr addr =
     (case split_last CHR '':'' addr of
        None \<Rightarrow> Inl StartFailed
      | Some (ip, p) \<Rightarrow> (case stoi (ascii p) of None \<Rightarrow> Inl Uncaught | Some v \<Rightarrow> Inr (ip, of_int v)))"

text \<open>The calls of \<open>Start\<close>; \<open>ls_pton\<close> is the address \<open>inet_pton\<close> stores, in network order.\<close>

record listen_os =
  ls_socket :: int
  ls_pton :: "string \<Rightarrow> u32 option"
  ls_bind :: "u32 \<Rightarrow> u16 \<Rightarrow> bool"
  ls_listen :: bool
  ls_epoll :: int

text \<open>The result of \<open>inet_pton\<close> is not looked at: a text that is no address leaves the zeroed
  structure, which is \<open>INADDR_ANY\<close>.\<close>

definition bind_address :: "listen_os \<Rightarrow> string \<Rightarrow> u32" where
  "bind_address L ip =
     (if ip = [] \<or> ip = ''0.0.0.0'' then 0 else case ls_pton L ip of None \<Rightarrow> 0 | Some a \<Rightarrow> a)"

definition SetupListenSocket :: "listen_os \<Rightarrow> string \<Rightarrow> Server \<Rightarrow> start_failure + Server" where
  "SetupListenSocket L addr s =
     (case ParseListenAddr addr of
        Inl err \<Rightarrow> Inl err
      | Inr (ip, port) \<Rightarrow>
          if ls_socket L < 0 then Inl StartFailed
          else if \<not> ls_bind L (bind_address L ip) port then Inl StartFailed
          else if \<not> ls_listen L then Inl StartFailed
          else Inr (s\<lparr> sv_listenFd := ls_socket L \<rparr>))"

definition Start :: "listen_os \<Rightarrow> string \<Rightarrow> Server \<Rightarrow> start_failure + Server" where
  "Start L addr s =
     (case SetupListenSocket L addr s of
        Inl err \<Rightarrow> Inl err
      | Inr s1 \<Rightarrow>
          if ls_epoll L < 0 then Inl StartFailed
          else Inr ((EpollAdd (sv_listenFd s1) False (s1\<lparr> sv_epollFd := ls_epoll L \<rparr>))\<lparr> sv_running := True \<rparr>))"

text \<open>The constructor, with the files and what the kernel answers to \<open>send\<close>.\<close>

definition Server_new :: "DiskMap \<Rightarrow> files \<Rightarrow> (int \<Rightarrow> send_result list) \<Rightarrow> Server" where
  "Server_new dm fs tx =
     \<lparr> sv_disk = dm, sv_files = fs, sv_conns = Map.empty, sv_listenFd = -1, sv_epollFd = -1, sv_running = False,
       sv_epoll = Map.empty, sv_tx = tx, sv_sent = (\<lambda>h. []), sv_uaf = False \<rparr>"

section \<open>Command line\<close>

record CliArgs =
  ca_listen :: string
  ca_disks :: "(u32 \<times> string) list"
  ca_verbose :: bool

definition CliArgs_new :: CliArgs where
  "CliArgs_new = \<lparr> ca_listen = [], ca_disks = [], ca_verbose = False \<rparr>"

definition ParseDisk :: "string \<Rightarrow> (u32 \<times> string) option" where
  "ParseDisk s =
     (if CHR '':'' \<notin> set s then None
      else case stoul (ascii (takeWhile (\<lambda>c. c \<noteq> CHR '':'') s)) of
          None \<Rightarrow> None
        | Some v \<Rightarrow>
            let path = tl (dropWhile (\<lambda>c. c \<noteq> CHR '':'') s) in
            if 0xFFFFFFFF < v then None else if path = [] then None else Some (ucast v, path))"

datatype cli_option = OptListen string | OptDisk string | OptVerbose | OptHelp | OptOther

text \<open>The option loop; \<open>Inl\<close> is the exit code of an early end.\<close>

fun parse_options :: "cli_option list \<Rightarrow> CliArgs \<Rightarrow> int + CliArgs" where
  "parse_options [] a = Inr a"
| "parse_options (OptListen addr # os) a = parse_options os (a\<lparr> ca_listen := addr \<rparr>)"
| "parse_options (OptDisk v # os) a =
     (case ParseDisk v of None \<Rightarrow> Inl 1 | Some d \<Rightarrow> parse_options os (a\<lparr> ca_disks := ca_disks a @ [d] \<rparr>))"
| "parse_options (OptVerbose # os) a = parse_options os (a\<lparr> ca_verbose := True \<rparr>)"
| "parse_options (OptHelp # os) a = Inl 0"
| "parse_options (OptOther # os) a = Inl 1"

datatype server_exit = Exited int | Terminated

text \<open>
  \<open>main\<close>: the end of the process, the server as the event loop left it, and the device table at the end.
  \<open>rs\<close> is what \<open>epoll_wait\<close> delivers until the end of the process.
\<close>

record server_run =
  sr_exit :: server_exit
  sr_served :: "Server option"
  sr_disks :: DiskMap

definition not_served :: "server_exit \<Rightarrow> DiskMap \<Rightarrow> server_run" where
  "not_served x dm = \<lparr> sr_exit = x, sr_served = None, sr_disks = CloseAll dm \<rparr>"

definition server_main ::
  "Platform \<Rightarrow> disk_os \<Rightarrow> listen_os \<Rightarrow> (int \<Rightarrow> send_result list) \<Rightarrow> poll_result list \<Rightarrow> files \<Rightarrow> cli_option list \<Rightarrow> server_run" where
  "server_main P os L tx rs fs opts =
     (case parse_options opts CliArgs_new of
        Inl code \<Rightarrow> not_served (Exited code) DiskMap_new
      | Inr a \<Rightarrow>
          if ca_listen a = [] \<or> ca_disks a = [] then not_served (Exited 1) DiskMap_new
          else case add_disks os (ca_disks a) DiskMap_new of (dm, ok) \<Rightarrow>
            if \<not> ok then not_served (Exited 1) dm
            else (case Start L (ca_listen a) (Server_new dm fs tx) of
                    Inl StartFailed \<Rightarrow> not_served (Exited 1) dm
                  | Inl Uncaught \<Rightarrow> \<lparr> sr_exit = Terminated, sr_served = None, sr_disks = dm \<rparr>
                  | Inr s0 \<Rightarrow>
                      let s = Run P rs s0 in \<lparr> sr_exit = Exited 0, sr_served = Some s, sr_disks = CloseAll (sv_disk s) \<rparr>))"

section \<open>Options\<close>

lemma ascii_append: "ascii (s @ t) = ascii s @ ascii t" by (simp add: ascii_def)

text \<open>A text of decimal digits.\<close>

definition decimal_text :: "nat \<Rightarrow> string" where
  "decimal_text n = map (\<lambda>b. char_of (unat b)) (decimal n)"

lemma ascii_decimal_text [simp]: "ascii (decimal_text n) = decimal n"
proof -
  have "(of_nat (of_char (char_of (unat b) :: char)) :: byte) = b" for b :: byte
    using unsigned_less [of b, where 'a = nat] by (simp add: of_char_of)
  then show ?thesis by (simp add: ascii_def decimal_text_def comp_def)
qed

lemma decimal_text_chars: "c \<in> set (decimal_text n) \<Longrightarrow> 48 \<le> (of_char c :: nat) \<and> of_char c \<le> (57 :: nat)"
  using decimal_digits(1) [of n] by (auto simp: decimal_text_def is_digit_def word_le_nat_alt of_char_of)

lemma decimal_text_no_colon: "CHR '':'' \<notin> set (decimal_text n)"
  using decimal_text_chars [of "CHR '':''" n] by auto

text \<open>What is written as device number, colon and path is read back.\<close>

lemma ParseDisk_roundtrip:
  assumes "n < 2 ^ 32" and "path \<noteq> []"
  shows "ParseDisk (decimal_text n @ CHR '':'' # path) = Some (of_nat n, path)"
proof -
  have t: "takeWhile (\<lambda>c. c \<noteq> CHR '':'') (decimal_text n @ CHR '':'' # path) = decimal_text n"
    using decimal_text_no_colon [of n] by (subst takeWhile_append2) auto
  have d: "dropWhile (\<lambda>c. c \<noteq> CHR '':'') (decimal_text n @ CHR '':'' # path) = CHR '':'' # path"
    using decimal_text_no_colon [of n] by (subst dropWhile_append2) auto
  have v: "unat (of_nat n :: u64) = n" using assms(1) by (simp add: unat_of_nat)
  have "\<not> (0xFFFFFFFF :: u64) < of_nat n" using assms(1) by (simp add: word_less_nat_alt v)
  moreover have "(ucast (of_nat n :: u64) :: u32) = of_nat n"
    by (rule word_unat_eq_iff [THEN iffD2]) (use assms(1) v in \<open>simp add: unsigned_ucast_eq take_bit_eq_mod unat_of_nat\<close>)
  ultimately show ?thesis
    using assms stoul_decimal [of n] by (simp add: ParseDisk_def t d)
qed

text \<open>Text after the number is ignored, so that \<open>0x1:disk\<close> means device 0.\<close>

lemma ParseDisk_garbage: "ParseDisk ''0x1:disk'' = Some (0, ''disk'')"
  by (simp add: ParseDisk_def stoul_def scan_decimal_def is_space_def is_digit_def decimal_value_def ascii_def Let_def)

lemma ParseListenAddr_roundtrip:
  assumes "n < 2 ^ 16"
  shows "ParseListenAddr (ip @ CHR '':'' # decimal_text n) = Inr (ip, of_nat n)"
proof -
  have nc: "CHR '':'' \<notin> set (rev (decimal_text n))" using decimal_text_no_colon by simp
  have t: "takeWhile (\<lambda>x. x \<noteq> CHR '':'') (rev (decimal_text n) @ CHR '':'' # rev ip) = rev (decimal_text n)"
    using nc by (subst takeWhile_append2) auto
  have d: "dropWhile (\<lambda>x. x \<noteq> CHR '':'') (rev (decimal_text n) @ CHR '':'' # rev ip) = CHR '':'' # rev ip"
    using nc by (subst dropWhile_append2) auto
  have "split_last CHR '':'' (ip @ CHR '':'' # decimal_text n) = Some (ip, decimal_text n)"
    using t d by (simp add: split_last_def)
  moreover have "stoi (decimal n) = Some (int n)"
    using scan_decimal_decimal [of "[]" n] assms decimal_digits(2) [of n] by (simp add: stoi_def Let_def)
  ultimately show ?thesis by (simp add: ParseListenAddr_def)
qed

text \<open>A listening port is reduced to 16 bits; a text without digits ends the process.\<close>

lemma ParseListenAddr_port:
  "ParseListenAddr ''0.0.0.0:70000'' = Inr (''0.0.0.0'', 4464)" "ParseListenAddr ''0.0.0.0:http'' = Inl Uncaught"
  by (simp_all add: ParseListenAddr_def split_last_def stoi_def scan_decimal_def is_space_def is_digit_def decimal_value_def ascii_def Let_def)

section \<open>Start-up\<close>

text \<open>\<open>fstat\<close> tells the size of the file, which fits \<open>off_t\<close>.\<close>

definition fstat_ok :: "disk_os \<Rightarrow> files \<Rightarrow> bool" where
  "fstat_ok os fs \<longleftrightarrow> (\<forall>fd st. sys_fstat os fd = Some st \<longrightarrow> st_size st = int (length (fs fd)) \<and> st_size st < 2 ^ 63)"

lemma Add_sized:
  assumes "fstat_ok os fs" and "dm_sized m fs" and "Add os devno path m = (m', ok)"
  shows "dm_sized m' fs" and "ok \<Longrightarrow> Contains m' devno" and "Contains m d \<Longrightarrow> Contains m' d"
proof -
  have "ok \<and> (\<exists>st. sys_fstat os (sys_open os path) = Some st \<and> 0 < st_size st
       \<and> dm_map m' = AList.update devno \<lparr> bf_fd = sys_open os path, bf_size_bytes = word_of_int (st_size st), bf_path = path \<rparr> (dm_map m))
     \<or> \<not> ok \<and> dm_map m' = dm_map m"
    using assms(3) by (auto simp: Add_def Let_def close_fd_def split: if_splits option.splits)
  moreover have "unat (word_of_int (st_size st) :: u64) = length (fs fd) \<and> length (fs fd) < 2 ^ 63"
    if "sys_fstat os fd = Some st" for fd st
  proof -
    have st: "st_size st = int (length (fs fd))" "length (fs fd) < 2 ^ 63" using assms(1) that unfolding fstat_ok_def by fastforce+
    then show ?thesis by (simp add: unat_of_nat)
  qed
  ultimately show "dm_sized m' fs" "ok \<Longrightarrow> Contains m' devno" "Contains m d \<Longrightarrow> Contains m' d"
    using assms(2) by (auto simp: dm_sized_def Get_def Contains_def update_conv' split: if_splits)
qed

lemma add_disks_sized:
  assumes "fstat_ok os fs" and "dm_sized m fs" and "add_disks os ds m = (m', ok)"
  shows "dm_sized m' fs \<and> (Contains m d \<longrightarrow> Contains m' d) \<and> (ok \<longrightarrow> (\<forall>(d, path) \<in> set ds. Contains m' d))"
  using assms(2,3)
proof (induction ds arbitrary: m d)
  case (Cons x ds)
  obtain devno path where x: "x = (devno, path)" by (cases x)
  obtain m1 ok1 where a: "Add os devno path m = (m1, ok1)" by (cases "Add os devno path m")
  note s = Add_sized [OF assms(1) Cons.prems(1) a]
  show ?case
  proof (cases ok1)
    case True
    then have r: "add_disks os ds m1 = (m', ok)" using Cons.prems(2) a x by simp
    then show ?thesis using Cons.IH [OF s(1) r] s(2) [OF True] s(3) x by fastforce
  qed (use Cons.prems(2) a x s in auto)
qed simp

lemma srv_ok_Start:
  assumes "dm_sized dm fs" and "Start L addr (Server_new dm fs tx) = Inr s"
  shows "srv_ok s" and "sv_disk s = dm"
  using assms by (auto simp: Start_def SetupListenSocket_def Server_new_def EpollAdd_def srv_ok_def split: if_splits sum.splits)

lemma parse_options_Inl: "parse_options opts a = Inl c \<Longrightarrow> c = 1 \<or> c = 0 \<and> OptHelp \<in> set opts"
  by (induction opts a rule: parse_options.induct) (auto split: option.splits)

lemma CloseAll_empty [simp]: "dm_map (CloseAll m) = []"
  by (simp add: CloseAll_def)

lemma Start_running: "Start L addr s = Inr s0 \<Longrightarrow> sv_running s0 \<and> sv_files s0 = sv_files s"
  by (auto simp: Start_def SetupListenSocket_def EpollAdd_def split: if_splits sum.splits)

text \<open>
  C16. The server serves only after a complete start, and then within its invariant: if the event
  loop was run at all, the process exits with 0, every disk of the command line was registered, and whatever
  the clients sent, the state in which the loop ended satisfies the invariant of the server; in
  every other case the exit code is 1, or 0 for \<open>--help\<close>, or the process is terminated by the port
  number's exception. Unless terminated, the table of devices is empty in the end.
\<close>

theorem server_lifecycle:
  assumes "pwrite_ok P" and "fstat_ok os fs" and "r = server_main P os L tx rs fs opts"
  shows "(case sr_served r of
            Some s \<Rightarrow> sr_exit r = Exited 0 \<and> srv_ok s
              \<and> (\<exists>a s0. parse_options opts CliArgs_new = Inr a \<and> s = Run P rs s0 \<and> sv_running s0 \<and> sv_files s0 = fs
                   \<and> (\<forall>(d, path) \<in> set (ca_disks a). Contains (sv_disk s0) d))
          | None \<Rightarrow> sr_exit r = Exited 1 \<or> sr_exit r = Terminated \<or> sr_exit r = Exited 0 \<and> OptHelp \<in> set opts)
     \<and> (sr_exit r \<noteq> Terminated \<longrightarrow> dm_map (sr_disks r) = [])"
proof (cases "parse_options opts CliArgs_new")
  case (Inl c)
  then show ?thesis using parse_options_Inl [OF Inl] assms(3) by (auto simp: server_main_def not_served_def)
next
  case (Inr a)
  obtain dm ok where dm: "add_disks os (ca_disks a) DiskMap_new = (dm, ok)" by (cases "add_disks os (ca_disks a) DiskMap_new")
  have "dm_sized DiskMap_new fs" by (simp add: dm_sized_def Get_def DiskMap_new_def)
  note d = add_disks_sized [OF assms(2) this dm]
  consider "ca_listen a = [] \<or> ca_disks a = [] \<or> \<not> ok"
    | e where "ca_listen a \<noteq> []" "ca_disks a \<noteq> []" ok "Start L (ca_listen a) (Server_new dm fs tx) = Inl e"
    | s0 where "ca_listen a \<noteq> []" "ca_disks a \<noteq> []" ok "Start L (ca_listen a) (Server_new dm fs tx) = Inr s0"
    by (cases "Start L (ca_listen a) (Server_new dm fs tx)") auto
  then show ?thesis
  proof cases
    case 1
    then show ?thesis using Inr dm assms(3) by (auto simp: server_main_def not_served_def)
  next
    case 2
    then show ?thesis using Inr dm assms(3) by (cases e) (simp_all add: server_main_def not_served_def)
  next
    case 3
    note s0 = srv_ok_Start [OF conjunct1 [OF d] 3(4)] Start_running [OF 3(4)]
    have "srv_ok (Run P rs s0)" by (rule srv_ok_Run [OF assms(1) s0(1)])
    moreover have "r = \<lparr> sr_exit = Exited 0, sr_served = Some (Run P rs s0), sr_disks = CloseAll (sv_disk (Run P rs s0)) \<rparr>"
      using 3 Inr dm assms(3) by (simp add: server_main_def Let_def)
    moreover have "sv_files s0 = fs" using s0(3) by (simp add: Server_new_def)
    moreover have "\<forall>(d, path) \<in> set (ca_disks a). Contains (sv_disk s0) d" using d [of 0] 3(3) s0(2) by simp
    ultimately show ?thesis using Inr s0(3) by auto
  qed
qed

text \<open>One small disk; a signal ends the server.\<close>

definition demo_disk_os :: disk_os where
  "demo_disk_os = \<lparr> sys_open = (\<lambda>path. 7), sys_fstat = (\<lambda>fd. Some \<lparr> st_isreg = True, st_size = 2 \<rparr>) \<rparr>"

definition demo_listen_os :: listen_os where
  "demo_listen_os = \<lparr> ls_socket = 3, ls_pton = (\<lambda>ip. None), ls_bind = (\<lambda>a p. True), ls_listen = True, ls_epoll = 4 \<rparr>"

theorem server_lifecycle_witness:
  "\<exists>s. sr_served (server_main demo_platform demo_disk_os demo_listen_os (\<lambda>h. []) [Interrupted True] (\<lambda>fd. [1, 2])
         [OptListen ''*:9000'', OptDisk ''1:disk'']) = Some s \<and> srv_ok s"
proof -
  let ?opts = "[OptListen ''*:9000'', OptDisk ''1:disk'']"
  define r where "r = server_main demo_platform demo_disk_os demo_listen_os (\<lambda>h. []) [Interrupted True] (\<lambda>fd. [1, 2]) ?opts"
  have f: "fstat_ok demo_disk_os (\<lambda>fd. [1, 2])" by (simp add: fstat_ok_def demo_disk_os_def)
  have o: "parse_options ?opts CliArgs_new = Inr \<lparr> ca_listen = ''*:9000'', ca_disks = [(1, ''disk'')], ca_verbose = False \<rparr>"
    by (simp add: CliArgs_new_def ParseDisk_def stoul_def scan_decimal_def is_space_def is_digit_def decimal_value_def ascii_def Let_def)
  have p: "ParseListenAddr ''*:9000'' = Inr (''*'', 9000)"
    by (simp add: ParseListenAddr_def split_last_def stoi_def scan_decimal_def is_space_def is_digit_def decimal_value_def ascii_def Let_def)
  have "sr_served r \<noteq> None"
    unfolding r_def server_main_def o
    by (simp add: Add_def demo_disk_os_def Start_def SetupListenSocket_def p demo_listen_os_def Let_def)
  then show ?thesis using server_lifecycle [OF demo_pwrite_ok f r_def] by (auto simp: r_def)
qed

end
