(* ===== verification/Cbt_Ctl.thy ===== *)
theory Cbt_Ctl
  imports Cbt_Client Printed_Numbers
begin

text \<open>
  The control tool \<open>cbtctl/main.cpp\<close>: query, reset and display of a disk's bitmap, over the same driver
  requests as \<open>Cbt_Client\<close>. The display is modelled as its rows and figures; \<open>Ctl_Text\<close> has the texts printed of them.
\<close>

section \<open>Requests\<close>

text \<open>\<open>io\<close> is \<open>DeviceIoControl\<close>, the other fields say whether \<open>CreateFileW\<close>, \<open>malloc\<close> and \<open>fopen_s\<close> succeed.\<close>

record 's ctl_env =
  ce_open :: bool
  ce_malloc :: "u32 \<Rightarrow> bool"
  ce_fopen :: "byte list \<Rightarrow> bool"
  ce_io :: "'s transport"

datatype ctl_error = ReadPastEnd

definition ResetCbtBitmap :: "'s ctl_env \<Rightarrow> u32 \<Rightarrow> 's \<Rightarrow> 's \<times> bool" where
  "ResetCbtBitmap E diskNo s =
     (case ce_io E \<lparr> io_code = IOCTL_RESET_CBT_DATA, io_input = le_bytes 4 diskNo, io_outLen = 0 \<rparr> s of (s1, r) \<Rightarrow> (s1, dr_ok r))"

text \<open>The memory of the reply, a zeroed block of the required size.\<close>

definition QueryCbtData :: "'s ctl_env \<Rightarrow> u32 \<Rightarrow> 's \<Rightarrow> 's \<times> byte list option" where
  "QueryCbtData E diskNo s =
     (case ce_io E (query_request diskNo 16) s of (s1, r1) \<Rightarrow>
        if \<not> dr_ok r1 \<and> dr_err r1 \<noteq> 234 then (s1, None)
        else
          let meta = filled 16 (dr_data r1);
              totalBits = (le_word (take 8 meta) :: u64);
              totalBytes = (le_word (drop 8 meta) :: u64);
              requiredSize = (ucast (16 + totalBytes) :: u32)
          in if totalBytes = 0 \<or> totalBits = 0 then (s1, None)
             else if \<not> ce_malloc E requiredSize then (s1, None)
             else case ce_io E (query_request diskNo requiredSize) s1 of (s2, r2) \<Rightarrow>
                    if \<not> dr_ok r2 then (s2, None) else (s2, Some (filled (unat requiredSize) (dr_data r2))))"

section \<open>Display\<close>

text \<open>Statistics of the scan; positions and counts are at most \<open>totalBits\<close>, so that 64 bits suffice.\<close>

record Scan =
  sn_changed :: nat
  sn_ranges :: nat
  sn_maxRun :: nat
  sn_runStart :: nat
  sn_inRun :: bool

definition Scan_new :: Scan where
  "Scan_new = \<lparr> sn_changed = 0, sn_ranges = 0, sn_maxRun = 0, sn_runStart = 0, sn_inRun = False \<rparr>"

definition end_run :: "nat \<Rightarrow> Scan \<Rightarrow> Scan" where
  "end_run i s =
     (if sn_inRun s
      then s\<lparr> sn_ranges := sn_ranges s + 1, sn_maxRun := max (sn_maxRun s) (i - sn_runStart s), sn_inRun := False \<rparr>
      else s)"

definition scan_bit :: "bool \<Rightarrow> nat \<Rightarrow> Scan \<Rightarrow> Scan" where
  "scan_bit isSet i s =
     (if isSet
      then s\<lparr> sn_changed := sn_changed s + 1, sn_runStart := (if sn_inRun s then sn_runStart s else i), sn_inRun := True \<rparr>
      else end_run i s)"

definition msb_bit :: "byte list \<Rightarrow> nat \<Rightarrow> bool" where
  "msb_bit data i \<longleftrightarrow> drop_bit (7 - i mod 8) (data ! (i div 8)) AND 1 = 1"

definition cell :: "bool \<Rightarrow> char" where
  "cell isSet = (if isSet then CHR ''*'' else CHR ''0'')"

text \<open>Up to \<open>b\<close> blocks from block \<open>i\<close>; \<open>n\<close> is \<open>totalBits\<close> and \<open>m\<close> is \<open>totalBytes\<close>. The \<open>break\<close> leaves only this loop.\<close>

fun dump_group :: "byte list \<Rightarrow> nat \<Rightarrow> nat \<Rightarrow> nat \<Rightarrow> nat \<Rightarrow> Scan \<Rightarrow> ctl_error + string \<times> nat \<times> Scan" where
  "dump_group data n m 0 i s = Inr ([], i, s)"
| "dump_group data n m (Suc b) i s =
     (if \<not> i < n then Inr ([], i, s)
      else if m \<le> i div 8 then Inr ([], i, s)
      else if length data \<le> i div 8 then Inl ReadPastEnd
      else case dump_group data n m b (i + 1) (scan_bit (msb_bit data i) i s) of
             Inl err \<Rightarrow> Inl err
           | Inr (text, r) \<Rightarrow> Inr (cell (msb_bit data i) # text, r))"

text \<open>The remaining \<open>g\<close> of the eight groups of a row.\<close>

fun dump_row :: "byte list \<Rightarrow> nat \<Rightarrow> nat \<Rightarrow> nat \<Rightarrow> nat \<Rightarrow> Scan \<Rightarrow> ctl_error + string \<times> nat \<times> Scan" where
  "dump_row data n m 0 i s = Inr ([], i, s)"
| "dump_row data n m (Suc g) i s =
     (if \<not> i < n then Inr ([], i, s)
      else case dump_group data n m 8 i s of
             Inl err \<Rightarrow> Inl err
           | Inr (text, i', s') \<Rightarrow>
               (case dump_row data n m g i' s' of
                  Inl err \<Rightarrow> Inl err
                | Inr (texts, r) \<Rightarrow> Inr ((if g < 7 then '' '' else []) @ text @ texts, r)))"

text \<open>The rows: first block, its byte offset with 64 bits, and the cells. The loop ends only when all
  bits were shown, hence \<open>None\<close> for a loop that does not end.\<close>

partial_function (option) dump_loop ::
  "byte list \<Rightarrow> nat \<Rightarrow> nat \<Rightarrow> nat \<Rightarrow> Scan \<Rightarrow> (nat \<times> u64 \<times> string) list \<Rightarrow> (ctl_error + (nat \<times> u64 \<times> string) list \<times> Scan) option" where
  "dump_loop data n m i s rows =
     (if i < n then
        (case dump_row data n m 8 i s of
           Inl err \<Rightarrow> Some (Inl err)
         | Inr (text, i', s') \<Rightarrow> dump_loop data n m i' s' (rows @ [(i, of_nat i * 1048576, text)]))
      else Some (Inr (rows, s)))"

definition segment_changed :: "byte list \<Rightarrow> nat \<Rightarrow> nat \<Rightarrow> nat \<Rightarrow> nat" where
  "segment_changed data m segStart segEnd = length (filter (\<lambda>j. j div 8 < m \<and> msb_bit data j) [segStart..<segEnd])"

text \<open>A literal like \<open>0.05\<close> is the nearest number of type \<open>double\<close>.\<close>

definition percent :: "nat \<Rightarrow> rat" where
  "percent p = to_double (of_nat p / 100)"

definition density_char :: "rat \<Rightarrow> char" where
  "density_char density =
     (if density = 0 then CHR '' ''
      else if density < percent 1 then CHR ''.''
      else if density < percent 5 then CHR '':''
      else if density < percent 15 then CHR ''o''
      else if density < percent 30 then CHR ''O''
      else if density < percent 50 then CHR ''#''
      else CHR ''@'')"

definition segment_density :: "nat \<Rightarrow> nat \<Rightarrow> rat" where
  "segment_density changed len = (if 0 < len then double_div (double_of changed) (double_of len) else 0)"

definition density_map :: "byte list \<Rightarrow> u64 \<Rightarrow> nat \<Rightarrow> string" where
  "density_map data totalBits m =
     (let segSize = unat ((totalBits + 63) div 64); n = unat totalBits in
      map (\<lambda>seg. let segEnd = min (seg * segSize + segSize) n
                 in density_char (segment_density (segment_changed data m (seg * segSize) segEnd) (segEnd - seg * segSize)))
        (takeWhile (\<lambda>seg. seg * segSize < n) [0..<64]))"

record Report =
  rp_rows :: "(nat \<times> u64 \<times> string) list"
  rp_changed :: nat
  rp_ranges :: nat
  rp_maxRun :: nat
  rp_density :: string

text \<open>\<open>output\<close> is the memory of a \<open>CBT_QUERY_OUTPUT\<close>.\<close>

definition DumpCbtBitmap :: "byte list \<Rightarrow> (ctl_error + Report) option" where
  "DumpCbtBitmap output =
     (if length output < 16 then Some (Inl ReadPastEnd)
      else
        let totalBits = (le_word (take 8 output) :: u64);
            totalBytes = (le_word (segment 8 8 output) :: u64);
            data = drop 16 output
        in case dump_loop data (unat totalBits) (unat totalBytes) 0 Scan_new [] of
             None \<Rightarrow> None
           | Some (Inl err) \<Rightarrow> Some (Inl err)
           | Some (Inr (rows, s)) \<Rightarrow>
               let s' = end_run (unat totalBits) s
               in Some (Inr \<lparr> rp_rows = rows, rp_changed = sn_changed s', rp_ranges = sn_ranges s', rp_maxRun = sn_maxRun s',
                              rp_density = density_map data totalBits (unat totalBytes) \<rparr>))"

section \<open>Commands\<close>

text \<open>What a command shows: nothing, the summary of a query (bits, bytes, changed and scanned blocks of
  the sample), the note that there are no data, or a display.\<close>

datatype ctl_output = Nothing | Summary u64 u64 nat nat | NoData | Dumped Report

definition query_summary :: "byte list \<Rightarrow> ctl_error + ctl_output" where
  "query_summary output =
     (let totalBits = (le_word (take 8 output) :: u64); data = drop 16 output; scanBits = min (unat totalBits) 10000 in
      if length output < 16 then Inl ReadPastEnd
      else if totalBits = 0 then Inr NoData
      else if 8 * length data < scanBits then Inl ReadPastEnd
      else Inr (Summary totalBits (le_word (segment 8 8 output)) (length (filter (msb_bit data) [0..<scanBits])) scanBits))"

text \<open>\<open>main\<close>: the exit code and the output. \<open>argv\<close> includes the name of the program.\<close>

definition ctl_main :: "'s ctl_env \<Rightarrow> byte list list \<Rightarrow> 's \<Rightarrow> 's \<times> (ctl_error + int \<times> ctl_output) option" where
  "ctl_main E argv s =
     (if length argv < 3 then (s, Some (Inr (1, Nothing)))
      else if \<not> ce_open E then (s, Some (Inr (1, Nothing)))
      else
        let cmd = argv ! 1; diskNo = (of_int (atol (argv ! 2)) :: u32) in
        if same_text cmd (ascii ''reset'') then
          (case ResetCbtBitmap E diskNo s of (s1, ok) \<Rightarrow> (s1, Some (Inr (if ok then 0 else 2, Nothing))))
        else if same_text cmd (ascii ''query'') then
          (case QueryCbtData E diskNo s of
             (s1, None) \<Rightarrow> (s1, Some (Inr (3, Nothing)))
           | (s1, Some output) \<Rightarrow>
               (s1, Some (case query_summary output of Inl err \<Rightarrow> Inl err | Inr r \<Rightarrow> Inr (0, r))))
        else if same_text cmd (ascii ''dump'') then
          (case QueryCbtData E diskNo s of
             (s1, None) \<Rightarrow> (s1, Some (Inr (5, Nothing)))
           | (s1, Some output) \<Rightarrow>
               if 4 \<le> length argv \<and> \<not> ce_fopen E (argv ! 3) then (s1, Some (Inr (4, Nothing)))
               else (s1, (case DumpCbtBitmap output of
                            None \<Rightarrow> None
                          | Some (Inl err) \<Rightarrow> Some (Inl err)
                          | Some (Inr r) \<Rightarrow> Some (Inr (0, Dumped r)))))
        else (s, Some (Inr (6, Nothing))))"

section \<open>The scan\<close>

text \<open>Blocks that start a run of changed blocks, and the length of the longest run.\<close>

definition run_starts :: "(nat \<Rightarrow> bool) \<Rightarrow> nat \<Rightarrow> nat set" where
  "run_starts B n = {i. i < n \<and> B i \<and> (i = 0 \<or> \<not> B (i - 1))}"

definition is_run :: "(nat \<Rightarrow> bool) \<Rightarrow> nat \<Rightarrow> nat \<Rightarrow> bool" where
  "is_run B a e \<longleftrightarrow> a \<le> e \<and> (\<forall>j. a \<le> j \<and> j < e \<longrightarrow> B j)"

definition longest_run :: "(nat \<Rightarrow> bool) \<Rightarrow> nat \<Rightarrow> nat \<Rightarrow> bool" where
  "longest_run B n l \<longleftrightarrow> (\<exists>a e. is_run B a e \<and> e \<le> n \<and> l = e - a) \<and> (\<forall>a e. is_run B a e \<and> e \<le> n \<longrightarrow> e - a \<le> l)"

text \<open>The state of the scan before block \<open>i\<close>: closing the open run gives the figures of the first \<open>i\<close> blocks.\<close>

definition scan_inv :: "(nat \<Rightarrow> bool) \<Rightarrow> nat \<Rightarrow> Scan \<Rightarrow> bool" where
  "scan_inv B i s \<longleftrightarrow>
     sn_changed s = card {j. j < i \<and> B j}
     \<and> sn_inRun s = (0 < i \<and> B (i - 1))
     \<and> (sn_inRun s \<longrightarrow> sn_runStart s < i \<and> is_run B (sn_runStart s) i \<and> (sn_runStart s = 0 \<or> \<not> B (sn_runStart s - 1)))
     \<and> sn_ranges (end_run i s) = card (run_starts B i)
     \<and> longest_run B i (sn_maxRun (end_run i s))"

lemma card_less_Suc_if: "card {j. j < Suc i \<and> B j} = card {j. j < i \<and> B j} + (if B i then 1 else 0)"
proof -
  have "{j. j < Suc i \<and> B j} = (if B i then insert i {j. j < i \<and> B j} else {j. j < i \<and> B j})"
    by (auto simp: less_Suc_eq)
  then show ?thesis by auto
qed

lemma card_run_starts:
  "card (run_starts B (Suc i)) = card (run_starts B i) + (if B i \<and> (i = 0 \<or> \<not> B (i - 1)) then 1 else 0)"
  using card_less_Suc_if [of i "\<lambda>i. B i \<and> (i = 0 \<or> \<not> B (i - 1))"] by (simp add: run_starts_def)

lemma is_run_Suc: "is_run B a (Suc i) \<longleftrightarrow> a = Suc i \<or> is_run B a i \<and> B i"
  by (auto simp: is_run_def less_Suc_eq le_Suc_eq)

text \<open>A run that ends at \<open>i\<close> starts at or after the start of the open run.\<close>

lemma longest_run_Suc:
  assumes "longest_run B i l" and "\<not> B i"
  shows "longest_run B (Suc i) l"
proof -
  have "e - a \<le> l" if "is_run B a e" "e \<le> Suc i" for a e
    using that assms by (cases "e = Suc i") (auto simp: longest_run_def is_run_Suc)
  moreover have "\<exists>a e. is_run B a e \<and> e \<le> Suc i \<and> l = e - a" using assms(1) le_SucI unfolding longest_run_def by blast
  ultimately show ?thesis unfolding longest_run_def by blast
qed

lemma longest_run_extend:
  assumes "longest_run B i l" and "is_run B r (Suc i)" and "r = 0 \<or> \<not> B (r - 1)" and "r \<le> i"
  shows "longest_run B (Suc i) (max l (Suc i - r))"
proof -
  have "e - a \<le> max l (Suc i - r)" if run: "is_run B a e" and e: "e \<le> Suc i" for a e
  proof (cases "e = Suc i \<and> a < r")
    case True
    then have "a \<le> r - 1" "r - 1 < e" "0 < r" using assms(4) by auto
    then have "B (r - 1)" using run by (auto simp: is_run_def)
    then show ?thesis using assms(3) \<open>0 < r\<close> by simp
  next
    case False
    have "e - a \<le> l" if "e \<le> i" using assms(1) run that by (auto simp: longest_run_def)
    then show ?thesis using False e by (cases "e = Suc i") auto
  qed
  moreover have "\<exists>a e. is_run B a e \<and> e \<le> Suc i \<and> max l (Suc i - r) = e - a"
  proof (cases "l \<le> Suc i - r")
    case True
    then show ?thesis using assms(2) by (intro exI [of _ r] exI [of _ "Suc i"]) (simp add: max_def)
  next
    case False
    then have "max l (Suc i - r) = l" by simp
    then show ?thesis using assms(1) le_SucI unfolding longest_run_def by metis
  qed
  ultimately show ?thesis unfolding longest_run_def by blast
qed

lemma end_run_twice [simp]: "end_run j (end_run i s) = end_run i s"
  by (simp add: end_run_def)

lemma scan_inv_start: "scan_inv B 0 Scan_new"
  by (auto simp: scan_inv_def Scan_new_def end_run_def run_starts_def longest_run_def is_run_def)

lemma scan_inv_set:
  assumes "scan_inv B i s" and "B i"
  shows "scan_inv B (Suc i) (scan_bit True i s)"
proof -
  let ?r = "if sn_inRun s then sn_runStart s else i"
  let ?l = "sn_maxRun (end_run i s)"
  have run: "is_run B ?r (Suc i)" "?r = 0 \<or> \<not> B (?r - 1)" "?r \<le> i"
    using assms by (auto simp: scan_inv_def is_run_Suc) (auto simp: is_run_def)
  have "longest_run B (Suc i) (max ?l (Suc i - ?r))"
    using assms(1) by (intro longest_run_extend run) (simp add: scan_inv_def)
  moreover have "max ?l (Suc i - ?r) = max (sn_maxRun s) (Suc i - ?r)" by (auto simp: end_run_def max_def)
  ultimately have "longest_run B (Suc i) (sn_maxRun (end_run (Suc i) (scan_bit True i s)))"
    by (simp add: scan_bit_def end_run_def)
  moreover have "sn_ranges (end_run (Suc i) (scan_bit True i s)) = card (run_starts B (Suc i))"
    using assms by (auto simp: scan_inv_def scan_bit_def end_run_def card_run_starts)
  ultimately show ?thesis
    using assms run by (auto simp: scan_inv_def scan_bit_def card_less_Suc_if)
qed

lemma scan_inv_clear:
  assumes "scan_inv B i s" and "\<not> B i"
  shows "scan_inv B (Suc i) (scan_bit False i s)"
proof -
  have "longest_run B (Suc i) (sn_maxRun (end_run i s))"
    using assms by (intro longest_run_Suc) (simp_all add: scan_inv_def)
  moreover have "\<not> sn_inRun (end_run i s)" "sn_changed (end_run i s) = sn_changed s" by (simp_all add: end_run_def)
  ultimately show ?thesis using assms by (simp add: scan_inv_def scan_bit_def card_less_Suc_if card_run_starts)
qed

definition scan_all :: "(nat \<Rightarrow> bool) \<Rightarrow> nat \<Rightarrow> nat \<Rightarrow> Scan \<Rightarrow> Scan" where
  "scan_all B i e s = fold (\<lambda>j. scan_bit (B j) j) [i..<e] s"

lemma scan_all_same [simp]: "scan_all B i i s = s"
  by (simp add: scan_all_def)

lemma scan_all_step: "i < e \<Longrightarrow> scan_all B i e s = scan_all B (i + 1) e (scan_bit (B i) i s)"
  by (simp add: scan_all_def upt_conv_Cons)

lemma scan_all_trans: "i \<le> k \<Longrightarrow> k \<le> e \<Longrightarrow> scan_all B k e (scan_all B i k s) = scan_all B i e s"
  using upt_add_eq_append [of i k "e - k"] by (simp add: scan_all_def)

lemma scan_all_inv:
  assumes "scan_inv B i s" and "i \<le> e"
  shows "scan_inv B e (scan_all B i e s)"
  using assms(2)
proof (induction e rule: dec_induct)
  case base
  then show ?case using assms(1) by simp
next
  case (step k)
  then show ?case using scan_inv_set [OF step.IH] scan_inv_clear [OF step.IH]
    by (cases "B k") (simp_all add: scan_all_def)
qed

section \<open>The loops\<close>

definition cells :: "byte list \<Rightarrow> nat \<Rightarrow> nat \<Rightarrow> string" where
  "cells data i e = map (\<lambda>j. cell (msb_bit data j)) [i..<e]"

lemma cells_step: "i < e \<Longrightarrow> cells data i e = cell (msb_bit data i) # cells data (i + 1) e"
  by (simp add: cells_def upt_conv_Cons)

lemma cells_trans: "i \<le> k \<Longrightarrow> k \<le> e \<Longrightarrow> cells data i k @ cells data k e = cells data i e"
  using upt_add_eq_append [of i k "e - k"] by (simp add: cells_def flip: map_append)

definition no_blanks :: "string \<Rightarrow> string" where
  "no_blanks = filter (\<lambda>c. c \<noteq> CHR '' '')"

lemma no_blanks_cells [simp]: "no_blanks (cells data i e) = cells data i e"
  by (auto simp: no_blanks_def cells_def cell_def filter_id_conv)

lemma no_blanks_blank [simp]: "no_blanks '' '' = []" "no_blanks [] = []"
  by (simp_all add: no_blanks_def)

lemma no_blanks_append [simp]: "no_blanks (s @ t) = no_blanks s @ no_blanks t"
  by (simp add: no_blanks_def)

lemma dump_group_all:
  assumes "n \<le> 8 * m" and "m \<le> length data" and "i \<le> n"
  shows "dump_group data n m b i s = Inr (cells data i (min (i + b) n), min (i + b) n, scan_all (msb_bit data) i (min (i + b) n) s)"
  using assms(3)
proof (induction b arbitrary: i s)
  case (Suc b)
  show ?case
  proof (cases "i < n")
    case True
    then have "i div 8 < m" using assms(1) by auto
    moreover have "i < min (i + Suc b) n" using True by simp
    ultimately show ?thesis
      using Suc.IH [of "i + 1"] True assms(2) by (simp add: cells_step scan_all_step)
  qed (use Suc.prems in \<open>simp add: cells_def\<close>)
qed (simp add: cells_def min_def)

lemma dump_row_all:
  assumes "n \<le> 8 * m" and "m \<le> length data" and "i \<le> n"
  shows "\<exists>text. dump_row data n m g i s = Inr (text, min (i + 8 * g) n, scan_all (msb_bit data) i (min (i + 8 * g) n) s)
     \<and> no_blanks text = cells data i (min (i + 8 * g) n)"
  using assms(3)
proof (induction g arbitrary: i s)
  case (Suc g)
  show ?case
  proof (cases "i < n")
    case True
    define k where "k = min (i + 8) n"
    define e where "e = min (k + 8 * g) n"
    have k: "i \<le> k" "k \<le> e" "k \<le> n" and e: "e = min (i + 8 * Suc g) n" using True by (auto simp: k_def e_def)
    obtain t where t: "dump_row data n m g k (scan_all (msb_bit data) i k s) = Inr (t, e, scan_all (msb_bit data) k e (scan_all (msb_bit data) i k s))"
      "no_blanks t = cells data k e" using Suc.IH [OF k(3)] by (auto simp: e_def)
    have "dump_row data n m (Suc g) i s = Inr ((if g < 7 then '' '' else []) @ cells data i k @ t, e, scan_all (msb_bit data) i e s)"
      using True dump_group_all [OF assms(1,2), of i 8 s] t(1) scan_all_trans [OF k(1,2)] by (simp add: k_def)
    moreover have "no_blanks ((if g < 7 then '' '' else []) @ cells data i k @ t) = cells data i e"
      using t(2) cells_trans [OF k(1,2)] by simp
    ultimately show ?thesis using e by auto
  qed (use Suc.prems in \<open>simp add: cells_def no_blanks_def\<close>)
qed (simp add: cells_def no_blanks_def min_def)

lemma dump_loop_all:
  assumes "n \<le> 8 * m" and "m \<le> length data" and "i \<le> n"
  shows "\<exists>R. dump_loop data n m i s rows = Some (Inr (rows @ R, scan_all (msb_bit data) i n s))
     \<and> concat (map (\<lambda>(b, off, text). no_blanks text) R) = cells data i n \<and> length R = (n - i + 63) div 64"
  using assms(3)
proof (induction "n - i" arbitrary: i s rows rule: less_induct)
  case less
  show ?case
  proof (cases "i < n")
    case True
    define k where "k = min (i + 64) n"
    have k: "i < k" "k \<le> n" using True by (auto simp: k_def)
    obtain tx where tx: "dump_row data n m 8 i s = Inr (tx, k, scan_all (msb_bit data) i k s)" "no_blanks tx = cells data i k"
      using dump_row_all [OF assms(1,2) less.prems, of 8 s] by (auto simp: k_def)
    define row where "row = (i, of_nat i * 1048576 :: u64, tx)"
    obtain R where R: "dump_loop data n m k (scan_all (msb_bit data) i k s) (rows @ [row])
        = Some (Inr ((rows @ [row]) @ R, scan_all (msb_bit data) k n (scan_all (msb_bit data) i k s)))"
      "concat (map (\<lambda>(b, off, text). no_blanks text) R) = cells data k n" "length R = (n - k + 63) div 64"
      using less.hyps [of k "scan_all (msb_bit data) i k s" "rows @ [row]", OF diff_less_mono2 [OF k(1) True] k(2)] by blast
    have "dump_loop data n m i s rows = dump_loop data n m k (scan_all (msb_bit data) i k s) (rows @ [row])"
      using True tx(1) by (subst dump_loop.simps) (simp add: row_def)
    moreover have "(n - i + 63) div 64 = Suc ((n - k + 63) div 64)" using True by (auto simp: k_def min_def)
    ultimately show ?thesis
      using R tx(2) k scan_all_trans [of i k n] cells_trans [of i k n]
      by (intro exI [of _ "row # R"]) (simp add: row_def)
  next
    case False
    then show ?thesis using less.prems by (subst dump_loop.simps) (simp add: cells_def)
  qed
qed

section \<open>The density map\<close>

text \<open>The same limits with exact fractions.\<close>

definition density_class :: "nat \<Rightarrow> nat \<Rightarrow> char" where
  "density_class changed len =
     (if changed = 0 then CHR '' ''
      else if 100 * changed < len then CHR ''.''
      else if 100 * changed < 5 * len then CHR '':''
      else if 100 * changed < 15 * len then CHR ''o''
      else if 100 * changed < 30 * len then CHR ''O''
      else if 100 * changed < 50 * len then CHR ''#''
      else CHR ''@'')"

text \<open>Two fractions with small denominators are compared right in spite of the rounding.\<close>

lemma double_less_percent:
  assumes "0 < len" and "len < 2 ^ 40" and "changed \<le> len" and "p \<le> 100"
  shows "segment_density changed len < percent p \<longleftrightarrow> 100 * changed < p * len"
proof -
  let ?x = "of_nat changed / of_nat len :: rat" and ?y = "of_nat p / 100 :: rat"
  have d: "segment_density changed len = to_double ?x"
    using assms by (simp add: segment_density_def double_div_def double_of_exact)
  have l: "(0 :: rat) < of_nat len" using assms(1) by simp
  have lt: "?x < ?y \<longleftrightarrow> 100 * changed < p * len"
  proof -
    have "?x < ?y \<longleftrightarrow> (of_nat (100 * changed) :: rat) < of_nat (p * len)" using l by (simp add: field_simps)
    then show ?thesis by (simp only: of_nat_less_iff)
  qed
  show ?thesis
  proof
    assume "segment_density changed len < percent p"
    then have "to_double ?x < to_double ?y" by (simp add: d percent_def)
    then have "?x < ?y" using to_double_mono [of ?y ?x] by linarith
    then show "100 * changed < p * len" by (simp only: lt)
  next
    assume a: "100 * changed < p * len"
    then have "(of_nat (100 * changed + 1) :: rat) \<le> of_nat (p * len)" by (intro of_nat_mono) simp
    then have gap: "?x + 1 / (100 * of_nat len) \<le> ?y" using l by (simp add: field_simps)
    have unit: "?x \<le> 1" "?y \<le> 1" using assms l by simp_all
    have "(of_nat len :: rat) \<le> of_nat (2 ^ 40)" using assms(2) by (intro of_nat_mono) simp
    then have tiny: "(2 :: rat) / 2 ^ 53 < 1 / (100 * of_nat len)" using l by (simp add: field_simps)
    have "to_double ?x \<le> ?x + 1 / 2 ^ 53"
      using to_double_error [of ?x] unit(1) unfolding abs_le_iff by (simp add: field_simps)
    moreover have "?y - 1 / 2 ^ 53 \<le> to_double ?y"
      using to_double_error [of ?y] unit(2) unfolding abs_le_iff by (simp add: field_simps)
    ultimately show "segment_density changed len < percent p"
      using gap tiny by (simp add: d percent_def)
  qed
qed

lemma density_char_exact:
  assumes "0 < len" and "len < 2 ^ 40" and "changed \<le> len"
  shows "density_char (segment_density changed len) = density_class changed len"
proof -
  have "segment_density changed len = 0 \<longleftrightarrow> changed = 0"
  proof
    assume z: "segment_density changed len = 0"
    show "changed = 0"
    proof (rule ccontr)
      assume "changed \<noteq> 0"
      then have "0 < (of_nat changed / of_nat len :: rat)" using assms(1) by simp
      from to_double_range(1) [OF this] have "0 < to_double (of_nat changed / of_nat len)" by (rule less_le_trans [rotated]) simp
      then show False using z assms by (simp add: segment_density_def double_div_def double_of_exact)
    qed
  qed (simp add: segment_density_def double_of_def double_div_def)
  then show ?thesis unfolding density_char_def density_class_def
    using double_less_percent [OF assms, of 1] double_less_percent [OF assms, of 5] double_less_percent [OF assms, of 15]
      double_less_percent [OF assms, of 30] double_less_percent [OF assms, of 50] by simp
qed

definition density_spec :: "(nat \<Rightarrow> bool) \<Rightarrow> nat \<Rightarrow> string" where
  "density_spec B n =
     (let g = (n + 63) div 64 in
      map (\<lambda>k. density_class (card {j. j < n \<and> j div g = k \<and> B j}) (card {j. j < n \<and> j div g = k})) [0..<(n + g - 1) div g])"

lemma segment_set:
  assumes "0 < (g :: nat)"
  shows "{j. j < n \<and> j div g = k} = {k * g..<min (k * g + g) n}"
proof (rule set_eqI)
  fix j
  have "j div g = k \<longleftrightarrow> k * g \<le> j \<and> j < k * g + g"
    using div_nat_eqI [of g k j] div_times_less_eq_dividend [of j g] dividend_less_div_times [OF assms, of j] by (auto simp: ac_simps)
  then show "j \<in> {j. j < n \<and> j div g = k} \<longleftrightarrow> j \<in> {k * g..<min (k * g + g) n}" by auto
qed

lemma takeWhile_segments:
  assumes "0 < (g :: nat)" and "n \<le> 64 * g"
  shows "takeWhile (\<lambda>k. k * g < n) [0..<64] = [0..<(n + g - 1) div g]"
proof -
  define c where "c = (n + g - 1) div g"
  have iff: "k * g < n \<longleftrightarrow> k < c" for k
    using assms(1) less_eq_div_iff_mult_less_eq [of g "Suc k" "n + g - 1"] by (auto simp: c_def Suc_le_eq)
  have "c \<le> 64" using iff [of 64] assms(2) by (simp add: not_less [symmetric] ac_simps)
  then have "[0..<64] = [0..<c] @ [c..<64]" using upt_add_eq_append [of 0 c "64 - c"] by simp
  moreover have "takeWhile (\<lambda>k. k < c) [c..<64] = []" by (cases "c < 64") (simp_all add: upt_conv_Cons)
  ultimately show ?thesis unfolding iff c_def [symmetric] using takeWhile_append2 [of "[0..<c]" "\<lambda>k. k < c" "[c..<64]"] by simp
qed

lemma density_map_exact:
  assumes "n = unat totalBits" and "n < 2 ^ 40" and "n \<le> 8 * m" and "\<And>j. j < n \<Longrightarrow> msb_bit data j = B j"
  shows "density_map data totalBits m = density_spec B n"
proof -
  define g where "g = (n + 63) div 64"
  have "unat (totalBits + 63) = n + 63" using assms(1,2) by (simp add: unat_word_ariths)
  then have gw: "unat ((totalBits + 63) div 64) = g" by (simp add: unat_div g_def)
  have seg: "density_char (segment_density (segment_changed data m (k * g) (min (k * g + g) n)) (min (k * g + g) n - k * g))
      = density_class (card {j. j < n \<and> j div g = k \<and> B j}) (card {j. j < n \<and> j div g = k})" if "k * g < n" for k
  proof -
    have g: "0 < g" using that by (simp add: g_def)
    let ?e = "min (k * g + g) n"
    have "segment_changed data m (k * g) ?e = card (set (filter (\<lambda>j. j div 8 < m \<and> msb_bit data j) [k * g..<?e]))"
      unfolding segment_changed_def by (subst distinct_card) simp_all
    also have "set (filter (\<lambda>j. j div 8 < m \<and> msb_bit data j) [k * g..<?e]) = {j \<in> {k * g..<?e}. B j}"
    proof -
      have "j div 8 < m \<and> msb_bit data j \<longleftrightarrow> B j" if "j < n" for j using that assms(3) assms(4) [OF that] by (simp add: less_mult_imp_div_less)
      then show ?thesis by auto
    qed
    also have "\<dots> = {j. j < n \<and> j div g = k \<and> B j}" unfolding segment_set [OF g, of n k, symmetric] by blast
    finally have c: "segment_changed data m (k * g) ?e = card {j. j < n \<and> j div g = k \<and> B j}" .
    have l: "?e - k * g = card {j. j < n \<and> j div g = k}" unfolding segment_set [OF g] by simp
    have "card {j. j < n \<and> j div g = k \<and> B j} \<le> card {j. j < n \<and> j div g = k}" by (intro card_mono) auto
    moreover have "0 < card {j. j < n \<and> j div g = k}" using that g by (simp flip: l)
    moreover have "card {j. j < n \<and> j div g = k} < 2 ^ 40" using assms(2) by (simp flip: l) 
    ultimately show ?thesis unfolding c l by (intro density_char_exact) auto
  qed
  show ?thesis
  proof (cases "n = 0")
    case True
    then show ?thesis using assms(1) by (simp add: density_map_def density_spec_def takeWhile_eq_Nil_iff)
  next
    case False
    then have g: "0 < g" "n \<le> 64 * g" by (auto simp: g_def)
    then have "density_map data totalBits m = map (\<lambda>k. density_char (segment_density (segment_changed data m (k * g) (min (k * g + g) n))
        (min (k * g + g) n - k * g))) [0..<(n + g - 1) div g]"
      using takeWhile_segments [OF g] by (simp add: density_map_def gw Let_def flip: assms(1))
    moreover have "k * g < n" if "k \<in> set [0..<(n + g - 1) div g]" for k
      using that takeWhile_segments [OF g] set_takeWhileD [of k "\<lambda>k. k * g < n" "[0..<64]"] by simp
    ultimately show ?thesis using seg by (auto simp: density_spec_def Let_def g_def [symmetric])
  qed
qed

text \<open>
  Where the bitmap announces more bits than its bytes hold, the display never ends: the \<open>break\<close>
  leaves only the innermost of the three loops.
\<close>

lemma dump_group_stuck: "m \<le> i div 8 \<Longrightarrow> dump_group data n m b i s = Inr ([], i, s)"
  by (cases b) simp_all

lemma dump_row_stuck: "m \<le> i div 8 \<Longrightarrow> \<exists>text. dump_row data n m g i s = Inr (text, i, s)"
  by (induction g) (auto simp: dump_group_stuck)

lemma dump_loop_stuck:
  assumes "m \<le> i div 8" and "i < n"
  shows "dump_loop data n m i s rows = None"
proof (rule ccontr)
  assume "dump_loop data n m i s rows \<noteq> None"
  then obtain r where ret: "dump_loop data n m i s rows = Some r" by auto
  have "\<not> (m \<le> i div 8 \<and> i < n)"
  proof (rule dump_loop.raw_induct [where P = "\<lambda>data n m i s rows r. \<not> (m \<le> i div 8 \<and> i < n)", OF _ ret])
    fix f :: "byte list \<Rightarrow> nat \<Rightarrow> nat \<Rightarrow> nat \<Rightarrow> Scan \<Rightarrow> (nat \<times> u64 \<times> string) list \<Rightarrow> (ctl_error + (nat \<times> u64 \<times> string) list \<times> Scan) option"
      and data n m i s rows r
    assume IH: "\<And>data n m i s rows r. f data n m i s rows = Some r \<Longrightarrow> \<not> (m \<le> i div 8 \<and> i < n)"
      and eq: "(if i < n then (case dump_row data n m 8 i s of Inl err \<Rightarrow> Some (Inl err)
           | Inr (text, i', s') \<Rightarrow> f data n m i' s' (rows @ [(i, of_nat i * 1048576, text)])) else Some (Inr (rows, s))) = Some r"
    show "\<not> (m \<le> i div 8 \<and> i < n)"
    proof
      assume a: "m \<le> i div 8 \<and> i < n"
      then obtain tx where "dump_row data n m 8 i s = Inr (tx, i, s)" using dump_row_stuck by blast
      then have "f data n m i s (rows @ [(i, of_nat i * 1048576, tx)]) = Some r" using eq a by simp
      then show False using IH a by blast
    qed
  qed
  then show False using assms by simp
qed

section \<open>Properties\<close>

text \<open>
  The tool reads the driver's bitmap with the same two requests as the client.
\<close>

lemma QueryCbtData_reads:
  assumes "io_ok A (ce_io E)" and "disks_wf K d" and "FindDiskMapEntryByNumber devNo d = Some i"
    and "st = dme_CbtState (dv_DiskMap d ! i)" and "cs_Buffer st = Some buf" and "\<forall>n. ce_malloc E n"
  shows "QueryCbtData E devNo d = (d, Some (query_header (cs_TotalBits st) (ucast (cs_TotalBytes st)) @ buf))"
proof -
  define n where "n = (ucast (cs_TotalBytes st) :: u32)"
  note q = query_replies [OF assms(1-5) n_def]
  obtain r1 where r1: "ce_io E (query_request devNo 16) d = (d, r1)" "\<not> dr_ok r1" "dr_err r1 = 234"
    "dr_data r1 = query_header (cs_TotalBits st) n" using q(1) by auto
  obtain r2 where r2: "ce_io E (query_request devNo (16 + n)) d = (d, r2)" "dr_ok r2"
    "dr_data r2 = query_header (cs_TotalBits st) n @ buf" using q(2) by auto
  have m: "filled 16 (dr_data r1) = query_header (cs_TotalBits st) n" using r1(4) by (simp add: filled_def query_header_decode)
  have n16: "unat (16 + n) = 16 + unat n" using q(5) by (simp add: unat_word_ariths)
  have u: "(ucast (16 + (ucast n :: u64)) :: u32) = 16 + n"
    by (rule word_unat_eq_iff [THEN iffD2]) (use q(5) n16 in \<open>simp add: unsigned_ucast_eq take_bit_eq_mod unat_word_ariths\<close>)
  have nz: "(ucast n :: u64) \<noteq> 0" "cs_TotalBits st \<noteq> 0" using q(4,6) by (auto simp: word_unat_eq_iff)
  have f: "filled (16 + unat n) (dr_data r2) = query_header (cs_TotalBits st) n @ buf"
    using r2(3) q(3) by (simp add: filled_def query_header_decode)
  show ?thesis
    using r1 r2 m u nz n16 f assms(6) by (simp add: QueryCbtData_def Let_def query_header_decode flip: n_def)
qed


text \<open>On the three blocks of the concrete driver, with block 0 written, the display shows none changed.\<close>

definition demo_ctl :: "Driver ctl_env" where
  "demo_ctl = \<lparr> ce_open = True, ce_malloc = (\<lambda>n. True), ce_fopen = (\<lambda>name. True), ce_io = demo_io \<rparr>"

lemma demo_mirror: "j < 3 \<Longrightarrow> \<not> rtl_bit [1, 0, 0, 0] (mirror j)"
  by (auto simp: less_Suc_eq numeral_3_eq_3 rtl_bit_def mirror_def)


end
