(* ===== verification/Ctl_Text.thy ===== *)
theory Ctl_Text
  imports Cbt_Ctl
begin

text \<open>
  What \<open>cbtctl/main.cpp\<close> prints: sizes, the display of a bitmap with its statistics, the summary of a query and
  the usage. \<open>half_up\<close> is the rounding of the C runtime.
\<close>

section \<open>Sizes\<close>

text \<open>The loop of \<open>FormatByteSizeStr\<close>; \<open>u\<close> indexes the units.\<close>

function size_unit :: "rat \<Rightarrow> nat \<Rightarrow> rat \<times> nat" where
  "size_unit sz u = (if 1024 \<le> sz \<and> u < 5 then size_unit (double_div sz 1024) (u + 1) else (sz, u))"
  by pat_completeness auto

termination size_unit by (relation "measure (\<lambda>(sz, u). 5 - u)") auto

declare size_unit.simps [simp del]

definition size_units :: "string list" where
  "size_units = [''B'', ''KB'', ''MB'', ''GB'', ''TB'', ''PB'']"

text \<open>The contents of the buffer up to the terminating zero.\<close>

definition FormatByteSizeStr :: "bool \<Rightarrow> u64 \<Rightarrow> nat \<Rightarrow> byte list" where
  "FormatByteSizeStr half_up bytes bufSize =
     (if bufSize < 32 then []
      else case size_unit (double_of (unat bytes)) 0 of (sz, u) \<Rightarrow>
        take (bufSize - 1) (pad_left 32 6 (fixed_text half_up 2 sz) @ ascii '' '' @ ascii (size_units ! u)))"

definition FormatByteSizeStatic :: "bool \<Rightarrow> u64 \<Rightarrow> byte list" where
  "FormatByteSizeStatic half_up bytes = FormatByteSizeStr half_up bytes 32"

section \<open>The display\<close>

definition ascii_line :: "string \<Rightarrow> byte list" where
  "ascii_line s = ascii s @ [10]"

definition ruler :: "byte list" where
  "ruler = replicate 80 61 @ [10]"

definition dump_header :: "bool \<Rightarrow> u64 \<Rightarrow> u64 \<Rightarrow> byte list" where
  "dump_header half_up totalBits totalBytes =
     ruler @ ascii_line ''                    CBT BITMAP VISUALIZATION - Disk Report'' @ ruler @ [10]
     @ ascii ''  Total bits (blocks): '' @ decimal (unat totalBits) @ [10]
     @ ascii_line ''  Block size:          1024 KB (1048576 bytes)''
     @ ascii ''  Bitmap data size:    '' @ decimal (unat totalBytes) @ ascii_line '' bytes''
     @ ascii ''  Disk approx size:    '' @ FormatByteSizeStatic half_up (totalBits * 1048576) @ [10] @ [10]
     @ ascii_line ''  Legend: '0' = unchanged    '*' = changed''
     @ ascii_line ''  Each row = 64 blocks (65536 KB)''
     @ ascii_line ''  Each group of 8 chars = 8 blocks (8 KB for 1MB block size)'' @ [10]"

definition row_text :: "nat \<times> u64 \<times> string \<Rightarrow> byte list" where
  "row_text row =
     (case row of (b, off, cs) \<Rightarrow>
        ascii ''  ['' @ pad_left 48 10 (decimal b) @ ascii ''] 0x'' @ pad_left 48 16 (hexadecimal False (unat off)) @ ascii '': ''
        @ ascii cs @ [10])"

text \<open>\<open>changePct\<close>, and the share of the unchanged blocks.\<close>

definition change_percent :: "nat \<Rightarrow> nat \<Rightarrow> rat" where
  "change_percent changed n = (if 0 < n then double_mult (double_div (double_of changed) (double_of n)) 100 else 0)"

definition summary_text :: "bool \<Rightarrow> u64 \<Rightarrow> Report \<Rightarrow> byte list" where
  "summary_text half_up totalBits r =
     (let n = decimal (unat totalBits); pct = change_percent (rp_changed r) (unat totalBits) in
      [10] @ ruler @ ascii_line ''                              SUMMARY STATISTICS'' @ ruler @ [10]
      @ ascii ''  Changed Blocks:       '' @ pad_left 32 12 (decimal (rp_changed r)) @ ascii ''  / '' @ n @ ascii ''  ('' @ fixed_text half_up 4 pct @ ascii_line ''%)''
      @ ascii ''  Unchanged Blocks:     '' @ pad_left 32 12 (decimal (unat (totalBits - of_nat (rp_changed r)))) @ ascii ''  / '' @ n
      @ ascii ''  ('' @ fixed_text half_up 4 (to_double (100 - pct)) @ ascii_line ''%)''
      @ ascii ''  Changed Data Size:    '' @ pad_right 20 (FormatByteSizeStr half_up (of_nat (rp_changed r) * 1048576) 32) @ [10]
      @ ascii ''  Changed Range Count:  '' @ pad_left 32 12 (decimal (rp_ranges r)) @ ascii_line ''  contiguous region(s)''
      @ (if 0 < rp_ranges r
         then ascii ''  Max Contiguous Run:   '' @ pad_right 20 (FormatByteSizeStr half_up (of_nat (rp_maxRun r) * 1048576) 32)
           @ ascii ''  ('' @ decimal (rp_maxRun r) @ ascii_line '' blocks)''
           @ ascii ''  Avg Run Length:       '' @ fixed_text half_up 2 (double_div (double_of (rp_changed r)) (double_of (rp_ranges r))) @ ascii_line '' blocks''
         else ascii_line ''  Max Contiguous Run:   N/A (no changes)'')
      @ [10] @ ascii ''  Total Rows Printed:    '' @ decimal (unat ((totalBits + 63) div 64)) @ ascii_line ''  (each row = 64 blocks)'' @ ruler)"

definition density_text :: "Report \<Rightarrow> byte list" where
  "density_text r =
     [10] @ ascii_line ''  CHANGE DENSITY MAP (64 segments, each = 1.5625% of disk):'' @ ascii ''  '' @ ascii (rp_density r) @ [10]
     @ ascii_line ''  ++++++++'' @ ascii_line ''  Legend: .=<1%  :=<5%  o=<15%  O=<30%  #=<50%  @=>50%'' @ [10]"

definition dump_text :: "bool \<Rightarrow> byte list \<Rightarrow> Report \<Rightarrow> byte list" where
  "dump_text half_up output r =
     (let totalBits = (le_word (take 8 output) :: u64); totalBytes = (le_word (segment 8 8 output) :: u64) in
      dump_header half_up totalBits totalBytes @ concat (map row_text (rp_rows r)) @ summary_text half_up totalBits r @ density_text r)"

section \<open>Commands\<close>

definition PrintUsage :: "byte list \<Rightarrow> byte list" where
  "PrintUsage prog =
     ascii_line ''go2cbt CBT Control Tool'' @ [10] @ ascii_line ''Usage:''
     @ ascii ''  '' @ prog @ ascii_line '' query  <diskno>              Query CBT bitmap summary''
     @ ascii ''  '' @ prog @ ascii_line '' reset  <diskno>              Reset CBT bitmap (new snapshot cycle)''
     @ ascii ''  '' @ prog @ ascii_line '' dump   <diskno> [outfile.txt] Visualize bitmap as ASCII art'' @ [10]
     @ ascii_line ''Examples:''
     @ ascii ''  '' @ prog @ ascii_line '' query  0                     Show Harddisk0 CBT status''
     @ ascii ''  '' @ prog @ ascii_line '' reset  0                     Reset Harddisk0 after backup''
     @ ascii ''  '' @ prog @ ascii_line '' dump   0                     Print bitmap to screen''
     @ ascii ''  '' @ prog @ ascii_line '' dump   0 changes.txt         Save to file''"

text \<open>The text of a query; without data there is only a note.\<close>

definition query_text :: "bool \<Rightarrow> u32 \<Rightarrow> ctl_output \<Rightarrow> byte list" where
  "query_text half_up diskNo r =
     (case r of
        Summary totalBits totalBytes quickChanged scanBits \<Rightarrow>
          ascii ''=== Disk'' @ decimal (unat diskNo) @ ascii_line '' CBT Summary ===''
          @ ascii ''  Total Bits (blocks):  '' @ decimal (unat totalBits) @ [10]
          @ ascii ''  Bitmap Bytes:         '' @ decimal (unat totalBytes) @ [10]
          @ ascii_line ''  Block Size:            1024 KB''
          @ ascii ''  Disk Approx Size:      '' @ FormatByteSizeStatic half_up (totalBits * 1048576) @ [10]
          @ ascii ''  Est. Change Rate:      '' @ fixed_text half_up 2 (change_percent quickChanged scanBits)
          @ ascii ''% (sampled first '' @ decimal scanBits @ ascii_line '' blocks)''
          @ [10] @ ascii_line ''Use 'dump' command for full visualization and exact statistics.''
      | NoData \<Rightarrow> ascii ''Disk'' @ decimal (unat diskNo) @ ascii_line '': No CBT data available.''
      | _ \<Rightarrow> [])"

section \<open>Properties\<close>

text \<open>Every division of the loop is exact, and the unit fits the size.\<close>

lemma size_unit_value:
  assumes "representable sz" and "size_unit sz u = (sz', u')" and "u \<le> 5"
  shows "sz = sz' * 1024 ^ (u' - u) \<and> u \<le> u' \<and> u' \<le> 5 \<and> (u' < 5 \<longrightarrow> sz' < 1024) \<and> (u < u' \<longrightarrow> 1 \<le> sz')"
  using assms
proof (induction sz u arbitrary: sz' u' rule: size_unit.induct)
  case (1 sz u)
  show ?case
  proof (cases "1024 \<le> sz \<and> u < 5")
    case True
    have d: "double_div sz 1024 = sz / 1024" using double_div_scale [OF "1.prems"(1), of 10] by simp
    have rep: "representable (sz / 1024)" using representable_div [OF "1.prems"(1), of 10] by simp
    have eq: "size_unit (sz / 1024) (u + 1) = (sz', u')" using "1.prems"(2) True unfolding size_unit.simps [of sz u] d by simp
    note IH = "1.IH" [OF True, unfolded d, OF rep eq]
    then have ih: "sz / 1024 = sz' * 1024 ^ (u' - (u + 1))" "u + 1 \<le> u'" "u' \<le> 5" "u' < 5 \<longrightarrow> sz' < 1024" "u + 1 < u' \<longrightarrow> 1 \<le> sz'"
      using True by auto
    have "u' - u = Suc (u' - (u + 1))" using ih(2) by simp
    then have "sz = sz' * 1024 ^ (u' - u)" using ih(1) by (simp add: field_simps)
    moreover have "1 \<le> sz'" using ih(5) ih(1,2) True by (cases "u' = u + 1") auto
    ultimately show ?thesis using ih by simp
  next
    case False
    then show ?thesis using "1.prems" unfolding size_unit.simps [of sz u] by auto
  qed
qed

text \<open>The value printed is within half a hundredth of its unit, for sizes that fit in 53 bits.\<close>

definition size_value :: "u64 \<Rightarrow> rat \<times> nat" where
  "size_value bytes = size_unit (double_of (unat bytes)) 0"

lemma size_value_exact:
  assumes "unat bytes < 2 ^ 53" and "size_value bytes = (sz, u)"
  shows "sz * 1024 ^ u = of_nat (unat bytes)" and "u \<le> 5" and "u < 5 \<Longrightarrow> sz < 1024" and "0 < u \<Longrightarrow> 1 \<le> sz"
    and "\<bar>shown (fixed_text half_up 2 sz) * 1024 ^ u - of_nat (unat bytes)\<bar> \<le> 1024 ^ u / 200"
proof -
  have "representable (double_of (unat bytes))" by (simp add: double_of_def representable_to_double)
  from size_unit_value [OF this assms(2) [unfolded size_value_def]] double_of_exact [OF assms(1)]
  show v: "sz * 1024 ^ u = of_nat (unat bytes)" "u \<le> 5" "u < 5 \<Longrightarrow> sz < 1024" "0 < u \<Longrightarrow> 1 \<le> sz" by simp_all
  have "0 \<le> sz * 1024 ^ u" unfolding v(1) by (rule of_nat_0_le_iff)
  then have nn: "0 \<le> sz" using zero_less_power [of "1024 :: rat" u] by (simp add: zero_le_mult_iff not_le [symmetric])
  have "shown (fixed_text half_up 2 sz) * 1024 ^ u - of_nat (unat bytes) = (shown (fixed_text half_up 2 sz) - sz) * 1024 ^ u"
    by (simp add: left_diff_distrib v(1))
  then have "\<bar>shown (fixed_text half_up 2 sz) * 1024 ^ u - of_nat (unat bytes)\<bar> = \<bar>shown (fixed_text half_up 2 sz) - sz\<bar> * 1024 ^ u"
    by (simp add: abs_mult)
  also have "\<dots> \<le> 1 / 200 * 1024 ^ u" using shown_error [OF nn, of 2 half_up] by (intro mult_right_mono) simp_all
  finally show "\<bar>shown (fixed_text half_up 2 sz) * 1024 ^ u - of_nat (unat bytes)\<bar> \<le> 1024 ^ u / 200" by simp
qed

text \<open>The share printed is within \<open>0.0001\<close> of the true one; the two shares never leave the range from 0 to 100.\<close>

lemma change_percent_exact:
  assumes "changed \<le> n" and "0 < n" and "n < 2 ^ 53"
  shows "change_percent changed n \<le> 100" and "\<bar>change_percent changed n - 100 * of_nat changed / of_nat n\<bar> \<le> 200 / 2 ^ 53"
proof -
  let ?x = "of_nat changed / of_nat n :: rat"
  have p: "change_percent changed n = to_double (to_double ?x * 100)"
    using assms by (simp add: change_percent_def double_div_def double_mult_def double_of_exact)
  have x: "0 \<le> ?x" "?x \<le> 1" using assms by simp_all
  have one: "to_double 1 = 1" "to_double 100 = 100" using to_double_int [of 1] to_double_int [of 100] by simp_all
  have y: "to_double ?x \<le> 1" using to_double_mono [OF x(2)] one by simp
  then have "to_double ?x * 100 \<le> 100" by simp
  from to_double_mono [OF this] show "change_percent changed n \<le> 100" by (simp add: p one)
  have "\<bar>to_double ?x - ?x\<bar> \<le> 1 / 2 ^ 53" using to_double_error [OF x(1)] x(2) by (simp add: field_simps)
  moreover have "\<bar>to_double (to_double ?x * 100) - to_double ?x * 100\<bar> \<le> to_double ?x * 100 / 2 ^ 53" by (intro to_double_error) simp
  moreover have "to_double ?x * 100 / 2 ^ 53 \<le> 100 / 2 ^ 53" using y by simp
  ultimately show "\<bar>change_percent changed n - 100 * of_nat changed / of_nat n\<bar> \<le> 200 / 2 ^ 53"
    unfolding p abs_le_iff by simp
qed

lemma change_percent_shown:
  assumes "changed \<le> n" and "0 < n" and "n < 2 ^ 53"
  shows "\<bar>shown (fixed_text half_up 4 (change_percent changed n)) - 100 * of_nat changed / of_nat n\<bar> \<le> 1 / 10000"
proof -
  have "0 \<le> change_percent changed n" by (simp add: change_percent_def double_mult_def)
  from shown_error [OF this, of 4 half_up] change_percent_exact(2) [OF assms] show ?thesis unfolding abs_le_iff by simp
qed

text \<open>No text is cut off by the buffer of 32 bytes.\<close>

lemma FormatByteSizeStr_fits:
  assumes "size_value bytes = (sz, u)"
  shows "FormatByteSizeStr half_up bytes 32 = pad_left 32 6 (fixed_text half_up 2 sz) @ ascii '' '' @ ascii (size_units ! u)"
proof -
  have "representable (double_of (unat bytes))" by (simp add: double_of_def representable_to_double)
  from size_unit_value [OF this assms [unfolded size_value_def]]
  have v: "sz * 1024 ^ u = double_of (unat bytes)" "u \<le> 5" "u < 5 \<longrightarrow> sz < 1024" by auto
  have "(0 :: rat) < 1024 ^ u" by simp
  then have nn: "0 \<le> sz" using v(1) to_double_nonneg [of "of_nat (unat bytes)"] unfolding double_of_def by (metis zero_le_mult_iff not_le)
  have "unat bytes \<le> 2 ^ 64" using unsigned_less [of bytes, where 'a = nat] by simp
  then have "(of_nat (unat bytes) :: rat) \<le> of_nat (2 ^ 64)" by (rule of_nat_mono)
  then have "double_of (unat bytes) \<le> to_double (of_int 1 * 2 powi 64)" unfolding double_of_def by (intro to_double_mono) simp
  then have "double_of (unat bytes) \<le> 2 ^ 64" using to_double_exact [of 1 64] by simp
  then have "sz \<le> 16384" if "u = 5" using v(1) that by simp
  then have "sz < 10 ^ Suc 4 - 1" using v(2,3) by (cases "u = 5") auto
  from fixed_length [OF nn this, of 2 half_up] have "length (fixed_text half_up 2 sz) \<le> 8" by simp
  moreover have "length (size_units ! u) \<le> 2" using v(2) by (auto simp: size_units_def le_Suc_eq numeral_eq_Suc)
  ultimately show ?thesis using assms by (simp add: FormatByteSizeStr_def size_value_def pad_left_def ascii_def)
qed

text \<open>One and a half gigabytes.\<close>

lemma FormatByteSizeStr_demo: "FormatByteSizeStr half_up 1610612736 32 = ascii ''  1.50 GB''"
proof -
  have d: "double_div 1610612736 1024 = 1572864" "double_div 1572864 1024 = 1536" "double_div 1536 1024 = 3 / 2"
    unfolding double_div_def by code_simp+
  have "size_value 1610612736 = (3 / 2, 3)"
    using double_of_exact [of 1610612736] by (simp add: size_value_def size_unit.simps d)
  moreover have "fixed_text True 2 (3 / 2) = ascii ''1.50''" "fixed_text False 2 (3 / 2) = ascii ''1.50''" by code_simp+
  then have "fixed_text half_up 2 (3 / 2) = ascii ''1.50''" by (cases half_up) simp_all
  moreover have "pad_left 32 6 (ascii ''1.50'') @ ascii '' '' @ ascii (size_units ! 3) = ascii ''  1.50 GB''" by code_simp
  ultimately show ?thesis by (simp only: FormatByteSizeStr_fits)
qed

text \<open>The block number, the offset and the cells can be read off a row.\<close>

lemma row_text_readable:
  assumes "b < 10 ^ 10"
  shows "decimal_value (take 10 (drop 3 (row_text (b, off, cs)))) = b"
    and "hex_value (take 16 (drop 17 (row_text (b, off, cs)))) = unat off"
    and "drop 35 (row_text (b, off, cs)) = ascii cs @ [10]"
proof -
  define x where "x = pad_left 48 10 (decimal b)"
  define y where "y = pad_left 48 16 (hexadecimal False (unat off))"
  have x: "length x = 10" "decimal_value x = b" unfolding x_def using pad_left_decimal [of b 10] assms by simp_all
  have z: "hex_value (replicate k 48 @ u) = hex_value u" for k u
  proof -
    have "hex_value (replicate k 48) = 0" by (induction k) (simp_all add: hex_value_def hex_char_value_def is_digit_def)
    then show ?thesis by (simp add: hex_value_def)
  qed
  have "length (hexadecimal False (unat off)) \<le> Suc 15" using unsigned_less [of off, where 'a = nat] by (intro hexadecimal_length) simp
  then have y: "length y = 16" "hex_value y = unat off" by (simp_all add: y_def pad_left_def z hex_value_hexadecimal)
  have r: "row_text (b, off, cs) = ascii ''  ['' @ x @ ascii ''] 0x'' @ y @ ascii '': '' @ ascii cs @ [10]"
    by (simp add: row_text_def x_def y_def)
  show "decimal_value (take 10 (drop 3 (row_text (b, off, cs)))) = b" "hex_value (take 16 (drop 17 (row_text (b, off, cs)))) = unat off"
    "drop 35 (row_text (b, off, cs)) = ascii cs @ [10]"
    unfolding r using x y by (simp_all add: ascii_def)
qed

end
