(* ===== verification/Loggers.thy ===== *)
theory Loggers
  imports C_Text
begin

text \<open>
  The loggers of client and server, \<open>client/Logger.{h,cpp}\<close> and \<open>server/Logger.{h,cpp}\<close>, with the
  texts they append to their streams, and the conversions of times, hashes and version types to text. The
  clock and the thread number are parameters.
\<close>

section \<open>The client's log\<close>

datatype LogLevel = LogDebug | LogInfo | LogWarning | LogError

definition level_num :: "LogLevel \<Rightarrow> nat" where
  "level_num l = (case l of LogDebug \<Rightarrow> 0 | LogInfo \<Rightarrow> 1 | LogWarning \<Rightarrow> 2 | LogError \<Rightarrow> 3)"

text \<open>The streams with their contents and whether they are in a failed state.\<close>

record Logger =
  lg_open :: bool
  lg_fail :: bool
  lg_file :: wstring
  lg_console :: bool
  lg_minLevel :: LogLevel
  lg_initialized :: bool
  lg_out :: wstring
  lg_outFail :: bool

definition Logger_new :: Logger where
  "Logger_new = \<lparr> lg_open = False, lg_fail = False, lg_file = [], lg_console = False, lg_minLevel = LogDebug, lg_initialized = False,
     lg_out = [], lg_outFail = False \<rparr>"

definition LevelToString :: "LogLevel \<Rightarrow> wstring" where
  "LevelToString l = wlit (case l of LogDebug \<Rightarrow> ''DEBUG'' | LogInfo \<Rightarrow> ''INFO '' | LogWarning \<Rightarrow> ''WARN '' | LogError \<Rightarrow> ''ERROR'')"

record SYSTEMTIME =
  wYear :: u16
  wMonth :: u16
  wDay :: u16
  wHour :: u16
  wMinute :: u16
  wSecond :: u16

text \<open>\<open>%0wd\<close>.\<close>

definition padded :: "nat \<Rightarrow> u16 \<Rightarrow> byte list" where
  "padded w n = replicate (w - length (decimal (unat n))) 48 @ decimal (unat n)"

definition time_text :: "SYSTEMTIME \<Rightarrow> byte list" where
  "time_text t = padded 4 (wYear t) @ [45] @ padded 2 (wMonth t) @ [45] @ padded 2 (wDay t) @ [32]
     @ padded 2 (wHour t) @ [58] @ padded 2 (wMinute t) @ [58] @ padded 2 (wSecond t)"

definition GetTimeString :: "SYSTEMTIME \<Rightarrow> wstring" where
  "GetTimeString t = map ucast (time_text t)"

text \<open>
  The file is opened for appending; \<open>openable\<close> says whether that works. Opening a stream that is open fails
  and leaves it open, opening it successfully clears its state.
\<close>

definition Initialize_log :: "bool \<Rightarrow> bool \<Rightarrow> Logger \<Rightarrow> Logger \<times> bool" where
  "Initialize_log openable console g =
     (let success = openable \<and> \<not> lg_open g;
          g1 = g\<lparr> lg_console := console, lg_open := lg_open g \<or> success, lg_fail := \<not> success \<rparr>
      in if \<not> lg_open g1 then (g1, False) else (g1\<lparr> lg_initialized := True \<rparr>, True))"

definition log_text :: "SYSTEMTIME \<Rightarrow> LogLevel \<Rightarrow> wstring \<Rightarrow> wstring" where
  "log_text now level message = wlit ''['' @ GetTimeString now @ wlit '']'' @ wlit ''['' @ LevelToString level @ wlit ''] '' @ message"

text \<open>
  The console takes the characters its locale can represent (\<open>enc\<close>); at the first other one the stream fails, and
  nothing resets it. The file converts every 16-bit character to UTF-8; a write to a failed stream has
  no effect but to reset it.
\<close>

definition write_console :: "(u16 \<Rightarrow> bool) \<Rightarrow> wstring \<Rightarrow> Logger \<Rightarrow> Logger" where
  "write_console enc line g =
     (if lg_outFail g then g else g\<lparr> lg_out := lg_out g @ takeWhile enc line, lg_outFail := (\<exists>c \<in> set line. \<not> enc c) \<rparr>)"

definition Write_log :: "(u16 \<Rightarrow> bool) \<Rightarrow> SYSTEMTIME \<Rightarrow> LogLevel \<Rightarrow> wstring \<Rightarrow> Logger \<Rightarrow> Logger" where
  "Write_log enc now level message g =
     (if level_num level < level_num (lg_minLevel g) then g
      else if \<not> lg_initialized g then g
      else
        let line = log_text now level message @ [10];
            g1 = (if lg_console g then write_console enc line g else g)
        in if \<not> lg_open g1 then g1
           else if lg_fail g1 then g1\<lparr> lg_fail := False \<rparr>
           else g1\<lparr> lg_file := lg_file g1 @ line \<rparr>)"

definition SetMinLevel :: "LogLevel \<Rightarrow> Logger \<Rightarrow> Logger" where
  "SetMinLevel level g = g\<lparr> lg_minLevel := level \<rparr>"

definition Shutdown_log :: "Logger \<Rightarrow> Logger" where
  "Shutdown_log g = g\<lparr> lg_open := False, lg_initialized := False \<rparr>"

text \<open>
  The file holds the messages of sufficient level in the order written, one line each; what is
  written before \<open>Initialize\<close> or after \<open>Shutdown\<close> is nowhere.
\<close>

lemma write_console_fields:
  "lg_open (write_console enc line g) = lg_open g" "lg_fail (write_console enc line g) = lg_fail g"
  "lg_file (write_console enc line g) = lg_file g" "lg_minLevel (write_console enc line g) = lg_minLevel g"
  "lg_initialized (write_console enc line g) = lg_initialized g"
  by (simp_all add: write_console_def)

lemma log_file_exact:
  assumes "lg_initialized g" and "lg_open g" and "\<not> lg_fail g"
  shows "lg_file (fold (\<lambda>(now, l, t). Write_log enc now l t) ms g) =
     lg_file g @ concat (map (\<lambda>(now, l, t). log_text now l t @ [10]) (filter (\<lambda>(now, l, t). level_num (lg_minLevel g) \<le> level_num l) ms))"
  using assms
proof (induction ms arbitrary: g)
  case (Cons x ms)
  obtain now l t where x: "x = (now, l, t)" by (cases x)
  define g1 where "g1 = Write_log enc now l t g"
  have g1: "lg_initialized g1" "lg_open g1" "\<not> lg_fail g1" "lg_minLevel g1 = lg_minLevel g"
    "lg_file g1 = lg_file g @ (if level_num (lg_minLevel g) \<le> level_num l then log_text now l t @ [10] else [])"
    using Cons.prems by (simp_all add: g1_def Write_log_def Let_def write_console_fields)
  then show ?case using Cons.IH [OF g1(1-3)] by (simp add: x g1_def)
qed simp

lemma log_after_shutdown: "Write_log enc now l t (Shutdown_log g) = Shutdown_log g"
  by (simp add: Write_log_def Shutdown_log_def)

lemma fresh_log: "Initialize_log True c Logger_new = (g, ok) \<Longrightarrow> ok \<and> lg_initialized g \<and> lg_open g \<and> \<not> lg_fail g"
  by (auto simp: Initialize_log_def Logger_new_def Let_def)

text \<open>After a message with a character the console cannot show, the console stays silent.\<close>

lemma console_silenced:
  assumes "lg_outFail g"
  shows "lg_out (fold (\<lambda>(now, l, t). Write_log enc now l t) ms g) = lg_out g"
  using assms
proof (induction ms arbitrary: g)
  case (Cons x ms)
  obtain now l t where x: "x = (now, l, t)" by (cases x)
  have "lg_outFail (Write_log enc now l t g)" "lg_out (Write_log enc now l t g) = lg_out g"
    using Cons.prems by (simp_all add: Write_log_def write_console_def Let_def)
  then show ?case using Cons.IH by (simp add: x)
qed simp

text \<open>The text of a time has a fixed form, from which the time can be read back.\<close>

lemma length_decimal: "n < 10 ^ w \<Longrightarrow> 0 < w \<Longrightarrow> length (decimal n) \<le> w"
proof (induction w arbitrary: n)
  case (Suc w)
  show ?case
  proof (cases "n < 10")
    case True
    then show ?thesis by (subst decimal.simps) simp
  next
    case False
    then have "w \<noteq> 0" using Suc.prems by (cases w) auto
    moreover have "n div 10 < 10 ^ w" using Suc.prems by (simp add: less_mult_imp_div_less mult.commute)
    ultimately show ?thesis using Suc.IH [of "n div 10"] False by (subst decimal.simps) simp
  qed
qed simp

lemma padded_value: "decimal_value (padded w n) = unat n"
proof -
  have "decimal_value (replicate k 48 @ ds) = decimal_value ds" for k ds
    by (induction k) (simp_all add: decimal_value_def)
  then show ?thesis by (simp add: padded_def)
qed

lemma length_padded: "unat n < 10 ^ w \<Longrightarrow> 0 < w \<Longrightarrow> length (padded w n) = w"
  using length_decimal [of "unat n" w] by (simp add: padded_def)

lemma padded_inj: "padded w m = padded w n \<longleftrightarrow> m = n"
  by (metis padded_value word_unat_eq_iff)

definition time_ok :: "SYSTEMTIME \<Rightarrow> bool" where
  "time_ok t \<longleftrightarrow> unat (wYear t) < 10 ^ 4 \<and> (\<forall>f \<in> {wMonth, wDay, wHour, wMinute, wSecond}. unat (f t) < 10 ^ 2)"

lemma time_text_inj:
  assumes "time_ok s" and "time_ok t"
  shows "GetTimeString s = GetTimeString t \<longleftrightarrow> s = t"
proof -
  have "(ucast a :: u16) = ucast b \<longleftrightarrow> a = b" for a b :: byte
  proof
    assume "(ucast a :: u16) = ucast b"
    moreover have "unat (ucast c :: u16) = unat c" for c :: byte
      using unsigned_less [of c, where 'a = nat] by (simp add: unsigned_ucast_eq take_bit_eq_mod)
    ultimately show "a = b" by (metis word_unat_eq_iff)
  qed simp
  then have "inj (ucast :: byte \<Rightarrow> u16)" by (simp add: inj_def)
  then have "GetTimeString s = GetTimeString t \<longleftrightarrow> time_text s = time_text t" by (simp add: GetTimeString_def inj_map_eq_map)
  also have "\<dots> \<longleftrightarrow> s = t" using assms
    by (cases s, cases t) (simp add: time_text_def time_ok_def length_padded padded_inj)
  finally show ?thesis .
qed

section \<open>The server's log\<close>

definition LevelTag :: "LogLevel \<Rightarrow> string" where
  "LevelTag l = (case l of LogDebug \<Rightarrow> ''DEBUG'' | LogInfo \<Rightarrow> ''INFO '' | LogWarning \<Rightarrow> ''WARN '' | LogError \<Rightarrow> ''ERROR'')"

record server_log =
  sl_minLevel :: LogLevel
  sl_stream :: string

definition server_log_new :: server_log where
  "server_log_new = \<lparr> sl_minLevel = LogInfo, sl_stream = [] \<rparr>"

definition SetLevel :: "LogLevel \<Rightarrow> server_log \<Rightarrow> server_log" where
  "SetLevel minLevel g = g\<lparr> sl_minLevel := minLevel \<rparr>"

text \<open>\<open>message\<close> is the text \<open>vsnprintf\<close> would give without limit; the buffer takes 1023 characters.\<close>

definition LogRaw :: "string \<Rightarrow> string \<Rightarrow> LogLevel \<Rightarrow> string \<Rightarrow> server_log \<Rightarrow> server_log" where
  "LogRaw now tid level message g =
     (if level_num level < level_num (sl_minLevel g) then g
      else g\<lparr> sl_stream := sl_stream g @ ''['' @ now @ ''] ['' @ LevelTag level @ ''] [tid='' @ tid @ ''] '' @ take 1023 message @ [CHR 0x0A] \<rparr>)"

section \<open>Hashes\<close>

definition kHex :: string where
  "kHex = ''0123456789abcdef''"

definition HashToHex :: "byte list \<Rightarrow> string" where
  "HashToHex hash = concat (map (\<lambda>b. [kHex ! unat (drop_bit 4 b AND 0xF), kHex ! unat (b AND 0xF)]) hash)"

text \<open>Two hashes have the same text only if they are equal, so that the logs identify blocks.\<close>

lemma kHex_inj: "i < 16 \<Longrightarrow> j < 16 \<Longrightarrow> kHex ! i = kHex ! j \<longleftrightarrow> i = j"
proof -
  have "distinct kHex" "length kHex = 16" by (simp_all add: kHex_def)
  then show "i < 16 \<Longrightarrow> j < 16 \<Longrightarrow> kHex ! i = kHex ! j \<longleftrightarrow> i = j" by (simp add: nth_eq_iff_index_eq)
qed

lemma nibble_less: "unat (b AND 0xF :: byte) < 16"
proof -
  have "b AND 0xF = take_bit 4 b" by (simp add: take_bit_eq_mask mask_eq_exp_minus_1)
  then have "unat (b AND 0xF) = take_bit 4 (unat b)" by (simp only: unsigned_take_bit_eq)
  then show ?thesis by (simp add: take_bit_eq_mod)
qed

lemma nibbles_eq:
  assumes "drop_bit 4 a AND 0xF = drop_bit 4 b AND (0xF :: byte)" and "a AND 0xF = b AND 0xF"
  shows "a = b"
proof (rule bit_word_eqI)
  fix n assume "n < LENGTH(8)"
  then have n: "n < 8" by simp
  have m: "bit (0xF :: byte) k" if "k < 4" for k using that by (auto simp: less_Suc_eq numeral_eq_Suc)
  show "bit a n = bit b n"
  proof (cases "n < 4")
    case True
    then show ?thesis using arg_cong [OF assms(2), of "\<lambda>w. bit w n"] m [OF True] by (simp add: bit_and_iff)
  next
    case False
    then have "n - 4 < 4" using n by simp
    then show ?thesis using arg_cong [OF assms(1), of "\<lambda>w. bit w (n - 4)"] m [of "n - 4"] False
      by (simp add: bit_and_iff bit_drop_bit_eq)
  qed
qed

lemma HashToHex_inj: "HashToHex a = HashToHex b \<longleftrightarrow> a = b"
proof (induction a arbitrary: b)
  case Nil
  then show ?case by (cases b) (simp_all add: HashToHex_def)
next
  case (Cons x a)
  show ?case
  proof (cases b)
    case (Cons y b')
    have "HashToHex (x # a) = HashToHex (y # b') \<longleftrightarrow>
       drop_bit 4 x AND 0xF = drop_bit 4 y AND 0xF \<and> x AND 0xF = y AND 0xF \<and> HashToHex a = HashToHex b'"
      by (simp add: HashToHex_def kHex_inj nibble_less word_unat_eq_iff)
    then show ?thesis using Cons Cons.IH [of b'] nibbles_eq [of x y] by auto
  qed (simp add: HashToHex_def)
qed

lemma length_HashToHex: "length (HashToHex hash) = 2 * length hash"
  by (induction hash) (simp_all add: HashToHex_def)

section \<open>Version types\<close>

definition utf8_char :: "u16 \<Rightarrow> byte list" where
  "utf8_char cp =
     (if cp < 0x80 then [ucast cp]
      else if cp < 0x800 then [0xC0 OR ucast (drop_bit 6 cp), 0x80 OR ucast (cp AND 0x3F)]
      else [0xE0 OR ucast (drop_bit 12 cp), 0x80 OR ucast (drop_bit 6 cp AND 0x3F), 0x80 OR ucast (cp AND 0x3F)])"

definition Utf16leToUtf8 :: "u16 list \<Rightarrow> byte list" where
  "Utf16leToUtf8 data = concat (map utf8_char (takeWhile (\<lambda>cp. cp \<noteq> 0) data))"

text \<open>Texts of the basic plane are encoded as UTF-8 prescribes: decoding gives the text up to its terminator.\<close>

fun utf8_decode :: "byte list \<Rightarrow> u16 list" where
  "utf8_decode [] = []"
| "utf8_decode (b # bs) =
     (if b < 0x80 then ucast b # utf8_decode bs
      else if b < 0xE0 then
        (case bs of c # cs \<Rightarrow> (push_bit 6 (ucast b AND 0x1F) OR (ucast c AND 0x3F)) # utf8_decode cs | _ \<Rightarrow> [])
      else
        (case bs of c # d # ds \<Rightarrow> (push_bit 12 (ucast b AND 0xF) OR push_bit 6 (ucast c AND 0x3F) OR (ucast d AND 0x3F)) # utf8_decode ds | _ \<Rightarrow> []))"

lemma and_masks: "w AND 0x3F = take_bit 6 w" "w AND 0x1F = take_bit 5 w" "w AND 0xF = take_bit 4 (w :: 'a::len word)"
  by (simp_all add: take_bit_eq_mask mask_eq_exp_minus_1)

text \<open>The payload of a byte with a prefix above it.\<close>

lemma payload:
  assumes "take_bit k (prefix :: byte) = 0" and "k \<le> 8"
  shows "take_bit k (ucast (prefix OR ucast x) :: u16) = take_bit k (x :: u16)"
proof -
  have "take_bit k (ucast (prefix OR ucast x) :: u16) = ucast (take_bit k prefix OR take_bit k (ucast x :: byte))"
    by (simp only: unsigned_take_bit_eq [symmetric] take_bit_or)
  also have "\<dots> = (ucast (take_bit k (ucast x :: byte)) :: u16)" by (simp only: assms(1) or.left_neutral)
  also have "\<dots> = take_bit k x"
    by (rule bit_word_eqI) (use assms(2) in \<open>auto simp: bit_unsigned_iff bit_take_bit_iff\<close>)
  finally show ?thesis .
qed

lemma recombine: "push_bit k (drop_bit k x) OR take_bit k x = (x :: u16)"
  by (rule bit_word_eqI) (auto simp: bit_or_iff bit_push_bit_iff bit_drop_bit_eq bit_take_bit_iff)

lemma drop_less: "unat cp < 2 ^ k * 2 ^ l \<Longrightarrow> unat (drop_bit k (cp :: u16)) < 2 ^ l"
  by (subst unat_drop_bit_eq) (simp add: drop_bit_eq_div less_mult_imp_div_less mult.commute)

lemma utf8_two:
  assumes "unat (cp :: u16) < 2 ^ 11"
  shows "push_bit 6 (ucast (0xC0 OR ucast (drop_bit 6 cp) :: byte) AND 0x1F) OR (ucast (0x80 OR ucast (cp AND 0x3F) :: byte) AND 0x3F) = cp"
proof -
  have "unat (drop_bit 6 cp) < 2 ^ 5" by (rule drop_less) (use assms in simp)
  then have "take_bit 5 (drop_bit 6 cp) = drop_bit 6 cp"
    by (simp only: word_unat_eq_iff unsigned_take_bit_eq take_bit_nat_eq_self_iff)
  then show ?thesis using recombine [of 6 cp] by (simp add: and_masks payload)
qed

lemma utf8_three:
  "push_bit 12 (ucast (0xE0 OR ucast (drop_bit 12 cp) :: byte) AND 0xF) OR push_bit 6 (ucast (0x80 OR ucast (drop_bit 6 cp AND 0x3F) :: byte) AND 0x3F)
     OR (ucast (0x80 OR ucast (cp AND 0x3F) :: byte) AND 0x3F) = (cp :: u16)"
proof -
  have "unat (drop_bit 12 cp) < 2 ^ 4" by (rule drop_less) (use unsigned_less [of cp, where 'a = nat] in simp)
  then have "take_bit 4 (drop_bit 12 cp) = drop_bit 12 cp"
    by (simp only: word_unat_eq_iff unsigned_take_bit_eq take_bit_nat_eq_self_iff)
  moreover have "push_bit 12 (drop_bit 12 cp) OR push_bit 6 (take_bit 6 (drop_bit 6 cp)) = push_bit 6 (drop_bit 6 cp)"
    using arg_cong [OF recombine [of 6 "drop_bit 6 cp"], of "push_bit 6"] by (simp add: push_bit_or)
  ultimately show ?thesis using recombine [of 6 cp] by (simp add: and_masks payload flip: or.assoc)
qed

lemma prefix_add:
  assumes "take_bit k (prefix :: byte) = 0" and "unat y < 2 ^ k"
  shows "prefix OR y = prefix + y"
proof -
  have "take_bit k y = y" using assms(2) by (simp only: word_unat_eq_iff unsigned_take_bit_eq take_bit_nat_eq_self_iff)
  then have "\<not> bit y n" if "\<not> n < k" for n using that bit_take_bit_iff [of k y n] by simp
  moreover have "\<not> bit prefix n" if "n < k" for n using that assms(1) bit_take_bit_iff [of k prefix n] by simp
  ultimately have "prefix AND y = 0" by (intro bit_word_eqI) (auto simp: bit_and_iff)
  then show ?thesis by (simp add: disjunctive_add_eq_or)
qed

lemma utf8_decode_char:
  assumes "cp \<noteq> 0"
  shows "utf8_decode (utf8_char cp @ bs) = cp # utf8_decode bs"
proof -
  consider "cp < 0x80" | "\<not> cp < 0x80" "cp < 0x800" | "\<not> cp < 0x80" "\<not> cp < 0x800" by blast
  then show ?thesis
  proof cases
    case 1
    then have u: "unat (ucast cp :: byte) = unat cp" by (simp add: unsigned_ucast_eq take_bit_eq_mod word_less_nat_alt)
    moreover have "unat (ucast b :: u16) = unat b" for b :: byte
      using unsigned_less [of b, where 'a = nat] by (simp add: unsigned_ucast_eq take_bit_eq_mod)
    ultimately have "(ucast (ucast cp :: byte) :: u16) = cp" by (simp only: word_unat_eq_iff)
    moreover note u
    ultimately show ?thesis using 1 by (simp add: utf8_char_def word_less_nat_alt)
  next
    case 2
    have lt: "unat cp < 2 ^ 11" using 2 by (simp add: word_less_nat_alt)
    have "unat (drop_bit 6 cp) < 2 ^ 5" by (rule drop_less) (use lt in simp)
    then have "unat (ucast (drop_bit 6 cp) :: byte) < 2 ^ 5" by (simp add: unsigned_ucast_eq take_bit_eq_mod)
    note y = this
    have "0xC0 OR ucast (drop_bit 6 cp) = (0xC0 + ucast (drop_bit 6 cp) :: byte)" by (rule prefix_add [OF _ y]) simp
    then have "unat (0xC0 OR ucast (drop_bit 6 cp) :: byte) = 0xC0 + unat (ucast (drop_bit 6 cp) :: byte)"
      using y by (simp add: unat_word_ariths)
    then show ?thesis using 2 y utf8_two [OF lt] by (simp add: utf8_char_def word_less_nat_alt)
  next
    case 3
    have "unat (drop_bit 12 cp) < 2 ^ 4" by (rule drop_less) (use unsigned_less [of cp, where 'a = nat] in simp)
    then have "unat (ucast (drop_bit 12 cp) :: byte) < 2 ^ 4" by (simp add: unsigned_ucast_eq take_bit_eq_mod)
    note y = this
    have "0xE0 OR ucast (drop_bit 12 cp) = (0xE0 + ucast (drop_bit 12 cp) :: byte)" by (rule prefix_add [OF _ y]) simp
    then have "unat (0xE0 OR ucast (drop_bit 12 cp) :: byte) = 0xE0 + unat (ucast (drop_bit 12 cp) :: byte)"
      using y by (simp add: unat_word_ariths)
    then show ?thesis using 3 y utf8_three [of cp] by (simp add: utf8_char_def word_less_nat_alt)
  qed
qed

lemma Utf16leToUtf8_decodes: "utf8_decode (Utf16leToUtf8 data) = takeWhile (\<lambda>cp. cp \<noteq> 0) data"
  by (induction data) (auto simp: Utf16leToUtf8_def utf8_decode_char)

end
