(* ===== verification/Repository_Tests.thy ===== *)
theory Repository_Tests
  imports State_File Data_Compressor Printed_Numbers
begin

text \<open>
  The unit tests of the repository (\<open>tests/\<close>) evaluated on the model: the model answers what the tests expect of the
  code, except where the code cannot pass its test. A test starts from a directory without a state file; the
  time is any time.
\<close>

section \<open>Fixtures\<close>

definition MakeTestManifest :: "nat \<Rightarrow> HashManifest" where
  "MakeTestManifest n =
     \<lparr> hm_BlockSize = BLOCK_SIZE, hm_TotalBlocks = of_nat n, hm_TotalSize = of_nat n * BLOCK_SIZE,
       hm_Entries = map (\<lambda>i. \<lparr> he_BlockIndex = of_nat i, he_Offset = of_nat i * BLOCK_SIZE, he_Hash = replicate 32 (of_nat i) \<rparr>) [0..<n],
       hm_Timestamp = 0, hm_VolumePath = wlit ''test'' \<rparr>"

definition test_manager :: "int \<Rightarrow> BlockStateManager" where
  "test_manager devNo = fst (Initialize [0, 0, 0, 0] (wlit ''test'') devNo BlockStateManager_new Map.empty)"

definition test_version :: "FILETIME \<Rightarrow> string \<Rightarrow> nat \<Rightarrow> BlockStateManager \<Rightarrow> BlockStateManager \<times> VersionRecord" where
  "test_version ft type n = CreateVersion ft (wlit type) ft (of_nat n) (of_nat n * BLOCK_SIZE)"

text \<open>A manager after a full version of \<open>n\<close> blocks.\<close>

definition test_table :: "FILETIME \<Rightarrow> int \<Rightarrow> nat \<Rightarrow> BlockStateManager" where
  "test_table ft devNo n =
     (case test_version ft ''FULL'' n (test_manager devNo) of (m, ver) \<Rightarrow> fst (InitFullBlocks (vr_VersionId ver) (MakeTestManifest n) m))"

definition full_version :: "FILETIME \<Rightarrow> int \<Rightarrow> nat \<Rightarrow> VersionRecord" where
  "full_version ft devNo n =
     \<lparr> vr_VersionId = 0, vr_DevNo = devNo, vr_VersionType = wlit ''FULL'', vr_SnapshotTime = ft, vr_TotalBlocks = of_nat n, vr_ChangedBlocks = of_nat n,
       vr_TotalSize = of_nat n * BLOCK_SIZE, vr_AckedBlocks = 0, vr_CreateTimestamp = filetime64 ft \<rparr>"

lemma test_manager_fields:
  "test_manager devNo = BlockStateManager_new\<lparr> m_devNo := devNo, m_stateDir := wlit ''test'', m_initialized := True \<rparr>"
  by (simp add: test_manager_def Initialize_def Load_def BlockStateManager_new_def)

lemma test_table_fields:
  assumes "n < 2 ^ 44"
  shows "test_table ft devNo n = (test_manager devNo)\<lparr> m_totalBlocks := of_nat n, m_nextVersionId := 1, m_dirty := True,
     m_versions := [(0, full_version ft devNo n)],
     m_blocks := map (\<lambda>i. fresh_block 0 (replicate 32 (of_nat i)) i) [0..<n] \<rparr>"
proof -
  have "unat (of_nat n :: u64) = n" using assms by (simp add: unat_of_nat)
  then show ?thesis
    by (simp add: test_table_def test_version_def CreateVersion_def InitFullBlocks_def set_version_def Let_def test_manager_fields
        BlockStateManager_new_def MakeTestManifest_def full_version_def)
qed

text \<open>Evaluates a test on a table with a given number of blocks.\<close>

lemmas test_eval = test_table_fields test_manager_fields BlockStateManager_new_def full_version_def fresh_block_def upt_rec
  GetBlockState_def GetVersion_def SetBlockAck_def ack_block_def set_version_def Let_def

section \<open>test_BlockStateManager.cpp\<close>

lemma Construct_Defaults:
  "\<not> m_initialized BlockStateManager_new" "m_devNo BlockStateManager_new = -1" "m_totalBlocks BlockStateManager_new = 0"
  by (simp_all add: BlockStateManager_new_def)

lemma Initialize_NewState_Succeeds: "snd (Initialize heap dir 0 BlockStateManager_new fs)" "m_initialized (test_manager 0)" "m_devNo (test_manager 0) = 0"
  by (simp_all add: Initialize_def test_manager_fields split: prod.split)

lemma CreateVersion_FirstVersion_ReturnsVersion0:
  "snd (test_version ft ''FULL'' 100 (test_manager 0)) = (full_version ft 0 100)\<lparr> vr_ChangedBlocks := 0 \<rparr>"
  by (simp add: test_version_def CreateVersion_def full_version_def test_manager_fields BlockStateManager_new_def Let_def)

lemma CreateVersion_MultipleVersions_Increments:
  assumes "test_version ft ''FULL'' 100 (test_manager 0) = (m0, v0)" and "test_version ft ''INCREMENTAL'' 100 m0 = (m1, v1)"
    and "test_version ft ''INCREMENTAL'' 100 m1 = (m2, v2)"
  shows "map vr_VersionId [v0, v1, v2] = [0, 1, 2]" "map vr_VersionId (GetVersionHistory m2) = [0, 1, 2]"
  using assms by (auto simp: test_version_def CreateVersion_def test_manager_fields BlockStateManager_new_def Let_def GetVersionHistory_def)

lemma GetVersion_Existing_ReturnsCorrect: "GetVersion 0 (test_table ft 0 50) = full_version ft 0 50"
  by (simp add: test_table_fields GetVersion_def)

lemma GetVersion_NonExisting_ReturnsEmpty: "vr_VersionId (GetVersion 999 (test_manager 0)) = 0" "vr_DevNo (GetVersion 999 (test_manager 0)) = 0"
  by (simp_all add: GetVersion_def test_manager_fields BlockStateManager_new_def VersionRecord_zero_def)

lemma InitFullBlocks_InitializesAllBlocks:
  "m_totalBlocks (test_table ft 0 10) = 10" "length (GetPendingBlocks (test_table ft 0 10)) = 10"
  "bs_Changed (GetBlockState 0 (test_table ft 0 10))" "bs_Ack (GetBlockState 0 (test_table ft 0 10)) = AckPending"
  by (simp_all add: test_eval GetPendingBlocks_def NeedsUpload_def)

lemma InitFullBlocks_WrongVersionId_Fails: "\<not> snd (InitFullBlocks 999 (MakeTestManifest 5) (test_manager 0))"
  by (simp add: InitFullBlocks_def test_manager_fields BlockStateManager_new_def)

lemma InitFullBlocks_ZeroBlocks: "m_totalBlocks (test_table ft 0 0) = 0" "GetPendingBlocks (test_table ft 0 0) = []"
  by (simp_all add: test_eval GetPendingBlocks_def)

text \<open>The calls of \<open>SetBlockAck\<close> in a test.\<close>

definition acks :: "(u64 \<times> BlockAck) list \<Rightarrow> BlockStateManager \<Rightarrow> BlockStateManager" where
  "acks calls m = fold (\<lambda>(i, status) m. fst (SetBlockAck i status m)) calls m"

definition three_acks :: "(u64 \<times> BlockAck) list" where
  "three_acks = [(0, AckAcknowledged), (1, AckFailed), (2, AckSkipped)]"

lemma SetBlockAck_SingleBlock_Transitions:
  "map bs_Ack (m_blocks (acks three_acks (test_table ft 0 5))) = [AckAcknowledged, AckFailed, AckSkipped, AckPending, AckPending]"
  "vr_AckedBlocks (GetVersion 0 (acks three_acks (test_table ft 0 5))) = 1"
  by (simp_all add: acks_def three_acks_def test_eval)

lemma SetBlockAck_OutOfRange_Fails: "\<not> snd (SetBlockAck 100 AckAcknowledged (test_table ft 0 5))"
  by (simp add: test_eval)

lemma SetBlockAckRange_BatchUpdate:
  assumes "SetBlockAckRange 0 5 AckAcknowledged (test_table ft 0 10) = (m, ok)"
  shows "ok" "vr_AckedBlocks (GetVersion 0 m) = 5" "map (\<lambda>b. bs_Ack b = AckAcknowledged) (m_blocks m) = [True, True, True, True, True, False, False, False, False, False]"
  using assms by (auto simp: SetBlockAckRange_def test_eval)

lemma SetBlockAckList_NonContiguous:
  assumes "SetBlockAckList [0, 2, 4, 6, 8] AckAcknowledged (test_table ft 0 10) = (m, ok)"
  shows "ok" "vr_AckedBlocks (GetVersion 0 m) = 5"
  using assms by (auto simp: SetBlockAckList_def test_eval)

lemma GetBlockState_ValidIndex:
  "GetBlockState 3 (test_table ft 0 5) = fresh_block 0 (replicate 32 3) 3" "bs_BlockIndex (GetBlockState 3 (test_table ft 0 5)) = 3"
  "bs_Offset (GetBlockState 3 (test_table ft 0 5)) = 3 * 1024 * 1024" "bs_Changed (GetBlockState 3 (test_table ft 0 5))"
  by (simp_all add: test_eval)

lemma GetBlockState_OutOfRange_ReturnsEmpty:
  "bs_BlockIndex (GetBlockState 999 (test_manager 0)) = 0" "\<not> bs_Changed (GetBlockState 999 (test_manager 0))"
  by (simp_all add: GetBlockState_def test_manager_fields BlockStateManager_new_def BlockState_zero_def)

lemma GetBlocksByAck_FiltersCorrectly:
  "map (\<lambda>status. length (GetBlocksByAck status (acks three_acks (test_table ft 0 10)))) [AckAcknowledged, AckFailed, AckSkipped, AckPending] = [1, 1, 1, 7]"
  by (simp add: acks_def three_acks_def GetBlocksByAck_def test_eval)

text \<open>The skipped block counts as one that needs an upload: the model finds four blocks, the test expects three.\<close>

lemma GetPendingBlocks_counts_skipped:
  "length (GetPendingBlocks (acks [(0, AckAcknowledged), (1, AckSkipped)] (test_table ft 0 5))) = 4"
  by (simp add: acks_def GetPendingBlocks_def NeedsUpload_def test_eval)

lemma GetBlockHistory_SingleVersion:
  "map bs_BlockIndex (GetBlockHistory 0 (test_table ft 0 5)) = [0]" "GetBlockHistory 999 (test_table ft 0 5) = []"
  by (simp_all add: GetBlockHistory_def test_eval)

lemma GetLastAcknowledgedBlock_Contiguous:
  "GetLastAcknowledgedBlock (fst (SetBlockAckRange 0 5 AckAcknowledged (test_table ft 0 10))) = 5"
  by (simp add: SetBlockAckRange_def GetLastAcknowledgedBlock_def settled_def test_eval)

lemma GetLastAcknowledgedBlock_Gap:
  "GetLastAcknowledgedBlock (acks (map (\<lambda>i. (i, AckAcknowledged)) [0, 1, 2, 4]) (test_table ft 0 10)) = 3"
  by (simp add: acks_def GetLastAcknowledgedBlock_def settled_def test_eval)

section \<open>Saving and loading\<close>

text \<open>
  What a test finds that loads a saved table: the check of the header refuses the file, of which only the number of blocks is left. So
  the tests \<open>SaveLoad_RoundTrip_PreservesData\<close> and \<open>SaveLoad_MultipleVersions\<close> cannot pass, and
  \<open>Destructor_AutoSave_DirtyState\<close>, which looks at that number only, does.
\<close>

lemma reloaded_table:
  assumes "Save True True [0, 0, 0, 0] m Map.empty = (m', fs, ok)" and "m_initialized m" and "m_stateDir m = wlit ''test''"
    and "\<forall>b \<in> set (m_blocks m). length (bs_Hash b) = 32" and "crc_zeros (crc_reg (header_fields m)) \<noteq> crc_reg (header_fields m)"
  shows "ok" and "fst (Initialize [0, 0, 0, 0] (wlit ''test'') (m_devNo m) BlockStateManager_new fs)
    = (test_manager (m_devNo m))\<lparr> m_totalBlocks := m_totalBlocks m \<rparr>"
proof -
  let ?m0 = "BlockStateManager_new\<lparr> m_stateDir := wlit ''test'', m_devNo := m_devNo m, m_initialized := True \<rparr>"
  have path: "GetStateFilePath ?m0 = GetStateFilePath m" by (simp add: GetStateFilePath_def assms(3))
  show "ok" using assms(1,2) by (auto simp: Save_def Let_def)
  have "fs (GetStateFilePath ?m0) = Some (saved_file [0, 0, 0, 0] m)"
    using assms(1,2) unfolding path by (auto simp: Save_def Let_def wlit_def)
  from Load_saved [of fs ?m0 "[0, 0, 0, 0]" m "[0, 0, 0, 0]", OF this assms(4)] assms(5) show "fst (Initialize [0, 0, 0, 0] (wlit ''test'') (m_devNo m) BlockStateManager_new fs)
    = (test_manager (m_devNo m))\<lparr> m_totalBlocks := m_totalBlocks m \<rparr>"
    by (simp add: Initialize_def test_manager_fields BlockStateManager_new_def)
qed

lemma header_fields_eq:
  "m_devNo m = d \<Longrightarrow> m_totalBlocks m = n \<Longrightarrow> length (m_versions m) = k \<Longrightarrow>
     header_fields m = le_bytes 4 STATE_FILE_MAGIC @ le_bytes 4 STATE_FILE_VERSION @ le_bytes 4 (word_of_int d :: u32) @ le_bytes 4 (48 :: u32)
       @ le_bytes 8 (BLOCK_SIZE :: u64) @ le_bytes 8 n @ le_bytes 4 (of_nat k :: u32)"
  by (simp add: header_fields_def BLOCK_RECORD_SIZE_def)

definition test_header :: "u32 \<Rightarrow> u64 \<Rightarrow> u32 \<Rightarrow> byte list" where
  "test_header d n k = le_bytes 4 STATE_FILE_MAGIC @ le_bytes 4 STATE_FILE_VERSION @ le_bytes 4 d @ le_bytes 4 (48 :: u32)
     @ le_bytes 8 (BLOCK_SIZE :: u64) @ le_bytes 8 n @ le_bytes 4 k"

lemma test_header_crc:
  "crc_reg (test_header 99 5 1) = 0x0E1A24B0" "crc_reg (test_header 0 3 2) = 0x538E85D6" "crc_reg (test_header 5 3 1) = 0x1B9CE488"
  "crc_zeros 0x0E1A24B0 = 0x5C9E0D94" "crc_zeros 0x538E85D6 = 0x45F37D4C" "crc_zeros 0x1B9CE488 = 0x3DBE9D51"
  by code_simp+

lemma test_headers_refused:
  "crc_zeros (crc_reg (test_header 99 5 1)) \<noteq> crc_reg (test_header 99 5 1)" "crc_zeros (crc_reg (test_header 0 3 2)) \<noteq> crc_reg (test_header 0 3 2)"
  "crc_zeros (crc_reg (test_header 5 3 1)) \<noteq> crc_reg (test_header 5 3 1)"
  unfolding test_header_crc by simp_all

lemma SaveLoad_RoundTrip_PreservesData:
  assumes "Save True True [0, 0, 0, 0] (acks [(0, AckAcknowledged), (1, AckAcknowledged), (2, AckFailed)] (test_table ft 99 5)) Map.empty = (m', fs, ok)"
    and "m2 = fst (Initialize [0, 0, 0, 0] (wlit ''test'') 99 BlockStateManager_new fs)"
  shows "ok" "m_totalBlocks m2 = 5" "GetVersionHistory m2 = []" "bs_Ack (GetBlockState 0 m2) = AckPending" "GetPendingBlocks m2 = []"
proof -
  define m where "m = acks [(0, AckAcknowledged), (1, AckAcknowledged), (2, AckFailed)] (test_table ft 99 5)"
  have f: "m_initialized m" "m_stateDir m = wlit ''test''" "m_devNo m = 99" "m_totalBlocks m = 5" "length (m_versions m) = 1"
    "\<forall>b \<in> set (m_blocks m). length (bs_Hash b) = 32"
    by (simp_all add: m_def acks_def test_eval)
  have "crc_zeros (crc_reg (header_fields m)) \<noteq> crc_reg (header_fields m)"
    using test_headers_refused(1) by (simp add: header_fields_eq [OF f(3-5)] test_header_def)
  note r = reloaded_table [OF assms(1) [folded m_def] f(1,2,6) this]
  show "ok" by (rule r(1))
  have "m2 = (test_manager 99)\<lparr> m_totalBlocks := 5 \<rparr>" using r(2) by (simp add: f(3,4) assms(2))
  then show "m_totalBlocks m2 = 5" "GetVersionHistory m2 = []" "bs_Ack (GetBlockState 0 m2) = AckPending" "GetPendingBlocks m2 = []"
    by (simp_all add: test_manager_fields BlockStateManager_new_def GetVersionHistory_def GetBlockState_def GetPendingBlocks_def BlockState_zero_def)
qed

lemma SaveLoad_MultipleVersions:
  assumes "test_version ft ''INCREMENTAL'' 3 (test_table ft 0 3) = (m, v1)" and "Save True True [0, 0, 0, 0] m Map.empty = (m', fs, ok)"
  shows "ok" "GetVersionHistory (fst (Initialize [0, 0, 0, 0] (wlit ''test'') 0 BlockStateManager_new fs)) = []"
proof -
  have f: "m_initialized m" "m_stateDir m = wlit ''test''" "m_devNo m = 0" "m_totalBlocks m = 3" "length (m_versions m) = 2"
    "\<forall>b \<in> set (m_blocks m). length (bs_Hash b) = 32"
    using assms(1) by (auto simp: test_version_def CreateVersion_def test_eval)
  have "crc_zeros (crc_reg (header_fields m)) \<noteq> crc_reg (header_fields m)"
    using test_headers_refused(2) by (simp add: header_fields_eq [OF f(3-5)] test_header_def)
  note r = reloaded_table [OF assms(2) f(1,2,6) this]
  show "ok" by (rule r(1))
  show "GetVersionHistory (fst (Initialize [0, 0, 0, 0] (wlit ''test'') 0 BlockStateManager_new fs)) = []"
    using r(2) by (simp add: f(3) test_manager_fields BlockStateManager_new_def GetVersionHistory_def)
qed

lemma Destructor_AutoSave_DirtyState:
  assumes "fs = destroy_manager True True [0, 0, 0, 0] (test_table ft 5 3) Map.empty"
  shows "m_totalBlocks (fst (Initialize [0, 0, 0, 0] (wlit ''test'') 5 BlockStateManager_new fs)) = 3"
proof -
  define m where "m = test_table ft 5 3"
  have f: "m_initialized m" "m_stateDir m = wlit ''test''" "m_devNo m = 5" "m_totalBlocks m = 3" "length (m_versions m) = 1"
    "\<forall>b \<in> set (m_blocks m). length (bs_Hash b) = 32" "m_dirty m"
    by (simp_all add: m_def test_eval)
  have c: "crc_zeros (crc_reg (header_fields m)) \<noteq> crc_reg (header_fields m)"
    using test_headers_refused(3) by (simp add: header_fields_eq [OF f(3-5)] test_header_def)
  obtain m' fs1 ok where sv: "Save True True [0, 0, 0, 0] m Map.empty = (m', fs1, ok)" by (metis prod_cases3)
  then have "fs = fs1" using assms f(1,7) by (simp add: destroy_manager_def m_def)
  then show ?thesis using reloaded_table(2) [OF sv f(1,2,6) c] by (simp add: f(3,4))
qed

lemma Save_WithoutInit_Fails: "\<not> snd (snd (Save True True heap BlockStateManager_new fs))"
  by (simp add: Save_def BlockStateManager_new_def)

lemma Save_EmptyState_Succeeds: "snd (snd (Save True True heap (fst (test_version ft ''FULL'' 0 (test_manager 0))) fs))"
  by (simp add: Save_def Let_def test_version_def CreateVersion_def test_manager_fields BlockStateManager_new_def)

section \<open>Incremental versions\<close>

definition test_hash :: "u64 \<Rightarrow> BlockHashEntry" where
  "test_hash i = \<lparr> he_BlockIndex = i, he_Offset = i * BLOCK_SIZE, he_Hash = replicate 32 0xFF \<rparr>"

lemma UpdateIncrementalBlocks_SubsetChanged:
  assumes "test_version ft ''INCREMENTAL'' 5 (test_table ft 0 5) = (m, v1)"
    and "UpdateIncrementalBlocks (vr_VersionId v1) [1, 3] (map test_hash [1, 3]) m = (m1, ok)"
  shows "ok" "map (\<lambda>b. (bs_Changed b, bs_Ack b)) (m_blocks m1)
      = [(False, AckSkipped), (True, AckPending), (False, AckSkipped), (True, AckPending), (False, AckSkipped)]"
    "vr_ChangedBlocks (GetVersion 1 m1) = 2"
  using assms by (auto simp: test_version_def CreateVersion_def UpdateIncrementalBlocks_def test_hash_def test_eval)

lemma UpdateIncrementalBlocks_CountMismatch_Fails:
  "\<not> snd (UpdateIncrementalBlocks 1 [1, 2] [] (fst (test_version ft ''INCREMENTAL'' 5 (test_table ft 0 5))))"
  by (simp add: UpdateIncrementalBlocks_def)

lemma UpdateIncrementalBlocks_EmptyBlocks_Fails:
  "\<not> snd (UpdateIncrementalBlocks 0 [1] [test_hash 1] (fst (test_version ft ''INCREMENTAL'' 5 (test_manager 0))))"
  by (simp add: UpdateIncrementalBlocks_def test_version_def CreateVersion_def Let_def test_manager_fields BlockStateManager_new_def)

text \<open>\<open>VersionRecord::Progress\<close> of \<open>client/BlockStateManager.h\<close>.\<close>

definition Progress :: "VersionRecord \<Rightarrow> rat" where
  "Progress v =
     (if 0 < vr_TotalBlocks v
      then double_mult (double_div (double_of (unat (vr_AckedBlocks v))) (double_of (unat (vr_TotalBlocks v)))) 100 else 0)"

lemma VersionRecord_Progress_Calculates:
  "Progress (VersionRecord_zero\<lparr> vr_TotalBlocks := 100, vr_AckedBlocks := 50 \<rparr>) = 50"
  "Progress (VersionRecord_zero\<lparr> vr_TotalBlocks := 100 \<rparr>) = 0" "Progress VersionRecord_zero = 0"
proof -
  have p: "double_div 50 100 = 1 / 2" "double_mult (1 / 2) 100 = 50" unfolding double_div_def double_mult_def by code_simp+
  show "Progress (VersionRecord_zero\<lparr> vr_TotalBlocks := 100, vr_AckedBlocks := 50 \<rparr>) = 50"
    "Progress (VersionRecord_zero\<lparr> vr_TotalBlocks := 100 \<rparr>) = 0" "Progress VersionRecord_zero = 0"
    using double_of_exact [of 100] double_of_exact [of 50] double_of_exact [of 0]
    by (simp_all add: Progress_def VersionRecord_zero_def p) (simp add: double_div_def double_mult_def)
qed

section \<open>test_BlockHasher.cpp\<close>

lemma ComputeBlockHash_WithoutInit_Fails: "ComputeBlockHash bcrypt BlockHasher_new data = None"
  by (simp add: ComputeBlockHash_def BlockHasher_new_def)

lemma Initialize_Idempotent: "Initialize_hasher p (fst (Initialize_hasher True BlockHasher_new)) = (fst (Initialize_hasher True BlockHasher_new), True)"
  by (simp add: Initialize_hasher_def BlockHasher_new_def)

lemma HashToHex_ProducesCorrectFormat:
  "HashToHex (concat (replicate 2 [0x00, 0x11, 0x22, 0x33, 0x44, 0x55, 0x66, 0x77, 0x88, 0x99, 0xAA, 0xBB, 0xCC, 0xDD, 0xEE, 0xFF]))
     = wlit (concat (replicate 2 ''00112233445566778899AABBCCDDEEFF''))"
  by code_simp

lemma HashToHex_AllZeros: "HashToHex (replicate 32 0) = wlit (replicate 64 CHR ''0'')"
  by code_simp

lemma HashToHex_AllFFs: "HashToHex (replicate 32 0xFF) = wlit (replicate 64 CHR ''F'')"
  by code_simp

lemma SerializeManifest_Empty:
  "length (SerializeManifest (MakeTestManifest 0)) = 32"
  "\<exists>m. DeserializeManifest (SerializeManifest (MakeTestManifest 0)) = Inr m \<and> hm_TotalBlocks m = 0"
  using Deserialize_Serialize [of "MakeTestManifest 0" "[]"] by (simp_all add: SerializeManifest_def MakeTestManifest_def)

lemma DeserializeManifest_InvalidData_Fails: "DeserializeManifest [0, 0, 0, 0] = Inl Rejected" "DeserializeManifest [] = Inl Rejected"
  by (simp_all add: DeserializeManifest_def)

lemma CompareManifests_Identical_NoChanges: "CompareManifests m m = []"
  by (auto simp: CompareManifests_def entry_changed_def)

lemma CompareManifests_DifferentHash_DetectsChange:
  "h1 \<noteq> h2 \<Longrightarrow> CompareManifests (m\<lparr> hm_Entries := [e\<lparr> he_Hash := h1 \<rparr>] \<rparr>) (m\<lparr> hm_Entries := [e\<lparr> he_Hash := h2 \<rparr>] \<rparr>) = [0]"
  by (simp add: CompareManifests_def entry_changed_def)

lemma CompareManifests_NewBlocks_Detected:
  "CompareManifests (m\<lparr> hm_Entries := [e] \<rparr>) (m\<lparr> hm_Entries := [e, e'] \<rparr>) = [1]"
  by (simp add: CompareManifests_def entry_changed_def)

section \<open>test_DataCompressor.cpp\<close>

lemma Compress_WithoutInit_Fails: "Compress W DataCompressor_new [1, 2, 3] = None"
  by (simp add: Compress_def DataCompressor_new_def)

lemma Decompress_InvalidData_Fails: "Decompress create_ok D [0xFF, 0xFF, 0xFF, 0xFF] 1024 = None"
  by (simp add: Decompress_def)

lemma GetMaxCompressedSize_GreaterThanInput: "n \<le> GetMaxCompressedSize n"
  by (simp add: GetMaxCompressedSize_def)

lemma Shutdown_NoCrash: "Shutdown_compressor (Shutdown_compressor c) = Shutdown_compressor c"
  by (simp add: Shutdown_compressor_def)

end
