(* ===== verification/Spec2Isabelle.thy ===== *)
theory Spec2Isabelle
  imports Hello_Session Client_Main Server_Main Ctl_Text Loggers Repository_Tests
begin

text \<open>
  Verification of go2cbt, a block backup system for Windows disks.

  \<^bold>\<open>The program.\<close> A kernel driver (\<open>go2cbt/\<close>) hooks the write path of the disk drivers and marks every
  written block of 1 MiB in a bitmap per disk. A client (\<open>client/\<close>) asks for the bitmap or takes all
  blocks of a disk, reads them from a snapshot, hashes and compresses them and sends them over
  TCP; a table of block states, saved to a file, records what the server has acknowledged. A server (\<open>server/\<close>)
  receives the blocks in an event loop, checks and stores them in one backing file per device and
  acknowledges each. \<open>cbtctl\<close> shows and resets the bitmap of a disk.

  \<^bold>\<open>Theories and sources.\<close> One theory models one component, its records with the fields of the
  structs and classes and one definition per function, with the names of the source. A name of the
  source that HOL uses already has a suffix or a synonym.

  \<^item> \<open>Cbt_Prelude\<close>: word types, byte images of integers, segments and overwriting of lists; the locales
    \<open>fixed_codec\<close> (a fixed-size image and its decoder), \<open>kv_store\<close> (lookup after insert), \<open>state_machine\<close> (a step
    relation with an invariant), \<open>ending_machine\<close> (one with a measure, so that runs end), \<open>forward_simulation\<close> (a step relation that
    refines another) and \<open>separation\<close> (steps of several owners on one state, each with its view).
    \<open>C_Text\<close>: decimal numbers as the C library reads them. \<open>Printed_Numbers\<close>: the arithmetic of doubles on the naturals the program
    shows, rounded to nearest-even, and the conversions of \<open>printf\<close> for them.
  \<^item> \<open>Wire_Format\<close> (\<open>server/Protocol.h\<close>): message types, status codes and packed structs, each an interpretation
    of \<open>fixed_codec\<close>.
  \<^item> \<open>Ring_Buffer\<close>, \<open>Message_Parser\<close>, \<open>Disk_Map\<close>, \<open>Block_Processor\<close>: the server's files of the same names.
    The ring buffer interprets the locale \<open>byte_queue\<close>, the device table \<open>kv_store\<close>; \<open>ingest\<close> is the abstract
    specification of storing one block, and \<open>Process\<close> refines it.
  \<^item> \<open>Server_Loop\<close> and \<open>Server_Correct\<close> (\<open>server/Server.{h,cpp}\<close>): connections, message handlers and the event
    loop with what the kernel answers as input. Access through a reference to a connection that was freed
    is recorded in the state (\<open>sv_uaf\<close>). \<open>serve\<close> is the behaviour on the byte stream, which the
    segmented and buffered loop refines. \<open>Server_Sessions\<close>: several connections in one loop, an interpretation of
    \<open>separation\<close>. \<open>Server_Main\<close> (\<open>server/main.cpp\<close>, \<open>Server::Start\<close>): options, start, end.
  \<^item> \<open>Network_Client\<close>, \<open>Data_Compressor\<close>, \<open>Block_Hasher\<close>: the client's files of the same names; a specification
    decoder of zlib containers stands for the other end of the compression.
  \<^item> \<open>End_To_End\<close>: the client's bytes into the server's connection and back.
  \<^item> \<open>Block_State\<close> and \<open>State_File\<close> (\<open>client/BlockStateManager.{h,cpp}\<close>): the block table as a state machine, and its file
    with the CRC table of the source and the bytes that the code writes and reads past its record buffer.
  \<^item> \<open>Pipeline_Window\<close> (\<open>client/BackupEngine.cpp\<close>, \<open>PipelineTransferBlocks\<close> and the window): the transferring thread and the
    acknowledgement callback as an interleaving of steps, an \<open>ending_machine\<close>.
  \<^item> \<open>Backup_System\<close>: that pipeline and the server as one system, with the messages and acknowledgements under way in
    two queues; a second interpretation of \<open>ending_machine\<close>, which refines the first.
  \<^item> \<open>Sync_System\<close>: the synchronous transfer of an incremental backup and the server, over the bytes of their connection,
    among other connections.
  \<^item> \<open>Wire_System\<close>: the pipelined transfer and the server over the bytes of their connection, among other connections, with
    \<open>SendBlockNoWait\<close>, \<open>receive_one\<close> and \<open>run_event\<close> as steps. It refines \<open>Backup_System\<close>; the relation \<open>carries_session\<close> says which
    bytes under way stand for which messages and acknowledgements. \<open>Hello_Session\<close>: the handshake over the bytes, which leads to the
    state \<open>Wire_System\<close> starts from.
  \<^item> \<open>Backup_Engine\<close>: the rest of \<open>client/BackupEngine.{h,cpp}\<close>, full and incremental backup and the run over several
    disks, composed of the models of the components it calls.
  \<^item> \<open>Disk_Parser\<close>, \<open>Volume_Mapper\<close>, \<open>Vss_Manager\<close>, \<open>Disk_Scanner\<close>: the client's files of the same names, over the
    answers of the disk, the volume functions and the snapshot service.
  \<^item> \<open>Cbt_Driver\<close> (\<open>go2cbt/*.{h,c}\<close>): bitmap, hook and disk tables, the hooked write path, load, unload and the requests, as
    a step relation. \<open>Cbt_Client\<close> (\<open>client/CbtClient.{h,cpp}\<close>) and \<open>Cbt_Ctl\<close> (\<open>cbtctl/main.cpp\<close>) are its users;
    \<open>Ctl_Text\<close>: the texts \<open>cbtctl\<close> prints.
  \<^item> \<open>Client_Main\<close> (\<open>client/main.cpp\<close>): commands, options and exit codes of the client, and
    \<open>client/PrivilegeManager.cpp\<close>; \<open>Client_Report\<close>: the tables and texts it prints. \<open>Loggers\<close>: the two loggers with the states of their streams.
  \<^item> \<open>Repository_Tests\<close> (\<open>tests/\<close>): the unit tests of the repository that need no Windows services, as lemmas about the models: the assertions
    that hold, and for those that do not what the code computes instead.
  \<^item> This theory: the full backup of \<open>Backup_Engine\<close> with its transfer served by the server.

  \<^bold>\<open>What is shown.\<close>

  \<^item> The whole: in every state client and server can reach, what the client's table calls acknowledged is in the
    server's file, for the pipelined transfer and for the synchronous one of an incremental backup, both down to the bytes of the connection; a transfer that
    nothing disturbs ends with the disk in that file; a full backup that reports all blocks acknowledged has
    produced an image of the disk.
  \<^item> Storing: a block for which the client got a positive acknowledgement is in the backing file, at its place and
    with its contents; a block sent over a healthy connection arrives. Storing a block never touches bytes outside its range.
  \<^item> Protocol: the parser accepts exactly the well-formed messages; how TCP cuts the stream has no influence; every
    block of a pipeline is answered in order; connections do not disturb each other; nothing is written before a handshake; the invariant of the
    server holds from the start to the end of the process.
  \<^item> Transfer: in every interleaving, no more blocks are unanswered than the window has slots, every block is accounted for in
    counters and table, no slot is lost, and the transfer ends within ten steps per block. The figures a
    backup reports are those of the table it saves.
  \<^item> Tracking: no write to a tracked disk is missing from its bitmap, all other requests pass
    unchanged, and unloading restores the original entry points. The display of \<open>cbtctl\<close> is exact; the
    sizes it prints are right to half a unit of their last digit, the shares of changed blocks to \<open>0.0001\<close>.
  \<^item> Disks: partitions are those of the tables on disk, free ranges are the complement of the partitions, computed
    alike by parser and scanner; the snapshot path used for a volume is the one created for it.
  \<^item> Files: manifests survive saving and loading, and so do block tables whose checksum is accepted; whatever the
    bytes of a state file, a table read from it is well typed.
  \<^item> Limits found on the way, stated as properties or lemmas: block indices alias modulo \<open>2 ^ 44\<close>; the
    client mirrors the bits of each byte of the bitmap, so that a write is reported as a change of another block; a saved block table is rejected when loaded unless checksums collide;
    an incremental backup without a table forgets the changes; the success of a full backup does not depend on its
    transfer; the clean-up of snapshots misses the set.

  \<^bold>\<open>Machine integers, loops, errors.\<close> Fixed-width integers are words where the code relies on their width or may leave
  it; counters that the code increments once per block or byte are natural numbers bounded by
  those. Every loop is a total function with a measure, except the display of \<open>cbtctl\<close>, which may not end and is
  a partial function; no definition takes fuel. Exceptions, early returns and accesses out of bounds
  are values of sum types.

  \<^bold>\<open>Parameters and hypotheses.\<close> The operating systems, zlib and the compression service of Windows, SHA-256 and the
  COM interface of the snapshot service are parameters. Hypotheses about them are the documented behaviour:
  \<open>pwrite_ok\<close>, \<open>fstat_ok\<close>, \<open>rtl_ok\<close>, \<open>kernel_ok\<close>, \<open>io_ok\<close> and the like, each with a concrete instance that satisfies it.
  The code sees them only through these.

  \<^bold>\<open>Not modelled.\<close> The clock, the effect of socket options, timing and time-outs (a time-out is a
  step that may happen), the interleaving of \<open>CloseConnection\<close> with the acknowledgement thread (a call of \<open>SendBlockNoWait\<close> or a receipt is
  one step), the texts of log messages, the unit tests that need Windows services, and the maintenance scripts.
  That other connections leave the device's file alone is a hypothesis in \<open>Sync_System\<close> and \<open>Wire_System\<close>: the server does not enforce it.
\<close>

section \<open>The full backup and the server\<close>

lemma full_blocks_nat: "unat n + BLOCK_SIZE \<le> 2 ^ 64 \<Longrightarrow> unat (full_blocks n) = blocks_of (unat n)"
  using total_blocks_nat by (simp add: full_blocks_def total_blocks_def)

lemma full_job_reads_disk:
  assumes "ev_source E (data_source v devNo (mapped_partitions E layout)) = Some (disk_reader D)"
    and "unat (di_Size (dl_Disk layout)) = length D" and "length D + BLOCK_SIZE \<le> 2 ^ 64"
  shows "reads_disk (full_job E v devNo layout) D"
  using assms full_blocks_nat [of "di_Size (dl_Disk layout)"] by (simp add: reads_disk_def full_job_def)

text \<open>
  C3. What a full backup reports is true of the server: when \<open>FullBackup\<close>, with its transfer served by the server, reports as many
  acknowledged blocks as the disk has, then the file of the device begins with the disk as the snapshot
  shows it, byte for byte.
\<close>

theorem reported_backup_is_image:
  assumes snapshot: "prepare_snapshot (ev_vss E) (mapped_partitions E layout) = Some (v, used)"
    and start: "full_table E cfg devNo layout fs = (m, ver)" "full_handshake E cfg devNo layout fs = (c, True)" "\<not> cf_DryRun cfg"
    and session: "session_ok S" "dm_sized (ss_disks S) sfs" "ss_job S = full_job E v devNo layout" "ss_dev S = word_of_int devNo"
    and run: "(sys_step S)\<^sup>*\<^sup>* (system_start (cf_PipelineWindowSize cfg) m fs sfs) s"
      "sched (full_job E v devNo layout) (cf_PipelineWindowSize cfg) m fs c = (sy_pipe s, c')"
    and disk: "ev_source E (data_source v devNo (mapped_partitions E layout)) = Some (disk_reader D)"
      "unat (di_Size (dl_Disk layout)) = length D" "length D + BLOCK_SIZE \<le> 2 ^ 64"
    and device: "Get (ss_disks S) (word_of_int devNo) = Some bf"
    and report: "st_AckedBlocks (br_stats (FullBackup sched E cfg devNo layout st fs)) =
      unat (st_TotalBlocks (br_stats (FullBackup sched E cfg devNo layout st fs)))"
  shows "take (length D) (sy_files s (bf_fd bf)) = D"
proof -
  obtain m1 where init: "InitFullBlocksEmpty (vr_VersionId ver) (jb_total (ss_job S)) m1 = (m, True)"
    using full_table_init [OF start(1)] session(3) by (auto simp: full_job_def)
  have "ev_source E (data_source v devNo (mapped_partitions E layout)) \<noteq> None" using disk(1) by simp
  note figures = FullBackup_figures [where sched = sched and st = st, OF snapshot start(2,1,3) this run(2)]
  have "be_acked (pp_engine (sy_pipe s)) = unat (jb_total (ss_job S))"
    using report figures(2,6) session(3) by simp
  from acknowledged_image [OF system_inv [OF session(1) init session(2) run(1)] this] show ?thesis
    using full_job_reads_disk [OF disk] session(3,4) device by simp
qed

text \<open>A full backup of a disk of three bytes.\<close>

definition demo_full_env :: backup_env where
  "demo_full_env = demo_env\<lparr> ev_source := (\<lambda>p. Some (disk_reader [1, 2, 3])), ev_bcrypt := (\<lambda>d. Some (replicate 32 7)) \<rparr>"

definition demo_layout :: DiskLayout where
  "demo_layout = DiskLayout_new\<lparr> dl_Disk := (dl_Disk DiskLayout_new)\<lparr> di_Size := 3 \<rparr> \<rparr>"

definition demo_full_session :: "VssManager \<Rightarrow> session" where
  "demo_full_session v = \<lparr> ss_job = full_job demo_full_env v 0 demo_layout, ss_platform = demo_zlib, ss_disks = Block_Processor.demo_disk,
     ss_dev = 0, ss_version = 1 \<rparr>"

lemma demo_full_side: "demo_side (demo_full_session v)"
proof -
  have "unat (di_Size (dl_Disk demo_layout)) = length [1 :: byte, 2, 3]" by (simp add: demo_layout_def)
  from full_job_reads_disk [of demo_full_env v 0 demo_layout, OF _ this] have "reads_disk (full_job demo_full_env v 0 demo_layout) [1, 2, 3]"
    by (simp add: demo_full_env_def)
  then show ?thesis
    by (simp add: demo_side_def demo_full_session_def full_job_def demo_full_env_def demo_env_def Initialize_hasher_def
        BlockHasher_new_def ready_def Initialize_compressor_def DataCompressor_new_def)
qed

lemma demo_full_handshake: "snd (full_handshake demo_full_env BackupConfig_new 0 demo_layout Map.empty)"
  by (auto simp: demo_ack_msg full_handshake_def BackupConfig_new_def demo_full_env_def demo_env_def Connect_def SetSocketTimeout_def SetTcpKeepAlive_def apply_option_def Let_def
      intro!: SendHello_accepted [where k = 100 and a = demo_ack]) (simp_all add: demo_ack_def)

lemma demo_full_snapshot:
  "\<exists>v. prepare_snapshot (ev_vss demo_full_env) (mapped_partitions demo_full_env demo_layout) = Some (v, False)"
  using demo_snapshot [of demo_layout] by (simp add: demo_full_env_def mapped_partitions_def)

theorem reported_backup_is_image_witness:
  "\<exists>sched s. st_AckedBlocks (br_stats (FullBackup sched demo_full_env BackupConfig_new 0 demo_layout BackupStats_new Map.empty)) = 1
     \<and> take (length [1 :: byte, 2, 3]) (sy_files (s :: System) 3) = [1, 2, 3]"
proof -
  obtain v where v: "prepare_snapshot (ev_vss demo_full_env) (mapped_partitions demo_full_env demo_layout) = Some (v, False)"
    using demo_full_snapshot by blast
  define S where "S = demo_full_session v"
  have side: "demo_side S" by (simp add: S_def demo_full_side)
  have job: "ss_job S = full_job demo_full_env v 0 demo_layout" "ss_dev S = word_of_int 0" "ss_disks S = Block_Processor.demo_disk"
    by (simp_all add: S_def demo_full_session_def)
  have one: "unat (jb_total (ss_job S)) = 1" using side blocks_of_demo by (simp add: demo_side_def reads_disk_def)
  obtain m ver where t: "full_table demo_full_env BackupConfig_new 0 demo_layout Map.empty = (m, ver)" by fastforce
  obtain c where h: "full_handshake demo_full_env BackupConfig_new 0 demo_layout Map.empty = (c, True)"
    using demo_full_handshake by (metis prod.collapse)
  obtain m1 where init: "InitFullBlocksEmpty (vr_VersionId ver) (jb_total (ss_job S)) m1 = (m, True)"
    using full_table_init [OF t] by (auto simp: job(1) full_job_def)
  have sized: "dm_sized (ss_disks S) demo_files" using demo_dm_sized by (simp add: job(3))
  have w: "0 < cf_PipelineWindowSize BackupConfig_new" by (simp add: BackupConfig_new_def)
  obtain s where s: "(sys_step S)\<^sup>*\<^sup>* (system_start (cf_PipelineWindowSize BackupConfig_new) m Map.empty demo_files) s"
    "be_acked (pp_engine (sy_pipe s)) = unat (jb_total (ss_job S))"
    using healthy_finishes [OF demo_side_ok [OF side] init sized demo_side_healthy [OF side] w, of Map.empty] by blast
  define sched :: scheduler where "sched = (\<lambda>j n m fs c. (sy_pipe s, c))"
  have src: "ev_source demo_full_env (data_source v 0 (mapped_partitions demo_full_env demo_layout)) = Some (disk_reader [1, 2, 3])"
    by (simp add: demo_full_env_def)
  have dry: "\<not> cf_DryRun BackupConfig_new" by (simp add: BackupConfig_new_def)
  have run: "sched (full_job demo_full_env v 0 demo_layout) (cf_PipelineWindowSize BackupConfig_new) m Map.empty c = (sy_pipe s, c)"
    by (simp add: sched_def)
  have fig: "st_AckedBlocks (br_stats (FullBackup sched demo_full_env BackupConfig_new 0 demo_layout BackupStats_new Map.empty)) = 1"
    "st_TotalBlocks (br_stats (FullBackup sched demo_full_env BackupConfig_new 0 demo_layout BackupStats_new Map.empty)) = jb_total (ss_job S)"
    using FullBackup_figures [where sched = sched and st = BackupStats_new, OF v h t dry _ run] src s(2) one by (simp_all add: job(1))
  have "take (length [1 :: byte, 2, 3]) (sy_files s (bf_fd \<lparr> bf_fd = 3, bf_size_bytes = 6, bf_path = ''/img'' \<rparr>)) = [1, 2, 3]"
    by (rule reported_backup_is_image [where sched = sched and st = BackupStats_new, OF v t h dry demo_side_ok [OF side] sized job(1,2) s(1) run src])
      (use demo_lookup(1) fig one in \<open>simp_all add: demo_layout_def job(3)\<close>)
  then show ?thesis using fig(1) by (intro exI [of _ sched] exI [of _ s]) simp
qed

end
